(* ===== verification/Go_Prelude.thy ===== *)
theory Go_Prelude
  imports Main "HOL-Library.Multiset" "HOL-Library.List_Lexorder" "HOL-Library.Char_ord"
begin

text \<open>
  The vocabulary every component of the development shares: results with errors as
  values, Go's \<open>strings\<close> and \<open>strconv\<close> functions that the program calls, lookups in
  \<open>map[string]string\<close> values, and the stable orderings that the SQL queries ask for.
  Strings are byte strings (\<^typ>\<open>char list\<close>), compared bytewise by the
  lexicographic order of \<open>List_Lexorder\<close>, which is Go's \<open><\<close> on strings and SQLite's
  default collation.
\<close>

named_theorems go_string "computation rules of the string functions"
named_theorems go_defs "definitions that are unfolded by the component proofs"

type_synonym ('e, 'a) result = "'e + 'a"

section \<open>Lists, options and results\<close>

lemma find_index_split:
  "find P xs = Some x \<Longrightarrow> \<exists>ys zs. xs = ys @ x # zs \<and> P x \<and> (\<forall>y\<in>set ys. \<not> P y)"
proof (induction xs)
  case Nil
  then show ?case by simp
next
  case (Cons a xs)
  show ?case
  proof (cases "P a")
    case True
    with Cons.prems have "a = x" by simp
    with True show ?thesis by (intro exI [of _ "[]"] exI [of _ xs]) simp
  next
    case False
    with Cons.prems have "find P xs = Some x" by simp
    from Cons.IH [OF this] obtain ys zs
      where "xs = ys @ x # zs" "P x" "\<forall>y\<in>set ys. \<not> P y" by blast
    with False show ?thesis by (intro exI [of _ "a # ys"] exI [of _ zs]) simp
  qed
qed

lemma find_Some_mem: "find P xs = Some x \<Longrightarrow> x \<in> set xs \<and> P x"
  by (induction xs) (auto split: if_splits)

lemma find_None_all: "find P xs = None \<longleftrightarrow> (\<forall>x\<in>set xs. \<not> P x)"
  by (induction xs) auto

lemma find_append: "find P (xs @ ys) = (case find P xs of Some x \<Rightarrow> Some x | None \<Rightarrow> find P ys)"
  by (induction xs) auto

lemma distinct_map_unique:
  "distinct (map f xs) \<Longrightarrow> x \<in> set xs \<Longrightarrow> y \<in> set xs \<Longrightarrow> f x = f y \<Longrightarrow> x = y"
  by (metis distinct_map inj_onD)

lemma find_unique:
  assumes "distinct (map f xs)" and "x \<in> set xs"
  shows "find (\<lambda>y. f y = f x) xs = Some x"
  using assms by (induction xs) auto

text \<open>The rows an SQL \<open>UPDATE ... WHERE\<close> touches, and how many they are.\<close>

definition update_where :: "('a \<Rightarrow> bool) \<Rightarrow> ('a \<Rightarrow> 'a) \<Rightarrow> 'a list \<Rightarrow> 'a list" where
  "update_where P f xs = map (\<lambda>x. if P x then f x else x) xs"

definition rows_where :: "('a \<Rightarrow> bool) \<Rightarrow> 'a list \<Rightarrow> nat" where
  "rows_where P xs = length (filter P xs)"

lemma update_where_simps [simp]:
  "update_where P f [] = []"
  "update_where P f (x # xs) = (if P x then f x else x) # update_where P f xs"
  by (simp_all add: update_where_def)

lemma length_update_where [simp]: "length (update_where P f xs) = length xs"
  by (simp add: update_where_def)

lemma rows_where_zero: "rows_where P xs = 0 \<longleftrightarrow> (\<forall>x\<in>set xs. \<not> P x)"
  by (auto simp: rows_where_def filter_empty_conv)

lemma update_where_none: "\<forall>x\<in>set xs. \<not> P x \<Longrightarrow> update_where P f xs = xs"
  by (induction xs) auto

lemma map_update_where:
  "(\<And>x. P x \<Longrightarrow> g (f x) = g x) \<Longrightarrow> map g (update_where P f xs) = map g xs"
  by (induction xs) auto

lemma set_update_where:
  "set (update_where P f xs) = {x \<in> set xs. \<not> P x} \<union> f ` {x \<in> set xs. P x}"
  by (induction xs) auto

lemma find_update_where:
  assumes "\<And>x. k (f x) = k x"
  shows "find (\<lambda>x. k x = i) (update_where P f xs) =
    map_option (\<lambda>x. if P x then f x else x) (find (\<lambda>x. k x = i) xs)"
  using assms by (induction xs) auto

text \<open>
  \<open>ORDER BY key DESC\<close>: the sort is stable, so rows with equal keys keep the order of
  insertion.
\<close>

definition sort_desc :: "('a \<Rightarrow> 'b::linorder) \<Rightarrow> 'a list \<Rightarrow> 'a list" where
  "sort_desc k xs = rev (sort_key k (rev xs))"

lemma set_sort_desc [simp]: "set (sort_desc k xs) = set xs"
  by (simp add: sort_desc_def)

lemma length_sort_desc [simp]: "length (sort_desc k xs) = length xs"
  by (simp add: sort_desc_def)

lemma distinct_map_sort_desc [simp]: "distinct (map f (sort_desc k xs)) = distinct (map f xs)"
proof -
  have "mset (sort_desc k xs) = mset xs"
    by (simp add: sort_desc_def)
  then have "mset (map f (sort_desc k xs)) = mset (map f xs)"
    by (metis mset_map)
  then show ?thesis
    by (metis mset_eq_imp_distinct_iff)
qed

lemma sorted_wrt_sort_desc: "sorted_wrt (\<lambda>x y. k y \<le> k x) (sort_desc k xs)"
proof -
  have "sorted (map k (sort_key k (rev xs)))" by simp
  then have "sorted_wrt (\<lambda>x y. k x \<le> k y) (sort_key k (rev xs))"
    by (simp add: sorted_map)
  then show ?thesis
    by (simp add: sort_desc_def sorted_wrt_rev)
qed

lemma hd_sort_desc_max:
  assumes "sort_desc k xs = x # ys" and "y \<in> set xs"
  shows "k y \<le> k x"
proof -
  have "y \<in> set (x # ys)" using assms by (metis set_sort_desc)
  moreover have "sorted_wrt (\<lambda>x y. k y \<le> k x) (x # ys)"
    using sorted_wrt_sort_desc [of k xs] assms(1) by simp
  ultimately show ?thesis by auto
qed

section \<open>Strings\<close>

subsection \<open>Prefixes, suffixes and substrings\<close>

fun has_prefix :: "string \<Rightarrow> string \<Rightarrow> bool" where
  "has_prefix s [] = True"
| "has_prefix [] (p # ps) = False"
| "has_prefix (c # s) (p # ps) = (c = p \<and> has_prefix s ps)"

definition has_suffix :: "string \<Rightarrow> string \<Rightarrow> bool" where
  "has_suffix s p = has_prefix (rev s) (rev p)"

definition trim_prefix :: "string \<Rightarrow> string \<Rightarrow> string" where
  "trim_prefix s p = (if has_prefix s p then drop (length p) s else s)"

definition trim_suffix :: "string \<Rightarrow> string \<Rightarrow> string" where
  "trim_suffix s p = (if has_suffix s p then take (length s - length p) s else s)"

fun contains :: "string \<Rightarrow> string \<Rightarrow> bool" where
  "contains [] p = (p = [])"
| "contains (c # s) p = (has_prefix (c # s) p \<or> contains s p)"

lemma has_prefix_iff: "has_prefix s p \<longleftrightarrow> (\<exists>t. s = p @ t)"
  by (induction s p rule: has_prefix.induct) auto

lemma has_prefix_append [simp]: "has_prefix (p @ t) p"
  by (auto simp: has_prefix_iff)

lemma has_prefix_refl [simp]: "has_prefix p p"
  by (auto simp: has_prefix_iff)

lemma has_suffix_iff: "has_suffix s p \<longleftrightarrow> (\<exists>t. s = t @ p)"
proof
  assume "has_suffix s p"
  then obtain t where "rev s = rev p @ t"
    by (auto simp: has_suffix_def has_prefix_iff)
  then have "s = rev t @ p"
    by (metis rev_append rev_rev_ident)
  then show "\<exists>t. s = t @ p" ..
next
  assume "\<exists>t. s = t @ p"
  then show "has_suffix s p"
    by (auto simp: has_suffix_def)
qed

lemma trim_prefix_append [simp]: "trim_prefix (p @ t) p = t"
  by (simp add: trim_prefix_def)

lemma trim_suffix_append [simp]: "trim_suffix (t @ p) p = t"
  by (simp add: trim_suffix_def has_suffix_iff)

lemma contains_iff: "contains s p \<longleftrightarrow> (\<exists>u v. s = u @ p @ v)"
proof (induction s)
  case Nil
  then show ?case by simp
next
  case (Cons c s)
  show ?case
  proof
    assume "contains (c # s) p"
    then consider "has_prefix (c # s) p" | "contains s p" by auto
    then show "\<exists>u v. c # s = u @ p @ v"
    proof cases
      case 1
      then show ?thesis by (metis append_Nil has_prefix_iff)
    next
      case 2
      then show ?thesis using Cons.IH by (metis append_Cons)
    qed
  next
    assume "\<exists>u v. c # s = u @ p @ v"
    then obtain u v where uv: "c # s = u @ p @ v" by blast
    show "contains (c # s) p"
    proof (cases u)
      case Nil
      with uv have "has_prefix (c # s) p" by (metis append_Nil has_prefix_append)
      then show ?thesis by simp
    next
      case (Cons a u')
      with uv have "s = u' @ p @ v" by simp
      with Cons.IH show ?thesis by auto
    qed
  qed
qed

lemma contains_append: "contains s p \<Longrightarrow> contains (u @ s @ v) p"
  by (auto simp: contains_iff) (metis append.assoc)

subsection \<open>Splitting and joining\<close>

text \<open>\<open>strings.Split\<close> with a one-byte separator: never empty, and the inverse of \<open>Join\<close>.\<close>

fun split_on :: "char \<Rightarrow> string \<Rightarrow> string list" where
  "split_on c [] = [[]]"
| "split_on c (x # s) =
     (if x = c then [] # split_on c s
      else (case split_on c s of [] \<Rightarrow> [[x]] | w # ws \<Rightarrow> (x # w) # ws))"

fun join_with :: "string \<Rightarrow> string list \<Rightarrow> string" where
  "join_with sep [] = []"
| "join_with sep [w] = w"
| "join_with sep (w # ws) = w @ sep @ join_with sep ws"

lemma split_on_not_Nil [simp]: "split_on c s \<noteq> []"
  by (cases s) (auto split: list.split)

lemma split_on_no_sep: "w \<in> set (split_on c s) \<Longrightarrow> c \<notin> set w"
proof (induction s arbitrary: w)
  case Nil
  then show ?case by simp
next
  case (Cons x s)
  obtain u us where "split_on c s = u # us" by (metis list.exhaust split_on_not_Nil)
  with Cons show ?case by (cases "x = c") auto
qed

lemma join_with_Cons: "ws \<noteq> [] \<Longrightarrow> join_with sep (w # ws) = w @ sep @ join_with sep ws"
  by (cases ws) auto

lemma join_split: "join_with [c] (split_on c s) = s"
proof (induction s)
  case Nil
  then show ?case by simp
next
  case (Cons x s)
  obtain w ws where ws: "split_on c s = w # ws"
    by (metis list.exhaust split_on_not_Nil)
  show ?case
  proof (cases "x = c")
    case True
    with Cons show ?thesis by (simp add: join_with_Cons)
  next
    case False
    with Cons ws show ?thesis by (cases ws) auto
  qed
qed

lemma split_on_id: "c \<notin> set w \<Longrightarrow> split_on c w = [w]"
  by (induction w) auto

lemma split_on_append: "c \<notin> set w \<Longrightarrow> split_on c (w @ c # s) = w # split_on c s"
  by (induction w) (auto split: list.split)

lemma split_join:
  assumes "ws \<noteq> []" and "\<forall>w\<in>set ws. c \<notin> set w"
  shows "split_on c (join_with [c] ws) = ws"
  using assms
proof (induction ws)
  case Nil
  then show ?case by simp
next
  case (Cons w ws)
  show ?case
  proof (cases "ws = []")
    case True
    with Cons.prems show ?thesis by (simp add: split_on_id)
  next
    case False
    with Cons show ?thesis by (simp add: join_with_Cons split_on_append)
  qed
qed

text \<open>
  \<open>strings.Cut\<close> with a one-byte separator, as the text before and after the first
  separator; \<open>None\<close> where there is none.
\<close>

definition cut_at :: "char \<Rightarrow> string \<Rightarrow> (string \<times> string) option" where
  "cut_at c s = (if c \<in> set s
     then Some (takeWhile (\<lambda>x. x \<noteq> c) s, tl (dropWhile (\<lambda>x. x \<noteq> c) s)) else None)"

lemma cut_at_Some: "cut_at c s = Some (a, b) \<Longrightarrow> s = a @ c # b \<and> c \<notin> set a"
proof -
  assume "cut_at c s = Some (a, b)"
  then have m: "c \<in> set s" and a: "a = takeWhile (\<lambda>x. x \<noteq> c) s"
    and b: "b = tl (dropWhile (\<lambda>x. x \<noteq> c) s)"
    by (auto simp: cut_at_def split: if_splits)
  from m have ne: "dropWhile (\<lambda>x. x \<noteq> c) s \<noteq> []" by simp
  then have "hd (dropWhile (\<lambda>x. x \<noteq> c) s) = c"
    using hd_dropWhile [of "\<lambda>x. x \<noteq> c" s] by simp
  with ne b have "dropWhile (\<lambda>x. x \<noteq> c) s = c # b" by (metis list.collapse)
  then have "s = a @ c # b" using a by (metis takeWhile_dropWhile_id)
  moreover have "c \<notin> set a" using a by (auto dest: set_takeWhileD)
  ultimately show ?thesis by simp
qed

lemma cut_at_append: "c \<notin> set a \<Longrightarrow> cut_at c (a @ c # b) = Some (a, b)"
  by (induction a) (auto simp: cut_at_def)

text \<open>\<open>strings.SplitN\<close> with a one-byte separator and a positive bound.\<close>

fun split_n :: "char \<Rightarrow> nat \<Rightarrow> string \<Rightarrow> string list" where
  "split_n c 0 s = []"
| "split_n c (Suc 0) s = [s]"
| "split_n c (Suc (Suc n)) s =
     (case cut_at c s of None \<Rightarrow> [s] | Some (a, b) \<Rightarrow> a # split_n c (Suc n) b)"

lemma length_split_n: "length (split_n c n s) \<le> n"
  by (induction c n s rule: split_n.induct) (auto split: option.splits)

lemma split_n_nonempty: "0 < n \<Longrightarrow> split_n c n s \<noteq> []"
  by (cases "(c, n, s)" rule: split_n.cases) (auto split: option.splits)

lemma join_split_n: "0 < n \<Longrightarrow> join_with [c] (split_n c n s) = s"
proof (induction c n s rule: split_n.induct)
  case (3 c n s)
  show ?case
  proof (cases "cut_at c s")
    case None
    then show ?thesis by simp
  next
    case (Some ab)
    obtain a b where ab: "ab = (a, b)" by (cases ab)
    have "split_n c (Suc n) b \<noteq> []" by (rule split_n_nonempty) simp
    with Some ab "3.IH" [OF Some ab [symmetric]] cut_at_Some [of c s a b] show ?thesis
      by (simp add: join_with_Cons)
  qed
qed auto

subsection \<open>White space\<close>

text \<open>
  The UTF-8 encodings of the code points for which \<open>unicode.IsSpace\<close> holds. No encoding
  is a proper prefix or suffix of another, so trimming encodings off a byte string is
  trimming code points off its ends.
\<close>

definition ascii_spaces :: string where
  "ascii_spaces = [CHR 0x09, CHR 0x0A, CHR 0x0B, CHR 0x0C, CHR 0x0D, CHR 0x20]"

definition wide_spaces :: "string list" where
  "wide_spaces =
    [[CHR 0xC2, CHR 0x85], [CHR 0xC2, CHR 0xA0], [CHR 0xE1, CHR 0x9A, CHR 0x80],
     [CHR 0xE2, CHR 0x80, CHR 0x80], [CHR 0xE2, CHR 0x80, CHR 0x81], [CHR 0xE2, CHR 0x80, CHR 0x82],
     [CHR 0xE2, CHR 0x80, CHR 0x83], [CHR 0xE2, CHR 0x80, CHR 0x84], [CHR 0xE2, CHR 0x80, CHR 0x85],
     [CHR 0xE2, CHR 0x80, CHR 0x86], [CHR 0xE2, CHR 0x80, CHR 0x87], [CHR 0xE2, CHR 0x80, CHR 0x88],
     [CHR 0xE2, CHR 0x80, CHR 0x89], [CHR 0xE2, CHR 0x80, CHR 0x8A], [CHR 0xE2, CHR 0x80, CHR 0xA8],
     [CHR 0xE2, CHR 0x80, CHR 0xA9], [CHR 0xE2, CHR 0x80, CHR 0xAF], [CHR 0xE2, CHR 0x81, CHR 0x9F],
     [CHR 0xE3, CHR 0x80, CHR 0x80]]"

definition space_width :: "string list \<Rightarrow> string \<Rightarrow> nat" where
  "space_width wide s = (case s of [] \<Rightarrow> 0
     | c # _ \<Rightarrow> if c \<in> set ascii_spaces then 1
       else (case find (\<lambda>w. has_prefix s w) wide of None \<Rightarrow> 0 | Some w \<Rightarrow> length w))"

function drop_spaces :: "string list \<Rightarrow> string \<Rightarrow> string" where
  "drop_spaces wide s =
     (let n = space_width wide s
      in if n = 0 \<or> s = [] then s else drop_spaces wide (drop n s))"
  by pat_completeness auto
termination
  by (relation "measure (\<lambda>(wide, s). length s)") auto

declare drop_spaces.simps [simp del]

text \<open>\<open>strings.TrimSpace\<close>: off the left, then off the right (the encodings reversed).\<close>

definition trim_space :: "string \<Rightarrow> string" where
  "trim_space s = rev (drop_spaces (map rev wide_spaces) (rev (drop_spaces wide_spaces s)))"

lemma drop_spaces_Nil [simp]: "drop_spaces wide [] = []"
  by (simp add: drop_spaces.simps)

lemma trim_space_Nil [simp]: "trim_space [] = []"
  by (simp add: trim_space_def)

text \<open>
  A text whose first and last bytes are printable ASCII is left alone: the encodings of
  the wide spaces start and end with bytes above 127.
\<close>

definition graph_char :: "char \<Rightarrow> bool" where
  "graph_char c \<longleftrightarrow> 32 < (of_char c :: nat) \<and> (of_char c :: nat) < 128"

lemma space_width_graph:
  assumes "graph_char c" and "wide = wide_spaces \<or> wide = map rev wide_spaces"
  shows "space_width wide (c # s) = 0"
proof -
  have "c \<notin> set ascii_spaces"
    using assms(1) by (auto simp: graph_char_def ascii_spaces_def)
  moreover have "find (\<lambda>w. has_prefix (c # s) w) wide = None"
    using assms by (auto simp: graph_char_def wide_spaces_def find_None_all)
  ultimately show ?thesis by (simp add: space_width_def)
qed

lemma drop_spaces_graph:
  "graph_char c \<Longrightarrow> wide = wide_spaces \<or> wide = map rev wide_spaces \<Longrightarrow>
    drop_spaces wide (c # s) = c # s"
  by (subst drop_spaces.simps) (simp add: space_width_graph)

lemma trim_space_graph:
  assumes "s \<noteq> []" and "graph_char (hd s)" and "graph_char (last s)"
  shows "trim_space s = s"
proof -
  obtain c t where s: "s = c # t" using assms(1) by (cases s) auto
  have l: "drop_spaces wide_spaces s = s"
    using assms(2) s by (simp add: drop_spaces_graph)
  obtain d u where r: "rev s = d # u" and d: "d = last s"
    using assms(1) by (metis hd_rev list.collapse rev_is_Nil_conv)
  have "drop_spaces (map rev wide_spaces) (d # u) = d # u"
    using assms(3) d by (simp add: drop_spaces_graph)
  then have "drop_spaces (map rev wide_spaces) (rev s) = rev s"
    using r by simp
  with l show ?thesis by (simp add: trim_space_def)
qed

subsection \<open>Letter case\<close>

text \<open>
  \<open>strings.ToUpper\<close> and \<open>ToLower\<close> on the ASCII letters; bytes above 127 are kept. The
  program compares the results with ASCII constants only.
\<close>

definition upper_char :: "char \<Rightarrow> char" where
  "upper_char c = (let n = (of_char c :: nat) in
     if 97 \<le> n \<and> n \<le> 122 then char_of (n - 32) else c)"

definition lower_char :: "char \<Rightarrow> char" where
  "lower_char c = (let n = (of_char c :: nat) in
     if 65 \<le> n \<and> n \<le> 90 then char_of (n + 32) else c)"

definition to_upper :: "string \<Rightarrow> string" where
  "to_upper s = map upper_char s"

definition to_lower :: "string \<Rightarrow> string" where
  "to_lower s = map lower_char s"

text \<open>\<open>strings.ReplaceAll\<close> of one byte.\<close>

definition replace_char :: "char \<Rightarrow> string \<Rightarrow> string \<Rightarrow> string" where
  "replace_char c r s = concat (map (\<lambda>x. if x = c then r else [x]) s)"

lemma replace_char_simps [simp]:
  "replace_char c r [] = []"
  "replace_char c r (x # s) = (if x = c then r else [x]) @ replace_char c r s"
  by (simp_all add: replace_char_def)

section \<open>Numbers\<close>

definition is_digit :: "char \<Rightarrow> bool" where
  "is_digit c \<longleftrightarrow> 48 \<le> (of_char c :: nat) \<and> (of_char c :: nat) \<le> 57"

definition digit_val :: "char \<Rightarrow> nat" where
  "digit_val c = of_char c - 48"

definition digit_char :: "nat \<Rightarrow> char" where
  "digit_char d = char_of (48 + d)"

fun digits_acc :: "nat \<Rightarrow> string \<Rightarrow> nat" where
  "digits_acc n [] = n"
| "digits_acc n (c # s) = digits_acc (10 * n + digit_val c) s"

definition digits_val :: "string \<Rightarrow> nat" where
  "digits_val s = digits_acc 0 s"

definition all_digits :: "string \<Rightarrow> bool" where
  "all_digits s \<longleftrightarrow> s \<noteq> [] \<and> list_all is_digit s"

text \<open>\<open>strconv.ParseUint(s, 10, 64)\<close>: \<open>None\<close> for a syntax or a range error.\<close>

definition parse_uint64 :: "string \<Rightarrow> nat option" where
  "parse_uint64 s = (if all_digits s \<and> digits_val s < 2 ^ 64 then Some (digits_val s) else None)"

text \<open>\<open>strconv.ParseInt(s, 10, 64)\<close>: one optional sign, then digits, in the range of \<open>int64\<close>.\<close>

definition parse_int64 :: "string \<Rightarrow> int option" where
  "parse_int64 s = (case s of
      [] \<Rightarrow> None
    | c # t \<Rightarrow>
        if c = CHR ''-'' then
          (if all_digits t \<and> digits_val t \<le> 2 ^ 63 then Some (- int (digits_val t)) else None)
        else
          (let u = (if c = CHR ''+'' then t else s)
           in if all_digits u \<and> digits_val u < 2 ^ 63 then Some (int (digits_val u)) else None))"

text \<open>\<open>strconv.Itoa\<close> of a number that is not negative.\<close>

fun itoa :: "nat \<Rightarrow> string" where
  "itoa n = (if n < 10 then [digit_char n] else itoa (n div 10) @ [digit_char (n mod 10)])"

declare itoa.simps [simp del]

lemma of_char_digit_char: "d < 10 \<Longrightarrow> (of_char (digit_char d) :: nat) = 48 + d"
  by (simp add: digit_char_def)

lemma digit_val_digit_char [simp]: "d < 10 \<Longrightarrow> digit_val (digit_char d) = d"
  by (simp add: digit_val_def of_char_digit_char)

lemma is_digit_digit_char [simp]: "d < 10 \<Longrightarrow> is_digit (digit_char d)"
  by (simp add: is_digit_def of_char_digit_char)

lemma digits_acc_append: "digits_acc n (s @ t) = digits_acc (digits_acc n s) t"
  by (induction s arbitrary: n) auto

lemma digits_val_snoc: "digits_val (s @ [c]) = 10 * digits_val s + digit_val c"
  by (simp add: digits_val_def digits_acc_append)

lemma is_digit_graph: "is_digit c \<Longrightarrow> graph_char c"
  by (simp add: is_digit_def graph_char_def)

lemma trim_space_digits: "all_digits s \<Longrightarrow> trim_space s = s"
  by (rule trim_space_graph)
    (auto simp: all_digits_def list_all_iff intro!: is_digit_graph)

lemma itoa_not_Nil [simp]: "itoa n \<noteq> []"
  by (subst itoa.simps) simp

lemma itoa_digits: "all_digits (itoa n)"
proof (induction n rule: itoa.induct)
  case (1 n)
  show ?case
  proof (cases "n < 10")
    case True
    then show ?thesis by (subst itoa.simps) (simp add: all_digits_def)
  next
    case False
    with 1 show ?thesis by (subst itoa.simps) (auto simp: all_digits_def)
  qed
qed

lemma digits_val_itoa [simp]: "digits_val (itoa n) = n"
proof (induction n rule: itoa.induct)
  case (1 n)
  show ?case
  proof (cases "n < 10")
    case True
    then show ?thesis by (subst itoa.simps) (simp add: digits_val_def)
  next
    case False
    with 1 show ?thesis by (subst itoa.simps) (simp add: digits_val_snoc)
  qed
qed

lemma parse_uint64_itoa: "n < 2 ^ 64 \<Longrightarrow> parse_uint64 (itoa n) = Some n"
  by (simp add: parse_uint64_def itoa_digits)

lemma parse_uint64_Some_digits: "parse_uint64 s = Some n \<Longrightarrow> all_digits s \<and> n = digits_val s"
  by (auto simp: parse_uint64_def split: if_splits)

text \<open>A decimal job ID, as the scheduler adapter accepts it.\<close>

definition is_uint64_text :: "string \<Rightarrow> bool" where
  "is_uint64_text s \<longleftrightarrow> parse_uint64 s \<noteq> None"

lemma is_uint64_text_nonempty: "is_uint64_text s \<Longrightarrow> s \<noteq> []"
  by (auto simp: is_uint64_text_def parse_uint64_def all_digits_def split: if_splits)

section \<open>Reading \<open>map[string]string\<close>\<close>

text \<open>Reading a missing key of a Go map yields the zero value, the empty string.\<close>

definition meta_get :: "(string \<rightharpoonup> string) \<Rightarrow> string \<Rightarrow> string" where
  "meta_get m k = (case m k of None \<Rightarrow> [] | Some v \<Rightarrow> v)"

lemma meta_get_upd [simp]: "meta_get (m(k \<mapsto> v)) k' = (if k = k' then v else meta_get m k')"
  by (simp add: meta_get_def)

lemma meta_get_del [simp]: "meta_get (m(k := None)) k' = (if k = k' then [] else meta_get m k')"
  by (simp add: meta_get_def)

lemma meta_get_empty [simp]: "meta_get Map.empty k = []"
  by (simp add: meta_get_def)

end
