(* ===== verification/Timestamps.thy ===== *)
theory Timestamps
  imports Go_Prelude
begin

text \<open>
  Instants and the text the store keeps of them. A Go \<open>time.Time\<close> in UTC is a number of
  nanoseconds since 1 January of the year 1, which is Go's zero time; the store writes
  \<open>Format(time.RFC3339Nano)\<close> and SQL compares and sorts that text. The theory models the
  format (calendar date, clock, fraction without trailing zeros) and shows how far the
  order of the texts is the order of the instants.
\<close>

type_synonym time = nat

definition is_zero_time :: "time \<Rightarrow> bool" where
  "is_zero_time t \<longleftrightarrow> t = 0"

section \<open>The calendar\<close>

definition is_leap :: "nat \<Rightarrow> bool" where
  "is_leap y \<longleftrightarrow> 4 dvd y \<and> (\<not> 100 dvd y \<or> 400 dvd y)"

definition days_in_month :: "nat \<Rightarrow> nat \<Rightarrow> nat" where
  "days_in_month y m =
     (if m = 2 then (if is_leap y then 29 else 28)
      else if m \<in> {4, 6, 9, 11} then 30 else 31)"

fun next_day :: "nat \<times> nat \<times> nat \<Rightarrow> nat \<times> nat \<times> nat" where
  "next_day (y, m, d) =
     (if d < days_in_month y m then (y, m, Suc d)
      else if m < 12 then (y, Suc m, 1) else (Suc y, 1, 1))"

primrec civil :: "nat \<Rightarrow> nat \<times> nat \<times> nat" where
  "civil 0 = (1, 1, 1)"
| "civil (Suc n) = next_day (civil n)"

fun date_ok :: "nat \<times> nat \<times> nat \<Rightarrow> bool" where
  "date_ok (y, m, d) \<longleftrightarrow> 1 \<le> m \<and> m \<le> 12 \<and> 1 \<le> d \<and> d \<le> 31"

fun date_key :: "nat \<times> nat \<times> nat \<Rightarrow> nat" where
  "date_key (y, m, d) = (y * 100 + m) * 100 + d"

lemma days_in_month_bounds: "days_in_month y m \<le> 31"
  by (simp add: days_in_month_def)

lemma next_day_ok: "date_ok x \<Longrightarrow> date_ok (next_day x)"
  using days_in_month_bounds by (cases x) (auto simp: Suc_le_eq intro: less_le_trans)

lemma civil_ok: "date_ok (civil n)"
  by (induction n) (auto simp: next_day_ok)

lemma next_day_key: "date_ok x \<Longrightarrow> date_key x < date_key (next_day x)"
  by (cases x) auto

lemma civil_key_mono: "m < n \<Longrightarrow> date_key (civil m) < date_key (civil n)"
proof (induction n)
  case 0
  then show ?case by simp
next
  case (Suc n)
  have step: "date_key (civil n) < date_key (civil (Suc n))"
    using civil_ok next_day_key by simp
  show ?case
  proof (cases "m = n")
    case True
    with step show ?thesis by simp
  next
    case False
    with Suc step show ?thesis by (meson less_SucE less_trans)
  qed
qed

section \<open>Rendering\<close>

fun pad :: "nat \<Rightarrow> nat \<Rightarrow> string" where
  "pad 0 n = []"
| "pad (Suc w) n = pad w (n div 10) @ [digit_char (n mod 10)]"

fun strip_zeros :: "string \<Rightarrow> string" where
  "strip_zeros [] = []"
| "strip_zeros (c # s) = (if c = CHR ''0'' then strip_zeros s else c # s)"

definition frac_text :: "nat \<Rightarrow> string" where
  "frac_text ns = (if ns = 0 then [] else CHR ''.'' # rev (strip_zeros (rev (pad 9 ns))))"

fun date_text :: "nat \<times> nat \<times> nat \<Rightarrow> string" where
  "date_text (y, m, d) = pad 4 y @ ''-'' @ pad 2 m @ ''-'' @ pad 2 d"

definition clock_text :: "nat \<Rightarrow> string" where
  "clock_text s = pad 2 (s div 3600) @ '':'' @ pad 2 (s div 60 mod 60) @ '':'' @ pad 2 (s mod 60)"

definition nano :: nat where
  "nano = 1000000000"

definition second_text :: "nat \<Rightarrow> string" where
  "second_text s = date_text (civil (s div 86400)) @ ''T'' @ clock_text (s mod 86400)"

text \<open>\<open>t.UTC().Format(time.RFC3339Nano)\<close>.\<close>

definition fmt_time :: "time \<Rightarrow> string" where
  "fmt_time t = second_text (t div nano) @ frac_text (t mod nano) @ ''Z''"

definition year_of :: "time \<Rightarrow> nat" where
  "year_of t = fst (civil (t div nano div 86400))"

section \<open>Order of the texts\<close>

lemma length_pad [simp]: "length (pad w n) = w"
  by (induction w arbitrary: n) auto

lemma append_less_append:
  fixes a b x y :: string
  assumes "length a = length b" and "a < b"
  shows "a @ x < b @ y"
  using assms by (induction a b rule: list_induct2) auto

lemma append_less_same [simp]:
  fixes a x y :: string
  shows "a @ x < a @ y \<longleftrightarrow> x < y"
  by (induction a) auto

lemma digit_char_less: "i < j \<Longrightarrow> j < 10 \<Longrightarrow> digit_char i < digit_char j"
  by (simp add: less_char_def of_char_digit_char)

lemma mod_less_same_div:
  "m < n \<Longrightarrow> m div k = n div k \<Longrightarrow> m mod k < n mod (k::nat)"
  by (metis div_mult_mod_eq nat_add_left_cancel_less)

lemma pad_mono: "m < n \<Longrightarrow> n < 10 ^ w \<Longrightarrow> pad w m < pad w n"
proof (induction w arbitrary: m n)
  case 0
  then show ?case by simp
next
  case (Suc w)
  have le: "m div 10 \<le> n div 10" using Suc.prems(1) by simp
  have bound: "n div 10 < 10 ^ w" using Suc.prems(2) by (simp add: less_mult_imp_div_less mult.commute)
  show ?case
  proof (cases "m div 10 = n div 10")
    case True
    then have "m mod 10 < n mod 10" using Suc.prems(1) by (intro mod_less_same_div)
    with True show ?thesis by (simp add: digit_char_less)
  next
    case False
    with le have "m div 10 < n div 10" by simp
    then have "pad w (m div 10) < pad w (n div 10)" using bound by (rule Suc.IH)
    then show ?thesis by (simp add: append_less_append)
  qed
qed

lemma date_key_cases:
  assumes "date_key (y, m, d) < date_key (y', m', d')"
    and "date_ok (y, m, d)" and "date_ok (y', m', d')"
  shows "y < y' \<or> y = y' \<and> m < m' \<or> y = y' \<and> m = m' \<and> d < d'"
  using assms by auto

lemma length_date_text [simp]: "length (date_text x) = 10"
  by (cases x) simp

lemma length_clock_text [simp]: "length (clock_text s) = 8"
  by (simp add: clock_text_def)

lemma length_second_text [simp]: "length (second_text s) = 19"
  by (simp add: second_text_def)

lemma date_text_mono:
  assumes "date_key x < date_key x'" and "date_ok x" and "date_ok x'" and "fst x' \<le> 9999"
  shows "date_text x < date_text x'"
proof -
  obtain y m d y' m' d' where x: "x = (y, m, d)" and x': "x' = (y', m', d')"
    by (metis surj_pair)
  from assms(1-3) x x' consider "y < y'" | "y = y'" "m < m'" | "y = y'" "m = m'" "d < d'"
    using date_key_cases by metis
  then show ?thesis
  proof cases
    case 1
    then have "pad 4 y < pad 4 y'" using assms(4) x' by (intro pad_mono) auto
    then show ?thesis using x x' by (simp add: append_less_append)
  next
    case 2
    then have "pad 2 m < pad 2 m'" using assms(3) x' by (intro pad_mono) auto
    with 2 show ?thesis using x x' by (simp add: append_less_append)
  next
    case 3
    then have "pad 2 d < pad 2 d'" using assms(3) x' by (intro pad_mono) auto
    with 3 show ?thesis using x x' by simp
  qed
qed

lemma clock_text_mono:
  assumes "s < s'" and "s' < 86400"
  shows "clock_text s < clock_text s'"
proof -
  have h: "s div 60 div 60 \<le> s' div 60 div 60" "s div 60 \<le> s' div 60" using assms(1)
    by (simp_all add: div_le_mono)
  have sub: "s div 60 mod 60 < s' div 60 mod 60"
    if "s div 3600 = s' div 3600" and "s div 60 < s' div 60"
    using that by (intro mod_less_same_div) (simp_all add: div_mult2_eq [symmetric])
  have mod60: "x mod 60 < 10 ^ 2" for x :: nat
    using mod_less_divisor [of 60 x] by simp
  consider "s div 3600 < s' div 3600"
    | "s div 3600 = s' div 3600" "s div 60 < s' div 60"
    | "s div 60 = s' div 60"
    using h by (fastforce simp: div_mult2_eq [symmetric])
  then show ?thesis
  proof cases
    case 1
    then have "pad 2 (s div 3600) < pad 2 (s' div 3600)" using assms(2) by (intro pad_mono) auto
    then show ?thesis by (simp add: clock_text_def append_less_append)
  next
    case 2
    then have "pad 2 (s div 60 mod 60) < pad 2 (s' div 60 mod 60)"
      using sub mod60 by (intro pad_mono) auto
    with 2 show ?thesis by (simp add: clock_text_def append_less_append)
  next
    case 3
    then have "s div 3600 = s' div 3600" using div_mult2_eq [of _ 60 60] by simp
    moreover have "pad 2 (s mod 60) < pad 2 (s' mod 60)"
      using assms(1) 3 by (intro pad_mono mod_less_same_div) auto
    ultimately show ?thesis using 3 by (simp add: clock_text_def)
  qed
qed

lemma second_text_mono:
  assumes "s < s'" and "fst (civil (s' div 86400)) \<le> 9999"
  shows "second_text s < second_text s'"
proof (cases "s div 86400 = s' div 86400")
  case True
  then have "s mod 86400 < s' mod 86400" using assms(1) by (intro mod_less_same_div)
  then have "clock_text (s mod 86400) < clock_text (s' mod 86400)"
    by (intro clock_text_mono) auto
  with True show ?thesis by (simp add: second_text_def)
next
  case False
  then have "s div 86400 < s' div 86400" using assms(1) by (simp add: div_le_mono order_le_neq_trans)
  then have "date_text (civil (s div 86400)) < date_text (civil (s' div 86400))"
    using assms(2) by (intro date_text_mono civil_key_mono civil_ok) auto
  then show ?thesis by (simp add: second_text_def append_less_append)
qed

lemma fmt_time_mono_seconds:
  assumes "t div nano < u div nano" and "year_of u \<le> 9999"
  shows "fmt_time t < fmt_time u"
  using assms second_text_mono [of "t div nano" "u div nano"]
  by (simp add: fmt_time_def year_of_def append_less_append)

text \<open>The text determines the instant, so storing the text loses nothing.\<close>

lemma pad_inj: "m < 10 ^ w \<Longrightarrow> n < 10 ^ w \<Longrightarrow> pad w m = pad w n \<Longrightarrow> m = n"
  by (metis linorder_neqE_nat order_less_irrefl pad_mono)

lemma strip_zeros_replicate:
  "\<exists>k. s = replicate k (CHR ''0'') @ strip_zeros s"
proof (induction s)
  case Nil
  then show ?case by simp
next
  case (Cons c s)
  then obtain k where k: "s = replicate k (CHR ''0'') @ strip_zeros s" ..
  show ?case
  proof (cases "c = CHR ''0''")
    case True
    then have "c # s = replicate (Suc k) (CHR ''0'') @ strip_zeros (c # s)" using k by simp
    then show ?thesis ..
  next
    case False
    then have "c # s = replicate 0 (CHR ''0'') @ strip_zeros (c # s)" by simp
    then show ?thesis ..
  qed
qed

lemma strip_zeros_inj:
  assumes "length s = length t" and "strip_zeros s = strip_zeros t"
  shows "s = t"
proof -
  obtain k l where k: "s = replicate k (CHR ''0'') @ strip_zeros s"
    and l: "t = replicate l (CHR ''0'') @ strip_zeros t"
    using strip_zeros_replicate by metis
  have "k + length (strip_zeros s) = l + length (strip_zeros t)"
    using assms(1) k l by (metis length_append length_replicate)
  with assms(2) have "k = l" by simp
  with k l assms(2) show ?thesis by simp
qed

lemma frac_text_inj:
  assumes "m < nano" and "n < nano" and "frac_text m = frac_text n"
  shows "m = n"
proof (cases "m = 0 \<or> n = 0")
  case True
  with assms(3) show ?thesis by (auto simp: frac_text_def split: if_splits)
next
  case False
  with assms(3) have "strip_zeros (rev (pad 9 m)) = strip_zeros (rev (pad 9 n))"
    by (simp add: frac_text_def)
  then have "rev (pad 9 m) = rev (pad 9 n)" by (rule strip_zeros_inj [rotated]) simp
  with assms(1,2) show ?thesis by (intro pad_inj [of m 9 n]) (auto simp: nano_def)
qed

lemma fmt_time_inj:
  assumes "fmt_time t = fmt_time u" and "year_of t \<le> 9999" and "year_of u \<le> 9999"
  shows "t = u"
proof -
  have sec: "t div nano = u div nano"
    using assms fmt_time_mono_seconds by (metis linorder_neqE_nat order_less_irrefl)
  with assms(1) have "frac_text (t mod nano) = frac_text (u mod nano)"
    by (simp add: fmt_time_def)
  then have "t mod nano = u mod nano"
    by (rule frac_text_inj [rotated 2]) (simp_all add: nano_def)
  with sec show ?thesis by (metis div_mult_mod_eq)
qed

text \<open>
  Comparing the texts of two instants that lie in different seconds gives the order
  of the instants, for every year the four-digit format can write: the error of an SQL
  comparison of timestamps is always less than one second.
\<close>

theorem text_order_across_seconds:
  assumes "t div nano \<noteq> u div nano" and "year_of t \<le> 9999" and "year_of u \<le> 9999"
  shows "fmt_time t < fmt_time u \<longleftrightarrow> t < u"
proof -
  consider "t div nano < u div nano" | "u div nano < t div nano" using assms(1) by linarith
  then show ?thesis
  proof cases
    case 1
    then have "t < u" by (meson div_le_mono linorder_not_less)
    with fmt_time_mono_seconds [OF 1 assms(3)] show ?thesis by simp
  next
    case 2
    then have "\<not> t < u" by (meson div_le_mono less_imp_le linorder_not_less)
    with fmt_time_mono_seconds [OF 2 assms(2)] show ?thesis by auto
  qed
qed

theorem text_order_across_seconds_witness:
  "(fmt_time (3 * nano) < fmt_time (5 * nano)) = (3 * nano < 5 * nano)"
  by (rule text_order_across_seconds) (simp_all add: nano_def year_of_def)

text \<open>
  Inside one second the order of the texts is not the order of the instants: the
  format drops trailing zeros, and the terminator \<open>Z\<close> sorts after the fraction's dot and
  after every digit. A lease that expires half a second past a full second compares as
  older than that full second.
\<close>

theorem text_order_within_second:
  "\<exists>t u. t < u \<and> t div nano = u div nano \<and> fmt_time u < fmt_time t"
proof (intro exI conjI)
  show "(2 * nano :: nat) < 2 * nano + 500000000" by (simp add: nano_def)
  show "(2 * nano :: nat) div nano = (2 * nano + 500000000) div nano" by (simp add: nano_def)
  show "fmt_time (2 * nano + 500000000) < fmt_time (2 * nano)"
    by (simp add: fmt_time_def nano_def frac_text_def)
qed

end
