(* ===== verification/Joyrun_Model.thy ===== *)
theory Joyrun_Model
  imports Timestamps
begin

text \<open>
  The data of \<open>internal/model\<close> and the typed errors of \<open>internal/fault\<close>. The string
  constants of the compute, pull and operation states are datatypes with one extra
  constructor for any other text, because the database and the recovery metadata may hold
  one. Error prose and suggested actions are kept only where the program itself reads
  them (\<open>f_text\<close>); the codes, the retry flag, the stage, the states and the cause chain
  are kept everywhere.
\<close>

section \<open>States\<close>

datatype compute_state =
    ComputeCreated
  | ComputeSubmissionFailed
  | ComputeSubmissionUncertain
  | ComputeQueued
  | ComputeRunning
  | ComputeCompleted
  | ComputeFailed
  | ComputeCancelled
  | ComputeUnknown
  | ComputeOther string

datatype pull_state =
    PullNotPulled
  | PullInProgress
  | PullSucceeded
  | PullPartial
  | PullFailed
  | PullOther string

datatype operation_state =
    OperationQueued
  | OperationRunning
  | OperationWaitingReconcile
  | OperationSucceeded
  | OperationPartiallySucceeded
  | OperationFailed
  | OperationCancelled
  | OperationOther string

fun compute_text :: "compute_state \<Rightarrow> string" where
  "compute_text ComputeCreated = ''created''"
| "compute_text ComputeSubmissionFailed = ''submission_failed''"
| "compute_text ComputeSubmissionUncertain = ''submission_uncertain''"
| "compute_text ComputeQueued = ''queued''"
| "compute_text ComputeRunning = ''running''"
| "compute_text ComputeCompleted = ''completed''"
| "compute_text ComputeFailed = ''failed''"
| "compute_text ComputeCancelled = ''cancelled''"
| "compute_text ComputeUnknown = ''unknown''"
| "compute_text (ComputeOther s) = s"

definition named_compute_states :: "compute_state list" where
  "named_compute_states =
    [ComputeCreated, ComputeSubmissionFailed, ComputeSubmissionUncertain, ComputeQueued,
     ComputeRunning, ComputeCompleted, ComputeFailed, ComputeCancelled, ComputeUnknown]"

definition compute_of_text :: "string \<Rightarrow> compute_state" where
  "compute_of_text s = (case find (\<lambda>c. compute_text c = s) named_compute_states of
     Some c \<Rightarrow> c | None \<Rightarrow> ComputeOther s)"

lemma compute_text_of_text [simp]: "compute_text (compute_of_text s) = s"
  by (auto simp: compute_of_text_def split: option.split dest: find_Some_mem)

abbreviation no_compute_state :: compute_state where
  "no_compute_state \<equiv> ComputeOther []"

abbreviation no_pull_state :: pull_state where
  "no_pull_state \<equiv> PullOther []"

text \<open>The predicates of \<open>internal/app/app.go\<close> and \<open>internal/cli/operations.go\<close>.\<close>

definition terminalComputeState :: "compute_state \<Rightarrow> bool" where
  "terminalComputeState s \<longleftrightarrow>
     s = ComputeCompleted \<or> s = ComputeFailed \<or> s = ComputeCancelled"

definition bulkRefreshableComputeState :: "compute_state \<Rightarrow> bool" where
  "bulkRefreshableComputeState s \<longleftrightarrow>
     s = ComputeCreated \<or> s = ComputeSubmissionUncertain \<or> s = ComputeQueued \<or>
     s = ComputeRunning \<or> s = ComputeUnknown"

definition operationTerminal :: "operation_state \<Rightarrow> bool" where
  "operationTerminal s \<longleftrightarrow>
     s = OperationSucceeded \<or> s = OperationPartiallySucceeded \<or>
     s = OperationFailed \<or> s = OperationCancelled"

lemma terminal_not_refreshable:
  "terminalComputeState s \<Longrightarrow> \<not> bulkRefreshableComputeState s"
  by (auto simp: terminalComputeState_def bulkRefreshableComputeState_def)

section \<open>Errors\<close>

datatype go_error =
    PlainError string
  | WrappedError string go_error
  | Fault (f_code: string) (f_text: string) (f_retryable: bool) (f_stage: string)
      (f_compute: compute_state) (f_pull: pull_state) (f_cause: "go_error option")

text \<open>\<open>fault.New\<close> and \<open>fault.Wrap\<close>; \<open>text\<close> is empty where only a person reads it.\<close>

definition fault_new :: "string \<Rightarrow> bool \<Rightarrow> go_error" where
  "fault_new code retryable =
     Fault code [] retryable [] no_compute_state no_pull_state None"

definition fault_wrap :: "string \<Rightarrow> string \<Rightarrow> bool \<Rightarrow> go_error \<Rightarrow> go_error" where
  "fault_wrap code txt retryable e =
     Fault code txt retryable [] no_compute_state no_pull_state (Some e)"

text \<open>\<open>(*Error).WithTask\<close>, on a typed error.\<close>

fun with_task :: "string \<Rightarrow> compute_state \<Rightarrow> pull_state \<Rightarrow> go_error \<Rightarrow> go_error" where
  "with_task stage cs ps (Fault code txt r st c p e) = Fault code txt r stage cs ps e"
| "with_task stage cs ps e = e"

text \<open>\<open>(*Error).Error()\<close> and the texts of plain errors.\<close>

fun error_text :: "go_error \<Rightarrow> string" where
  "error_text (PlainError s) = s"
| "error_text (WrappedError s e) = s @ error_text e"
| "error_text (Fault code txt r st c p None) = txt"
| "error_text (Fault code txt r st c p (Some e)) = txt @ '': '' @ error_text e"

text \<open>\<open>fault.As\<close>: the first typed error of the chain, or a wrapped internal error.\<close>

fun find_fault :: "go_error \<Rightarrow> go_error option" where
  "find_fault (PlainError s) = None"
| "find_fault (WrappedError s e) = find_fault e"
| "find_fault (Fault code txt r st c p e) = Some (Fault code txt r st c p e)"

definition fault_as :: "go_error \<Rightarrow> go_error" where
  "fault_as e = (case find_fault e of Some f \<Rightarrow> f
     | None \<Rightarrow> fault_wrap ''INTERNAL_ERROR'' ''unexpected internal error'' False e)"

definition fault_code :: "go_error \<Rightarrow> string" where
  "fault_code e = f_code (fault_as e)"

lemma fault_code_new [simp]: "fault_code (fault_new c r) = c"
  by (simp add: fault_code_def fault_as_def fault_new_def)

lemma fault_code_wrap [simp]: "fault_code (fault_wrap c t r e) = c"
  by (simp add: fault_code_def fault_as_def fault_wrap_def)

lemma fault_as_typed: "\<exists>code txt r st c p e'. fault_as e = Fault code txt r st c p e'"
proof -
  have "find_fault e = Some f \<Longrightarrow> \<exists>code txt r st c p e'. f = Fault code txt r st c p e'" for f
    by (induction e rule: find_fault.induct) auto
  then show ?thesis
    by (auto simp: fault_as_def fault_wrap_def split: option.split)
qed

lemma find_fault_as [simp]: "find_fault (fault_as e) = Some (fault_as e)"
  using fault_as_typed [of e] by auto

lemma fault_as_idem [simp]: "fault_as (fault_as e) = fault_as e"
  using fault_as_typed [of e] by (auto simp: fault_as_def)

lemma fault_code_as [simp]: "fault_code (fault_as e) = fault_code e"
  by (simp add: fault_code_def)

lemma fault_code_with_task [simp]: "fault_code (with_task s c p (fault_as e)) = fault_code e"
  using fault_as_typed [of e] by (auto simp: fault_code_def) (auto simp: fault_as_def)

lemma fault_code_with_task_wrap [simp]:
  "fault_code (with_task s c p (fault_wrap code t r e)) = code"
  by (simp add: fault_code_def fault_as_def fault_wrap_def)

lemma fault_code_with_task_new [simp]:
  "fault_code (with_task s c p (fault_new code r)) = code"
  by (simp add: fault_code_def fault_as_def fault_new_def)

text \<open>The retry flag of an error as a caller sees it after \<open>fault.As\<close>.\<close>

definition fault_retryable :: "go_error \<Rightarrow> bool" where
  "fault_retryable e = f_retryable (fault_as e)"

lemma fault_retryable_simps [simp]:
  "fault_retryable (fault_new c r) = r"
  "fault_retryable (fault_wrap c t r e) = r"
  "fault_retryable (with_task s cs p (fault_new c r)) = r"
  "fault_retryable (with_task s cs p (fault_wrap c t r e)) = r"
  by (simp_all add: fault_retryable_def fault_as_def fault_new_def fault_wrap_def)

section \<open>Records\<close>

record manifest_entry =
  me_path :: string
  me_size :: int
  me_sha256 :: string

datatype param_value = StringParam string | IntParam int | FloatParam string | BoolParam bool

record task =
  task_id :: string
  revision :: int
  dry_run :: bool
  project_id :: string
  source_path :: string
  source_workdir :: string
  source_entry :: "string option"
  target_name :: string
  cluster_name :: string
  remote_dir :: string
  scheduler_id :: string
  compute_state :: compute_state
  pull_state :: pull_state
  scheduler_state :: string
  scheduler_reason :: string
  elapsed :: string
  exit_code :: string
  scheduler_start :: string
  scheduler_end :: string
  resolved_params :: "string \<rightharpoonup> param_value"
  rendered_script :: string
  target_hash :: string
  input_manifest :: "manifest_entry list"
  pull_patterns :: "string list"
  push_excludes :: "string list"
  log_paths :: "string list"
  created_at :: time
  submitted_at :: "time option"
  updated_at :: time
  pulled_at :: "time option"
  metadata :: "string \<rightharpoonup> string"

abbreviation task_meta :: "task \<Rightarrow> string \<Rightarrow> string" where
  "task_meta t k \<equiv> meta_get (metadata t) k"

record task_event =
  ev_task :: string
  ev_type :: string
  ev_stage :: string
  ev_data :: "string \<rightharpoonup> string"
  ev_created :: time

record operation =
  op_id :: string
  op_kind :: string
  op_project :: string
  cluster_key :: string
  dedup_key :: string
  op_state :: operation_state
  op_stage :: string
  op_payload :: string
  op_result :: string
  op_attempt :: int
  max_attempts :: int
  retry_deadline_at :: "time option"
  next_attempt_at :: "time option"
  lease_owner :: string
  lease_expires_at :: "time option"
  error_code :: string
  error_message :: string
  op_retryable :: bool
  op_created_at :: time
  started_at :: "time option"
  op_updated_at :: time
  finished_at :: "time option"

record operation_task =
  ot_operation :: string
  ot_task :: string
  ot_ordinal :: int
  ot_state :: string
  ot_result :: string

record project =
  proj_id :: string
  proj_root :: string

text \<open>The part of a cluster's configuration that the application layer uses.\<close>

record partition =
  cores_per_node :: int
  memory_per_node :: string

record cluster =
  cluster_host :: string
  scheduler_kind :: string
  remote_root :: string
  transfer_kind :: string
  partitions :: "string \<rightharpoonup> partition"

text \<open>
  The immutable part of a task: the execution snapshot that background activity must not
  change (the first invariant of \<open>docs/daemon-design.md\<close>).
\<close>

definition same_snapshot :: "task \<Rightarrow> task \<Rightarrow> bool" where
  "same_snapshot a b \<longleftrightarrow>
     task_id a = task_id b \<and> project_id a = project_id b \<and> source_path a = source_path b \<and>
     source_workdir a = source_workdir b \<and> source_entry a = source_entry b \<and>
     target_name a = target_name b \<and> cluster_name a = cluster_name b \<and>
     remote_dir a = remote_dir b \<and> resolved_params a = resolved_params b \<and>
     rendered_script a = rendered_script b \<and> target_hash a = target_hash b \<and>
     input_manifest a = input_manifest b \<and> pull_patterns a = pull_patterns b \<and>
     push_excludes a = push_excludes b \<and> log_paths a = log_paths b \<and>
     created_at a = created_at b \<and> dry_run a = dry_run b"

lemma same_snapshot_refl [simp]: "same_snapshot a a"
  by (simp add: same_snapshot_def)

lemma same_snapshot_trans [trans]:
  "same_snapshot a b \<Longrightarrow> same_snapshot b c \<Longrightarrow> same_snapshot a c"
  by (simp add: same_snapshot_def)

lemma same_snapshot_id: "same_snapshot a b \<Longrightarrow> task_id a = task_id b"
  by (simp add: same_snapshot_def)

text \<open>The text constants of the operation states.\<close>

fun operation_text :: "operation_state \<Rightarrow> string" where
  "operation_text OperationQueued = ''queued''"
| "operation_text OperationRunning = ''running''"
| "operation_text OperationWaitingReconcile = ''waiting_reconcile''"
| "operation_text OperationSucceeded = ''succeeded''"
| "operation_text OperationPartiallySucceeded = ''partially_succeeded''"
| "operation_text OperationFailed = ''failed''"
| "operation_text OperationCancelled = ''cancelled''"
| "operation_text (OperationOther s) = s"

end
