(* ===== verification/Store_Tasks.thy ===== *)
theory Store_Tasks
  imports Joyrun_Model
begin

text \<open>
  The task half of \<open>internal/store/store.go\<close>: the tables as lists of rows in insertion
  order, the constraints SQLite enforces (primary keys, foreign keys), and one function
  per store operation. A transaction that fails returns the store it started from, which
  is the deferred \<open>Rollback\<close>. SQLite itself is taken to work: an operation fails through
  a constraint or a check of the code, not through a full disk. A row keeps the values of
  a task; the timestamps of a row stand for their texts (\<open>fmt_time\<close> is injective), and
  every comparison and \<open>ORDER BY\<close> is on the texts. (A resolved integer parameter comes back
  from the JSON column as a \<open>float64\<close> of the same value; a row keeps it as it was.)
\<close>

record project_row =
  pr_id :: string
  pr_path :: string
  pr_updated :: time

record operation_event =
  oe_operation :: string
  oe_state :: operation_state
  oe_stage :: string
  oe_created :: time

record store =
  projects :: "project_row list"
  tasks :: "task list"
  task_events :: "task_event list"
  operations :: "operation list"
  operation_events :: "operation_event list"
  operation_tasks :: "operation_task list"

definition empty_store :: store where
  "empty_store = \<lparr>projects = [], tasks = [], task_events = [], operations = [],
     operation_events = [], operation_tasks = []\<rparr>"

section \<open>Rows\<close>

text \<open>
  \<open>encodeTask\<close> writes the dry-run flag into the metadata map and drops the key for a
  real task; \<open>scanTask\<close> reads the flag back from the metadata.
\<close>

definition dryRunKey :: string where
  "dryRunKey = ''dry_run''"

definition encodeTask :: "task \<Rightarrow> task" where
  "encodeTask t = t\<lparr>dry_run := False,
     metadata := (if dry_run t then (metadata t)(dryRunKey \<mapsto> ''1'')
                  else (metadata t)(dryRunKey := None))\<rparr>"

definition scanTask :: "task \<Rightarrow> task" where
  "scanTask r = r\<lparr>dry_run := (task_meta r dryRunKey = ''1'' \<or> task_meta r dryRunKey = ''true'')\<rparr>"

definition stored :: "task \<Rightarrow> task" where
  "stored t = scanTask (encodeTask t)"

lemma encodeTask_simps [simp]:
  "task_id (encodeTask t) = task_id t"
  "revision (encodeTask t) = revision t"
  "project_id (encodeTask t) = project_id t"
  "source_path (encodeTask t) = source_path t"
  "compute_state (encodeTask t) = compute_state t"
  "pull_state (encodeTask t) = pull_state t"
  "target_name (encodeTask t) = target_name t"
  "created_at (encodeTask t) = created_at t"
  "updated_at (encodeTask t) = updated_at t"
  "scheduler_id (encodeTask t) = scheduler_id t"
  "input_manifest (encodeTask t) = input_manifest t"
  "rendered_script (encodeTask t) = rendered_script t"
  by (simp_all add: encodeTask_def)

lemma scanTask_simps [simp]:
  "task_id (scanTask t) = task_id t"
  "revision (scanTask t) = revision t"
  "project_id (scanTask t) = project_id t"
  "source_path (scanTask t) = source_path t"
  "compute_state (scanTask t) = compute_state t"
  "pull_state (scanTask t) = pull_state t"
  "target_name (scanTask t) = target_name t"
  "created_at (scanTask t) = created_at t"
  "updated_at (scanTask t) = updated_at t"
  "scheduler_id (scanTask t) = scheduler_id t"
  "metadata (scanTask t) = metadata t"
  "input_manifest (scanTask t) = input_manifest t"
  "rendered_script (scanTask t) = rendered_script t"
  by (simp_all add: scanTask_def)

lemma meta_encodeTask:
  "k \<noteq> dryRunKey \<Longrightarrow> task_meta (encodeTask t) k = task_meta t k"
  by (simp add: encodeTask_def)

lemma meta_stored: "k \<noteq> dryRunKey \<Longrightarrow> task_meta (stored t) k = task_meta t k"
  by (simp add: stored_def meta_encodeTask)

lemma dry_run_stored [simp]: "dry_run (stored t) = dry_run t"
  by (simp add: stored_def scanTask_def encodeTask_def)

lemma stored_fields [simp]:
  "task_id (stored t) = task_id t"
  "revision (stored t) = revision t"
  "project_id (stored t) = project_id t"
  "source_path (stored t) = source_path t"
  "compute_state (stored t) = compute_state t"
  "pull_state (stored t) = pull_state t"
  "created_at (stored t) = created_at t"
  "scheduler_id (stored t) = scheduler_id t"
  by (simp_all add: stored_def)

lemma stored_idem [simp]: "stored (stored t) = stored t"
  by (cases "dry_run t") (simp_all add: stored_def scanTask_def encodeTask_def)

lemma same_snapshot_stored [simp]: "same_snapshot (stored t) t"
  by (simp add: same_snapshot_def) (simp add: stored_def scanTask_def encodeTask_def)

section \<open>Reading\<close>

definition project_bound :: "store \<Rightarrow> string \<Rightarrow> bool" where
  "project_bound db pid \<longleftrightarrow> (\<exists>p\<in>set (projects db). pr_id p = pid)"

definition find_row :: "store \<Rightarrow> string \<Rightarrow> task option" where
  "find_row db i = find (\<lambda>r. task_id r = i) (tasks db)"

definition GetTask :: "store \<Rightarrow> string \<Rightarrow> (go_error, task) result" where
  "GetTask db i = (case find_row db i of
     None \<Rightarrow> Inl (fault_new ''TASK_NOT_FOUND'' False) | Some r \<Rightarrow> Inr (scanTask r))"

definition created_key :: "task \<Rightarrow> string" where
  "created_key t = fmt_time (created_at t)"

definition source_rows :: "store \<Rightarrow> string \<Rightarrow> string \<Rightarrow> task list" where
  "source_rows db pid path =
     sort_desc created_key (filter (\<lambda>r. project_id r = pid \<and> source_path r = path) (tasks db))"

definition LatestTask :: "store \<Rightarrow> string \<Rightarrow> string \<Rightarrow> (go_error, task) result" where
  "LatestTask db pid path = (case source_rows db pid path of
     [] \<Rightarrow> Inl (fault_new ''TASK_NOT_FOUND'' False) | r # _ \<Rightarrow> Inr (scanTask r))"

definition History :: "store \<Rightarrow> string \<Rightarrow> string \<Rightarrow> task list" where
  "History db pid path = map scanTask (source_rows db pid path)"

definition ListTasks :: "store \<Rightarrow> string \<Rightarrow> task list" where
  "ListTasks db pid =
     map scanTask (sort_desc created_key (filter (\<lambda>r. project_id r = pid) (tasks db)))"

definition Events :: "store \<Rightarrow> string \<Rightarrow> (go_error, task_event list) result" where
  "Events db i = (case GetTask db i of Inl e \<Rightarrow> Inl e
     | Inr _ \<Rightarrow> Inr (filter (\<lambda>e. ev_task e = i) (task_events db)))"

text \<open>\<open>BindProject\<close>, \<open>ListProjects\<close> and \<open>GetProject\<close>.\<close>

definition BindProject :: "store \<Rightarrow> time \<Rightarrow> project \<Rightarrow> store" where
  "BindProject db now p =
     (if project_bound db (proj_id p)
      then db\<lparr>projects := update_where (\<lambda>r. pr_id r = proj_id p)
             (\<lambda>r. r\<lparr>pr_path := proj_root p, pr_updated := now\<rparr>) (projects db)\<rparr>
      else db\<lparr>projects := projects db @
             [\<lparr>pr_id = proj_id p, pr_path = proj_root p, pr_updated = now\<rparr>]\<rparr>)"

definition ListProjects :: "store \<Rightarrow> project list" where
  "ListProjects db = map (\<lambda>r. \<lparr>proj_id = pr_id r, proj_root = pr_path r\<rparr>)
     (sort_desc (\<lambda>r. fmt_time (pr_updated r)) (projects db))"

definition GetProject :: "store \<Rightarrow> string \<Rightarrow> (go_error, project) result" where
  "GetProject db pid = (case find (\<lambda>r. pr_id r = pid) (projects db) of
     None \<Rightarrow> Inl (fault_new ''PROJECT_NOT_FOUND'' False)
   | Some r \<Rightarrow> Inr \<lparr>proj_id = pr_id r, proj_root = pr_path r\<rparr>)"

section \<open>Inserting\<close>

definition insertTask :: "store \<Rightarrow> task \<Rightarrow> (go_error, store) result" where
  "insertTask db t =
     (if find_row db (task_id t) \<noteq> None \<or> \<not> project_bound db (project_id t)
      then Inl (fault_wrap ''DATABASE_FAILED'' [] True (PlainError ''constraint failed''))
      else Inr (db\<lparr>tasks := tasks db @ [encodeTask t]\<rparr>))"

definition insertEvent :: "store \<Rightarrow> task_event \<Rightarrow> (go_error, store) result" where
  "insertEvent db e =
     (if find_row db (ev_task e) = None
      then Inl (fault_wrap ''DATABASE_FAILED'' [] True (PlainError ''constraint failed''))
      else Inr (db\<lparr>task_events := task_events db @ [e]\<rparr>))"

definition created_event :: "task \<Rightarrow> task_event" where
  "created_event t = \<lparr>ev_task = task_id t, ev_type = ''TASK_CREATED'', ev_stage = ''task'',
     ev_data = Map.empty, ev_created = created_at t\<rparr>"

text \<open>One insertion of the creation transactions: the row, then its first event.\<close>

definition insert_created :: "store \<Rightarrow> task \<Rightarrow> (go_error, store) result" where
  "insert_created db t = (case insertTask db t of Inl e \<Rightarrow> Inl e
     | Inr db' \<Rightarrow> insertEvent db' (created_event t))"

fun insert_all :: "store \<Rightarrow> task list \<Rightarrow> (go_error, store) result" where
  "insert_all db [] = Inr db"
| "insert_all db (t # ts) = (case insert_created db t of Inl e \<Rightarrow> Inl e
     | Inr db' \<Rightarrow> insert_all db' ts)"

definition first_revision :: "task \<Rightarrow> task" where
  "first_revision t = (if revision t = 0 then t\<lparr>revision := 1\<rparr> else t)"

text \<open>
  The creating operations return, next to their result and the store, the tasks as the
  caller's pointers hold them afterwards (the revision is assigned first).
\<close>

definition CreateTasks :: "store \<Rightarrow> task list \<Rightarrow> (go_error, unit) result \<times> task list \<times> store" where
  "CreateTasks db ts =
     (if ts = [] then (Inr (), ts, db)
      else let ts' = map first_revision ts
        in case insert_all db ts' of Inl e \<Rightarrow> (Inl e, ts', db) | Inr db' \<Rightarrow> (Inr (), ts', db'))"

definition submission_key_of :: "task \<Rightarrow> string" where
  "submission_key_of t = task_meta t ''submission_key''"

definition find_active :: "store \<Rightarrow> string \<Rightarrow> string \<Rightarrow> string \<Rightarrow> task option" where
  "find_active db pid path key =
     find (\<lambda>r. submission_key_of r = key \<and> compute_state r \<noteq> ComputeSubmissionFailed)
       (History db pid path)"

definition FindTaskBySubmissionKey ::
    "store \<Rightarrow> string \<Rightarrow> string \<Rightarrow> string \<Rightarrow> (go_error, task option) result" where
  "FindTaskBySubmissionKey db pid path key =
     (if pid = [] \<or> path = [] \<or> key = [] then Inl (fault_new ''DATABASE_FAILED'' False)
      else Inr (find_active db pid path key))"

text \<open>\<open>CreateTaskIdempotent\<close>: \<open>Some existing\<close> is the deduplicated answer.\<close>

definition CreateTaskIdempotent ::
    "store \<Rightarrow> task \<Rightarrow> bool \<Rightarrow> (go_error, task option) result \<times> task \<times> store" where
  "CreateTaskIdempotent db t force =
     (if force then (case CreateTasks db [t] of (r, ts, db') \<Rightarrow>
        (case r of Inl e \<Rightarrow> Inl e | Inr _ \<Rightarrow> Inr None, hd ts, db'))
      else if submission_key_of t = [] then (Inl (fault_new ''DATABASE_FAILED'' False), t, db)
      else let t' = first_revision t
        in case find_active db (project_id t') (source_path t') (submission_key_of t') of
             Some x \<Rightarrow> (Inr (Some x), t', db)
           | None \<Rightarrow> (case insert_created db t' of
                 Inl e \<Rightarrow> (Inl e, t', db)
               | Inr db' \<Rightarrow> (Inr None, t', db')))"

text \<open>
  \<open>CreateTasksIdempotent\<close>: the first loop stops at the first task without a key, and has
  assigned the revisions of the tasks before it.
\<close>

fun assign_keys_checked :: "task list \<Rightarrow> bool \<times> task list" where
  "assign_keys_checked [] = (True, [])"
| "assign_keys_checked (t # ts) =
     (if submission_key_of t = [] then (False, t # ts)
      else case assign_keys_checked ts of (ok, ts') \<Rightarrow> (ok, first_revision t # ts'))"

fun first_active :: "store \<Rightarrow> task list \<Rightarrow> task option" where
  "first_active db [] = None"
| "first_active db (t # ts) =
     (case find_active db (project_id t) (source_path t) (submission_key_of t) of
        Some x \<Rightarrow> Some x | None \<Rightarrow> first_active db ts)"

definition CreateTasksIdempotent ::
    "store \<Rightarrow> task list \<Rightarrow> bool \<Rightarrow> (go_error, task option) result \<times> task list \<times> store" where
  "CreateTasksIdempotent db ts force =
     (if force then (case CreateTasks db ts of (r, ts', db') \<Rightarrow>
        (case r of Inl e \<Rightarrow> Inl e | Inr _ \<Rightarrow> Inr None, ts', db'))
      else if ts = [] then (Inr None, ts, db)
      else case assign_keys_checked ts of
        (False, ts') \<Rightarrow> (Inl (fault_new ''DATABASE_FAILED'' False), ts', db)
      | (True, ts') \<Rightarrow> (case first_active db ts' of
            Some x \<Rightarrow> (Inr (Some x), ts', db)
          | None \<Rightarrow> (case insert_all db ts' of
                Inl e \<Rightarrow> (Inl e, ts', db)
              | Inr db' \<Rightarrow> (Inr None, ts', db'))))"

definition ImportTask :: "store \<Rightarrow> time \<Rightarrow> task \<Rightarrow> (go_error, unit) result \<times> task \<times> store" where
  "ImportTask db now t = (case GetTask db (task_id t) of
      Inr _ \<Rightarrow> (Inl (fault_new ''TASK_ALREADY_EXISTS'' False), t, db)
    | Inl e \<Rightarrow>
        if fault_code e \<noteq> ''TASK_NOT_FOUND'' then (Inl e, t, db)
        else let t' = first_revision t
          in case insertTask db t' of Inl e \<Rightarrow> (Inl e, t', db)
             | Inr db1 \<Rightarrow> (case insertEvent db1 \<lparr>ev_task = task_id t', ev_type = ''TASK_RECOVERED'',
                   ev_stage = ''recovery'', ev_data = Map.empty, ev_created = now\<rparr> of
                   Inl e \<Rightarrow> (Inl e, t', db)
                 | Inr db2 \<Rightarrow> (Inr (), t', db2)))"

section \<open>Updating\<close>

text \<open>
  \<open>updateTaskRecord\<close>: compare-and-swap on the revision, then the event, all in the
  caller's transaction. The result is the new revision.
\<close>

definition updateTaskRecord ::
    "store \<Rightarrow> task \<Rightarrow> task_event option \<Rightarrow> (go_error, int \<times> store) result" where
  "updateTaskRecord db t ev =
     (if revision t < 1 then Inl (fault_new ''DATABASE_CONFLICT'' True)
      else
        let hit = (\<lambda>r. task_id r = task_id t \<and> revision r = revision t);
            t' = t\<lparr>revision := revision t + 1\<rparr>
        in if rows_where hit (tasks db) = 0 then Inl (fault_new ''DATABASE_CONFLICT'' True)
           else if \<not> project_bound db (project_id t)
           then Inl (fault_wrap ''DATABASE_FAILED'' [] True (PlainError ''constraint failed''))
           else let db' = db\<lparr>tasks := update_where hit (\<lambda>_. encodeTask t') (tasks db)\<rparr>
             in case ev of None \<Rightarrow> Inr (revision t', db')
                | Some e \<Rightarrow> (case insertEvent db' e of Inl x \<Rightarrow> Inl x
                    | Inr db'' \<Rightarrow> Inr (revision t', db'')))"

text \<open>
  \<open>updateTask\<close> and its two callers. The task returned is the caller's, with the new
  revision after a commit and unchanged after a failure.
\<close>

definition updateTask ::
    "store \<Rightarrow> task \<Rightarrow> task_event option \<Rightarrow> (go_error, unit) result \<times> task \<times> store" where
  "updateTask db t ev =
     (if revision t < 1 then (Inl (fault_new ''DATABASE_CONFLICT'' True), t, db)
      else case updateTaskRecord db t ev of
        Inl e \<Rightarrow> (Inl e, t, db)
      | Inr (n, db') \<Rightarrow> (Inr (), t\<lparr>revision := n\<rparr>, db'))"

definition UpdateTask :: "store \<Rightarrow> task \<Rightarrow> (go_error, unit) result \<times> task \<times> store" where
  "UpdateTask db t = updateTask db t None"

definition complete_event :: "task \<Rightarrow> time \<Rightarrow> task_event \<Rightarrow> task_event" where
  "complete_event t now e =
     (let e1 = (if ev_task e = [] then e\<lparr>ev_task := task_id t\<rparr> else e)
      in if is_zero_time (ev_created e1) then e1\<lparr>ev_created := now\<rparr> else e1)"

definition UpdateTaskWithEvent ::
    "store \<Rightarrow> time \<Rightarrow> task \<Rightarrow> task_event \<Rightarrow> (go_error, unit) result \<times> task \<times> store" where
  "UpdateTaskWithEvent db now t e = updateTask db t (Some (complete_event t now e))"

fun update_all :: "store \<Rightarrow> time \<Rightarrow> (task \<times> task_event) list \<Rightarrow> (go_error, int list \<times> store) result" where
  "update_all db now [] = Inr ([], db)"
| "update_all db now ((t, e) # rest) =
     (case updateTaskRecord db t (Some (complete_event t now e)) of
        Inl x \<Rightarrow> Inl x
      | Inr (n, db') \<Rightarrow> (case update_all db' now rest of
            Inl x \<Rightarrow> Inl x | Inr (ns, db'') \<Rightarrow> Inr (n # ns, db'')))"

definition UpdateTasksWithEvents ::
    "store \<Rightarrow> time \<Rightarrow> task list \<Rightarrow> task_event list \<Rightarrow> (go_error, unit) result \<times> task list \<times> store" where
  "UpdateTasksWithEvents db now ts es =
     (if ts = [] then (Inr (), ts, db)
      else if length es \<noteq> length ts then (Inl (fault_new ''DATABASE_FAILED'' False), ts, db)
      else case update_all db now (zip ts es) of
        Inl x \<Rightarrow> (Inl x, ts, db)
      | Inr (ns, db') \<Rightarrow> (Inr (), map2 (\<lambda>t n. t\<lparr>revision := n\<rparr>) ts ns, db'))"

definition AppendEvent :: "store \<Rightarrow> time \<Rightarrow> task_event \<Rightarrow> (go_error, unit) result \<times> store" where
  "AppendEvent db now e =
     (let e' = (if is_zero_time (ev_created e) then e\<lparr>ev_created := now\<rparr> else e)
      in case GetTask db (ev_task e') of Inl x \<Rightarrow> (Inl x, db)
         | Inr _ \<Rightarrow> (case insertEvent db e' of Inl x \<Rightarrow> (Inl x, db) | Inr db' \<Rightarrow> (Inr (), db')))"


section \<open>The interface of an optimistic store\<close>

text \<open>
  What the application layer relies on when it changes a task: a record is committed only
  against the revision it was read at, a commit moves the revision on, and no operation
  of anybody moves a revision back. The consequence is proved once: a writer that read
  before somebody else's commit cannot overwrite it, whatever happens in between.
\<close>

locale versioned_store =
  fixes lookup :: "'s \<Rightarrow> string \<Rightarrow> 'r option"
    and ident :: "'r \<Rightarrow> string"
    and rev_of :: "'r \<Rightarrow> int"
    and commit :: "'s \<Rightarrow> 'r \<Rightarrow> 's option"
    and change :: "'s \<Rightarrow> 's \<Rightarrow> bool"
    and good :: "'s \<Rightarrow> bool"
  assumes commit_current: "commit s r = Some s' \<Longrightarrow> good s \<Longrightarrow>
      \<exists>c. lookup s (ident r) = Some c \<and> rev_of c = rev_of r"
    and commit_next: "commit s r = Some s' \<Longrightarrow> good s \<Longrightarrow>
      \<exists>c. lookup s' (ident r) = Some c \<and> rev_of c = rev_of r + 1"
    and commit_change: "commit s r = Some s' \<Longrightarrow> change s s'"
    and change_good: "change s s' \<Longrightarrow> good s \<Longrightarrow> good s'"
    and change_forward: "change s s' \<Longrightarrow> good s \<Longrightarrow> lookup s i = Some c \<Longrightarrow>
      \<exists>c'. lookup s' i = Some c' \<and> rev_of c \<le> rev_of c'"
begin

lemma changes_forward:
  "change\<^sup>*\<^sup>* s s' \<Longrightarrow> good s \<Longrightarrow> lookup s i = Some c \<Longrightarrow>
   good s' \<and> (\<exists>c'. lookup s' i = Some c' \<and> rev_of c \<le> rev_of c')"
proof (induction rule: rtranclp_induct)
  case base
  then show ?case by auto
next
  case (step y z)
  then obtain c' where "good y" "lookup y i = Some c'" "rev_of c \<le> rev_of c'" by auto
  then show ?case
    using change_good [OF step(2)] change_forward [OF step(2), of i c'] by fastforce
qed

lemma stale_behind:
  assumes "commit s a = Some s1" and "change\<^sup>*\<^sup>* s1 s2" and "good s"
    and "ident b = ident a" and "rev_of b \<le> rev_of a"
  shows "good s2 \<and> (\<exists>c. lookup s2 (ident b) = Some c \<and> rev_of b < rev_of c)"
proof -
  obtain c1 where "lookup s1 (ident a) = Some c1" "rev_of c1 = rev_of a + 1"
    using commit_next [OF assms(1,3)] by auto
  moreover have "good s1" by (rule change_good [OF commit_change [OF assms(1)] assms(3)])
  ultimately show ?thesis
    using changes_forward [OF assms(2), of "ident a" c1] assms(4,5) by fastforce
qed

lemma stale_refused:
  assumes "commit s a = Some s1" and "change\<^sup>*\<^sup>* s1 s2" and "good s"
    and "ident b = ident a" and "rev_of b \<le> rev_of a"
  shows "commit s2 b = None"
  using stale_behind [OF assms] commit_current [of s2 b] by (cases "commit s2 b") auto

end

section \<open>The invariant of the task tables\<close>

definition store_ok :: "store \<Rightarrow> bool" where
  "store_ok db \<longleftrightarrow>
     distinct (map task_id (tasks db)) \<and>
     (\<forall>r\<in>set (tasks db). project_bound db (project_id r)) \<and>
     (\<forall>e\<in>set (task_events db). find_row db (ev_task e) \<noteq> None)"

text \<open>What a later store keeps of an earlier one: the history, and every row at its revision or above.\<close>

definition store_extends :: "store \<Rightarrow> store \<Rightarrow> bool" where
  "store_extends db db' \<longleftrightarrow>
     (\<exists>es. task_events db' = task_events db @ es) \<and>
     (\<forall>i r. find_row db i = Some r \<longrightarrow> (\<exists>r'. find_row db' i = Some r' \<and> revision r \<le> revision r')) \<and>
     (\<forall>pid. project_bound db pid \<longrightarrow> project_bound db' pid)"

lemma store_extends_refl [simp]: "store_extends db db"
  by (auto simp: store_extends_def)

lemma store_extends_trans: "store_extends a b \<Longrightarrow> store_extends b c \<Longrightarrow> store_extends a c"
  by (force simp: store_extends_def)

lemma find_row_tasks: "find_row db i = Some r \<Longrightarrow> r \<in> set (tasks db) \<and> task_id r = i"
  unfolding find_row_def by (drule find_Some_mem) simp

lemma find_row_None: "find_row db i = None \<longleftrightarrow> i \<notin> task_id ` set (tasks db)"
  by (auto simp: find_row_def find_None_all)

lemma find_row_member: "store_ok db \<Longrightarrow> r \<in> set (tasks db) \<Longrightarrow> find_row db (task_id r) = Some r"
  unfolding find_row_def store_ok_def using find_unique by metis

lemma project_bound_upd [simp]:
  "project_bound (db\<lparr>tasks := x\<rparr>) p = project_bound db p"
  "project_bound (db\<lparr>task_events := y\<rparr>) p = project_bound db p"
  by (simp_all add: project_bound_def)

lemma find_row_upd [simp]:
  "find_row (db\<lparr>task_events := y\<rparr>) i = find_row db i"
  "find_row (db\<lparr>projects := z\<rparr>) i = find_row db i"
  by (simp_all add: find_row_def)

lemma insertTask_find:
  "insertTask db t = Inr db' \<Longrightarrow>
   find_row db' i = (if i = task_id t then Some (encodeTask t) else find_row db i)"
  by (auto simp: insertTask_def find_row_def find_append split: if_splits option.splits)

lemma insertTask_ok:
  assumes "insertTask db t = Inr db'" and "store_ok db"
  shows "store_ok db'" and "store_extends db db'"
proof -
  have db': "db' = db\<lparr>tasks := tasks db @ [encodeTask t]\<rparr>"
    and pb: "project_bound db (project_id t)" and new: "find_row db (task_id t) = None"
    using assms(1) by (auto simp: insertTask_def split: if_splits)
  note f = insertTask_find [OF assms(1)]
  have fresh: "task_id t \<notin> task_id ` set (tasks db)" using new by (simp add: find_row_None)
  have ev: "\<forall>e\<in>set (task_events db). find_row db' (ev_task e) \<noteq> None"
    using assms(2) f by (auto simp: store_ok_def)
  show "store_ok db'"
    using assms(2) ev pb fresh by (simp add: db' store_ok_def)
  show "store_extends db db'"
    using new by (auto simp: store_extends_def f) (simp add: db')+
qed

lemma insertEvent_simps:
  "insertEvent db e = Inr db' \<Longrightarrow>
     find_row db' i = find_row db i \<and> tasks db' = tasks db \<and> projects db' = projects db \<and>
     task_events db' = task_events db @ [e]"
  by (auto simp: insertEvent_def find_row_def split: if_splits)

lemma insertEvent_ok:
  assumes "insertEvent db e = Inr db'" and "store_ok db"
  shows "store_ok db'" and "store_extends db db'"
  using assms by (auto simp: insertEvent_def store_ok_def store_extends_def split: if_splits)

lemma insert_created_ok:
  assumes "insert_created db t = Inr db'" and "store_ok db"
  shows "store_ok db'" and "store_extends db db'"
    and "find_row db' i = (if i = task_id t then Some (encodeTask t) else find_row db i)"
proof -
  from assms(1) obtain d where d: "insertTask db t = Inr d" "insertEvent d (created_event t) = Inr db'"
    by (auto simp: insert_created_def split: sum.splits)
  show "store_ok db'" "store_extends db db'"
    using d insertTask_ok [OF d(1) assms(2)] insertEvent_ok [OF d(2)]
    by (auto intro: store_extends_trans)
  show "find_row db' i = (if i = task_id t then Some (encodeTask t) else find_row db i)"
    using insertEvent_simps [OF d(2)] insertTask_find [OF d(1)] by simp
qed

lemma insert_all_ok:
  "insert_all db ts = Inr db' \<Longrightarrow> store_ok db \<Longrightarrow> store_ok db' \<and> store_extends db db'"
  by (induction db ts rule: insert_all.induct)
    (auto split: sum.splits dest: insert_created_ok intro: store_extends_trans)

lemma insert_created_fresh: "insert_created db t = Inr db' \<Longrightarrow> find_row db (task_id t) = None"
  by (auto simp: insert_created_def insertTask_def split: sum.splits if_splits)

lemma insert_all_find:
  "insert_all db ts = Inr db' \<Longrightarrow> store_ok db \<Longrightarrow>
   (\<forall>t\<in>set ts. find_row db' (task_id t) = Some (encodeTask t) \<and> find_row db (task_id t) = None) \<and>
   (\<forall>i. find_row db i \<noteq> None \<longrightarrow> find_row db' i = find_row db i)"
proof (induction db ts rule: insert_all.induct)
  case (1 db)
  then show ?case by simp
next
  case (2 db t ts)
  then obtain d where d: "insert_created db t = Inr d" "insert_all d ts = Inr db'"
    by (auto split: sum.splits)
  note f = insert_created_ok(3) [OF d(1) 2(3)]
  note ih = 2(1) [OF d insert_created_ok(1) [OF d(1) 2(3)]]
  have "find_row d (task_id t) = Some (encodeTask t)" using f by simp
  with ih f insert_created_fresh [OF d(1)] show ?case by (auto split: if_splits)
qed

lemma updateTaskRecord_cases:
  assumes "updateTaskRecord db t ev = Inr (n, db')" and "store_ok db"
  shows "store_ok db'" and "store_extends db db'" and "n = revision t + 1"
    and "\<exists>r. find_row db (task_id t) = Some r \<and> revision r = revision t"
    and "find_row db' i = (if i = task_id t then Some (encodeTask (t\<lparr>revision := n\<rparr>)) else find_row db i)"
    and "task_events db' = task_events db @ (case ev of None \<Rightarrow> [] | Some e \<Rightarrow> [e])"
proof -
  define hit :: "task \<Rightarrow> bool" where "hit = (\<lambda>r. task_id r = task_id t \<and> revision r = revision t)"
  define t' :: task where "t' = t\<lparr>revision := revision t + 1\<rparr>"
  define d where "d = db\<lparr>tasks := update_where hit (\<lambda>_. encodeTask t') (tasks db)\<rparr>"
  have nz: "rows_where hit (tasks db) \<noteq> 0" and pb: "project_bound db (project_id t)"
    and n: "n = revision t + 1"
    and ev: "(case ev of None \<Rightarrow> db' = d | Some e \<Rightarrow> insertEvent d e = Inr db')"
    using assms(1) unfolding updateTaskRecord_def hit_def [symmetric] t'_def [symmetric] Let_def
    by (auto simp: d_def t'_def split: if_splits option.splits sum.splits)
  obtain r where r: "r \<in> set (tasks db)" "hit r" using nz by (auto simp: rows_where_zero)
  have dist: "distinct (map task_id (tasks db))" using assms(2) by (simp add: store_ok_def)
  have fr: "find_row db (task_id t) = Some r"
    using find_unique [OF dist r(1)] r(2) by (simp add: find_row_def hit_def)
  show n': "n = revision t + 1" by (rule n)
  show "\<exists>r. find_row db (task_id t) = Some r \<and> revision r = revision t"
    using fr r(2) by (auto simp: hit_def)
  have ids: "map task_id (tasks d) = map task_id (tasks db)"
    unfolding d_def by (simp, rule map_update_where, simp add: hit_def t'_def)
  have f: "find_row d j = (if j = task_id t then Some (encodeTask t') else find_row db j)" for j
  proof -
    have *: "update_where hit (\<lambda>_. encodeTask t') xs =
      update_where hit (\<lambda>x. if task_id x = task_id t then encodeTask t' else x) xs" for xs
      by (induction xs) (auto simp: hit_def)
    have "find_row d j = map_option (\<lambda>x. if hit x then encodeTask t' else x) (find_row db j)"
      unfolding d_def find_row_def
      by (simp, subst *, subst find_update_where) (auto simp: t'_def hit_def intro!: option.map_cong)
    then show ?thesis
      using fr r(2) find_row_tasks [of db j]
      by (cases "find_row db j") (auto simp: hit_def)
  qed
  have pbd: "project_bound d p = project_bound db p" for p by (simp add: d_def project_bound_def)
  have okd: "store_ok d"
    using assms(2) ids pb f unfolding store_ok_def pbd
    by (auto simp: d_def set_update_where t'_def)
  have exd: "store_extends db d"
    using f fr r(2) by (auto simp: store_extends_def pbd t'_def hit_def) (auto simp: d_def)
  show "store_ok db'" "store_extends db db'"
    using ev okd exd insertEvent_ok by (auto split: option.splits intro: store_extends_trans)
  have "find_row db' i = find_row d i" using ev insertEvent_simps by (auto split: option.splits)
  then show "find_row db' i = (if i = task_id t then Some (encodeTask (t\<lparr>revision := n\<rparr>)) else find_row db i)"
    using f n by (simp add: t'_def)
  show "task_events db' = task_events db @ (case ev of None \<Rightarrow> [] | Some e \<Rightarrow> [e])"
    using ev insertEvent_simps [of d] by (auto simp: d_def split: option.splits)
qed

lemma insertTask_failed:
  "insertTask db t = Inl e \<Longrightarrow> find_row db (task_id t) \<noteq> None \<or> \<not> project_bound db (project_id t)"
  by (auto simp: insertTask_def split: if_splits)

lemma update_all_ok:
  "update_all db now prs = Inr (ns, db') \<Longrightarrow> store_ok db \<Longrightarrow> store_ok db' \<and> store_extends db db'"
proof (induction db now prs arbitrary: ns rule: update_all.induct)
  case (1 db now)
  then show ?case by auto
next
  case (2 db now t e rest)
  then obtain n d m where d: "updateTaskRecord db t (Some (complete_event t now e)) = Inr (n, d)"
      "update_all d now rest = Inr (m, db')"
    by (auto split: sum.splits prod.splits)
  show ?case
    using 2(1) [OF d(1) refl d(2)] updateTaskRecord_cases(1,2) [OF d(1) 2(3)]
    by (auto intro: store_extends_trans)
qed

lemma BindProject_ok: "store_ok db \<Longrightarrow> store_ok (BindProject db now p) \<and> store_extends db (BindProject db now p)"
proof -
  assume ok: "store_ok db"
  have "project_bound db q \<Longrightarrow> project_bound (BindProject db now p) q" for q
  proof -
    have ids: "project_bound d q \<longleftrightarrow> q \<in> set (map pr_id (projects d))" for d q
      by (auto simp: project_bound_def)
    have "map pr_id (update_where P (\<lambda>r. r\<lparr>pr_path := x, pr_updated := now\<rparr>) xs) = map pr_id xs"
      for P x and xs :: "project_row list" by (rule map_update_where) simp
    then show "project_bound db q \<Longrightarrow> project_bound (BindProject db now p) q"
      unfolding ids by (simp add: BindProject_def del: set_map)
  qed
  moreover have "find_row (BindProject db now p) i = find_row db i"
    "tasks (BindProject db now p) = tasks db"
    "task_events (BindProject db now p) = task_events db" for i
    by (simp_all add: BindProject_def)
  ultimately show ?thesis using ok by (auto simp: store_ok_def store_extends_def)
qed

text \<open>A failed \<open>updateTask\<close> leaves the store; a committed one is a committed record.\<close>

lemma updateTask_cases:
  assumes "updateTask db t ev = (r, t', db')"
  obtains (failed) e where "r = Inl e" "t' = t" "db' = db"
    | (committed) "r = Inr ()" "t' = t\<lparr>revision := revision t + 1\<rparr>" "1 \<le> revision t"
      "updateTaskRecord db t ev = Inr (revision t + 1, db')"
  using assms
  by (auto simp: updateTask_def updateTaskRecord_def Let_def split: if_splits sum.splits option.splits)

section \<open>All histories of the task tables\<close>

inductive store_change :: "store \<Rightarrow> store \<Rightarrow> bool" where
  bind: "store_change db (BindProject db now p)"
| create: "CreateTasks db ts = (r, ts', db') \<Longrightarrow> store_change db db'"
| create_one: "CreateTaskIdempotent db t force = (r1, t', db') \<Longrightarrow> store_change db db'"
| create_batch: "CreateTasksIdempotent db ts force = (r1, ts', db') \<Longrightarrow> store_change db db'"
| import: "ImportTask db now t = (r, t', db') \<Longrightarrow> store_change db db'"
| update: "updateTask db t ev = (r, t', db') \<Longrightarrow> store_change db db'"
| update_many: "UpdateTasksWithEvents db now ts es = (r, ts', db') \<Longrightarrow> store_change db db'"
| append: "AppendEvent db now e = (r, db') \<Longrightarrow> store_change db db'"

inductive_cases store_changeE: "store_change db db'"

lemma CreateTasks_ok:
  "CreateTasks db ts = (r, ts', db') \<Longrightarrow> store_ok db \<Longrightarrow> store_ok db' \<and> store_extends db db'"
  by (auto simp: CreateTasks_def Let_def split: if_splits sum.splits dest: insert_all_ok)

lemma store_change_ok:
  assumes "store_change db db'" and "store_ok db"
  shows "store_ok db' \<and> store_extends db db'"
  using assms(1)
proof cases
  case (bind now p)
  then show ?thesis using BindProject_ok assms(2) by simp
next
  case (create ts r ts')
  then show ?thesis using CreateTasks_ok assms(2) by blast
next
  case (create_one t force r1 t')
  then show ?thesis using assms(2) CreateTasks_ok
    by (auto simp: CreateTaskIdempotent_def Let_def split: if_splits option.splits sum.splits prod.splits
        dest: insert_created_ok)
next
  case (create_batch ts force r1 ts')
  then show ?thesis using assms(2) CreateTasks_ok
    by (auto simp: CreateTasksIdempotent_def split: if_splits option.splits sum.splits prod.splits bool.splits
        dest: insert_all_ok)
next
  case (import now t r t')
  have "insertTask db u = Inr d \<Longrightarrow> insertEvent d e = Inr d' \<Longrightarrow>
    store_ok d' \<and> store_extends db d'" for u d d' e
    using insertTask_ok [OF _ assms(2)] insertEvent_ok store_extends_trans by blast
  with import assms(2) show ?thesis
    by (auto simp: ImportTask_def Let_def split: if_splits sum.splits)
next
  case (update t ev r t')
  then show ?thesis
    using assms(2) updateTaskRecord_cases(1,2) by (cases rule: updateTask_cases) auto
next
  case (update_many now ts es r ts')
  then show ?thesis using assms(2)
    by (auto simp: UpdateTasksWithEvents_def split: if_splits sum.splits prod.splits dest: update_all_ok)
next
  case (append now e r)
  then show ?thesis using assms(2)
    by (auto simp: AppendEvent_def Let_def split: if_splits sum.splits dest: insertEvent_ok)
qed

lemma store_run_ok:
  "store_change\<^sup>*\<^sup>* db db' \<Longrightarrow> store_ok db \<Longrightarrow> store_ok db' \<and> store_extends db db'"
  by (induction rule: rtranclp_induct) (auto dest: store_change_ok intro: store_extends_trans)

lemma store_ok_empty [simp]: "store_ok empty_store"
  by (simp add: store_ok_def empty_store_def)

section \<open>The task store keeps the contract of an optimistic store\<close>

definition task_lookup :: "store \<Rightarrow> string \<Rightarrow> task option" where
  "task_lookup db i = (case GetTask db i of Inl _ \<Rightarrow> None | Inr t \<Rightarrow> Some t)"

definition task_commit :: "store \<Rightarrow> task \<Rightarrow> store option" where
  "task_commit db t = (case UpdateTask db t of (Inr _, _, db') \<Rightarrow> Some db' | _ \<Rightarrow> None)"

lemma task_lookup_row: "task_lookup db i = map_option scanTask (find_row db i)"
  by (auto simp: task_lookup_def GetTask_def split: option.splits)

lemma task_commit_record:
  "task_commit db t = Some db' \<Longrightarrow> updateTaskRecord db t None = Inr (revision t + 1, db')"
  unfolding task_commit_def UpdateTask_def
  by (cases "updateTask db t None") (auto elim: updateTask_cases split: sum.splits)

lemma task_commit_change: "task_commit db t = Some db' \<Longrightarrow> store_change db db'"
  by (auto simp: task_commit_def UpdateTask_def split: prod.splits sum.splits
      intro: store_change.update)

interpretation task_store:
  versioned_store task_lookup task_id revision task_commit store_change store_ok
proof unfold_locales
  fix s s' r
  assume c: "task_commit s r = Some s'"
  note r = task_commit_record [OF c]
  show "\<exists>c. task_lookup s (task_id r) = Some c \<and> revision c = revision r" if "store_ok s"
    using updateTaskRecord_cases(4) [OF r that] by (auto simp: task_lookup_row)
  show "\<exists>c. task_lookup s' (task_id r) = Some c \<and> revision c = revision r + 1" if "store_ok s"
    using updateTaskRecord_cases(5) [OF r that, of "task_id r"] by (auto simp: task_lookup_row)
  show "store_change s s'" by (rule task_commit_change [OF c])
next
  fix s s'
  assume c: "store_change s s'" and ok: "store_ok s"
  show "store_ok s'" using store_change_ok [OF c ok] ..
  show "\<exists>c'. task_lookup s' i = Some c' \<and> revision c \<le> revision c'"
    if "task_lookup s i = Some c" for i c
    using store_change_ok [OF c ok] that by (fastforce simp: task_lookup_row store_extends_def)
qed

text \<open>The two outcomes of \<open>UpdateTask\<close>, as the application layer uses them.\<close>

lemma UpdateTask_cases:
  assumes "UpdateTask db t = (r, t', db')" and "store_ok db"
  obtains (failed) e where "r = Inl e" "t' = t" "db' = db"
    | (committed) "r = Inr ()" "t' = t\<lparr>revision := revision t + 1\<rparr>" "store_ok db'" "store_extends db db'"
      "\<And>i. find_row db' i = (if i = task_id t then Some (encodeTask t') else find_row db i)"
      "\<exists>x. find_row db (task_id t) = Some x \<and> revision x = revision t"
proof (rule updateTask_cases [OF assms(1) [unfolded UpdateTask_def]])
  fix e assume "r = Inl e" "t' = t" "db' = db"
  then show thesis by (rule that(1))
next
  assume r: "r = Inr ()" "t' = t\<lparr>revision := revision t + 1\<rparr>"
    and rec: "updateTaskRecord db t None = Inr (revision t + 1, db')"
  note c = updateTaskRecord_cases [OF rec assms(2)]
  show thesis using c(5) by (intro that(2) r c(1,2,4)) (simp add: r(2))
qed

lemma UpdateTask_current:
  assumes "store_ok db" and "find_row db (task_id t) = Some x" and "revision x = revision t"
    and "1 \<le> revision t" and "project_bound db (project_id t)"
  shows "\<exists>db'. UpdateTask db t = (Inr (), t\<lparr>revision := revision t + 1\<rparr>, db')"
proof -
  have "rows_where (\<lambda>r. task_id r = task_id t \<and> revision r = revision t) (tasks db) \<noteq> 0"
    using find_row_tasks [OF assms(2)] assms(3) by (auto simp: rows_where_zero)
  then show ?thesis
    using assms(4,5) by (simp add: UpdateTask_def updateTask_def updateTaskRecord_def Let_def)
qed

text \<open>The same for an update with its event.\<close>

lemma UpdateTaskWithEvent_cases:
  assumes "UpdateTaskWithEvent db now t e = (r, t', db')" and "store_ok db"
  obtains (failed) x where "r = Inl x" "t' = t" "db' = db"
    | (committed) "r = Inr ()" "t' = t\<lparr>revision := revision t + 1\<rparr>" "store_ok db'" "store_extends db db'"
      "\<And>i. find_row db' i = (if i = task_id t then Some (encodeTask t') else find_row db i)"
      "\<exists>x. find_row db (task_id t) = Some x \<and> revision x = revision t"
      "task_events db' = task_events db @ [complete_event t now e]"
proof (rule updateTask_cases [OF assms(1) [unfolded UpdateTaskWithEvent_def]])
  fix x assume "r = Inl x" "t' = t" "db' = db"
  then show thesis by (rule that(1))
next
  assume r: "r = Inr ()" "t' = t\<lparr>revision := revision t + 1\<rparr>"
    and rec: "updateTaskRecord db t (Some (complete_event t now e)) = Inr (revision t + 1, db')"
  note c = updateTaskRecord_cases [OF rec assms(2)]
  show thesis using c(5,6) by (intro that(2) r c(1,2,4)) (simp_all add: r(2))
qed

text \<open>A task held by a writer that is the stored one: its next write succeeds.\<close>

definition synced :: "store \<Rightarrow> task \<Rightarrow> bool" where
  "synced db t \<longleftrightarrow> (\<exists>x. find_row db (task_id t) = Some x \<and> revision x = revision t) \<and>
     1 \<le> revision t \<and> project_bound db (project_id t)"

lemma synced_fields:
  "task_id t' = task_id t \<Longrightarrow> revision t' = revision t \<Longrightarrow> project_id t' = project_id t \<Longrightarrow>
   synced db t' = synced db t"
  by (simp add: synced_def)

lemma UpdateTaskWithEvent_synced:
  assumes ok: "store_ok db" and s: "synced db t" and e: "ev_task e = task_id t"
  shows "\<exists>db'. UpdateTaskWithEvent db now t e = (Inr (), t\<lparr>revision := revision t + 1\<rparr>, db') \<and>
     store_ok db' \<and> synced db' (t\<lparr>revision := revision t + 1\<rparr>) \<and>
     (\<forall>i. find_row db' i = (if i = task_id t then Some (encodeTask (t\<lparr>revision := revision t + 1\<rparr>)) else find_row db i)) \<and>
     task_events db' = task_events db @ [complete_event t now e]"
proof -
  from s obtain x where x: "find_row db (task_id t) = Some x" "revision x = revision t"
    and t: "1 \<le> revision t" "project_bound db (project_id t)" by (auto simp: synced_def)
  define hit :: "task \<Rightarrow> bool" where "hit = (\<lambda>r. task_id r = task_id t \<and> revision r = revision t)"
  have "rows_where hit (tasks db) \<noteq> 0"
    using find_row_tasks [OF x(1)] x(2) by (auto simp: rows_where_zero hit_def)
  moreover have "find_row (db\<lparr>tasks := update_where hit (\<lambda>_. encodeTask (t\<lparr>revision := revision t + 1\<rparr>)) (tasks db)\<rparr>)
      (task_id t) \<noteq> None"
    using find_row_tasks [OF x(1)] x(2)
    by (auto simp: find_row_None set_update_where hit_def image_iff intro!: bexI [of _ "encodeTask (t\<lparr>revision := revision t + 1\<rparr>)"])
  moreover have "ev_task (complete_event t now e) = task_id t"
    using e by (simp add: complete_event_def Let_def)
  ultimately obtain db' where u: "UpdateTaskWithEvent db now t e = (Inr (), t\<lparr>revision := revision t + 1\<rparr>, db')"
    using t unfolding UpdateTaskWithEvent_def updateTask_def updateTaskRecord_def hit_def [symmetric]
    by (auto simp: Let_def insertEvent_def)
  from u ok show ?thesis
  proof (cases rule: UpdateTaskWithEvent_cases)
    case committed
    have "project_bound db' (project_id t)" using committed(4) t(2) by (auto simp: store_extends_def)
    then have "synced db' (t\<lparr>revision := revision t + 1\<rparr>)" using committed(5) t(1) by (simp add: synced_def)
    with u committed show ?thesis by simp
  qed simp
qed

section \<open>Properties\<close>

text \<open>
  Every store that the task operations can produce, in any order and with any
  arguments, keeps the task ids unique and every row bound to a registered project and
  every event to an existing task; and from any such store on, the event history only
  grows at its end, no task disappears, and no revision goes back.
\<close>

theorem task_tables_histories:
  assumes "store_change\<^sup>*\<^sup>* empty_store db" and "store_change\<^sup>*\<^sup>* db db'"
  shows "store_ok db' \<and> store_extends db db'"
  using store_run_ok [OF assms(2)] store_run_ok [OF assms(1) store_ok_empty] by blast

definition sample_task :: task where
  "sample_task = \<lparr>task_id = ''t1'', revision = 0, dry_run = False, project_id = ''p'',
     source_path = ''/p/a'', source_workdir = ''/p/a'', source_entry = None,
     target_name = ''x'', cluster_name = ''c'', remote_dir = ''/r/t1'', scheduler_id = [],
     compute_state = ComputeCreated, pull_state = PullNotPulled, scheduler_state = [],
     scheduler_reason = [], elapsed = [], exit_code = [], scheduler_start = [],
     scheduler_end = [], resolved_params = Map.empty, rendered_script = [],
     target_hash = [], input_manifest = [], pull_patterns = [], push_excludes = [],
     log_paths = [], created_at = 1, submitted_at = None, updated_at = 1,
     pulled_at = None, metadata = [''submission_key'' \<mapsto> ''k'']\<rparr>"

definition sample_store :: store where
  "sample_store = BindProject empty_store 1 \<lparr>proj_id = ''p'', proj_root = ''/p''\<rparr>"

definition sample_created :: store where
  "sample_created = sample_store\<lparr>tasks := [encodeTask (first_revision sample_task)],
     task_events := [created_event (first_revision sample_task)]\<rparr>"

lemma sample_store_ok [simp]: "store_ok sample_store" "store_change empty_store sample_store"
  using BindProject_ok [OF store_ok_empty] store_change.bind by (auto simp: sample_store_def)

lemma sample_CreateTasks:
  "CreateTasks sample_store [sample_task] =
     (Inr (), [first_revision sample_task], sample_created)"
  by (simp add: CreateTasks_def insert_created_def insertTask_def insertEvent_def created_event_def
      find_row_def sample_store_def sample_created_def BindProject_def empty_store_def
      project_bound_def first_revision_def sample_task_def Let_def encodeTask_def)

lemma sample_created_change: "store_change sample_store sample_created"
  by (rule store_change.create [OF sample_CreateTasks])

lemma sample_created_ok [simp]: "store_ok sample_created"
  using store_change_ok [OF sample_created_change] by simp

theorem task_tables_histories_witness:
  "store_ok sample_created \<and> store_extends sample_store sample_created"
  by (rule task_tables_histories [OF r_into_rtranclp r_into_rtranclp [of store_change, OF sample_created_change]])
    simp

text \<open>
  C3. No lost update. Once \<open>UpdateTask\<close> has committed a task, a writer that still holds
  the revision the task was read at, or an earlier one, is refused with
  \<open>DATABASE_CONFLICT\<close> and changes nothing, whatever task operations run in between.
\<close>

theorem no_lost_update:
  assumes "UpdateTask db a = (Inr (), a', db1)" and "store_change\<^sup>*\<^sup>* db1 db2" and "store_ok db"
    and "task_id b = task_id a" and "revision b \<le> revision a"
  shows "UpdateTask db2 b = (Inl (fault_new ''DATABASE_CONFLICT'' True), b, db2)"
proof -
  have "task_commit db a = Some db1" using assms(1) by (simp add: task_commit_def)
  from task_store.stale_behind [OF this assms(2-5)] obtain r
    where ok: "store_ok db2" and r: "find_row db2 (task_id b) = Some r" "revision b < revision r"
    by (auto simp: task_lookup_row)
  then have "rows_where (\<lambda>x. task_id x = task_id b \<and> revision x = revision b) (tasks db2) = 0"
    using find_row_tasks [OF r(1)] distinct_map_unique [of task_id "tasks db2" _ r]
    by (auto simp: rows_where_zero store_ok_def)
  then show ?thesis
    by (simp add: UpdateTask_def updateTask_def updateTaskRecord_def Let_def)
qed

lemma sample_UpdateTask:
  "\<exists>db1. UpdateTask sample_created (first_revision sample_task) =
     (Inr (), (first_revision sample_task)\<lparr>revision := 2\<rparr>, db1)"
  by (simp add: UpdateTask_def updateTask_def updateTaskRecord_def sample_created_def sample_store_def
      BindProject_def empty_store_def project_bound_def first_revision_def sample_task_def Let_def
      encodeTask_def rows_where_def)

theorem no_lost_update_witness:
  "\<exists>db1. UpdateTask db1 (first_revision sample_task) =
     (Inl (fault_new ''DATABASE_CONFLICT'' True), first_revision sample_task, db1)"
proof -
  obtain db1 where "UpdateTask sample_created (first_revision sample_task) =
     (Inr (), (first_revision sample_task)\<lparr>revision := 2\<rparr>, db1)"
    using sample_UpdateTask by blast
  from no_lost_update [OF this rtranclp.rtrancl_refl sample_created_ok] show ?thesis by blast
qed

lemma History_member:
  "x \<in> set (History db p s) \<longleftrightarrow> (\<exists>r\<in>set (tasks db). x = scanTask r \<and> project_id r = p \<and> source_path r = s)"
  by (auto simp: History_def source_rows_def)

lemma find_active_Some:
  "find_active db p s k = Some x \<Longrightarrow>
   x \<in> set (History db p s) \<and> submission_key_of x = k \<and> compute_state x \<noteq> ComputeSubmissionFailed"
  by (auto simp: find_active_def dest: find_Some_mem)

lemma find_active_None:
  "find_active db p s k = None \<longleftrightarrow> (\<forall>x\<in>set (History db p s).
     submission_key_of x = k \<longrightarrow> compute_state x = ComputeSubmissionFailed)"
  by (auto simp: find_active_def find_None_all)

lemma submission_key_encode [simp]: "submission_key_of (scanTask (encodeTask t)) = submission_key_of t"
  using meta_encodeTask [of "''submission_key''" t] by (simp add: submission_key_of_def dryRunKey_def)

lemma submission_key_first_revision [simp]: "submission_key_of (first_revision t) = submission_key_of t"
  by (simp add: submission_key_of_def first_revision_def)

lemma first_revision_simps [simp]:
  "task_id (first_revision t) = task_id t"
  "project_id (first_revision t) = project_id t"
  "source_path (first_revision t) = source_path t"
  "compute_state (first_revision t) = compute_state t"
  by (simp_all add: first_revision_def)

lemma insert_created_tasks:
  "insert_created db t = Inr db' \<Longrightarrow> tasks db' = tasks db @ [encodeTask t]"
  by (auto simp: insert_created_def insertTask_def insertEvent_def split: sum.splits if_splits)

lemma find_active_after_insert:
  assumes "insert_created db t = Inr db'"
    and "find_active db (project_id t) (source_path t) (submission_key_of t) = None"
    and "compute_state t \<noteq> ComputeSubmissionFailed"
  shows "find_active db' (project_id t) (source_path t) (submission_key_of t) = Some (stored t)"
proof -
  have h: "x \<in> set (History db' (project_id t) (source_path t)) \<longleftrightarrow>
      x \<in> set (History db (project_id t) (source_path t)) \<or> x = stored t" for x
    by (auto simp: History_member insert_created_tasks [OF assms(1)] stored_def)
  have "submission_key_of (stored t) = submission_key_of t" by (simp add: stored_def)
  moreover have "stored t \<in> set (History db' (project_id t) (source_path t))" using h by simp
  ultimately have "find_active db' (project_id t) (source_path t) (submission_key_of t) \<noteq> None"
    using assms(3) by (auto simp: find_active_None)
  then obtain y where "find_active db' (project_id t) (source_path t) (submission_key_of t) = Some y"
    by auto
  with find_active_Some [OF this] assms(2) h show ?thesis by (auto simp: find_active_None)
qed

text \<open>
  C9. Idempotent submission. After an unforced \<open>CreateTaskIdempotent\<close> has created a task
  that is not already rejected, any other unforced creation for the same project, source
  and submission key answers with that task and writes nothing.
\<close>

theorem create_is_idempotent:
  assumes "CreateTaskIdempotent db t False = (Inr None, t', db1)"
    and "compute_state t \<noteq> ComputeSubmissionFailed"
    and "project_id u = project_id t" and "source_path u = source_path t"
    and "submission_key_of u = submission_key_of t"
  shows "CreateTaskIdempotent db1 u False = (Inr (Some (stored (first_revision t))), first_revision u, db1)"
proof -
  from assms(1) have "submission_key_of t \<noteq> []"
    and "find_active db (project_id t) (source_path t) (submission_key_of t) = None"
    and "insert_created db (first_revision t) = Inr db1"
    by (auto simp: CreateTaskIdempotent_def Let_def split: if_splits option.splits sum.splits)
  with find_active_after_insert [of db "first_revision t" db1] assms(2-5) show ?thesis
    by (simp add: CreateTaskIdempotent_def Let_def)
qed

lemma sample_CreateTaskIdempotent:
  "CreateTaskIdempotent sample_store sample_task False =
     (Inr None, first_revision sample_task, sample_created)"
  by (simp add: CreateTaskIdempotent_def find_active_def History_def source_rows_def sort_desc_def
      submission_key_of_def insert_created_def insertTask_def insertEvent_def created_event_def
      find_row_def sample_store_def sample_created_def BindProject_def empty_store_def
      project_bound_def first_revision_def sample_task_def Let_def encodeTask_def)

theorem create_is_idempotent_witness:
  "CreateTaskIdempotent sample_created (sample_task\<lparr>task_id := ''t2''\<rparr>) False =
     (Inr (Some (stored (first_revision sample_task))),
      first_revision (sample_task\<lparr>task_id := ''t2''\<rparr>), sample_created)"
  by (rule create_is_idempotent [OF sample_CreateTaskIdempotent])
    (simp_all add: sample_task_def submission_key_of_def)

lemma insert_all_events:
  "insert_all db ts = Inr db' \<Longrightarrow> task_events db' = task_events db @ map created_event ts"
  by (induction db ts rule: insert_all.induct)
    (auto simp: insert_created_def insertTask_def insertEvent_def split: sum.splits if_splits)

lemma insert_all_distinct:
  "insert_all db ts = Inr db' \<Longrightarrow> store_ok db \<Longrightarrow> distinct (map task_id ts)"
proof (induction db ts rule: insert_all.induct)
  case (1 db)
  then show ?case by simp
next
  case (2 db t ts)
  then obtain d where d: "insert_created db t = Inr d" "insert_all d ts = Inr db'"
    by (auto split: sum.splits)
  note ok = insert_created_ok(1) [OF d(1) 2(3)]
  have "find_row d (task_id t) \<noteq> None" using insert_created_ok(3) [OF d(1) 2(3), of "task_id t"] by simp
  with 2(1) [OF d ok] insert_all_find [OF d(2) ok] show ?case by auto
qed

lemma filter_created_events:
  "distinct (map task_id ts) \<Longrightarrow> t \<in> set ts \<Longrightarrow>
   filter (\<lambda>e. ev_task e = task_id t) (map created_event ts) = [created_event t]"
proof (induction ts)
  case (Cons a ts)
  show ?case
  proof (cases "t = a")
    case True
    have "filter (\<lambda>e. ev_task e = task_id t) (map created_event ts) = []"
      using Cons.prems(1) True by (auto simp: filter_empty_conv created_event_def image_iff)
    with True show ?thesis by (simp, simp add: created_event_def)
  next
    case False
    then have "task_id a \<noteq> task_id t" "t \<in> set ts" using Cons.prems by auto
    with Cons show ?thesis by (simp add: created_event_def)
  qed
qed simp

text \<open>
  Batch creation is all or nothing. \<open>CreateTasks\<close> either fails and leaves the store
  as it was, or every task of the batch can be read back with the values it was created
  with, none of them existed before, and its history is the one \<open>TASK_CREATED\<close> event.
\<close>

theorem create_tasks_atomic:
  assumes "store_ok db" and "CreateTasks db ts = (r, ts', db')"
  shows "(case r of Inl e \<Rightarrow> db' = db
     | Inr _ \<Rightarrow> (\<forall>t\<in>set ts'. find_row db (task_id t) = None \<and>
         GetTask db' (task_id t) = Inr (stored t) \<and> Events db' (task_id t) = Inr [created_event t]))"
proof (cases r)
  case (Inl e)
  with assms show ?thesis by (auto simp: CreateTasks_def Let_def split: if_splits sum.splits)
next
  case (Inr u)
  show ?thesis
  proof (cases "ts = []")
    case True
    with assms Inr show ?thesis by (simp add: CreateTasks_def)
  next
    case False
    then have ins: "insert_all db ts' = Inr db'"
      using assms Inr by (auto simp: CreateTasks_def Let_def split: sum.splits)
    note f = insert_all_find [OF ins assms(1)]
    have old: "filter (\<lambda>e. ev_task e = task_id t) (task_events db) = []" if "t \<in> set ts'" for t
      using f that assms(1) by (auto simp: filter_empty_conv store_ok_def)
    have "Events db' (task_id t) = Inr [created_event t]" if "t \<in> set ts'" for t
      using f that old [OF that] filter_created_events [OF insert_all_distinct [OF ins assms(1)] that]
      by (auto simp: Events_def GetTask_def insert_all_events [OF ins])
    with f Inr show ?thesis by (auto simp: GetTask_def stored_def)
  qed
qed

theorem create_tasks_atomic_witness:
  "GetTask sample_created ''t1'' = Inr (stored (first_revision sample_task))"
proof -
  have "task_id (first_revision sample_task) = ''t1''" by (simp add: sample_task_def)
  with create_tasks_atomic [OF sample_store_ok(1) sample_CreateTasks] show ?thesis by auto
qed

lemma update_all_result:
  assumes "update_all db now prs = Inr (ns, db')" and "store_ok db"
    and "distinct (map (\<lambda>(t, e). task_id t) prs)"
  shows "ns = map (\<lambda>(t, e). revision t + 1) prs \<and>
    task_events db' = task_events db @ map (\<lambda>(t, e). complete_event t now e) prs \<and>
    (\<forall>(t, e)\<in>set prs. find_row db' (task_id t) = Some (encodeTask (t\<lparr>revision := revision t + 1\<rparr>))) \<and>
    (\<forall>i. i \<notin> set (map (\<lambda>(t, e). task_id t) prs) \<longrightarrow> find_row db' i = find_row db i)"
  using assms
proof (induction db now prs arbitrary: ns rule: update_all.induct)
  case (1 db now)
  then show ?case by auto
next
  case (2 db now t e rest)
  then obtain n d m where d: "updateTaskRecord db t (Some (complete_event t now e)) = Inr (n, d)"
      "update_all d now rest = Inr (m, db')" "ns = n # m"
    by (auto split: sum.splits prod.splits)
  note u = updateTaskRecord_cases [OF d(1) 2(3)]
  have "distinct (map (\<lambda>(t, e). task_id t) rest)" and new: "task_id t \<notin> set (map (\<lambda>(t, e). task_id t) rest)"
    using 2(4) by simp_all
  note ih = 2(1) [OF d(1) refl d(2) u(1) this(1)]
  have row: "find_row db' (task_id t) = Some (encodeTask (t\<lparr>revision := n\<rparr>))"
    using ih new u(5) [of "task_id t"] by simp
  have other: "i \<notin> set (map (\<lambda>(t, e). task_id t) ((t, e) # rest)) \<Longrightarrow> find_row db' i = find_row db i" for i
    using ih u(5) [of i] by simp
  show ?case
    using ih row other u(3,6) d(3) by simp
qed

lemma UpdateTasksWithEvents_committed:
  assumes "store_ok db" and "distinct (map task_id ts)" and "UpdateTasksWithEvents db now ts es = (Inr (), ts', db')"
  shows "ts' = map (\<lambda>t. t\<lparr>revision := revision t + 1\<rparr>) ts" and "store_ok db'" and "store_extends db db'"
    and "ts = [] \<or> length es = length ts"
    and "\<forall>t\<in>set ts. find_row db' (task_id t) = Some (encodeTask (t\<lparr>revision := revision t + 1\<rparr>))"
    and "i \<notin> task_id ` set ts \<Longrightarrow> find_row db' i = find_row db i"
    and "ts \<noteq> [] \<Longrightarrow> task_events db' = task_events db @ map2 (\<lambda>t e. complete_event t now e) ts es"
proof -
  have "ts' = map (\<lambda>t. t\<lparr>revision := revision t + 1\<rparr>) ts \<and> store_ok db' \<and> store_extends db db' \<and>
    (ts = [] \<or> length es = length ts) \<and>
    (\<forall>t\<in>set ts. find_row db' (task_id t) = Some (encodeTask (t\<lparr>revision := revision t + 1\<rparr>))) \<and>
    (i \<notin> task_id ` set ts \<longrightarrow> find_row db' i = find_row db i) \<and>
    (ts \<noteq> [] \<longrightarrow> task_events db' = task_events db @ map2 (\<lambda>t e. complete_event t now e) ts es)"
  proof (cases "ts = []")
    case True
    with assms show ?thesis by (auto simp: UpdateTasksWithEvents_def)
  next
    case False
    with assms(3) obtain ns where len: "length es = length ts" and ua: "update_all db now (zip ts es) = Inr (ns, db')"
      and ts': "ts' = map2 (\<lambda>t n. t\<lparr>revision := n\<rparr>) ts ns"
      by (auto simp: UpdateTasksWithEvents_def split: if_splits sum.splits prod.splits)
    have fst: "map (\<lambda>(t, e). f t) (zip ts es) = map f ts" for f :: "task \<Rightarrow> 'x"
      using len by (intro nth_equalityI) auto
    have dist: "distinct (map (\<lambda>(t, e). task_id t) (zip ts es))" using assms(2) fst [of task_id] by simp
    note u = update_all_result [OF ua assms(1) dist]
    have ns: "ns = map (\<lambda>t. revision t + 1) ts" using u fst [of "\<lambda>t. revision t + 1"] by simp
    have mem: "\<exists>e. (t, e) \<in> set (zip ts es)" if "t \<in> set ts" for t
      using that len by (metis in_set_impl_in_set_zip1)
    have "find_row db' (task_id t) = Some (encodeTask (t\<lparr>revision := revision t + 1\<rparr>))" if "t \<in> set ts" for t
      using u mem [OF that] by blast
    moreover have "find_row db' i = find_row db i" if "i \<notin> task_id ` set ts"
      using u that fst [of task_id] by (metis set_map)
    moreover have "ts' = map (\<lambda>t. t\<lparr>revision := revision t + 1\<rparr>) ts" unfolding ts' ns by (auto intro: nth_equalityI)
    ultimately show ?thesis using len u update_all_ok [OF ua assms(1)] by simp
  qed
  then show "ts' = map (\<lambda>t. t\<lparr>revision := revision t + 1\<rparr>) ts" "store_ok db'" "store_extends db db'"
    "ts = [] \<or> length es = length ts"
    "\<forall>t\<in>set ts. find_row db' (task_id t) = Some (encodeTask (t\<lparr>revision := revision t + 1\<rparr>))"
    "i \<notin> task_id ` set ts \<Longrightarrow> find_row db' i = find_row db i"
    "ts \<noteq> [] \<Longrightarrow> task_events db' = task_events db @ map2 (\<lambda>t e. complete_event t now e) ts es"
    by blast+
qed

lemma UpdateTasksWithEvents_failed:
  "UpdateTasksWithEvents db now ts es = (Inl e, ts', db') \<Longrightarrow> db' = db \<and> ts' = ts"
  by (auto simp: UpdateTasksWithEvents_def split: if_splits sum.splits)

text \<open>
  \<open>UpdateTasksWithEvents\<close>, the one transaction of a batched scheduler refresh, is all
  or nothing for distinct tasks: it fails and leaves the store as it was, or every task is
  stored with the next revision, the rows of all other tasks are as before, and exactly
  the given events are appended, in order.
\<close>

theorem batch_update_atomic:
  assumes "store_ok db" and "distinct (map task_id ts)"
    and "UpdateTasksWithEvents db now ts es = (r, ts', db')"
  shows "(case r of Inl e \<Rightarrow> db' = db \<and> ts' = ts
     | Inr _ \<Rightarrow> (ts = [] \<or> length es = length ts) \<and>
         ts' = map (\<lambda>t. t\<lparr>revision := revision t + 1\<rparr>) ts \<and>
         (\<forall>t\<in>set ts'. GetTask db' (task_id t) = Inr (stored t)) \<and>
         (\<forall>i. i \<notin> task_id ` set ts \<longrightarrow> GetTask db' i = GetTask db i) \<and>
         (ts \<noteq> [] \<longrightarrow> task_events db' = task_events db @ map2 (\<lambda>t e. complete_event t now e) ts es))"
proof (cases r)
  case (Inl e)
  with assms(3) UpdateTasksWithEvents_failed [of db now ts es e ts' db'] show ?thesis by simp
next
  case (Inr u)
  with assms(3) have "UpdateTasksWithEvents db now ts es = (Inr (), ts', db')" by simp
  note c = UpdateTasksWithEvents_committed [OF assms(1,2) this]
  have "GetTask db' (task_id t) = Inr (stored t)" if "t \<in> set ts'" for t
    using c(1,5) that by (auto simp: GetTask_def stored_def)
  moreover have "GetTask db' i = GetTask db i" if "i \<notin> task_id ` set ts" for i
    using c(6) [OF that] by (simp add: GetTask_def)
  ultimately show ?thesis using Inr c(1,4,7) by simp
qed

definition sample_refresh :: "(go_error, unit) result \<times> task list \<times> store" where
  "sample_refresh = UpdateTasksWithEvents sample_created 5 [first_revision sample_task]
     [\<lparr>ev_task = [], ev_type = ''STATUS_REFRESHED'', ev_stage = ''status'', ev_data = Map.empty,
       ev_created = 0\<rparr>]"

lemma sample_refresh_succeeds: "fst sample_refresh = Inr ()"
  by (simp add: sample_refresh_def UpdateTasksWithEvents_def updateTaskRecord_def sample_created_def
      sample_store_def BindProject_def empty_store_def project_bound_def first_revision_def
      sample_task_def Let_def encodeTask_def rows_where_def insertEvent_def find_row_def
      complete_event_def is_zero_time_def)

theorem batch_update_atomic_witness:
  "\<exists>r ts' db'. sample_refresh = (r, ts', db') \<and> (\<forall>t\<in>set ts'. GetTask db' (task_id t) = Inr (stored t))"
proof -
  obtain ts' db' where u: "sample_refresh = (Inr (), ts', db')"
    using sample_refresh_succeeds by (metis prod.collapse)
  from batch_update_atomic [OF sample_created_ok _ u [unfolded sample_refresh_def]] u show ?thesis
    by auto
qed

end
