(* ===== verification/Store_Operations.thy ===== *)
theory Store_Operations
  imports Store_Tasks
begin

text \<open>
  The operation half of the store, \<open>internal/store/operations.go\<close>: admission with a
  unique deduplication key, the claim of the next due operation under a lease, the writes
  that only the owner of the lease may do, and the rows of per-task progress. Every
  function that reads the clock takes the instant as an argument. Timestamps are compared
  as the texts SQLite holds.
\<close>

section \<open>Constraint errors\<close>

text \<open>SQLite reports a violated constraint by one of these messages.\<close>

definition unique_violation :: go_error where
  "unique_violation = PlainError ''UNIQUE constraint failed''"

definition foreign_violation :: go_error where
  "foreign_violation = PlainError ''FOREIGN KEY constraint failed''"

definition isUniqueViolation :: "go_error \<Rightarrow> bool" where
  "isUniqueViolation e = (let value = to_lower (error_text e)
     in contains value ''unique'' \<or> contains value ''constraint failed'')"

section \<open>Admission\<close>

definition find_operation :: "store \<Rightarrow> string \<Rightarrow> operation option" where
  "find_operation db i = find (\<lambda>r. op_id r = i) (operations db)"

definition insertOperation :: "store \<Rightarrow> operation \<Rightarrow> (go_error, store) result" where
  "insertOperation db op =
     (if find_operation db (op_id op) \<noteq> None
       \<or> dedup_key op \<noteq> [] \<and> (\<exists>r\<in>set (operations db). op_kind r = op_kind op \<and> dedup_key r = dedup_key op)
      then Inl unique_violation
      else if \<not> project_bound db (op_project op) then Inl foreign_violation
      else Inr (db\<lparr>operations := operations db @ [op]\<rparr>))"

definition AppendOperationEvent ::
    "store \<Rightarrow> time \<Rightarrow> string \<Rightarrow> operation_state \<Rightarrow> string \<Rightarrow> (go_error, unit) result \<times> store" where
  "AppendOperationEvent db now i state stage =
     (if find_operation db i = None
      then (Inl (fault_wrap ''DATABASE_FAILED'' [] True foreign_violation), db)
      else (Inr (), db\<lparr>operation_events := operation_events db @
             [\<lparr>oe_operation = i, oe_state = state, oe_stage = stage, oe_created = now\<rparr>]\<rparr>))"

text \<open>The defaults \<open>CreateOperation\<close> fills in before the insertion.\<close>

definition with_defaults :: "time \<Rightarrow> operation \<Rightarrow> operation" where
  "with_defaults now op =
     (let a = (if is_zero_time (op_created_at op) then op\<lparr>op_created_at := now\<rparr> else op);
          b = (if is_zero_time (op_updated_at a) then a\<lparr>op_updated_at := op_created_at a\<rparr> else a);
          c = (if op_state b = OperationOther [] then b\<lparr>op_state := OperationQueued\<rparr> else b);
          d = (if op_stage c = [] then c\<lparr>op_stage := ''queued''\<rparr> else c);
          e = (if op_payload d = [] then d\<lparr>op_payload := ''{}''\<rparr> else d)
      in if op_result e = [] then e\<lparr>op_result := ''{}''\<rparr> else e)"

definition CreateOperation ::
    "store \<Rightarrow> time \<Rightarrow> operation \<Rightarrow> (go_error, unit) result \<times> operation \<times> store" where
  "CreateOperation db now op =
     (if op_id op = [] \<or> op_kind op = [] \<or> op_project op = []
      then (Inl (fault_new ''OPERATION_INVALID'' False), op, db)
      else let op' = with_defaults now op
        in case insertOperation db op' of
             Inl e \<Rightarrow> (Inl (if isUniqueViolation e then fault_wrap ''OPERATION_DUPLICATE'' [] False e
                            else fault_wrap ''DATABASE_FAILED'' [] True e), op', db)
           | Inr db1 \<Rightarrow> (case AppendOperationEvent db1 now (op_id op') (op_state op') (op_stage op') of
                 (r, db2) \<Rightarrow> (r, op', db2)))"

section \<open>Reading\<close>

definition GetOperation :: "store \<Rightarrow> string \<Rightarrow> (go_error, operation) result" where
  "GetOperation db i = (case find_operation db i of
     None \<Rightarrow> Inl (fault_new ''OPERATION_NOT_FOUND'' False) | Some op \<Rightarrow> Inr op)"

definition FindOperationByDedup :: "store \<Rightarrow> string \<Rightarrow> string \<Rightarrow> operation option" where
  "FindOperationByDedup db kind key =
     (if kind = [] \<or> key = [] then None
      else case sort_desc (\<lambda>r. fmt_time (op_created_at r))
             (filter (\<lambda>r. op_kind r = kind \<and> dedup_key r = key) (operations db)) of
        [] \<Rightarrow> None | r # _ \<Rightarrow> Some r)"

definition ListOperations :: "store \<Rightarrow> string \<Rightarrow> operation list" where
  "ListOperations db pid =
     sort_desc (\<lambda>r. fmt_time (op_created_at r))
       (if pid \<noteq> [] then filter (\<lambda>r. op_project r = pid) (operations db) else operations db)"

definition OperationTasks :: "store \<Rightarrow> string \<Rightarrow> (go_error, operation_task list) result" where
  "OperationTasks db i =
     (if i = [] then Inl (fault_new ''OPERATION_INVALID'' False)
      else Inr (sort_key ot_ordinal (filter (\<lambda>r. ot_operation r = i) (operation_tasks db))))"

section \<open>Progress rows\<close>

definition insertOperationTask :: "store \<Rightarrow> operation_task \<Rightarrow> (go_error, store) result" where
  "insertOperationTask db t =
     (if \<exists>r\<in>set (operation_tasks db). ot_operation r = ot_operation t \<and>
           (ot_task r = ot_task t \<or> ot_ordinal r = ot_ordinal t)
      then Inl unique_violation
      else if find_operation db (ot_operation t) = None \<or> find_row db (ot_task t) = None
      then Inl foreign_violation
      else Inr (db\<lparr>operation_tasks := operation_tasks db @ [t]\<rparr>))"

definition complete_relation :: "string \<Rightarrow> nat \<Rightarrow> operation_task \<Rightarrow> operation_task" where
  "complete_relation i index t =
     (let a = (if ot_operation t = [] then t\<lparr>ot_operation := i\<rparr> else t);
          b = (if ot_ordinal a = 0 \<and> index > 0 then a\<lparr>ot_ordinal := int index\<rparr> else a);
          c = (if ot_state b = [] then b\<lparr>ot_state := ''pending''\<rparr> else b)
      in if ot_result c = [] then c\<lparr>ot_result := ''{}''\<rparr> else c)"

fun insert_relations :: "store \<Rightarrow> string \<Rightarrow> nat \<Rightarrow> operation_task list \<Rightarrow> (go_error, store) result" where
  "insert_relations db i index [] = Inr db"
| "insert_relations db i index (t # ts) =
     (let t' = complete_relation i index t
      in if ot_operation t' \<noteq> i \<or> ot_task t' = [] then Inl (fault_new ''OPERATION_INVALID'' False)
         else case insertOperationTask db t' of
             Inl e \<Rightarrow> Inl (fault_wrap ''DATABASE_FAILED'' [] True e)
           | Inr db' \<Rightarrow> insert_relations db' i (index + 1) ts)"

definition ReplaceOperationTasks ::
    "store \<Rightarrow> string \<Rightarrow> operation_task list \<Rightarrow> (go_error, unit) result \<times> store" where
  "ReplaceOperationTasks db i ts =
     (if i = [] then (Inl (fault_new ''OPERATION_INVALID'' False), db)
      else case insert_relations
             (db\<lparr>operation_tasks := filter (\<lambda>r. ot_operation r \<noteq> i) (operation_tasks db)\<rparr>) i 0 ts of
        Inl e \<Rightarrow> (Inl e, db) | Inr db' \<Rightarrow> (Inr (), db'))"

section \<open>Claims and leases\<close>

definition lease_expired :: "time \<Rightarrow> operation \<Rightarrow> bool" where
  "lease_expired now r \<longleftrightarrow> op_state r = OperationRunning \<and>
     (case lease_expires_at r of None \<Rightarrow> False | Some t \<Rightarrow> fmt_time t < fmt_time now)"

definition reclaim :: "time \<Rightarrow> operation list \<Rightarrow> operation list" where
  "reclaim now = update_where (lease_expired now)
     (\<lambda>r. r\<lparr>op_state := OperationQueued, lease_owner := [], lease_expires_at := None, op_updated_at := now\<rparr>)"

definition due :: "time \<Rightarrow> operation \<Rightarrow> bool" where
  "due now r \<longleftrightarrow> op_state r = OperationQueued \<and>
     (case next_attempt_at r of None \<Rightarrow> True | Some t \<Rightarrow> fmt_time t \<le> fmt_time now)"

definition unblocked :: "string list \<Rightarrow> operation \<Rightarrow> bool" where
  "unblocked blocked r \<longleftrightarrow> (let keys = filter (\<lambda>k. k \<noteq> []) blocked
     in keys = [] \<or> cluster_key r = [] \<or> cluster_key r \<notin> set keys)"

definition claimed :: "time \<Rightarrow> time \<Rightarrow> string \<Rightarrow> operation \<Rightarrow> operation" where
  "claimed now lease owner op = op\<lparr>op_state := OperationRunning, lease_owner := owner,
     lease_expires_at := Some (now + lease), started_at := Some now,
     op_attempt := op_attempt op + 1, op_updated_at := now\<rparr>"

definition claimable :: "store \<Rightarrow> time \<Rightarrow> string list \<Rightarrow> operation list" where
  "claimable db now blocked = sort_key (\<lambda>r. fmt_time (op_created_at r))
     (filter (\<lambda>r. due now r \<and> unblocked blocked r) (reclaim now (operations db)))"

definition ClaimNextOperationExcept ::
    "store \<Rightarrow> time \<Rightarrow> string \<Rightarrow> time \<Rightarrow> string list \<Rightarrow> (go_error, operation option) result \<times> store" where
  "ClaimNextOperationExcept db now owner lease blocked =
     (if owner = [] then (Inl (fault_new ''OPERATION_INVALID'' False), db)
      else case claimable db now blocked of
        [] \<Rightarrow> (Inr None, db)
      | op # _ \<Rightarrow> (let op' = claimed now lease owner op
          in (Inr (Some op'), db\<lparr>operations :=
               update_where (\<lambda>r. op_id r = op_id op \<and> op_state r = OperationQueued)
                 (\<lambda>r. r\<lparr>op_state := op_state op', op_stage := op_stage op', op_attempt := op_attempt op',
                   lease_owner := lease_owner op', lease_expires_at := lease_expires_at op',
                   started_at := started_at op', op_updated_at := now\<rparr>)
                 (reclaim now (operations db))\<rparr>)))"

definition ClaimNextOperation ::
    "store \<Rightarrow> time \<Rightarrow> string \<Rightarrow> time \<Rightarrow> (go_error, operation option) result \<times> store" where
  "ClaimNextOperation db now owner lease = ClaimNextOperationExcept db now owner lease []"

section \<open>Updates\<close>

text \<open>\<open>operationUpdateValues\<close>: the columns an update writes.\<close>

definition write_values :: "operation \<Rightarrow> operation \<Rightarrow> operation" where
  "write_values op r = r\<lparr>op_state := op_state op, op_stage := op_stage op, op_payload := op_payload op,
     op_result := op_result op, op_attempt := op_attempt op, max_attempts := max_attempts op,
     retry_deadline_at := retry_deadline_at op, next_attempt_at := next_attempt_at op,
     lease_owner := lease_owner op, lease_expires_at := lease_expires_at op,
     error_code := error_code op, error_message := error_message op, op_retryable := op_retryable op,
     started_at := started_at op, op_updated_at := op_updated_at op, finished_at := finished_at op\<rparr>"

definition touch :: "time \<Rightarrow> operation \<Rightarrow> operation" where
  "touch now op = (if is_zero_time (op_updated_at op) then op\<lparr>op_updated_at := now\<rparr> else op)"

text \<open>One SQL \<open>UPDATE operations SET ... WHERE ...\<close> with the error for no matching row.\<close>

definition update_operations ::
    "store \<Rightarrow> (operation \<Rightarrow> bool) \<Rightarrow> (operation \<Rightarrow> operation) \<Rightarrow> go_error \<Rightarrow>
     (go_error, unit) result \<times> store" where
  "update_operations db hit f none =
     (if rows_where hit (operations db) = 0 then (Inl none, db)
      else (Inr (), db\<lparr>operations := update_where hit f (operations db)\<rparr>))"

definition UpdateOperation ::
    "store \<Rightarrow> time \<Rightarrow> operation \<Rightarrow> (go_error, unit) result \<times> store" where
  "UpdateOperation db now op =
     (if op_id op = [] then (Inl (fault_new ''OPERATION_INVALID'' False), db)
      else update_operations db (\<lambda>r. op_id r = op_id op) (write_values (touch now op))
             (fault_new ''OPERATION_NOT_FOUND'' False))"

definition owned :: "string \<Rightarrow> string \<Rightarrow> operation \<Rightarrow> bool" where
  "owned i owner r \<longleftrightarrow> op_id r = i \<and> op_state r = OperationRunning \<and> lease_owner r = owner"

definition UpdateOperationOwned ::
    "store \<Rightarrow> time \<Rightarrow> operation \<Rightarrow> string \<Rightarrow> (go_error, unit) result \<times> store" where
  "UpdateOperationOwned db now op owner =
     (if op_id op = [] \<or> owner = [] then (Inl (fault_new ''OPERATION_INVALID'' False), db)
      else update_operations db (owned (op_id op) owner) (write_values (touch now op))
             (fault_new ''OPERATION_LEASE_LOST'' True))"

definition RenewOperationLease ::
    "store \<Rightarrow> time \<Rightarrow> string \<Rightarrow> string \<Rightarrow> time \<Rightarrow> (go_error, unit) result \<times> store" where
  "RenewOperationLease db now i owner expires =
     (if i = [] \<or> owner = [] then (Inl (fault_new ''OPERATION_INVALID'' False), db)
      else update_operations db (owned i owner)
             (\<lambda>r. r\<lparr>lease_expires_at := Some expires, op_updated_at := now\<rparr>)
             (fault_new ''OPERATION_LEASE_LOST'' True))"

definition RequeueOwnedOperation ::
    "store \<Rightarrow> time \<Rightarrow> string \<Rightarrow> string \<Rightarrow> (go_error, unit) result \<times> store" where
  "RequeueOwnedOperation db now i owner =
     (if i = [] \<or> owner = [] then (Inl (fault_new ''OPERATION_INVALID'' False), db)
      else update_operations db (owned i owner)
             (\<lambda>r. r\<lparr>op_state := OperationQueued, op_stage := ''queued'', op_retryable := True,
                next_attempt_at := None, lease_owner := [], lease_expires_at := None,
                error_code := [], error_message := [], op_updated_at := now\<rparr>)
             (fault_new ''OPERATION_LEASE_LOST'' True))"

section \<open>The invariant of the operation tables\<close>

text \<open>The columns of an operation that no update writes.\<close>

definition op_identity :: "operation \<Rightarrow> string \<times> string \<times> string \<times> string \<times> string \<times> time" where
  "op_identity r = (op_id r, op_kind r, op_project r, cluster_key r, dedup_key r, op_created_at r)"

definition identities :: "store \<Rightarrow> (string \<times> string \<times> string \<times> string \<times> string \<times> time) list" where
  "identities db = map op_identity (operations db)"

definition known_operation :: "store \<Rightarrow> string \<Rightarrow> bool" where
  "known_operation db i \<longleftrightarrow> (\<exists>x\<in>set (identities db). fst x = i)"

definition operations_ok :: "store \<Rightarrow> bool" where
  "operations_ok db \<longleftrightarrow>
     distinct (map fst (identities db)) \<and>
     distinct (map (\<lambda>(i, k, p, c, d, t). (k, d)) (filter (\<lambda>(i, k, p, c, d, t). d \<noteq> []) (identities db))) \<and>
     (\<forall>(i, k, p, c, d, t)\<in>set (identities db). project_bound db p) \<and>
     (\<forall>e\<in>set (operation_events db). known_operation db (oe_operation e)) \<and>
     (\<forall>r\<in>set (operation_tasks db). known_operation db (ot_operation r) \<and> find_row db (ot_task r) \<noteq> None) \<and>
     distinct (map (\<lambda>r. (ot_operation r, ot_task r)) (operation_tasks db)) \<and>
     distinct (map (\<lambda>r. (ot_operation r, ot_ordinal r)) (operation_tasks db))"

lemma fst_op_identity [simp]: "fst (op_identity r) = op_id r"
  by (simp add: op_identity_def)

lemma fst_identities: "map fst (identities db) = map op_id (operations db)"
  by (simp add: identities_def)

lemma find_operation_Some: "find_operation db i = Some r \<Longrightarrow> r \<in> set (operations db) \<and> op_id r = i"
  unfolding find_operation_def by (drule find_Some_mem) simp

lemma find_operation_None: "find_operation db i = None \<longleftrightarrow> \<not> known_operation db i"
  by (auto simp: find_operation_def find_None_all identities_def known_operation_def)

lemma operations_ok_distinct: "operations_ok db \<Longrightarrow> distinct (map op_id (operations db))"
  by (simp add: operations_ok_def fst_identities)

lemma find_operation_mem:
  "operations_ok db \<Longrightarrow> r \<in> set (operations db) \<Longrightarrow> find_operation db (op_id r) = Some r"
  unfolding find_operation_def by (rule find_unique [OF operations_ok_distinct])

text \<open>An update that keeps the identity columns keeps the invariant.\<close>

definition keeps_identity :: "(operation \<Rightarrow> operation) \<Rightarrow> bool" where
  "keeps_identity f \<longleftrightarrow> (\<forall>r. op_identity (f r) = op_identity r)"

lemma keeps_identity_id: "keeps_identity f \<Longrightarrow> op_id (f r) = op_id r"
  by (simp add: keeps_identity_def op_identity_def)

lemma keeps_identity_intros [intro, simp]:
  "keeps_identity (write_values op)"
  "keeps_identity (\<lambda>r. r\<lparr>op_state := a, op_stage := b, op_attempt := c, lease_owner := d,
     lease_expires_at := e, started_at := g, op_updated_at := h\<rparr>)"
  "keeps_identity (\<lambda>r. r\<lparr>lease_expires_at := e, op_updated_at := h\<rparr>)"
  "keeps_identity (\<lambda>r. r\<lparr>op_state := a, lease_owner := d, lease_expires_at := e, op_updated_at := h\<rparr>)"
  "keeps_identity (\<lambda>r. r\<lparr>op_state := a, op_stage := b, op_retryable := rt, next_attempt_at := n,
     lease_owner := d, lease_expires_at := e, error_code := ec, error_message := em, op_updated_at := h\<rparr>)"
  by (simp_all add: keeps_identity_def op_identity_def write_values_def)

lemma identities_update_where:
  "keeps_identity f \<Longrightarrow> map op_identity (update_where P f xs) = map op_identity xs"
  by (rule map_update_where) (simp add: keeps_identity_def)

lemma project_bound_operations [simp]:
  "project_bound (db\<lparr>operations := x\<rparr>) p = project_bound db p"
  "project_bound (db\<lparr>operation_events := y\<rparr>) p = project_bound db p"
  "project_bound (db\<lparr>operation_tasks := z\<rparr>) p = project_bound db p"
  by (simp_all add: project_bound_def)

lemma find_row_operations [simp]:
  "find_row (db\<lparr>operations := x\<rparr>) i = find_row db i"
  "find_row (db\<lparr>operation_events := y\<rparr>) i = find_row db i"
  "find_row (db\<lparr>operation_tasks := z\<rparr>) i = find_row db i"
  by (simp_all add: find_row_def)

lemma identities_upd [simp]:
  "identities (db\<lparr>operation_events := y\<rparr>) = identities db"
  "identities (db\<lparr>operation_tasks := z\<rparr>) = identities db"
  by (simp_all add: identities_def)

lemma known_operation_upd [simp]:
  "known_operation (db\<lparr>operation_events := y\<rparr>) i = known_operation db i"
  "known_operation (db\<lparr>operation_tasks := z\<rparr>) i = known_operation db i"
  by (simp_all add: known_operation_def)

lemma operations_ok_same:
  assumes "identities db' = identities db" and "operation_events db' = operation_events db"
    and "operation_tasks db' = operation_tasks db" and "\<And>p. project_bound db p \<Longrightarrow> project_bound db' p"
    and "\<And>i. find_row db i \<noteq> None \<Longrightarrow> find_row db' i \<noteq> None" and "operations_ok db"
  shows "operations_ok db'"
  using assms(4-6) unfolding operations_ok_def known_operation_def assms(1-3) by fast

lemma operations_ok_update:
  assumes "operations_ok db" and "map op_identity xs = map op_identity (operations db)"
  shows "operations_ok (db\<lparr>operations := xs\<rparr>)"
  by (rule operations_ok_same [OF _ _ _ _ _ assms(1)]) (use assms(2) in \<open>simp_all add: identities_def\<close>)

lemma update_operations_ok:
  assumes "update_operations db hit f none = (r, db')" and "keeps_identity f"
  shows "identities db' = identities db" and "operations_ok db \<Longrightarrow> operations_ok db'"
    and "\<exists>xs. db' = db\<lparr>operations := xs\<rparr>"
    and "find_operation db' i = map_option (\<lambda>x. if hit x \<and> r = Inr () then f x else x) (find_operation db i)"
proof -
  note m = identities_update_where [OF assms(2), of hit "operations db"]
  show "identities db' = identities db"
    using assms m by (auto simp: update_operations_def identities_def split: if_splits)
  show "operations_ok db \<Longrightarrow> operations_ok db'"
    using assms m operations_ok_update by (auto simp: update_operations_def split: if_splits)
  show "\<exists>xs. db' = db\<lparr>operations := xs\<rparr>"
    using assms(1) by (auto simp: update_operations_def split: if_splits) (metis store.surjective store.update_convs(4))
  have "find_operation (db\<lparr>operations := update_where hit f (operations db)\<rparr>) i =
    map_option (\<lambda>x. if hit x then f x else x) (find_operation db i)"
    unfolding find_operation_def by (simp, subst find_update_where) (auto simp: keeps_identity_id [OF assms(2)])
  moreover have "find_operation db i = map_option (\<lambda>x. x) (find_operation db i)"
    by (cases "find_operation db i") simp_all
  ultimately show "find_operation db' i =
      map_option (\<lambda>x. if hit x \<and> r = Inr () then f x else x) (find_operation db i)"
    using assms(1) by (auto simp: update_operations_def split: if_splits)
qed

lemma insertOperation_ok:
  assumes "insertOperation db op = Inr db'" and "operations_ok db"
  shows "operations_ok db'"
proof -
  have db': "db' = db\<lparr>operations := operations db @ [op]\<rparr>"
    and new: "\<not> known_operation db (op_id op)"
    and dd: "dedup_key op = [] \<or> (\<forall>r\<in>set (operations db). op_kind r = op_kind op \<longrightarrow> dedup_key r \<noteq> dedup_key op)"
    and pb: "project_bound db (op_project op)"
    using assms(1) by (auto simp: insertOperation_def find_operation_None split: if_splits)
  have ids: "identities db' = identities db @ [op_identity op]"
    by (simp add: db' identities_def)
  have key: "(op_kind op, dedup_key op) \<notin>
      set (map (\<lambda>(i, k, p, c, d, t). (k, d)) (filter (\<lambda>(i, k, p, c, d, t). d \<noteq> []) (identities db)))"
    if "dedup_key op \<noteq> []"
    using dd that by (auto simp: identities_def op_identity_def)
  have a: "distinct (map fst (identities db'))"
    using assms(2) new unfolding ids operations_ok_def known_operation_def by auto
  have b: "distinct (map (\<lambda>(i, k, p, c, d, t). (k, d)) (filter (\<lambda>(i, k, p, c, d, t). d \<noteq> []) (identities db')))"
    using assms(2) key unfolding ids operations_ok_def by (auto simp: op_identity_def)
  have known: "known_operation db j \<Longrightarrow> known_operation db' j" for j
    by (auto simp: known_operation_def ids)
  show ?thesis
    using assms(2) a b pb known unfolding operations_ok_def ids
    by (auto simp: db' op_identity_def)
qed

lemma AppendOperationEvent_ok:
  "AppendOperationEvent db now i st sg = (r, db') \<Longrightarrow> operations_ok db \<Longrightarrow> operations_ok db'"
  by (auto simp: AppendOperationEvent_def operations_ok_def find_operation_None split: if_splits)

lemma AppendOperationEvent_frame:
  "AppendOperationEvent db now i st sg = (r, db') \<Longrightarrow>
   operations db' = operations db \<and> tasks db' = tasks db \<and> operation_tasks db' = operation_tasks db"
  by (auto simp: AppendOperationEvent_def split: if_splits)

lemma insertOperationTask_ok:
  assumes "insertOperationTask db t = Inr d" and "operations_ok db"
  shows "operations_ok d" and "d = db\<lparr>operation_tasks := operation_tasks db @ [t]\<rparr>"
proof -
  show d: "d = db\<lparr>operation_tasks := operation_tasks db @ [t]\<rparr>"
    using assms(1) by (auto simp: insertOperationTask_def split: if_splits)
  have fresh: "(ot_operation t, ot_task t) \<notin> (\<lambda>r. (ot_operation r, ot_task r)) ` set (operation_tasks db)"
    "(ot_operation t, ot_ordinal t) \<notin> (\<lambda>r. (ot_operation r, ot_ordinal r)) ` set (operation_tasks db)"
    and fk: "known_operation db (ot_operation t)" "find_row db (ot_task t) \<noteq> None"
    using assms(1) by (auto simp: insertOperationTask_def find_operation_None split: if_splits)
  show "operations_ok d"
    using assms(2) fresh fk unfolding d operations_ok_def by (simp add: ball_Un)
qed

lemma insert_relations_ok:
  "insert_relations db i n ts = Inr db' \<Longrightarrow> operations_ok db \<Longrightarrow>
   operations_ok db' \<and> (\<exists>z. db' = db\<lparr>operation_tasks := z\<rparr>)"
proof (induction db i n ts rule: insert_relations.induct)
  case (1 db i n)
  then show ?case by (auto intro: exI [of _ "operation_tasks db"])
next
  case (2 db i n t ts)
  define t' where "t' = complete_relation i n t"
  from 2(2) obtain d where d: "insertOperationTask db t' = Inr d" "insert_relations d i (n + 1) ts = Inr db'"
    and ok: "\<not> (ot_operation t' \<noteq> i \<or> ot_task t' = [])"
    by (auto simp: t'_def [symmetric] Let_def split: if_splits sum.splits)
  note ins = insertOperationTask_ok [OF d(1) 2(3)]
  from 2(1) [OF t'_def ok d ins(1)] ins(2) show ?case by auto
qed

lemma ReplaceOperationTasks_ok:
  assumes "ReplaceOperationTasks db i ts = (r, db')" and "operations_ok db"
  shows "operations_ok db'" and "\<exists>z. db' = db\<lparr>operation_tasks := z\<rparr>"
proof -
  define d where "d = db\<lparr>operation_tasks := filter (\<lambda>r. ot_operation r \<noteq> i) (operation_tasks db)\<rparr>"
  have ok: "operations_ok d"
    using assms(2) unfolding d_def operations_ok_def by (simp add: distinct_map_filter)
  have same: "\<exists>z. db = db\<lparr>operation_tasks := z\<rparr>" by (rule exI [of _ "operation_tasks db"]) simp
  show "operations_ok db'"
    using assms insert_relations_ok [OF _ ok] unfolding ReplaceOperationTasks_def d_def [symmetric]
    by (auto split: if_splits sum.splits)
  show "\<exists>z. db' = db\<lparr>operation_tasks := z\<rparr>"
    using assms(1) insert_relations_ok [OF _ ok] same unfolding ReplaceOperationTasks_def d_def [symmetric]
    by (auto simp: d_def split: if_splits sum.splits)
qed

section \<open>The two halves together\<close>

definition same_operations :: "store \<Rightarrow> store \<Rightarrow> bool" where
  "same_operations db db' \<longleftrightarrow> operations db' = operations db \<and>
     operation_events db' = operation_events db \<and> operation_tasks db' = operation_tasks db"

lemma same_operations_refl [simp]: "same_operations db db"
  by (simp add: same_operations_def)

lemma same_operations_trans: "same_operations a b \<Longrightarrow> same_operations b c \<Longrightarrow> same_operations a c"
  by (simp add: same_operations_def)

lemma insert_same_operations:
  "insertTask db t = Inr db' \<Longrightarrow> same_operations db db'"
  "insertEvent db e = Inr db' \<Longrightarrow> same_operations db db'"
  by (auto simp: insertTask_def insertEvent_def same_operations_def split: if_splits)

lemma insert_created_same_operations: "insert_created db t = Inr db' \<Longrightarrow> same_operations db db'"
  by (auto simp: insert_created_def split: sum.splits
      dest: insert_same_operations intro: same_operations_trans)

lemma insert_all_same_operations: "insert_all db ts = Inr db' \<Longrightarrow> same_operations db db'"
  by (induction db ts rule: insert_all.induct)
    (auto split: sum.splits dest: insert_created_same_operations intro: same_operations_trans)

lemma updateTaskRecord_same_operations:
  "updateTaskRecord db t ev = Inr (n, db') \<Longrightarrow> same_operations db db'"
  by (auto simp: updateTaskRecord_def insertEvent_def same_operations_def Let_def
      split: if_splits option.splits sum.splits)

lemma update_all_same_operations: "update_all db now prs = Inr (ns, db') \<Longrightarrow> same_operations db db'"
proof (induction db now prs arbitrary: ns rule: update_all.induct)
  case (2 db now t e rest)
  then obtain n d m where d: "updateTaskRecord db t (Some (complete_event t now e)) = Inr (n, d)"
      "update_all d now rest = Inr (m, db')"
    by (auto split: sum.splits prod.splits)
  show ?case
    using same_operations_trans [OF updateTaskRecord_same_operations [OF d(1)] 2(1) [OF d(1) refl d(2)]] .
qed simp

lemma CreateTasks_same_operations: "CreateTasks db ts = (r, ts', db') \<Longrightarrow> same_operations db db'"
  by (auto simp: CreateTasks_def Let_def split: if_splits sum.splits dest: insert_all_same_operations)

lemma store_change_same_operations:
  assumes "store_change db db'"
  shows "same_operations db db'"
  using assms
proof cases
  case (create_one t force r1 t')
  then show ?thesis using CreateTasks_same_operations
    by (auto simp: CreateTaskIdempotent_def Let_def split: if_splits option.splits sum.splits prod.splits
        dest: insert_created_same_operations)
next
  case (create_batch ts force r1 ts')
  then show ?thesis using CreateTasks_same_operations
    by (auto simp: CreateTasksIdempotent_def split: if_splits option.splits sum.splits prod.splits bool.splits
        dest: insert_all_same_operations)
next
  case (import now t r t')
  then show ?thesis
    by (auto simp: ImportTask_def Let_def split: if_splits sum.splits
        dest: insert_same_operations intro: same_operations_trans)
next
  case (update t ev r t')
  then show ?thesis
    by (cases rule: updateTask_cases) (auto dest: updateTaskRecord_same_operations)
next
  case (update_many now ts es r ts')
  then show ?thesis
    by (auto simp: UpdateTasksWithEvents_def split: if_splits sum.splits prod.splits
        dest: update_all_same_operations)
qed (auto simp: BindProject_def same_operations_def AppendEvent_def Let_def
    dest: CreateTasks_same_operations [unfolded same_operations_def]
      insert_same_operations [unfolded same_operations_def] split: if_splits sum.splits)

definition db_ok :: "store \<Rightarrow> bool" where
  "db_ok db \<longleftrightarrow> store_ok db \<and> operations_ok db"

text \<open>What a later database keeps of an earlier one, operations included.\<close>

definition db_extends :: "store \<Rightarrow> store \<Rightarrow> bool" where
  "db_extends db db' \<longleftrightarrow> store_extends db db' \<and> (\<exists>new. identities db' = identities db @ new)"

inductive db_change :: "store \<Rightarrow> store \<Rightarrow> bool" where
  tasks: "store_change db db' \<Longrightarrow> db_change db db'"
| admit: "CreateOperation db now op = (r, op', db') \<Longrightarrow> db_change db db'"
| progress: "ReplaceOperationTasks db i ts = (r, db') \<Longrightarrow> db_change db db'"
| claim: "ClaimNextOperationExcept db now owner lease blocked = (c, db') \<Longrightarrow> db_change db db'"
| overwrite: "UpdateOperation db now op = (r, db') \<Longrightarrow> db_change db db'"
| write_owned: "UpdateOperationOwned db now op owner = (r, db') \<Longrightarrow> db_change db db'"
| renew: "RenewOperationLease db now i owner expires = (r, db') \<Longrightarrow> db_change db db'"
| requeue: "RequeueOwnedOperation db now i owner = (r, db') \<Longrightarrow> db_change db db'"
| event: "AppendOperationEvent db now i st sg = (r, db') \<Longrightarrow> db_change db db'"

inductive_cases db_changeE: "db_change db db'"

lemma store_ok_cong:
  assumes "projects db' = projects db" and "tasks db' = tasks db" and "task_events db' = task_events db"
  shows "store_ok db' = store_ok db" and "store_extends db db'"
  using assms by (simp_all add: store_ok_def store_extends_def project_bound_def find_row_def)

lemma identities_reclaim [simp]: "map op_identity (reclaim now ops) = map op_identity ops"
  unfolding reclaim_def by (rule identities_update_where) simp

lemma Claim_frame:
  assumes "ClaimNextOperationExcept db now owner lease blocked = (c, db')"
  shows "\<exists>xs. db' = db\<lparr>operations := xs\<rparr> \<and> map op_identity xs = map op_identity (operations db)"
proof -
  have "\<exists>xs. db = db\<lparr>operations := xs\<rparr> \<and> map op_identity xs = map op_identity (operations db)"
    by (rule exI [of _ "operations db"]) simp
  moreover have "map op_identity (update_where P (\<lambda>r. r\<lparr>op_state := a, op_stage := b, op_attempt := k,
      lease_owner := d, lease_expires_at := e, started_at := g, op_updated_at := h\<rparr>)
      (reclaim now (operations db))) = map op_identity (operations db)" for P a b k d e g h
    by (subst identities_update_where) simp_all
  ultimately show ?thesis
    using assms by (auto simp: ClaimNextOperationExcept_def Let_def split: if_splits list.splits)
qed

lemma update_operations_frame:
  assumes "update_operations db hit f none = (r, db')" and "keeps_identity f"
  shows "\<exists>xs. db' = db\<lparr>operations := xs\<rparr> \<and> map op_identity xs = map op_identity (operations db)"
  using update_operations_ok(1,3) [OF assms] by (auto simp: identities_def)

lemma Update_frame:
  "UpdateOperation db now op = (r, db') \<Longrightarrow>
     \<exists>xs. db' = db\<lparr>operations := xs\<rparr> \<and> map op_identity xs = map op_identity (operations db)"
  "UpdateOperationOwned db now op owner = (r, db') \<Longrightarrow>
     \<exists>xs. db' = db\<lparr>operations := xs\<rparr> \<and> map op_identity xs = map op_identity (operations db)"
  "RenewOperationLease db now i owner expires = (r, db') \<Longrightarrow>
     \<exists>xs. db' = db\<lparr>operations := xs\<rparr> \<and> map op_identity xs = map op_identity (operations db)"
  "RequeueOwnedOperation db now i owner = (r, db') \<Longrightarrow>
     \<exists>xs. db' = db\<lparr>operations := xs\<rparr> \<and> map op_identity xs = map op_identity (operations db)"
proof -
  have none: "\<exists>xs. db = db\<lparr>operations := xs\<rparr> \<and> map op_identity xs = map op_identity (operations db)"
    by (rule exI [of _ "operations db"]) simp
  show "UpdateOperation db now op = (r, db') \<Longrightarrow>
     \<exists>xs. db' = db\<lparr>operations := xs\<rparr> \<and> map op_identity xs = map op_identity (operations db)"
    using none by (auto simp: UpdateOperation_def split: if_splits dest!: update_operations_frame)
  show "UpdateOperationOwned db now op owner = (r, db') \<Longrightarrow>
     \<exists>xs. db' = db\<lparr>operations := xs\<rparr> \<and> map op_identity xs = map op_identity (operations db)"
    using none by (auto simp: UpdateOperationOwned_def split: if_splits dest!: update_operations_frame)
  show "RenewOperationLease db now i owner expires = (r, db') \<Longrightarrow>
     \<exists>xs. db' = db\<lparr>operations := xs\<rparr> \<and> map op_identity xs = map op_identity (operations db)"
    using none by (auto simp: RenewOperationLease_def split: if_splits dest!: update_operations_frame)
  show "RequeueOwnedOperation db now i owner = (r, db') \<Longrightarrow>
     \<exists>xs. db' = db\<lparr>operations := xs\<rparr> \<and> map op_identity xs = map op_identity (operations db)"
    using none by (auto simp: RequeueOwnedOperation_def split: if_splits dest!: update_operations_frame)
qed

lemma operations_frame_ok:
  assumes "\<exists>xs. db' = db\<lparr>operations := xs\<rparr> \<and> map op_identity xs = map op_identity (operations db)"
    and "db_ok db"
  shows "db_ok db' \<and> db_extends db db'"
proof -
  obtain xs where xs: "db' = db\<lparr>operations := xs\<rparr>" "map op_identity xs = map op_identity (operations db)"
    using assms(1) by blast
  have "operations_ok db'" using operations_ok_update xs assms(2) by (simp add: db_ok_def)
  moreover have "store_ok db'" "store_extends db db'"
    using store_ok_cong [of db' db] assms(2) xs(1) by (simp_all add: db_ok_def)
  ultimately show ?thesis using xs by (simp add: db_ok_def db_extends_def identities_def)
qed

lemma CreateOperation_cases:
  assumes "CreateOperation db now op = (r, op', db')"
  obtains (failed) "db' = db" "r \<noteq> Inr ()"
    | (created) "r = Inr ()" "op' = with_defaults now op"
        "insertOperation db op' = Inr (db\<lparr>operations := operations db @ [op']\<rparr>)"
        "db' = db\<lparr>operations := operations db @ [op'], operation_events := operation_events db @
           [\<lparr>oe_operation = op_id op', oe_state = op_state op', oe_stage = op_stage op', oe_created = now\<rparr>]\<rparr>"
proof (cases "op_id op = [] \<or> op_kind op = [] \<or> op_project op = []")
  case True
  then show ?thesis using assms that(1) by (auto simp: CreateOperation_def)
next
  case nonempty: False
  define o1 where "o1 = with_defaults now op"
  show ?thesis
  proof (cases "insertOperation db o1")
    case (Inl e)
    then show ?thesis
      using assms that(1) nonempty unfolding CreateOperation_def o1_def [symmetric] by auto
  next
    case (Inr db1)
    have db1: "db1 = db\<lparr>operations := operations db @ [o1]\<rparr>"
      using Inr unfolding insertOperation_def by (simp split: if_splits)
    have "find_operation db1 (op_id o1) \<noteq> None"
      by (auto simp: db1 find_operation_def find_None_all)
    then have "AppendOperationEvent db1 now (op_id o1) (op_state o1) (op_stage o1) =
      (Inr (), db1\<lparr>operation_events := operation_events db @
         [\<lparr>oe_operation = op_id o1, oe_state = op_state o1, oe_stage = op_stage o1, oe_created = now\<rparr>]\<rparr>)"
      by (simp add: AppendOperationEvent_def db1)
    then have "r = Inr ()" "op' = o1" "db' = db1\<lparr>operation_events := operation_events db @
         [\<lparr>oe_operation = op_id o1, oe_state = op_state o1, oe_stage = op_stage o1, oe_created = now\<rparr>]\<rparr>"
      using assms nonempty Inr unfolding CreateOperation_def o1_def [symmetric] by (auto simp: Let_def)
    with Inr show ?thesis using that(2) unfolding db1 o1_def by simp
  qed
qed

lemma db_change_ok:
  assumes "db_change db db'" and "db_ok db"
  shows "db_ok db' \<and> db_extends db db'"
  using assms(1)
proof cases
  case tasks
  have ext: "store_ok db'" "store_extends db db'"
    using store_change_ok [OF tasks] assms(2) by (auto simp: db_ok_def)
  have same: "same_operations db db'" by (rule store_change_same_operations [OF tasks])
  then have ids: "identities db' = identities db"
    by (simp add: same_operations_def identities_def)
  have "operations_ok db'"
    by (rule operations_ok_same [OF ids _ _ _ _ conjunct2 [OF assms(2) [unfolded db_ok_def]]])
      (use same ext(2) in \<open>fastforce simp: same_operations_def store_extends_def\<close>)+
  with ext ids show ?thesis by (simp add: db_ok_def db_extends_def)
next
  case (admit now op r op')
  then show ?thesis
  proof (cases rule: CreateOperation_cases)
    case failed
    then show ?thesis using assms(2) by (simp add: db_extends_def)
  next
    case created
    have ok1: "operations_ok (db\<lparr>operations := operations db @ [op']\<rparr>)"
      using insertOperation_ok [OF created(3)] assms(2) by (simp add: db_ok_def)
    have ids: "identities db' = identities db @ [op_identity op']"
      by (simp add: created(4) identities_def)
    have known: "known_operation (db\<lparr>operations := operations db @ [op']\<rparr>) (op_id op')"
      by (simp add: known_operation_def identities_def)
    have "operations_ok db'"
      using ok1 known unfolding created(4) operations_ok_def by (simp add: identities_def known_operation_def)
    moreover have "store_ok db'" "store_extends db db'"
      using store_ok_cong [of db' db] assms(2) created(4) by (simp_all add: db_ok_def)
    ultimately show ?thesis using ids by (simp add: db_ok_def db_extends_def)
  qed
next
  case (progress i ts r)
  have ok: "operations_ok db" using assms(2) by (simp add: db_ok_def)
  obtain z where z: "db' = db\<lparr>operation_tasks := z\<rparr>"
    using ReplaceOperationTasks_ok(2) [OF progress ok] by blast
  show ?thesis
    using ReplaceOperationTasks_ok(1) [OF progress ok] assms(2) store_ok_cong [of db' db] z
    by (simp add: db_ok_def db_extends_def)
next
  case (event now i st sg r)
  then show ?thesis
    using AppendOperationEvent_ok [OF event] assms(2) store_ok_cong [of db' db]
    by (auto simp: db_ok_def db_extends_def AppendOperationEvent_def split: if_splits)
next
  case (claim now owner lease blocked c)
  show ?thesis by (rule operations_frame_ok [OF Claim_frame [OF claim] assms(2)])
next
  case (overwrite now op r)
  show ?thesis by (rule operations_frame_ok [OF Update_frame(1) [OF overwrite] assms(2)])
next
  case (write_owned now op owner r)
  show ?thesis by (rule operations_frame_ok [OF Update_frame(2) [OF write_owned] assms(2)])
next
  case (renew now i owner expires r)
  show ?thesis by (rule operations_frame_ok [OF Update_frame(3) [OF renew] assms(2)])
next
  case (requeue now i owner r)
  show ?thesis by (rule operations_frame_ok [OF Update_frame(4) [OF requeue] assms(2)])
qed

lemma db_run_ok: "db_change\<^sup>*\<^sup>* db db' \<Longrightarrow> db_ok db \<Longrightarrow> db_ok db' \<and> db_extends db db'"
proof (induction rule: rtranclp_induct)
  case base
  then show ?case by (simp add: db_extends_def)
next
  case (step y z)
  then show ?case using db_change_ok [OF step(2)]
    by (auto simp: db_extends_def intro: store_extends_trans)
qed

lemma db_ok_empty [simp]: "db_ok empty_store"
  by (simp add: db_ok_def operations_ok_def identities_def) (simp add: empty_store_def)

section \<open>What a claim does\<close>

definition reclaimed :: "time \<Rightarrow> operation \<Rightarrow> operation" where
  "reclaimed now r = (if lease_expired now r
     then r\<lparr>op_state := OperationQueued, lease_owner := [], lease_expires_at := None, op_updated_at := now\<rparr>
     else r)"

lemma reclaim_map: "reclaim now ops = map (reclaimed now) ops"
  by (simp add: reclaim_def update_where_def reclaimed_def)

lemma reclaimed_identity [simp]:
  "op_id (reclaimed now r) = op_id r"
  "cluster_key (reclaimed now r) = cluster_key r"
  "op_created_at (reclaimed now r) = op_created_at r"
  "next_attempt_at (reclaimed now r) = next_attempt_at r"
  "op_attempt (reclaimed now r) = op_attempt r"
  by (simp_all add: reclaimed_def)

lemma find_reclaim:
  "find (\<lambda>r. op_id r = i) (reclaim now ops) = map_option (reclaimed now) (find (\<lambda>r. op_id r = i) ops)"
  by (induction ops) (auto simp: reclaim_map)

lemma set_claimable:
  "op \<in> set (claimable db now blocked) \<longleftrightarrow>
   (\<exists>r\<in>set (operations db). op = reclaimed now r \<and> due now op \<and> unblocked blocked op)"
  by (auto simp: claimable_def reclaim_map)

lemma claimable_oldest:
  "claimable db now blocked = op # rest \<Longrightarrow> x \<in> set (claimable db now blocked) \<Longrightarrow>
   fmt_time (op_created_at op) \<le> fmt_time (op_created_at x)"
proof -
  assume eq: "claimable db now blocked = op # rest" and x: "x \<in> set (claimable db now blocked)"
  have "sorted (map (\<lambda>r. fmt_time (op_created_at r)) (claimable db now blocked))"
    by (simp add: claimable_def)
  with eq x show ?thesis by auto
qed

lemma Claim_some:
  assumes "ClaimNextOperationExcept db now owner lease blocked = (Inr (Some op'), db')"
    and "operations_ok db"
  obtains old where "find_operation db (op_id op') = Some old"
    and "op' = claimed now lease owner (reclaimed now old)"
    and "due now (reclaimed now old)" and "unblocked blocked (reclaimed now old)"
    and "\<And>x. x \<in> set (claimable db now blocked) \<Longrightarrow> fmt_time (op_created_at op') \<le> fmt_time (op_created_at x)"
    and "\<And>i. find_operation db' i = (if i = op_id op' then Some op'
           else map_option (reclaimed now) (find_operation db i))"
    and "owner \<noteq> []"
proof -
  have own: "owner \<noteq> []" using assms(1) by (auto simp: ClaimNextOperationExcept_def)
  then obtain op rest where cl: "claimable db now blocked = op # rest"
    using assms(1) by (auto simp: ClaimNextOperationExcept_def split: list.splits)
  define hit :: "operation \<Rightarrow> bool" where "hit = (\<lambda>r. op_id r = op_id op \<and> op_state r = OperationQueued)"
  define f :: "operation \<Rightarrow> operation" where "f = (\<lambda>r. r\<lparr>op_state := op_state op', op_stage := op_stage op', op_attempt := op_attempt op',
                   lease_owner := lease_owner op', lease_expires_at := lease_expires_at op',
                   started_at := started_at op', op_updated_at := now\<rparr>)"
  have op': "op' = claimed now lease owner op"
    and db': "db' = db\<lparr>operations := update_where hit f (reclaim now (operations db))\<rparr>"
    using assms(1) own cl by (auto simp: ClaimNextOperationExcept_def Let_def hit_def f_def)
  have "op \<in> set (claimable db now blocked)" using cl by simp
  then obtain old where old: "old \<in> set (operations db)" "op = reclaimed now old"
    and elig: "due now op" "unblocked blocked op"
    by (auto simp: set_claimable)
  have fo: "find_operation db (op_id op) = Some old"
    using find_operation_mem [OF assms(2) old(1)] old(2) by simp
  have fid: "op_id (f r) = op_id r" for r by (simp add: f_def)
  have found: "find_operation db' i = map_option (\<lambda>r. if hit (reclaimed now r) then f (reclaimed now r)
      else reclaimed now r) (find_operation db i)" for i
    unfolding db' find_operation_def
    by (simp, subst find_update_where) (simp_all add: fid find_reclaim option.map_comp o_def)
  have same: "f op = op'" using op' by (simp add: f_def claimed_def)
  have q: "op_state op = OperationQueued" using elig(1) by (simp add: due_def)
  have all: "find_operation db' i = (if i = op_id op' then Some op'
       else map_option (reclaimed now) (find_operation db i))" for i
  proof (cases "i = op_id op'")
    case True
    then show ?thesis using found [of i] fo same q old(2) op' by (simp add: hit_def claimed_def)
  next
    case False
    then show ?thesis using found [of i] find_operation_Some [of db i] op'
      by (cases "find_operation db i") (auto simp: hit_def claimed_def)
  qed
  show ?thesis
  proof (rule that [OF _ _ _ _ _ all own])
    show "find_operation db (op_id op') = Some old" using fo op' by (simp add: claimed_def)
    show "op' = claimed now lease owner (reclaimed now old)" using op' old(2) by simp
    show "due now (reclaimed now old)" "unblocked blocked (reclaimed now old)" using elig old(2) by simp_all
    show "fmt_time (op_created_at op') \<le> fmt_time (op_created_at x)"
      if "x \<in> set (claimable db now blocked)" for x
      using claimable_oldest [OF cl that] op' by (simp add: claimed_def)
  qed
qed

section \<open>Properties\<close>

text \<open>
  C39. Every database that the task and operation functions can produce keeps unique
  operation ids, at most one operation per kind and non-empty deduplication key, and all
  foreign keys; and no operation ever disappears or changes its kind, project, cluster,
  deduplication key or creation time.
\<close>

theorem operation_tables_histories:
  assumes "db_change\<^sup>*\<^sup>* empty_store db" and "db_change\<^sup>*\<^sup>* db db'"
  shows "db_ok db' \<and> db_extends db db' \<and>
    (\<forall>a\<in>set (operations db'). \<forall>b\<in>set (operations db').
       op_kind a = op_kind b \<and> dedup_key a = dedup_key b \<and> dedup_key a \<noteq> [] \<longrightarrow> op_id a = op_id b)"
proof -
  have ok: "db_ok db' \<and> db_extends db db'"
    using db_run_ok [OF assms(2)] db_run_ok [OF assms(1) db_ok_empty] by blast
  let ?ids = "filter (\<lambda>(i, k, p, c, d, t). d \<noteq> []) (identities db')"
  have d: "distinct (map (\<lambda>(i, k, p, c, d, t). (k, d)) ?ids)"
    using ok by (simp add: db_ok_def operations_ok_def)
  have "op_id a = op_id b" if "a \<in> set (operations db')" "b \<in> set (operations db')"
    "op_kind a = op_kind b" "dedup_key a = dedup_key b" "dedup_key a \<noteq> []" for a b
  proof -
    have "op_identity a \<in> set ?ids" "op_identity b \<in> set ?ids"
      using that by (auto simp: identities_def op_identity_def)
    from distinct_map_unique [OF d this] show ?thesis using that by (simp add: op_identity_def)
  qed
  with ok show ?thesis by blast
qed

definition sample_operation :: operation where
  "sample_operation = \<lparr>op_id = ''o1'', op_kind = ''pull'', op_project = ''p'', cluster_key = ''c'',
     dedup_key = ''v1:x'', op_state = OperationQueued, op_stage = ''queued'', op_payload = ''{}'',
     op_result = ''{}'', op_attempt = 0, max_attempts = 0, retry_deadline_at = None,
     next_attempt_at = None, lease_owner = [], lease_expires_at = None, error_code = [],
     error_message = [], op_retryable = False, op_created_at = 1, started_at = None,
     op_updated_at = 1, finished_at = None\<rparr>"

definition sample_queue :: store where
  "sample_queue = sample_created\<lparr>operations := [sample_operation], operation_events :=
     [\<lparr>oe_operation = ''o1'', oe_state = OperationQueued, oe_stage = ''queued'', oe_created = 1\<rparr>]\<rparr>"

lemma sample_CreateOperation:
  "CreateOperation sample_created 1 sample_operation = (Inr (), sample_operation, sample_queue)"
  by (simp add: CreateOperation_def with_defaults_def sample_operation_def is_zero_time_def Let_def
      insertOperation_def find_operation_def sample_created_def sample_store_def BindProject_def
      empty_store_def project_bound_def AppendOperationEvent_def sample_queue_def)

lemma sample_queue_run: "db_change\<^sup>*\<^sup>* empty_store sample_queue"
proof -
  have "db_change empty_store sample_store" "db_change sample_store sample_created"
    "db_change sample_created sample_queue"
    using db_change.tasks [OF sample_store_ok(2)] db_change.tasks [OF sample_created_change]
      db_change.admit [OF sample_CreateOperation] by simp_all
  then show ?thesis by (meson converse_rtranclp_into_rtranclp rtranclp.rtrancl_refl)
qed

lemma sample_queue_ok [simp]: "db_ok sample_queue"
  using db_run_ok [OF sample_queue_run] by simp

theorem operation_tables_histories_witness:
  "db_ok sample_queue \<and> db_extends empty_store sample_queue"
  using operation_tables_histories [OF rtranclp.rtrancl_refl sample_queue_run] by blast

text \<open>
  C13. \<open>ClaimNextOperationExcept\<close> on every branch: without an owner it is refused; it
  returns nothing only when no operation is due and unblocked, even after expired leases
  are released, and then writes nothing; otherwise it hands out the operation with the
  smallest creation text among the due and unblocked ones, which was queued or whose lease
  had expired, running under the new owner with one more attempt, and every other
  operation is unchanged except for the release of expired leases.
\<close>

theorem claim_outcomes:
  assumes "db_ok db" and "ClaimNextOperationExcept db now owner lease blocked = (c, db')"
  shows "(case c of
      Inl e \<Rightarrow> owner = [] \<and> fault_code e = ''OPERATION_INVALID'' \<and> db' = db
    | Inr None \<Rightarrow> db' = db \<and> (\<forall>r\<in>set (operations db).
        \<not> (due now (reclaimed now r) \<and> unblocked blocked r))
    | Inr (Some op) \<Rightarrow> (\<exists>old. GetOperation db (op_id op) = Inr old \<and>
        (op_state old = OperationQueued \<or> lease_expired now old) \<and>
        due now (reclaimed now old) \<and> unblocked blocked old \<and>
        op = claimed now lease owner (reclaimed now old) \<and> GetOperation db' (op_id op) = Inr op \<and>
        (\<forall>r\<in>set (operations db). due now (reclaimed now r) \<and> unblocked blocked r \<longrightarrow>
           fmt_time (op_created_at op) \<le> fmt_time (op_created_at r)) \<and>
        (\<forall>i. i \<noteq> op_id op \<longrightarrow> find_operation db' i = map_option (reclaimed now) (find_operation db i))))"
proof -
  have ub: "unblocked blocked (reclaimed now r) = unblocked blocked r" for r
    by (simp add: unblocked_def)
  show ?thesis
  proof (cases c)
    case (Inl e)
    then show ?thesis using assms(2)
      by (auto simp: ClaimNextOperationExcept_def Let_def split: if_splits list.splits)
  next
    case (Inr o1)
    show ?thesis
    proof (cases o1)
      case None
      with Inr assms(2) have "db' = db" "claimable db now blocked = []"
        by (auto simp: ClaimNextOperationExcept_def Let_def split: if_splits list.splits)
      with Inr None set_claimable [of _ db now blocked] ub show ?thesis by auto
    next
      case (Some op)
      have ok: "operations_ok db" using assms(1) by (simp add: db_ok_def)
      have cl: "ClaimNextOperationExcept db now owner lease blocked = (Inr (Some op), db')"
        using assms(2) Inr Some by simp
      obtain old where o: "find_operation db (op_id op) = Some old"
        "op = claimed now lease owner (reclaimed now old)" "due now (reclaimed now old)"
        "unblocked blocked (reclaimed now old)"
        "\<And>x. x \<in> set (claimable db now blocked) \<Longrightarrow> fmt_time (op_created_at op) \<le> fmt_time (op_created_at x)"
        "\<And>i. find_operation db' i = (if i = op_id op then Some op else map_option (reclaimed now) (find_operation db i))"
        by (rule Claim_some [OF cl ok]) blast
      have "op_state old = OperationQueued \<or> lease_expired now old"
        using o(3) by (auto simp: due_def reclaimed_def split: if_splits)
      moreover have "fmt_time (op_created_at op) \<le> fmt_time (op_created_at r)"
        if "r \<in> set (operations db)" "due now (reclaimed now r)" "unblocked blocked r" for r
        using o(5) [of "reclaimed now r"] that ub by (auto simp: set_claimable)
      ultimately show ?thesis using Inr Some o ub by (auto simp: GetOperation_def)
    qed
  qed
qed

lemma sample_claim:
  "ClaimNextOperationExcept sample_queue 2 ''w1'' 30 [] =
     (Inr (Some (claimed 2 30 ''w1'' sample_operation)),
      sample_queue\<lparr>operations := [claimed 2 30 ''w1'' sample_operation]\<rparr>)"
  by (simp add: ClaimNextOperationExcept_def claimable_def reclaim_def lease_expired_def due_def
      unblocked_def sample_queue_def sample_operation_def Let_def claimed_def)

theorem claim_outcomes_witness:
  "GetOperation (sample_queue\<lparr>operations := [claimed 2 30 ''w1'' sample_operation]\<rparr>) ''o1'' =
     Inr (claimed 2 30 ''w1'' sample_operation)"
proof -
  have "op_id (claimed 2 30 ''w1'' sample_operation) = ''o1''"
    by (simp add: claimed_def sample_operation_def)
  with claim_outcomes [OF sample_queue_ok sample_claim] show ?thesis by auto
qed

lemma isUnique_both [simp]: "isUniqueViolation unique_violation" "isUniqueViolation foreign_violation"
  by code_simp+

text \<open>
  \<open>CreateOperation\<close> on every branch. An operation with an identity is admitted
  exactly when its id and its kind and deduplication key are new and its project is
  registered; it is then readable and has one event. Every other answer is
  \<open>OPERATION_DUPLICATE\<close>: for a taken id, for a taken deduplication key whatever the
  state of the operation that holds it, and also for a project that is not registered.
\<close>

theorem admission_outcomes:
  assumes "op_id op \<noteq> []" and "op_kind op \<noteq> []" and "op_project op \<noteq> []"
    and "CreateOperation db now op = (r, op', db')"
  shows "(if find_operation db (op_id op) = None
        \<and> (dedup_key op = [] \<or> \<not> (\<exists>x\<in>set (operations db). op_kind x = op_kind op \<and> dedup_key x = dedup_key op))
        \<and> project_bound db (op_project op)
      then r = Inr () \<and> GetOperation db' (op_id op) = Inr op' \<and>
        operations db' = operations db @ [op'] \<and>
        operation_events db' = operation_events db @ [\<lparr>oe_operation = op_id op, oe_state = op_state op',
           oe_stage = op_stage op', oe_created = now\<rparr>]
      else db' = db \<and> (\<exists>e. r = Inl e \<and> fault_code e = ''OPERATION_DUPLICATE''))"
proof -
  define o1 where "o1 = with_defaults now op"
  have ids: "op_id o1 = op_id op" "op_kind o1 = op_kind op" "op_project o1 = op_project op"
    "dedup_key o1 = dedup_key op"
    by (simp_all add: o1_def with_defaults_def Let_def)
  have start: "(r, op', db') = (case insertOperation db o1 of
             Inl e \<Rightarrow> (Inl (if isUniqueViolation e then fault_wrap ''OPERATION_DUPLICATE'' [] False e
                            else fault_wrap ''DATABASE_FAILED'' [] True e), o1, db)
           | Inr db1 \<Rightarrow> (case AppendOperationEvent db1 now (op_id o1) (op_state o1) (op_stage o1) of
                 (r, db2) \<Rightarrow> (r, o1, db2)))"
    by (simp only: assms(4) [symmetric]) (simp add: CreateOperation_def Let_def assms(1-3) flip: o1_def)
  show ?thesis
  proof (cases "insertOperation db o1")
    case (Inl e)
    then have "e = unique_violation \<or> e = foreign_violation"
      and "\<not> (find_operation db (op_id op) = None \<and> (dedup_key op = [] \<or>
        \<not> (\<exists>x\<in>set (operations db). op_kind x = op_kind op \<and> dedup_key x = dedup_key op))
        \<and> project_bound db (op_project op))"
      by (auto simp: insertOperation_def ids split: if_splits)
    with Inl start show ?thesis by auto
  next
    case (Inr db1)
    then have db1: "db1 = db\<lparr>operations := operations db @ [o1]\<rparr>"
      and new: "find_operation db (op_id op) = None"
      and g: "(dedup_key op = [] \<or> \<not> (\<exists>x\<in>set (operations db). op_kind x = op_kind op \<and> dedup_key x = dedup_key op))
        \<and> project_bound db (op_project op)"
      unfolding insertOperation_def ids by (auto split: if_splits)
    have f1: "find_operation db1 (op_id op) = Some o1"
      using new by (simp add: db1 find_operation_def find_append ids)
    have res: "r = Inr ()" "op' = o1" "db' = db1\<lparr>operation_events := operation_events db1 @
        [\<lparr>oe_operation = op_id op, oe_state = op_state o1, oe_stage = op_stage o1, oe_created = now\<rparr>]\<rparr>"
      using start Inr f1 by (simp_all add: AppendOperationEvent_def ids)
    then have "find_operation db' (op_id op) = Some o1"
      using f1 by (simp add: find_operation_def)
    then have "GetOperation db' (op_id op) = Inr op'" using res by (simp add: GetOperation_def)
    moreover have "operations db' = operations db @ [op']" using res db1 by simp
    moreover have "operation_events db' = operation_events db @ [\<lparr>oe_operation = op_id op,
        oe_state = op_state op', oe_stage = op_stage op', oe_created = now\<rparr>]" using res db1 by simp
    ultimately show ?thesis using new g res(1) by simp
  qed
qed

theorem admission_outcomes_witness:
  "\<exists>e. fst (CreateOperation sample_queue 3 (sample_operation\<lparr>op_id := ''o2''\<rparr>)) = Inl e \<and>
     fault_code e = ''OPERATION_DUPLICATE''"
proof -
  obtain r op' db' where c: "CreateOperation sample_queue 3 (sample_operation\<lparr>op_id := ''o2''\<rparr>) = (r, op', db')"
    by (metis prod.collapse)
  have n: "op_id (sample_operation\<lparr>op_id := ''o2''\<rparr>) \<noteq> []" "op_kind (sample_operation\<lparr>op_id := ''o2''\<rparr>) \<noteq> []"
    "op_project (sample_operation\<lparr>op_id := ''o2''\<rparr>) \<noteq> []" by (simp_all add: sample_operation_def)
  from admission_outcomes [OF n c] c show ?thesis
    by (simp add: sample_queue_def sample_operation_def)
qed

lemma insert_relations_result:
  "insert_relations db i n ts = Inr db' \<Longrightarrow>
   operation_tasks db' = operation_tasks db @ map2 (complete_relation i) [n..<n + length ts] ts \<and>
   (\<forall>r\<in>set (map2 (complete_relation i) [n..<n + length ts] ts). ot_operation r = i)"
proof (induction db i n ts rule: insert_relations.induct)
  case (1 db i n)
  then show ?case by simp
next
  case (2 db i n t ts)
  define t' where "t' = complete_relation i n t"
  from 2(2) obtain d where d: "insertOperationTask db t' = Inr d" "insert_relations d i (n + 1) ts = Inr db'"
    and ok: "\<not> (ot_operation t' \<noteq> i \<or> ot_task t' = [])"
    by (auto simp: t'_def [symmetric] Let_def split: if_splits sum.splits)
  have "operation_tasks d = operation_tasks db @ [t']"
    using d(1) by (auto simp: insertOperationTask_def split: if_splits)
  moreover have "[n..<n + length (t # ts)] = n # [Suc n..<Suc n + length ts]"
    by (simp add: upt_conv_Cons del: upt_Suc)
  ultimately show ?case using 2(1) [OF t'_def ok d] ok by (simp add: t'_def del: upt_Suc)
qed

text \<open>
  \<open>ReplaceOperationTasks\<close> is atomic: it fails and changes nothing, or the progress
  rows of the operation are exactly the completed rows it was given, listed by ordinal,
  and the rows of every other operation are as before.
\<close>

theorem replace_progress:
  assumes "i \<noteq> []" and "ReplaceOperationTasks db i ts = (r, db')"
  shows "(case r of Inl e \<Rightarrow> db' = db
     | Inr _ \<Rightarrow> OperationTasks db' i =
           Inr (sort_key ot_ordinal (map2 (complete_relation i) [0..<length ts] ts)) \<and>
         (\<forall>j. j \<noteq> i \<longrightarrow> OperationTasks db' j = OperationTasks db j))"
proof -
  define d where "d = db\<lparr>operation_tasks := filter (\<lambda>r. ot_operation r \<noteq> i) (operation_tasks db)\<rparr>"
  define new where "new = map2 (complete_relation i) [0..<length ts] ts"
  show ?thesis
  proof (cases "insert_relations d i 0 ts")
    case (Inl e)
    then show ?thesis
      using assms unfolding ReplaceOperationTasks_def d_def [symmetric] by auto
  next
    case (Inr d')
    have r: "r = Inr ()" "db' = d'"
      using assms Inr unfolding ReplaceOperationTasks_def d_def [symmetric] by auto
    have rows: "operation_tasks d' = filter (\<lambda>r. ot_operation r \<noteq> i) (operation_tasks db) @ new"
      "\<forall>x\<in>set new. ot_operation x = i"
      using insert_relations_result [OF Inr] by (simp_all add: d_def new_def)
    have "filter (\<lambda>x. ot_operation x = i) (operation_tasks d') = new"
      using rows by simp
    moreover have "filter (\<lambda>x. ot_operation x = j) (operation_tasks d') =
        filter (\<lambda>x. ot_operation x = j) (operation_tasks db)" if "j \<noteq> i" for j
    proof -
      have "filter (\<lambda>x. ot_operation x = j) new = []" using rows(2) that by (auto simp: filter_empty_conv)
      moreover have "filter (\<lambda>x. ot_operation x \<noteq> i \<and> ot_operation x = j) (operation_tasks db) =
          filter (\<lambda>x. ot_operation x = j) (operation_tasks db)"
        using that by (intro filter_cong) auto
      ultimately show ?thesis by (simp add: rows(1))
    qed
    ultimately show ?thesis using r assms(1) by (auto simp: OperationTasks_def new_def)
  qed
qed

definition sample_relation :: operation_task where
  "sample_relation = \<lparr>ot_operation = [], ot_task = ''t1'', ot_ordinal = 0, ot_state = ''admitted'', ot_result = []\<rparr>"

theorem replace_progress_witness:
  "\<exists>db'. ReplaceOperationTasks sample_queue ''o1'' [sample_relation] = (Inr (), db') \<and>
     OperationTasks db' ''o1'' = Inr [complete_relation ''o1'' 0 sample_relation]"
proof -
  have "fst (ReplaceOperationTasks sample_queue ''o1'' [sample_relation]) = Inr ()"
    by (simp add: ReplaceOperationTasks_def complete_relation_def sample_relation_def Let_def
        insertOperationTask_def sample_queue_def sample_created_def sample_store_def BindProject_def
        empty_store_def find_operation_def find_row_def sample_operation_def encodeTask_def
        first_revision_def sample_task_def project_bound_def)
  then obtain db' where c: "ReplaceOperationTasks sample_queue ''o1'' [sample_relation] = (Inr (), db')"
    by (metis prod.collapse)
  from replace_progress [OF _ c] c show ?thesis by simp
qed

end
