(* ===== verification/Operation_Engine.thy ===== *)
theory Operation_Engine
  imports Store_Operations
begin

text \<open>
  The durable operations of \<open>internal/cli/operations.go\<close>: the dispatcher loop of the
  daemon, the life of one operation on a worker, the user's cancel and retry, the lease
  renewal, the poll interval and the automatic pulls. One function is one uninterrupted
  piece of the code between two points where other processes can act; the step relation
  below interleaves them. JSON texts are decoded and encoded by the standard library and
  enter as parameters.
\<close>

section \<open>Owner writes of a worker\<close>

definition second :: time where
  "second = 1000000000"

definition updateOperationStage ::
    "store \<Rightarrow> time \<Rightarrow> operation \<Rightarrow> string \<Rightarrow> (go_error, unit) result \<times> operation \<times> store" where
  "updateOperationStage db now op stage =
     (let op' = op\<lparr>op_stage := stage, op_updated_at := now\<rparr>
      in case UpdateOperationOwned db now op' (lease_owner op') of
           (Inl e, db1) \<Rightarrow> (Inl e, op', db1)
         | (Inr _, db1) \<Rightarrow> (case AppendOperationEvent db1 now (op_id op') (op_state op') stage of
               (r, db2) \<Rightarrow> (r, op', db2)))"

text \<open>One tick of \<open>renewOperationLease\<close>; an error cancels the operation's context.\<close>

definition renewTick :: "store \<Rightarrow> time \<Rightarrow> operation \<Rightarrow> (go_error, unit) result \<times> store" where
  "renewTick db now op = RenewOperationLease db now (op_id op) (lease_owner op) (now + 30 * second)"

definition finished :: "operation \<Rightarrow> time \<Rightarrow> operation_state \<Rightarrow> string \<Rightarrow> string \<Rightarrow> bool \<Rightarrow> operation" where
  "finished op now state message code retry = op\<lparr>op_state := state, op_stage := operation_text state,
     error_code := code, error_message := message, op_retryable := retry, lease_owner := [],
     lease_expires_at := None, finished_at := Some now, op_updated_at := now\<rparr>"

definition finishOperation ::
    "store \<Rightarrow> time \<Rightarrow> operation \<Rightarrow> operation_state \<Rightarrow> string \<Rightarrow> string \<Rightarrow> bool \<Rightarrow> store" where
  "finishOperation db now op state message code retry =
     (if (case GetOperation db (op_id op) of Inr cur \<Rightarrow> op_state cur = OperationCancelled | Inl _ \<Rightarrow> False)
      then db
      else let owner = lease_owner op; op' = finished op now state message code retry
        in case (if owner \<noteq> [] then UpdateOperationOwned db now op' owner else UpdateOperation db now op') of
             (Inl _, db1) \<Rightarrow> db1
           | (Inr _, db1) \<Rightarrow> snd (AppendOperationEvent db1 now (op_id op') state (op_stage op')))"

section \<open>The life of one operation\<close>

record payload =
  pl_args :: "string list"
  pl_project :: string
  pl_cwd :: string
  pl_config :: string
  pl_data_root :: string
  pl_snapshot_root :: string
  pl_intent_hash :: string
  pl_reserved :: "string list"

text \<open>
  What \<open>encoding/json\<close> does with the texts of this file: the payload of an operation, the
  result of a worker, the \<open>result\<close> field of an envelope, and the three result shapes (task
  id and state; failed task id and error message).
\<close>

record json_codec =
  decode_payload :: "string \<Rightarrow> payload option"
  encode_output :: "string \<Rightarrow> string \<Rightarrow> string"
  envelope_result :: "string \<Rightarrow> string option"
  decode_single :: "string \<Rightarrow> (string \<times> string) option"
  decode_batch :: "string \<Rightarrow> ((string \<times> string) list \<times> (string \<times> string option) list) option"
  decode_pull :: "string \<Rightarrow> ((string \<times> string) list \<times> (string \<times> string option) list) option"

definition unwrapCommandResult :: "json_codec \<Rightarrow> string \<Rightarrow> string" where
  "unwrapCommandResult j output = (case envelope_result j output of
     Some r \<Rightarrow> if r \<noteq> [] \<and> r \<noteq> ''null'' then r else output | None \<Rightarrow> output)"

definition batchFailureMessage :: "string option \<Rightarrow> string" where
  "batchFailureMessage e = (case e of None \<Rightarrow> ''task failed'' | Some m \<Rightarrow> m)"

definition relation_row :: "string \<Rightarrow> string \<Rightarrow> nat \<Rightarrow> string \<Rightarrow> string \<Rightarrow> operation_task" where
  "relation_row oid tid n state result = \<lparr>ot_operation = oid, ot_task = tid, ot_ordinal = int n,
     ot_state = state, ot_result = result\<rparr>"

text \<open>The rows of the finished tasks, then the rows of the failures that name a task.\<close>

definition result_rows ::
    "string \<Rightarrow> string \<Rightarrow> (string \<times> string) list \<Rightarrow> (string \<times> string option) list \<Rightarrow> operation_task list" where
  "result_rows oid default_state ok failures =
     map (\<lambda>(n, tid, state). relation_row oid tid n (if state = [] then default_state else state) [])
       (zip [0..<length ok] ok) @
     map (\<lambda>(n, tid, m). relation_row oid tid (length ok + n) ''failed'' (batchFailureMessage m))
       (filter (\<lambda>(n, tid, m). tid \<noteq> []) (zip [0..<length failures] failures))"

definition operationTasksFromResult :: "json_codec \<Rightarrow> string \<Rightarrow> string \<Rightarrow> string \<Rightarrow> operation_task list" where
  "operationTasksFromResult j oid kind output =
     (if trim_space output = [] then []
      else let out = unwrapCommandResult j output in
        if kind = ''submit'' then
          (case decode_single j out of
             Some (tid, state) \<Rightarrow>
               if tid \<noteq> [] then [relation_row oid tid 0 (if state = [] then ''submitted'' else state) []]
               else (case decode_batch j out of None \<Rightarrow> []
                 | Some (ok, failures) \<Rightarrow> result_rows oid ''submitted'' ok failures)
           | None \<Rightarrow> (case decode_batch j out of None \<Rightarrow> []
                 | Some (ok, failures) \<Rightarrow> result_rows oid ''submitted'' ok failures))
        else if kind = ''pull'' then
          (case decode_pull j out of None \<Rightarrow> []
           | Some (ok, failures) \<Rightarrow> result_rows oid ''pulled'' ok failures)
        else [])"

definition markAutomaticPull :: "store \<Rightarrow> time \<Rightarrow> string list \<Rightarrow> bool \<Rightarrow> store" where
  "markAutomaticPull db now args success =
     (let rest = (case args of a # as \<Rightarrow> if a = ''pull'' then as else args | [] \<Rightarrow> [])
      in case rest of
        [] \<Rightarrow> db
      | selector # _ \<Rightarrow>
          if \<not> has_prefix selector ''jr_'' then db
          else (case GetTask db selector of Inl _ \<Rightarrow> db
            | Inr t \<Rightarrow>
                if task_meta t ''auto_pull'' = [] \<or> task_meta t ''auto_pull_enqueued'' \<noteq> ''1'' then db
                else let m = (if success then (metadata t)(''auto_pull_done'' \<mapsto> ''1'') else metadata t)
                  in snd (snd (UpdateTask db (t\<lparr>metadata := m(''auto_pull_enqueued'' \<mapsto> []), updated_at := now\<rparr>)))))"

text \<open>
  \<open>runOperation\<close> up to the execution: \<open>None\<close> when the worker stops here (an unreadable
  payload, or a lost lease), otherwise the payload and the operation it goes on with.
\<close>

definition runOperation_begin ::
    "json_codec \<Rightarrow> store \<Rightarrow> time \<Rightarrow> operation \<Rightarrow> (payload \<times> operation) option \<times> store" where
  "runOperation_begin j db now op = (case decode_payload j (op_payload op) of
     None \<Rightarrow> (None, finishOperation db now op OperationFailed ''invalid operation payload'' ''OPERATION_INVALID'' False)
   | Some p \<Rightarrow> (case updateOperationStage db now op ''executing'' of
        (Inl _, _, db1) \<Rightarrow> (None, db1)
      | (Inr _, op1, db1) \<Rightarrow> (Some (p, op1), db1)))"

text \<open>\<open>workdir\<close>: the snapshot, or the project's present path, or the path at admission.\<close>

definition operation_workdir :: "store \<Rightarrow> payload \<Rightarrow> string" where
  "operation_workdir db p =
     (if pl_snapshot_root p \<noteq> [] then pl_snapshot_root p
      else if pl_project p \<noteq> [] then (case GetProject db (pl_project p) of
          Inr b \<Rightarrow> if proj_root b \<noteq> [] then proj_root b else pl_cwd p | Inl _ \<Rightarrow> pl_cwd p)
      else pl_cwd p)"

text \<open>\<open>runOperation\<close> from the end of the execution on.\<close>

definition runOperation_end ::
    "json_codec \<Rightarrow> store \<Rightarrow> time \<Rightarrow> operation \<Rightarrow> payload \<Rightarrow> bool \<Rightarrow> nat \<Rightarrow> string \<Rightarrow> string \<Rightarrow> store" where
  "runOperation_end j db now op p cancelled code out err =
     (let rows = operationTasksFromResult j (op_id op) (op_kind op) out;
          db1 = (if rows \<noteq> [] then snd (ReplaceOperationTasks db (op_id op) rows) else db)
      in if cancelled then
           (if (case GetOperation db1 (op_id op) of Inr cur \<Rightarrow> op_state cur = OperationCancelled | Inl _ \<Rightarrow> False)
            then db1 else snd (RequeueOwnedOperation db1 now (op_id op) (lease_owner op)))
         else let op1 = op\<lparr>op_result := encode_output j out err\<rparr>
           in if code = 0
              then finishOperation (markAutomaticPull db1 now (pl_args p) True) now op1
                     OperationSucceeded ''operation completed'' [] False
              else finishOperation (markAutomaticPull db1 now (pl_args p) False) now op1
                     OperationFailed (trim_space err) ''OPERATION_COMMAND_FAILED'' False)"

section \<open>The user's commands\<close>

definition cancel_refused :: "operation \<Rightarrow> go_error option" where
  "cancel_refused op =
     (if op_state op = OperationSucceeded \<or> op_state op = OperationFailed \<or> op_state op = OperationCancelled
      then Some (fault_new ''OPERATION_TERMINAL'' False)
      else if op_state op = OperationRunning \<and> op_kind op = ''submit''
      then Some (fault_new ''OPERATION_CANCEL_UNSAFE'' False)
      else None)"

definition retry_refused :: "operation \<Rightarrow> go_error option" where
  "retry_refused op =
     (if op_state op \<noteq> OperationFailed \<and> op_state op \<noteq> OperationCancelled
      then Some (fault_new ''OPERATION_NOT_RETRYABLE'' False) else None)"

definition cancelled_by_user :: "time \<Rightarrow> operation \<Rightarrow> operation" where
  "cancelled_by_user now op = op\<lparr>op_state := OperationCancelled, op_stage := ''cancelled'',
     error_code := ''OPERATION_CANCELLED'', error_message := ''cancelled by user'', op_retryable := False,
     lease_owner := [], lease_expires_at := None, op_updated_at := now\<rparr>"

definition retried_by_user :: "time \<Rightarrow> operation \<Rightarrow> operation" where
  "retried_by_user now op = op\<lparr>op_state := OperationQueued, op_stage := ''queued'', error_code := [],
     error_message := [], op_retryable := False, next_attempt_at := None, finished_at := None,
     lease_owner := [], lease_expires_at := None, op_updated_at := now\<rparr>"

text \<open>
  The two halves of \<open>operation cancel\<close> and \<open>operation retry\<close>: the decision on the
  operation that was read, and the write, which is not conditional on it.
\<close>

definition user_decides :: "bool \<Rightarrow> time \<Rightarrow> operation \<Rightarrow> (go_error, operation) result" where
  "user_decides cancel now op =
     (if cancel then (case cancel_refused op of Some e \<Rightarrow> Inl e | None \<Rightarrow> Inr (cancelled_by_user now op))
      else (case retry_refused op of Some e \<Rightarrow> Inl e | None \<Rightarrow> Inr (retried_by_user now op)))"

definition user_writes :: "store \<Rightarrow> time \<Rightarrow> operation \<Rightarrow> (go_error, operation) result \<times> store" where
  "user_writes db now op = (case UpdateOperation db now op of
     (Inl e, db1) \<Rightarrow> (Inl e, db1)
   | (Inr _, db1) \<Rightarrow> (Inr op, snd (AppendOperationEvent db1 now (op_id op) (op_state op) (op_stage op))))"

definition user_operation ::
    "store \<Rightarrow> bool \<Rightarrow> time \<Rightarrow> string \<Rightarrow> (go_error, operation) result \<times> store" where
  "user_operation db cancel now i = (case GetOperation db i of
     Inl e \<Rightarrow> (Inl e, db)
   | Inr op \<Rightarrow> (case user_decides cancel now op of Inl e \<Rightarrow> (Inl e, db) | Inr op' \<Rightarrow> user_writes db now op'))"

text \<open>\<open>operation wait\<close>: what one look at the operation answers.\<close>

definition wait_satisfied :: "bool \<Rightarrow> operation \<Rightarrow> bool" where
  "wait_satisfied until_accepted op =
     (let accepted = operationTerminal (op_state op) \<or> op_stage op = ''scheduler_accepted'' \<or> op_stage op = ''accepted''
      in if until_accepted then accepted else operationTerminal (op_state op))"

definition wait_exit_code :: "operation \<Rightarrow> nat" where
  "wait_exit_code op = (if op_state op = OperationFailed \<or> op_state op = OperationCancelled then 1 else 0)"

section \<open>The interface of a leased queue\<close>

text \<open>
  What the workers rely on: an operation has at most one holder; a write of a worker that
  is not the holder has no effect; and nobody but a worker's own claim makes it a holder.
  A worker that lost its lease is therefore fenced off until it claims the operation again.
\<close>

locale lease_queue =
  fixes holder :: "'s \<Rightarrow> string \<Rightarrow> string option"
    and attempt :: "'s \<Rightarrow> string \<Rightarrow> string \<Rightarrow> 's \<Rightarrow> bool"
    and move :: "string \<Rightarrow> 's \<Rightarrow> 's \<Rightarrow> bool"
    and good :: "'s \<Rightarrow> bool"
  assumes attempt_fenced: "attempt s w i s' \<Longrightarrow> good s \<Longrightarrow> holder s i \<noteq> Some w \<Longrightarrow> s' = s"
    and move_good: "move w s s' \<Longrightarrow> good s \<Longrightarrow> good s'"
    and move_no_grant: "move w s s' \<Longrightarrow> good s \<Longrightarrow> holder s i \<noteq> Some w \<Longrightarrow> holder s' i \<noteq> Some w"
begin

lemma moves_no_grant:
  "(move w)\<^sup>*\<^sup>* s s' \<Longrightarrow> good s \<Longrightarrow> holder s i \<noteq> Some w \<Longrightarrow> good s' \<and> holder s' i \<noteq> Some w"
  by (induction rule: rtranclp_induct) (auto intro: move_good dest: move_no_grant)

lemma fenced:
  "(move w)\<^sup>*\<^sup>* s s' \<Longrightarrow> good s \<Longrightarrow> holder s i \<noteq> Some w \<Longrightarrow> attempt s' w i s'' \<Longrightarrow> s'' = s'"
  using moves_no_grant attempt_fenced by blast

end

section \<open>The operations keep the contract\<close>

definition lease_holder :: "store \<Rightarrow> string \<Rightarrow> string option" where
  "lease_holder db i = (case find_operation db i of None \<Rightarrow> None
     | Some r \<Rightarrow> if op_state r = OperationRunning \<and> lease_owner r \<noteq> [] then Some (lease_owner r) else None)"

text \<open>One try of worker \<open>w\<close> to write operation \<open>i\<close>, successful or not.\<close>

inductive worker_attempt :: "store \<Rightarrow> string \<Rightarrow> string \<Rightarrow> store \<Rightarrow> bool" where
  stage: "w \<noteq> [] \<Longrightarrow> lease_owner op = w \<Longrightarrow> op_id op = i \<Longrightarrow> op_state op = OperationRunning \<Longrightarrow>
    lease_expires_at op \<noteq> None \<Longrightarrow> updateOperationStage db now op sg = (r, op', db') \<Longrightarrow> worker_attempt db w i db'"
| finish: "w \<noteq> [] \<Longrightarrow> lease_owner op = w \<Longrightarrow> op_id op = i \<Longrightarrow> st \<noteq> OperationRunning \<Longrightarrow>
    finishOperation db now op st msg code retry = db' \<Longrightarrow> worker_attempt db w i db'"
| renew: "w \<noteq> [] \<Longrightarrow> lease_owner op = w \<Longrightarrow> op_id op = i \<Longrightarrow>
    renewTick db now op = (r, db') \<Longrightarrow> worker_attempt db w i db'"
| requeue: "w \<noteq> [] \<Longrightarrow> RequeueOwnedOperation db now i w = (r, db') \<Longrightarrow> worker_attempt db w i db'"

text \<open>What everybody else does: task changes, admission, progress rows and events.\<close>

inductive bystander :: "store \<Rightarrow> store \<Rightarrow> bool" where
  tasks: "store_change db db' \<Longrightarrow> bystander db db'"
| admit: "lease_owner op = [] \<Longrightarrow> lease_expires_at op = None \<Longrightarrow> op_state op \<noteq> OperationRunning \<Longrightarrow>
    CreateOperation db now op = (r, op', db') \<Longrightarrow> bystander db db'"
| progress: "ReplaceOperationTasks db i ts = (r, db') \<Longrightarrow> bystander db db'"
| event: "AppendOperationEvent db now i st sg = (r, db') \<Longrightarrow> bystander db db'"

text \<open>The write of a user's command, whatever the operation was when it was read.\<close>

inductive user_change :: "store \<Rightarrow> store \<Rightarrow> bool" where
  user: "user_decides cancel now op = Inr op' \<Longrightarrow> user_writes db now op' = (r, db') \<Longrightarrow> user_change db db'"

text \<open>The moves of the system in which worker \<open>w\<close> claims nothing.\<close>

inductive move_without :: "string \<Rightarrow> store \<Rightarrow> store \<Rightarrow> bool" for w where
  claim: "v \<noteq> w \<Longrightarrow> ClaimNextOperationExcept db now v lease blocked = (c, db') \<Longrightarrow> move_without w db db'"
| attempt: "worker_attempt db v i db' \<Longrightarrow> move_without w db db'"
| other: "bystander db db' \<Longrightarrow> move_without w db db'"
| user: "user_change db db' \<Longrightarrow> move_without w db db'"

lemma owned_holder:
  assumes "operations_ok db" and "w \<noteq> []"
  shows "rows_where (owned i w) (operations db) = 0 \<longleftrightarrow> lease_holder db i \<noteq> Some w"
proof
  assume none: "rows_where (owned i w) (operations db) = 0"
  show "lease_holder db i \<noteq> Some w"
    using none find_operation_Some [of db i]
    by (auto simp: lease_holder_def rows_where_zero owned_def split: option.splits if_splits)
next
  assume h: "lease_holder db i \<noteq> Some w"
  show "rows_where (owned i w) (operations db) = 0"
    using h assms(2) find_operation_mem [OF assms(1)]
    by (auto simp: lease_holder_def rows_where_zero owned_def)
qed

lemma refused_write:
  assumes "operations_ok db" and "w \<noteq> []" and "lease_holder db i \<noteq> Some w"
  shows "op_id op = i \<Longrightarrow> UpdateOperationOwned db now op w =
      (Inl (fault_new (if i = [] then ''OPERATION_INVALID'' else ''OPERATION_LEASE_LOST'') (i \<noteq> [])), db)"
    and "RenewOperationLease db now i w t =
      (Inl (fault_new (if i = [] then ''OPERATION_INVALID'' else ''OPERATION_LEASE_LOST'') (i \<noteq> [])), db)"
    and "RequeueOwnedOperation db now i w =
      (Inl (fault_new (if i = [] then ''OPERATION_INVALID'' else ''OPERATION_LEASE_LOST'') (i \<noteq> [])), db)"
  using assms(2,3) owned_holder [OF assms(1,2), of i]
  by (auto simp: UpdateOperationOwned_def RenewOperationLease_def RequeueOwnedOperation_def
      update_operations_def)

lemma worker_attempt_fenced:
  assumes "worker_attempt db w i db'" and "operations_ok db" and "lease_holder db i \<noteq> Some w"
  shows "db' = db"
  using assms(1)
proof cases
  case (stage op now sg r op')
  have "UpdateOperationOwned db now (op\<lparr>op_stage := sg, op_updated_at := now\<rparr>) w =
      (Inl (fault_new (if i = [] then ''OPERATION_INVALID'' else ''OPERATION_LEASE_LOST'') (i \<noteq> [])), db)"
    by (rule refused_write(1) [OF assms(2) stage(1) assms(3)]) (simp add: stage)
  with stage(2,6) show ?thesis by (simp add: updateOperationStage_def Let_def)
next
  case (finish op st now msg code retry)
  have "UpdateOperationOwned db now (finished op now st msg code retry) w =
      (Inl (fault_new (if i = [] then ''OPERATION_INVALID'' else ''OPERATION_LEASE_LOST'') (i \<noteq> [])), db)"
    by (rule refused_write(1) [OF assms(2) finish(1) assms(3)]) (simp add: finish finished_def)
  with finish show ?thesis by (auto simp: finishOperation_def Let_def split: if_splits)
next
  case (renew op now r)
  then show ?thesis using refused_write(2) [OF assms(2) renew(1) assms(3)] by (simp add: renewTick_def)
next
  case (requeue now r)
  then show ?thesis using refused_write(3) [OF assms(2) requeue(1) assms(3)] by simp
qed

lemma lease_holder_operations:
  "operations db' = operations db \<Longrightarrow> lease_holder db' i = lease_holder db i"
  by (simp add: lease_holder_def find_operation_def)

lemma AppendOperationEvent_holder:
  "AppendOperationEvent db now i st sg = (r, db') \<Longrightarrow> lease_holder db' j = lease_holder db j"
  by (rule lease_holder_operations) (drule AppendOperationEvent_frame, simp)

lemma holder_update:
  assumes "update_operations db hit f none = (r, db')" and "keeps_identity f"
    and "\<And>x. hit x \<Longrightarrow> op_state (f x) = OperationRunning \<Longrightarrow> lease_owner (f x) \<noteq> [] \<Longrightarrow>
      op_state x = OperationRunning \<and> lease_owner x = lease_owner (f x)"
    and "lease_holder db' j = Some p"
  shows "lease_holder db j = Some p"
proof -
  obtain y where y: "find_operation db' j = Some y" "op_state y = OperationRunning"
    "lease_owner y \<noteq> []" "p = lease_owner y"
    using assms(4) by (auto simp: lease_holder_def split: option.splits if_splits)
  obtain x where x: "find_operation db j = Some x" "y = (if hit x \<and> r = Inr () then f x else x)"
    using update_operations_ok(4) [OF assms(1,2), of j] y(1) by (cases "find_operation db j") auto
  have "op_state x = OperationRunning \<and> lease_owner x = lease_owner y"
    using assms(3) [of x] x(2) y(2,3) by (cases "hit x \<and> r = Inr ()") auto
  then show ?thesis using x(1) y(3,4) by (simp add: lease_holder_def)
qed

lemma touch_simps [simp]:
  "op_state (touch now op) = op_state op" "lease_owner (touch now op) = lease_owner op"
  "lease_expires_at (touch now op) = lease_expires_at op" "op_id (touch now op) = op_id op"
  by (simp_all add: touch_def)

lemma write_values_simps [simp]:
  "op_state (write_values op r) = op_state op" "lease_owner (write_values op r) = lease_owner op"
  "lease_expires_at (write_values op r) = lease_expires_at op"
  by (simp_all add: write_values_def)

lemma owned_write_holder:
  assumes "UpdateOperationOwned db now op v = (r, db')"
    and "op_state op = OperationRunning \<Longrightarrow> lease_owner op = v"
    and "lease_holder db' j = Some p"
  shows "lease_holder db j = Some p"
proof (cases "op_id op = [] \<or> v = []")
  case True
  then show ?thesis using assms by (auto simp: UpdateOperationOwned_def)
next
  case False
  then have u: "update_operations db (owned (op_id op) v) (write_values (touch now op))
      (fault_new ''OPERATION_LEASE_LOST'' True) = (r, db')"
    using assms(1) by (simp add: UpdateOperationOwned_def)
  show ?thesis
    by (rule holder_update [OF u _ _ assms(3)])
      (use assms(2) in \<open>auto simp: owned_def\<close>)
qed

lemma worker_attempt_keeps:
  assumes "worker_attempt db v i db'" and "lease_holder db' j = Some p"
  shows "lease_holder db j = Some p"
  using assms(1)
proof cases
  case (stage op now sg r op')
  obtain r1 db1 where u: "UpdateOperationOwned db now (op\<lparr>op_stage := sg, op_updated_at := now\<rparr>) v = (r1, db1)"
    by fastforce
  have "lease_holder db1 j = Some p"
    using stage u assms(2) AppendOperationEvent_holder
    by (auto simp: updateOperationStage_def Let_def split: sum.splits prod.splits)
  then show ?thesis using owned_write_holder [OF u] stage(2) by simp
next
  case (finish op st now msg code retry)
  obtain r1 db1 where u: "UpdateOperationOwned db now (finished op now st msg code retry) v = (r1, db1)"
    by fastforce
  have "db' = db \<or> lease_holder db1 j = Some p"
  proof (cases r1)
    case (Inl e)
    then show ?thesis using finish u assms(2) by (auto simp: finishOperation_def Let_def split: if_splits)
  next
    case (Inr x)
    have "AppendOperationEvent db1 now (op_id (finished op now st msg code retry)) st
      (op_stage (finished op now st msg code retry)) = (a, b) \<Longrightarrow> lease_holder b j = lease_holder db1 j" for a b
      by (rule AppendOperationEvent_holder)
    then show ?thesis using finish u assms(2) Inr
      by (cases "AppendOperationEvent db1 now (op_id (finished op now st msg code retry)) st
        (op_stage (finished op now st msg code retry))")
        (auto simp: finishOperation_def Let_def split: if_splits)
  qed
  then show ?thesis
    using owned_write_holder [OF u] assms(2) finish(4) by (auto simp: finished_def)
next
  case (renew op now r)
  show ?thesis
  proof (cases "i = []")
    case True
    then show ?thesis using renew assms(2) by (simp add: renewTick_def RenewOperationLease_def)
  next
    case False
    then have u: "update_operations db (owned i v) (\<lambda>r. r\<lparr>lease_expires_at := Some (now + 30 * second),
        op_updated_at := now\<rparr>) (fault_new ''OPERATION_LEASE_LOST'' True) = (r, db')"
      using renew by (simp add: renewTick_def RenewOperationLease_def)
    show ?thesis by (rule holder_update [OF u _ _ assms(2)]) auto
  qed
next
  case (requeue now r)
  show ?thesis
  proof (cases "i = []")
    case True
    then show ?thesis using requeue assms(2) by (simp add: RequeueOwnedOperation_def)
  next
    case False
    then have u: "update_operations db (owned i v) (\<lambda>r. r\<lparr>op_state := OperationQueued, op_stage := ''queued'',
          op_retryable := True, next_attempt_at := None, lease_owner := [], lease_expires_at := None,
          error_code := [], error_message := [], op_updated_at := now\<rparr>)
        (fault_new ''OPERATION_LEASE_LOST'' True) = (r, db')"
      using requeue by (simp add: RequeueOwnedOperation_def)
    show ?thesis by (rule holder_update [OF u _ _ assms(2)]) auto
  qed
qed

lemma user_decides_released:
  "user_decides cancel now op = Inr op' \<Longrightarrow> op_id op' = op_id op \<and> op_state op' \<noteq> OperationRunning \<and>
     lease_owner op' = [] \<and> lease_expires_at op' = None"
  by (auto simp: user_decides_def cancelled_by_user_def retried_by_user_def
      split: if_splits option.splits)

lemma user_writes_holder:
  assumes "user_writes db now op = (r, db')" and "op_state op \<noteq> OperationRunning"
    and "lease_holder db' j = Some p"
  shows "lease_holder db j = Some p"
proof -
  obtain r1 db1 where u: "UpdateOperation db now op = (r1, db1)" by fastforce
  have h: "lease_holder db1 j = Some p"
  proof (cases r1)
    case (Inl e)
    then show ?thesis using assms u by (simp add: user_writes_def)
  next
    case (Inr x)
    have "AppendOperationEvent db1 now (op_id op) (op_state op) (op_stage op) = (a, b) \<Longrightarrow>
      lease_holder b j = lease_holder db1 j" for a b by (rule AppendOperationEvent_holder)
    then show ?thesis using assms u Inr
      by (cases "AppendOperationEvent db1 now (op_id op) (op_state op) (op_stage op)")
        (auto simp: user_writes_def)
  qed
  show ?thesis
  proof (cases "op_id op = []")
    case True
    then show ?thesis using u h by (simp add: UpdateOperation_def)
  next
    case False
    then have u2: "update_operations db (\<lambda>r. op_id r = op_id op) (write_values (touch now op))
       (fault_new ''OPERATION_NOT_FOUND'' False) = (r1, db1)"
      using u by (simp add: UpdateOperation_def)
    show ?thesis
      by (rule holder_update [OF u2 _ _ h]) (use assms(2) in \<open>auto simp: owned_def\<close>)
  qed
qed

lemma bystander_keeps:
  assumes "bystander db db'" and "lease_holder db' j = Some p"
  shows "lease_holder db j = Some p"
  using assms(1)
proof cases
  case tasks
  then have "operations db' = operations db"
    using store_change_same_operations by (simp add: same_operations_def)
  then show ?thesis using assms(2) lease_holder_operations by metis
next
  case (admit op now r op')
  from admit(4) show ?thesis
  proof (cases rule: CreateOperation_cases)
    case failed
    then show ?thesis using assms(2) by simp
  next
    case created
    have "op_state op' \<noteq> OperationRunning"
      using admit(3) by (auto simp: created(2) with_defaults_def Let_def split: if_splits)
    then show ?thesis
      using assms(2) by (auto simp: created(4) lease_holder_def find_operation_def find_append
          split: option.splits if_splits)
  qed
next
  case (progress i ts r)
  have "operations (the_db) = operations db" if "insert_relations d i n ts = Inr the_db" "operations d = operations db"
    for d n the_db
    using that by (induction d i n ts rule: insert_relations.induct)
      (auto simp: insertOperationTask_def Let_def split: if_splits sum.splits)
  then have "operations db' = operations db"
    using progress by (auto simp: ReplaceOperationTasks_def split: if_splits sum.splits)
  then show ?thesis using assms(2) lease_holder_operations by metis
next
  case (event now i st sg r)
  then show ?thesis using AppendOperationEvent_holder assms(2) by metis
qed

lemma user_change_keeps:
  assumes "user_change db db'" and "lease_holder db' j = Some p"
  shows "lease_holder db j = Some p"
  using assms(1)
proof cases
  case (user cancel now op op' r)
  then show ?thesis using user_writes_holder [OF user(2)] user_decides_released [OF user(1)] assms(2) by blast
qed

lemma claim_no_grant:
  assumes "ClaimNextOperationExcept db now v lease blocked = (c, db')" and "operations_ok db"
    and "lease_holder db' j = Some p" and "p \<noteq> v"
  shows "lease_holder db j = Some p"
proof (cases "\<exists>op. c = Inr (Some op)")
  case True
  then obtain op where cl: "ClaimNextOperationExcept db now v lease blocked = (Inr (Some op), db')"
    using assms(1) by auto
  obtain old where o: "op = claimed now lease v (reclaimed now old)"
    "\<And>i. find_operation db' i = (if i = op_id op then Some op else map_option (reclaimed now) (find_operation db i))"
    by (rule Claim_some [OF cl assms(2)]) blast
  show ?thesis
    using assms(3,4) o(2) [of j] o(1)
    by (auto simp: lease_holder_def claimed_def reclaimed_def split: if_splits option.splits)
next
  case False
  then have "db' = db"
    using assms(1) by (auto simp: ClaimNextOperationExcept_def Let_def split: if_splits list.splits)
  then show ?thesis using assms(3) by simp
qed

section \<open>Every move is a run of database operations\<close>

lemma stage_run: "updateOperationStage db now op sg = (r, op', db') \<Longrightarrow> db_change\<^sup>*\<^sup>* db db'"
proof -
  assume u: "updateOperationStage db now op sg = (r, op', db')"
  obtain r1 db1 where o: "UpdateOperationOwned db now (op\<lparr>op_stage := sg, op_updated_at := now\<rparr>) (lease_owner op) = (r1, db1)"
    by fastforce
  obtain r2 db2 where a: "AppendOperationEvent db1 now (op_id op) (op_state op) sg = (r2, db2)" by fastforce
  have "db' = db1 \<or> db' = db2"
    using u o a by (auto simp: updateOperationStage_def Let_def split: sum.splits)
  then show ?thesis
    using db_change.write_owned [OF o] db_change.event [OF a]
    by (auto intro: rtranclp.rtrancl_into_rtrancl)
qed

lemma finish_run: "db_change\<^sup>*\<^sup>* db (finishOperation db now op st msg code retry)"
proof -
  define op' where "op' = finished op now st msg code retry"
  obtain r1 db1 where o: "(if lease_owner op \<noteq> [] then UpdateOperationOwned db now op' (lease_owner op)
      else UpdateOperation db now op') = (r1, db1)" by fastforce
  obtain r2 db2 where a: "AppendOperationEvent db1 now (op_id op') st (op_stage op') = (r2, db2)" by fastforce
  have c: "db_change db db1"
    using o db_change.write_owned db_change.overwrite by (auto split: if_splits)
  have "finishOperation db now op st msg code retry \<in> {db, db1, db2}"
    using o a by (auto simp: finishOperation_def Let_def op'_def [symmetric] split: sum.splits)
  then show ?thesis
    using c db_change.event [OF a] by (auto intro: rtranclp.rtrancl_into_rtrancl)
qed

lemma user_writes_run: "user_writes db now op = (r, db') \<Longrightarrow> db_change\<^sup>*\<^sup>* db db'"
proof -
  assume u: "user_writes db now op = (r, db')"
  obtain r1 db1 where o: "UpdateOperation db now op = (r1, db1)" by fastforce
  obtain r2 db2 where a: "AppendOperationEvent db1 now (op_id op) (op_state op) (op_stage op) = (r2, db2)" by fastforce
  have "db' = db1 \<or> db' = db2"
    using u o a by (auto simp: user_writes_def split: sum.splits)
  then show ?thesis
    using db_change.overwrite [OF o] db_change.event [OF a]
    by (auto intro: rtranclp.rtrancl_into_rtrancl)
qed

lemma worker_attempt_run: "worker_attempt db w i db' \<Longrightarrow> db_change\<^sup>*\<^sup>* db db'"
  by (erule worker_attempt.cases)
    (auto dest: stage_run simp: renewTick_def intro: finish_run db_change.renew db_change.requeue)

lemma bystander_run: "bystander db db' \<Longrightarrow> db_change\<^sup>*\<^sup>* db db'"
  by (erule bystander.cases)
    (auto intro: db_change.tasks db_change.admit db_change.progress db_change.event)

lemma user_change_run: "user_change db db' \<Longrightarrow> db_change\<^sup>*\<^sup>* db db'"
  by (erule user_change.cases) (auto dest: user_writes_run)

lemma move_without_run: "move_without w db db' \<Longrightarrow> db_change\<^sup>*\<^sup>* db db'"
  by (erule move_without.cases)
    (auto dest: worker_attempt_run bystander_run user_change_run intro: db_change.claim)

interpretation workers: lease_queue lease_holder worker_attempt move_without db_ok
proof unfold_locales
  show "s' = s" if "worker_attempt s w i s'" "db_ok s" "lease_holder s i \<noteq> Some w" for s s' w i
    using worker_attempt_fenced that by (simp add: db_ok_def)
  show "db_ok s'" if "move_without w s s'" "db_ok s" for s s' w
    using db_run_ok [OF move_without_run [OF that(1)] that(2)] ..
  show "lease_holder s' i \<noteq> Some w"
    if "move_without w s s'" "db_ok s" "lease_holder s i \<noteq> Some w" for s s' w i
    using that(1)
  proof cases
    case (claim v now lease blocked c)
    then show ?thesis using claim_no_grant that(2,3) by (auto simp: db_ok_def)
  next
    case (attempt v i)
    then show ?thesis using worker_attempt_keeps that(3) by blast
  next
    case other
    then show ?thesis using bystander_keeps that(3) by blast
  next
    case user
    then show ?thesis using user_change_keeps that(3) by blast
  qed
qed

section \<open>Leases are coherent\<close>

definition lease_coherent :: "operation \<Rightarrow> bool" where
  "lease_coherent r \<longleftrightarrow> (op_state r = OperationRunning) = (lease_owner r \<noteq> []) \<and>
     (op_state r = OperationRunning) = (lease_expires_at r \<noteq> None)"

definition leases_coherent :: "store \<Rightarrow> bool" where
  "leases_coherent db \<longleftrightarrow> (\<forall>r\<in>set (operations db). lease_coherent r)"

text \<open>Every move of the running system, first those without the user.\<close>

inductive unattended :: "store \<Rightarrow> store \<Rightarrow> bool" where
  claim: "ClaimNextOperationExcept db now v lease blocked = (c, db') \<Longrightarrow> unattended db db'"
| attempt: "worker_attempt db v i db' \<Longrightarrow> unattended db db'"
| other: "bystander db db' \<Longrightarrow> unattended db db'"

definition engine_change :: "store \<Rightarrow> store \<Rightarrow> bool" where
  "engine_change db db' \<longleftrightarrow> unattended db db' \<or> user_change db db'"

lemma leases_coherent_operations: "operations db' = operations db \<Longrightarrow> leases_coherent db' = leases_coherent db"
  by (simp add: leases_coherent_def)

lemma leases_coherent_empty [simp]: "leases_coherent empty_store"
  by (simp add: leases_coherent_def empty_store_def)

lemma AppendOperationEvent_coherent:
  "AppendOperationEvent db now i st sg = (r, db') \<Longrightarrow> leases_coherent db' = leases_coherent db"
  by (rule leases_coherent_operations) (drule AppendOperationEvent_frame, simp)

lemma update_coherent:
  assumes "update_operations db hit f none = (r, db')" and "leases_coherent db"
    and "\<And>x. hit x \<Longrightarrow> lease_coherent x \<Longrightarrow> lease_coherent (f x)"
  shows "leases_coherent db'"
  using assms by (auto simp: update_operations_def leases_coherent_def set_update_where split: if_splits)

lemma overwrite_coherent:
  "UpdateOperation db now op = (r, db') \<Longrightarrow> lease_coherent op \<Longrightarrow> leases_coherent db \<Longrightarrow> leases_coherent db'"
  "UpdateOperationOwned db now op w = (r, db') \<Longrightarrow> lease_coherent op \<Longrightarrow> leases_coherent db \<Longrightarrow> leases_coherent db'"
  by (auto simp: UpdateOperation_def UpdateOperationOwned_def lease_coherent_def split: if_splits
      elim!: update_coherent)

lemma claim_coherent:
  assumes "ClaimNextOperationExcept db now v lease blocked = (c, db')" and "leases_coherent db"
  shows "leases_coherent db'"
proof -
  have "lease_coherent (reclaimed now x)" if "lease_coherent x" for x
    using that by (auto simp: reclaimed_def lease_coherent_def)
  then have "\<forall>x\<in>set (reclaim now (operations db)). lease_coherent x"
    using assms(2) by (auto simp: reclaim_map leases_coherent_def)
  then have upd: "leases_coherent (db\<lparr>operations := update_where hit f (reclaim now (operations db))\<rparr>)"
    if "\<And>x. lease_coherent (f x)" for hit f
    using that by (auto simp: leases_coherent_def set_update_where)
  show ?thesis
  proof (cases "v = [] \<or> claimable db now blocked = []")
    case True
    then show ?thesis using assms by (auto simp: ClaimNextOperationExcept_def split: if_splits)
  next
    case False
    then obtain op rest where cl: "claimable db now blocked = op # rest" and v: "v \<noteq> []"
      by (cases "claimable db now blocked") auto
    have "db' = db\<lparr>operations :=
        update_where (\<lambda>r. op_id r = op_id op \<and> op_state r = OperationQueued)
          (\<lambda>r. r\<lparr>op_state := OperationRunning, op_stage := op_stage op, op_attempt := op_attempt op + 1,
             lease_owner := v, lease_expires_at := Some (now + lease), started_at := Some now,
             op_updated_at := now\<rparr>) (reclaim now (operations db))\<rparr>"
      using assms(1) cl v by (simp add: ClaimNextOperationExcept_def Let_def claimed_def)
    then show ?thesis using v by (simp only:) (rule upd, simp add: lease_coherent_def)
  qed
qed

lemma stage_coherent:
  assumes "updateOperationStage db now op sg = (r, op', db')" and "lease_coherent op" and "leases_coherent db"
  shows "leases_coherent db'"
proof -
  obtain r1 db1 where o: "UpdateOperationOwned db now (op\<lparr>op_stage := sg, op_updated_at := now\<rparr>) (lease_owner op) = (r1, db1)"
    by fastforce
  obtain r2 db2 where a: "AppendOperationEvent db1 now (op_id op) (op_state op) sg = (r2, db2)" by fastforce
  have "leases_coherent db1"
    by (rule overwrite_coherent(2) [OF o _ assms(3)]) (use assms(2) in \<open>auto simp: lease_coherent_def\<close>)
  moreover have "db' = db1 \<or> db' = db2"
    using assms(1) o a by (auto simp: updateOperationStage_def Let_def split: sum.splits)
  ultimately show ?thesis using AppendOperationEvent_coherent [OF a] by auto
qed

lemma finish_coherent:
  assumes "st \<noteq> OperationRunning" and "leases_coherent db"
  shows "leases_coherent (finishOperation db now op st msg code retry)"
proof -
  define op' where "op' = finished op now st msg code retry"
  have c: "lease_coherent op'" using assms(1) by (simp add: op'_def finished_def lease_coherent_def)
  obtain r1 db1 where o: "(if lease_owner op \<noteq> [] then UpdateOperationOwned db now op' (lease_owner op)
      else UpdateOperation db now op') = (r1, db1)" by fastforce
  obtain r2 db2 where a: "AppendOperationEvent db1 now (op_id op') st (op_stage op') = (r2, db2)" by fastforce
  have "leases_coherent db1"
    using o c assms(2) overwrite_coherent by (auto split: if_splits)
  moreover have "finishOperation db now op st msg code retry \<in> {db, db1, db2}"
    using o a by (auto simp: finishOperation_def Let_def op'_def [symmetric] split: sum.splits)
  ultimately show ?thesis using AppendOperationEvent_coherent [OF a] assms(2) by auto
qed

lemma worker_attempt_coherent:
  assumes "worker_attempt db w i db'" and "leases_coherent db"
  shows "leases_coherent db'"
  using assms(1)
proof cases
  case (stage op now sg r op')
  then show ?thesis using stage_coherent [OF stage(6) _ assms(2)] by (simp add: lease_coherent_def)
next
  case (finish op st now msg code retry)
  then show ?thesis using finish_coherent assms(2) by blast
next
  case (renew op now r)
  then show ?thesis using assms(2)
    by (auto simp: renewTick_def RenewOperationLease_def owned_def lease_coherent_def split: if_splits
        elim!: update_coherent)
next
  case (requeue now r)
  then show ?thesis using assms(2)
    by (auto simp: RequeueOwnedOperation_def lease_coherent_def split: if_splits elim!: update_coherent)
qed

lemma ReplaceOperationTasks_operations:
  assumes "ReplaceOperationTasks db i ts = (r, db')"
  shows "operations db' = operations db"
proof -
  have "operations d' = operations db" if "insert_relations d i n ts = Inr d'" "operations d = operations db"
    for d n d' ts
    using that by (induction d i n ts rule: insert_relations.induct)
      (auto simp: insertOperationTask_def Let_def split: if_splits sum.splits)
  then show ?thesis
    using assms by (auto simp: ReplaceOperationTasks_def split: if_splits sum.splits)
qed

text \<open>The operations after a bystander: the same, or one more that is not running.\<close>

lemma bystander_operations:
  assumes "bystander db db'"
  obtains (same) "operations db' = operations db"
    | (added) op where "operations db' = operations db @ [op]" "op_state op \<noteq> OperationRunning"
        "lease_coherent op" "find_operation db (op_id op) = None"
  using assms
proof cases
  case tasks
  then show ?thesis using that(1) store_change_same_operations by (simp add: same_operations_def)
next
  case (admit op now r op')
  from admit(4) show ?thesis
  proof (cases rule: CreateOperation_cases)
    case failed
    then show ?thesis using that(1) by simp
  next
    case created
    have "op_state op' \<noteq> OperationRunning" "lease_owner op' = []" "lease_expires_at op' = None"
      using admit(1-3) by (auto simp: created(2) with_defaults_def Let_def split: if_splits)
    moreover have "find_operation db (op_id op') = None"
      using created(3) by (simp add: insertOperation_def split: if_splits)
    ultimately show ?thesis using that(2) [of op'] by (simp add: created(4) lease_coherent_def)
  qed
next
  case (progress i ts r)
  then show ?thesis using that(1) ReplaceOperationTasks_operations by blast
next
  case (event now i st sg r)
  then show ?thesis using that(1) AppendOperationEvent_frame by blast
qed

lemma user_change_coherent:
  assumes "user_change db db'" and "leases_coherent db"
  shows "leases_coherent db'"
  using assms(1)
proof cases
  case (user cancel now op op' r)
  have c: "lease_coherent op'" using user_decides_released [OF user(1)] by (simp add: lease_coherent_def)
  obtain r1 db1 where o: "UpdateOperation db now op' = (r1, db1)" by fastforce
  obtain r2 db2 where a: "AppendOperationEvent db1 now (op_id op') (op_state op') (op_stage op') = (r2, db2)" by fastforce
  have "db' = db1 \<or> db' = db2"
    using user(2) o a by (auto simp: user_writes_def split: sum.splits)
  then show ?thesis
    using overwrite_coherent(1) [OF o c assms(2)] AppendOperationEvent_coherent [OF a] by auto
qed

lemma engine_change_ok:
  assumes "engine_change db db'" and "db_ok db \<and> leases_coherent db"
  shows "db_ok db' \<and> leases_coherent db'"
proof -
  have run: "db_change\<^sup>*\<^sup>* db db'"
    using assms(1) by (auto simp: engine_change_def elim!: unattended.cases
        dest: worker_attempt_run bystander_run user_change_run intro: db_change.claim)
  have "leases_coherent db'"
    using assms claim_coherent worker_attempt_coherent user_change_coherent
    by (auto simp: engine_change_def elim!: unattended.cases bystander_operations)
      (auto simp: leases_coherent_def)
  with db_run_ok [OF run] assms(2) show ?thesis by blast
qed

lemma engine_run_ok:
  "engine_change\<^sup>*\<^sup>* db db' \<Longrightarrow> db_ok db \<and> leases_coherent db \<Longrightarrow> db_ok db' \<and> leases_coherent db'"
  by (induction rule: rtranclp_induct) (blast dest: engine_change_ok)+

section \<open>Settled operations\<close>

lemma owned_update_settled:
  assumes "update_operations db (owned j w) f none = (r, db')" and "keeps_identity f"
    and "find_operation db i = Some x" and "op_state x \<noteq> OperationRunning"
  shows "find_operation db' i = Some x"
  using update_operations_ok(4) [OF assms(1,2), of i] assms(3,4) by (simp add: owned_def)

lemma find_operation_operations: "operations db' = operations db \<Longrightarrow> find_operation db' i = find_operation db i"
  by (simp add: find_operation_def)

lemma AppendOperationEvent_find:
  "AppendOperationEvent db now j st sg = (r, db') \<Longrightarrow> find_operation db' i = find_operation db i"
  by (rule find_operation_operations) (drule AppendOperationEvent_frame, simp)

lemma owned_write_settled:
  assumes "UpdateOperationOwned db now op w = (r, db')"
    and "find_operation db i = Some x" and "op_state x \<noteq> OperationRunning"
  shows "find_operation db' i = Some x"
  using assms by (auto simp: UpdateOperationOwned_def split: if_splits elim!: owned_update_settled)

lemma worker_attempt_settled:
  assumes "worker_attempt db w j db'" and "find_operation db i = Some x" and "op_state x \<noteq> OperationRunning"
  shows "find_operation db' i = Some x"
  using assms(1)
proof cases
  case (stage op now sg r op')
  obtain r1 db1 where o: "UpdateOperationOwned db now (op\<lparr>op_stage := sg, op_updated_at := now\<rparr>) (lease_owner op) = (r1, db1)"
    by fastforce
  obtain r2 db2 where a: "AppendOperationEvent db1 now (op_id op) (op_state op) sg = (r2, db2)" by fastforce
  have "db' = db1 \<or> db' = db2"
    using stage(6) o a by (auto simp: updateOperationStage_def Let_def split: sum.splits)
  then show ?thesis
    using owned_write_settled [OF o assms(2,3)] AppendOperationEvent_find [OF a, of i] by auto
next
  case (finish op st now msg code retry)
  define op' where "op' = finished op now st msg code retry"
  obtain r1 db1 where o: "UpdateOperationOwned db now op' w = (r1, db1)" by fastforce
  obtain r2 db2 where a: "AppendOperationEvent db1 now (op_id op') st (op_stage op') = (r2, db2)" by fastforce
  have "db' \<in> {db, db1, db2}"
    using finish o a by (auto simp: finishOperation_def Let_def op'_def [symmetric] split: sum.splits)
  then show ?thesis
    using owned_write_settled [OF o assms(2,3)] AppendOperationEvent_find [OF a, of i] assms(2) by auto
next
  case (renew op now r)
  then show ?thesis using assms(2,3)
    by (auto simp: renewTick_def RenewOperationLease_def split: if_splits elim!: owned_update_settled)
next
  case (requeue now r)
  then show ?thesis using assms(2,3)
    by (auto simp: RequeueOwnedOperation_def split: if_splits elim!: owned_update_settled)
qed

lemma unattended_settled:
  assumes "unattended db db'" and "operations_ok db" and "find_operation db i = Some x"
    and "op_state x \<noteq> OperationRunning" and "op_state x \<noteq> OperationQueued"
  shows "find_operation db' i = Some x"
  using assms(1)
proof cases
  case (claim now v lease blocked c)
  have keep: "reclaimed now x = x" using assms(4) by (simp add: reclaimed_def lease_expired_def)
  show ?thesis
  proof (cases "\<exists>op. c = Inr (Some op)")
    case True
    then obtain op where cl: "ClaimNextOperationExcept db now v lease blocked = (Inr (Some op), db')"
      using claim by auto
    obtain old where o: "find_operation db (op_id op) = Some old" "due now (reclaimed now old)"
      "\<And>i. find_operation db' i = (if i = op_id op then Some op else map_option (reclaimed now) (find_operation db i))"
      by (rule Claim_some [OF cl assms(2)]) blast
    have "i \<noteq> op_id op"
      using o(1,2) assms(3,5) keep by (auto simp: due_def)
    then show ?thesis using o(3) [of i] assms(3) keep by simp
  next
    case False
    then have "db' = db"
      using claim by (auto simp: ClaimNextOperationExcept_def Let_def split: if_splits list.splits)
    then show ?thesis using assms(3) by simp
  qed
next
  case (attempt w j)
  then show ?thesis using worker_attempt_settled assms(3,4) by blast
next
  case other
  then show ?thesis
  proof (cases rule: bystander_operations)
    case same
    then show ?thesis using assms(3) find_operation_operations by metis
  next
    case (added op)
    then show ?thesis using assms(3) by (simp add: find_operation_def find_append)
  qed
qed

lemma unattended_ok: "unattended db db' \<Longrightarrow> db_ok db \<Longrightarrow> db_ok db'"
proof -
  assume u: "unattended db db'" and ok: "db_ok db"
  have "db_change\<^sup>*\<^sup>* db db'"
    using u by (auto elim!: unattended.cases dest: worker_attempt_run bystander_run intro: db_change.claim)
  then show "db_ok db'" using db_run_ok ok by blast
qed

section \<open>Properties\<close>

text \<open>
  C2. Fencing. A worker that does not hold the lease of an operation (it expired and was
  handed on, the operation was cancelled, finished or requeued) cannot change it: whatever
  claims of others, worker writes, admissions, task changes and user commands follow, as
  long as the worker itself claims nothing, its stage update, its final result, its lease
  renewal and its requeue leave the database exactly as it is.
\<close>

theorem stale_worker_fenced:
  assumes "db_ok db" and "lease_holder db i \<noteq> Some w" and "(move_without w)\<^sup>*\<^sup>* db db'"
    and "worker_attempt db' w i db''"
  shows "db'' = db'"
  by (rule workers.fenced [OF assms(3,1,2,4)])

lemma requeue_attempt: "w \<noteq> [] \<Longrightarrow> worker_attempt db w i (snd (RequeueOwnedOperation db now i w))"
proof -
  assume w: "w \<noteq> []"
  have "RequeueOwnedOperation db now i w =
    (fst (RequeueOwnedOperation db now i w), snd (RequeueOwnedOperation db now i w))" by simp
  from worker_attempt.requeue [OF w this] show ?thesis .
qed

theorem stale_worker_fenced_witness:
  "snd (RequeueOwnedOperation sample_queue 5 ''o1'' ''w9'') = sample_queue"
proof (rule stale_worker_fenced)
  show "db_ok sample_queue" by simp
  show "lease_holder sample_queue ''o1'' \<noteq> Some ''w9''"
    by (simp add: lease_holder_def find_operation_def sample_queue_def sample_operation_def)
  show "(move_without ''w9'')\<^sup>*\<^sup>* sample_queue sample_queue" by simp
  show "worker_attempt sample_queue ''w9'' ''o1'' (snd (RequeueOwnedOperation sample_queue 5 ''o1'' ''w9''))"
    by (rule requeue_attempt) simp
qed

text \<open>
  C17. In every database the running system can reach, an operation is running exactly
  when it has an owner, and exactly when it has a lease with an end: no operation is stuck
  running without a lease that can expire, and none that is not running keeps an owner.
\<close>

theorem leases_stay_coherent:
  assumes "engine_change\<^sup>*\<^sup>* empty_store db" and "r \<in> set (operations db)"
  shows "db_ok db \<and> (op_state r = OperationRunning) = (lease_owner r \<noteq> []) \<and>
     (op_state r = OperationRunning) = (lease_expires_at r \<noteq> None)"
proof -
  have ok: "db_ok db" "leases_coherent db" using engine_run_ok [OF assms(1)] by simp_all
  then have "lease_coherent r" using assms(2) by (simp add: leases_coherent_def)
  with ok(1) show ?thesis unfolding lease_coherent_def by blast
qed

definition sample_running :: store where
  "sample_running = sample_queue\<lparr>operations := [claimed 2 30 ''w1'' sample_operation]\<rparr>"

lemma sample_running_run: "engine_change\<^sup>*\<^sup>* empty_store sample_running"
proof -
  have "bystander empty_store sample_store" "bystander sample_store sample_created"
    using bystander.tasks [OF sample_store_ok(2)] bystander.tasks [OF sample_created_change] by simp_all
  moreover have "bystander sample_created sample_queue"
    by (rule bystander.admit [OF _ _ _ sample_CreateOperation]) (simp_all add: sample_operation_def)
  moreover have "unattended sample_queue sample_running"
    unfolding sample_running_def by (rule unattended.claim [OF sample_claim])
  ultimately have "engine_change empty_store sample_store" "engine_change sample_store sample_created"
    "engine_change sample_created sample_queue" "engine_change sample_queue sample_running"
    by (auto simp: engine_change_def intro: unattended.other)
  then show ?thesis by (meson converse_rtranclp_into_rtranclp rtranclp.rtrancl_refl)
qed

theorem leases_stay_coherent_witness:
  "lease_owner (claimed 2 30 ''w1'' sample_operation) \<noteq> []"
  using leases_stay_coherent [OF sample_running_run, of "claimed 2 30 ''w1'' sample_operation"]
  by (simp add: sample_running_def claimed_def)

text \<open>
  C15. A settled operation (succeeded, partially succeeded, failed, cancelled or waiting)
  is final without the user: no dispatcher, no worker, however late its write comes, no
  admission and no task change alters its row.
\<close>

theorem settled_is_final:
  assumes "db_ok db" and "find_operation db i = Some r"
    and "op_state r \<noteq> OperationQueued" and "op_state r \<noteq> OperationRunning" and "unattended\<^sup>*\<^sup>* db db'"
  shows "GetOperation db' i = Inr r"
proof -
  have "db_ok db' \<and> find_operation db' i = Some r"
    using assms(5,1,2)
  proof (induction rule: rtranclp_induct)
    case (step y z)
    then show ?case
      using unattended_settled [OF step(2) _ _ assms(4,3)] unattended_ok [OF step(2)]
      by (auto simp: db_ok_def)
  qed simp
  then show ?thesis by (simp add: GetOperation_def)
qed

definition sample_done :: store where
  "sample_done = finishOperation sample_running 3 (claimed 2 30 ''w1'' sample_operation)
     OperationSucceeded [] [] False"

lemma sample_done_operations:
  "operations sample_done = [finished (claimed 2 30 ''w1'' sample_operation) 3 OperationSucceeded [] [] False]"
  by (simp add: sample_done_def finishOperation_def GetOperation_def find_operation_def sample_running_def
      sample_queue_def sample_operation_def claimed_def finished_def UpdateOperationOwned_def
      update_operations_def owned_def rows_where_def write_values_def AppendOperationEvent_def
      touch_def is_zero_time_def Let_def)

theorem settled_is_final_witness:
  "GetOperation (snd (RequeueOwnedOperation sample_done 9 ''o1'' ''w1'')) ''o1'' =
     Inr (finished (claimed 2 30 ''w1'' sample_operation) 3 OperationSucceeded [] [] False)"
proof (rule settled_is_final [of sample_done])
  have ok: "db_ok sample_running"
    using engine_run_ok [OF sample_running_run] by simp
  then show "db_ok sample_done"
    unfolding sample_done_def using db_run_ok [OF finish_run ok] by blast
  show "find_operation sample_done ''o1'' =
      Some (finished (claimed 2 30 ''w1'' sample_operation) 3 OperationSucceeded [] [] False)"
    by (simp add: find_operation_def sample_done_operations finished_def claimed_def sample_operation_def)
  have "worker_attempt sample_done ''w1'' ''o1'' (snd (RequeueOwnedOperation sample_done 9 ''o1'' ''w1''))"
    by (rule requeue_attempt) simp
  then show "unattended\<^sup>*\<^sup>* sample_done (snd (RequeueOwnedOperation sample_done 9 ''o1'' ''w1''))"
    by (blast intro: unattended.attempt)
qed (simp_all add: finished_def)

lemma UpdateOperation_found:
  assumes "operations_ok db" and "find_operation db i = Some op" and "i \<noteq> []"
    and "op_identity op' = op_identity op" and "op_updated_at op' = now"
  shows "\<exists>db1. UpdateOperation db now op' = (Inr (), db1) \<and> find_operation db1 i = Some op' \<and>
     (\<forall>j. j \<noteq> i \<longrightarrow> find_operation db1 j = find_operation db j)"
proof -
  have mem: "op \<in> set (operations db)" "op_id op = i" using find_operation_Some [OF assms(2)] by auto
  have id: "op_id op' = i" using assms(4) mem(2) by (simp add: op_identity_def)
  have t: "touch now op' = op'" using assms(5) by (simp add: touch_def)
  have w: "write_values op' op = op'"
    using assms(4) by (simp add: write_values_def op_identity_def)
  obtain r db1 where u: "update_operations db (\<lambda>r. op_id r = i) (write_values op')
     (fault_new ''OPERATION_NOT_FOUND'' False) = (r, db1)" by fastforce
  have ok: "r = Inr ()"
    using u mem by (auto simp: update_operations_def rows_where_zero split: if_splits)
  have f: "find_operation db1 j = map_option (\<lambda>x. if op_id x = i \<and> r = Inr () then write_values op' x else x)
      (find_operation db j)" for j by (rule update_operations_ok(4) [OF u]) simp
  have "find_operation db1 j = find_operation db j" if "j \<noteq> i" for j
    using f [of j] that find_operation_Some [of db j] by (cases "find_operation db j") auto
  moreover have "find_operation db1 i = Some op'" using f [of i] assms(2) mem(2) ok w by simp
  ultimately show ?thesis using u ok assms(3) by (simp add: UpdateOperation_def id t)
qed

lemma user_writes_found:
  assumes "operations_ok db" and "find_operation db i = Some op" and "i \<noteq> []"
    and "op_identity op' = op_identity op" and "op_updated_at op' = now"
  shows "\<exists>db2. user_writes db now op' = (Inr op', db2) \<and> find_operation db2 i = Some op' \<and>
     (\<forall>j. j \<noteq> i \<longrightarrow> find_operation db2 j = find_operation db j)"
proof -
  obtain db1 where u: "UpdateOperation db now op' = (Inr (), db1)" "find_operation db1 i = Some op'"
     "\<forall>j. j \<noteq> i \<longrightarrow> find_operation db1 j = find_operation db j"
    using UpdateOperation_found [OF assms] by blast
  obtain r2 db2 where a: "AppendOperationEvent db1 now (op_id op') (op_state op') (op_stage op') = (r2, db2)"
    by fastforce
  then show ?thesis using u AppendOperationEvent_find [OF a] by (simp add: user_writes_def)
qed

lemma cancelled_identity:
  "op_identity (cancelled_by_user now op) = op_identity op" "op_updated_at (cancelled_by_user now op) = now"
  "op_identity (retried_by_user now op) = op_identity op" "op_updated_at (retried_by_user now op) = now"
  by (simp_all add: cancelled_by_user_def retried_by_user_def op_identity_def)

text \<open>
  \<open>operation cancel\<close> and \<open>operation retry\<close> on every branch: an unknown id is
  \<open>OPERATION_NOT_FOUND\<close>; cancel refuses succeeded, failed and cancelled operations and a
  running submit, retry refuses all but failed and cancelled ones, and a refusal writes
  nothing; otherwise exactly this operation is cancelled, or queued again, without owner
  and lease. In particular a partially succeeded operation, which the code elsewhere
  counts as terminal, is cancelled.
\<close>

theorem user_operation_outcomes:
  assumes "db_ok db" and "i \<noteq> []"
  shows "(case find_operation db i of
      None \<Rightarrow> user_operation db cancel now i = (Inl (fault_new ''OPERATION_NOT_FOUND'' False), db)
    | Some op \<Rightarrow>
       if cancel \<and> op_state op \<in> {OperationSucceeded, OperationFailed, OperationCancelled}
       then user_operation db cancel now i = (Inl (fault_new ''OPERATION_TERMINAL'' False), db)
       else if cancel \<and> op_state op = OperationRunning \<and> op_kind op = ''submit''
       then user_operation db cancel now i = (Inl (fault_new ''OPERATION_CANCEL_UNSAFE'' False), db)
       else if \<not> cancel \<and> op_state op \<notin> {OperationFailed, OperationCancelled}
       then user_operation db cancel now i = (Inl (fault_new ''OPERATION_NOT_RETRYABLE'' False), db)
       else let op' = (if cancel then cancelled_by_user now op else retried_by_user now op)
         in \<exists>db'. user_operation db cancel now i = (Inr op', db') \<and> find_operation db' i = Some op' \<and>
              (\<forall>j. j \<noteq> i \<longrightarrow> find_operation db' j = find_operation db j))"
proof (cases "find_operation db i")
  case None
  then show ?thesis by (simp add: user_operation_def GetOperation_def)
next
  case (Some op)
  have ok: "operations_ok db" using assms(1) by (simp add: db_ok_def)
  note w = user_writes_found [OF ok Some assms(2), of "cancelled_by_user now op" now]
    user_writes_found [OF ok Some assms(2), of "retried_by_user now op" now]
  show ?thesis
    using w Some by (auto simp: user_operation_def GetOperation_def user_decides_def cancel_refused_def
        retry_refused_def cancelled_identity Let_def)
qed

definition sample_partial :: store where
  "sample_partial = sample_queue\<lparr>operations := [sample_operation\<lparr>op_state := OperationPartiallySucceeded\<rparr>]\<rparr>"

lemma sample_partial_ok [simp]: "db_ok sample_partial"
proof -
  have q: "operations_ok sample_queue" "store_ok sample_queue" using sample_queue_ok by (auto simp: db_ok_def)
  have "operations_ok sample_partial"
    unfolding sample_partial_def
    by (rule operations_ok_update [OF q(1)]) (simp add: sample_queue_def op_identity_def)
  moreover have "store_ok sample_partial"
    using store_ok_cong(1) [of sample_partial sample_queue] q(2) by (simp add: sample_partial_def)
  ultimately show ?thesis by (simp add: db_ok_def)
qed

lemma sample_partial_find:
  "find_operation sample_partial ''o1'' = Some (sample_operation\<lparr>op_state := OperationPartiallySucceeded\<rparr>)"
  by (simp add: sample_partial_def find_operation_def sample_operation_def)

theorem user_operation_outcomes_witness:
  "operationTerminal OperationPartiallySucceeded \<and> (\<exists>db'. user_operation sample_partial True 7 ''o1'' =
     (Inr (cancelled_by_user 7 (sample_operation\<lparr>op_state := OperationPartiallySucceeded\<rparr>)), db'))"
  using user_operation_outcomes [OF sample_partial_ok, of "''o1''" True 7]
  by (auto simp: sample_partial_find operationTerminal_def Let_def)

text \<open>
  The guard that protects a running submit is decided on the operation as it was
  read. When a worker claims the submit between the read and the write of a cancel, the
  write still goes through: the operation is recorded as cancelled while the submission
  runs, although the same command decided on the present operation would be refused with
  \<open>OPERATION_CANCEL_UNSAFE\<close>.
\<close>

theorem cancel_race:
  assumes "db_ok db" and "GetOperation db i = Inr op" and "i \<noteq> []"
    and "op_state op = OperationQueued" and "op_kind op = ''submit''"
    and "ClaimNextOperationExcept db t1 w lease blocked = (Inr (Some run), db1)" and "op_id run = i"
  shows "user_decides True t2 run = Inl (fault_new ''OPERATION_CANCEL_UNSAFE'' False) \<and>
    (\<exists>op' db2. user_decides True t2 op = Inr op' \<and> user_writes db1 t2 op' = (Inr op', db2) \<and>
       find_operation db2 i = Some op' \<and> op_state op' = OperationCancelled \<and> lease_holder db1 i = Some w)"
proof -
  have ok: "operations_ok db" using assms(1) by (simp add: db_ok_def)
  have fo: "find_operation db i = Some op"
    using assms(2) by (auto simp: GetOperation_def split: option.splits)
  have keep: "reclaimed t1 op = op" using assms(4) by (simp add: reclaimed_def lease_expired_def)
  obtain old where o: "find_operation db (op_id run) = Some old" "run = claimed t1 lease w (reclaimed t1 old)"
     "\<And>j. find_operation db1 j = (if j = op_id run then Some run else map_option (reclaimed t1) (find_operation db j))"
     "w \<noteq> []"
    by (rule Claim_some [OF assms(6) ok]) blast
  have run: "run = claimed t1 lease w op" using o(1,2) fo assms(7) keep by simp
  have ok1: "operations_ok db1"
    using db_change_ok [OF db_change.claim [OF assms(6)] assms(1)] by (simp add: db_ok_def)
  have f1: "find_operation db1 i = Some run" using o(3) assms(7) by simp
  have same: "op_identity (cancelled_by_user t2 op) = op_identity run"
    by (simp add: run claimed_def cancelled_by_user_def op_identity_def)
  from user_writes_found [OF ok1 f1 assms(3) same]
  obtain db2 where "user_writes db1 t2 (cancelled_by_user t2 op) = (Inr (cancelled_by_user t2 op), db2)"
    "find_operation db2 i = Some (cancelled_by_user t2 op)" by (auto simp: cancelled_identity)
  moreover have "lease_holder db1 i = Some w"
    using f1 o(4) by (simp add: lease_holder_def run claimed_def)
  ultimately show ?thesis
    using assms(4,5) by (auto simp: user_decides_def cancel_refused_def run claimed_def cancelled_by_user_def)
qed

definition sample_submit :: operation where
  "sample_submit = sample_operation\<lparr>op_kind := ''submit''\<rparr>"

definition sample_submit_queue :: store where
  "sample_submit_queue = sample_created\<lparr>operations := [sample_submit]\<rparr>"

lemma sample_submit_queue_ok [simp]: "db_ok sample_submit_queue"
proof -
  have "insertOperation sample_created sample_submit = Inr sample_submit_queue"
    by (simp add: insertOperation_def find_operation_def sample_created_def sample_store_def BindProject_def
        empty_store_def project_bound_def sample_submit_def sample_operation_def sample_submit_queue_def)
  moreover have "db_ok sample_created"
    using db_change_ok [OF db_change.tasks [OF sample_created_change]]
      db_change_ok [OF db_change.tasks [OF sample_store_ok(2)]] by simp
  ultimately show ?thesis
    using insertOperation_ok store_ok_cong(1) [of sample_submit_queue sample_created]
    by (auto simp: db_ok_def sample_submit_queue_def)
qed

theorem cancel_race_witness:
  "\<exists>op' db2. user_decides True 3 sample_submit = Inr op' \<and> op_state op' = OperationCancelled \<and>
     user_writes (sample_submit_queue\<lparr>operations := [claimed 2 30 ''w1'' sample_submit]\<rparr>) 3 op' = (Inr op', db2)"
proof -
  have c: "ClaimNextOperationExcept sample_submit_queue 2 ''w1'' 30 [] =
     (Inr (Some (claimed 2 30 ''w1'' sample_submit)),
      sample_submit_queue\<lparr>operations := [claimed 2 30 ''w1'' sample_submit]\<rparr>)"
    by (simp add: ClaimNextOperationExcept_def claimable_def reclaim_def lease_expired_def due_def
        unblocked_def sample_submit_queue_def sample_submit_def sample_operation_def Let_def claimed_def)
  have g: "GetOperation sample_submit_queue ''o1'' = Inr sample_submit"
    by (simp add: GetOperation_def find_operation_def sample_submit_queue_def sample_submit_def sample_operation_def)
  have s: "op_state sample_submit = OperationQueued" "op_kind sample_submit = ''submit''"
    "op_id (claimed 2 30 ''w1'' sample_submit) = ''o1''"
    by (simp_all add: sample_submit_def sample_operation_def claimed_def)
  from cancel_race [OF sample_submit_queue_ok g _ s(1,2) c s(3), of 3] show ?thesis by auto
qed

end
