(* ===== verification/Daemon_Workers.thy ===== *)
theory Daemon_Workers
  imports Operation_Engine "HOL-Library.AList"
begin

text \<open>
  The background loops of the daemon (\<open>operationWorker\<close>, \<open>pollWorker\<close> and the automatic
  pulls of \<open>internal/cli/operations.go\<close>) and the admission of a detached command. The map
  of active workers per cluster key is an association list; the loops are modelled one
  iteration at a time, with the instants their clock reads as arguments.
\<close>

section \<open>The dispatcher\<close>

type_synonym slots = "(string \<times> nat) list"

definition slot_count :: "slots \<Rightarrow> string \<Rightarrow> nat" where
  "slot_count active k = (case map_of active k of None \<Rightarrow> 0 | Some n \<Rightarrow> n)"

definition take_slot :: "string \<Rightarrow> slots \<Rightarrow> slots" where
  "take_slot k active = AList.update k (slot_count active k + 1) active"

definition release_slot :: "string \<Rightarrow> slots \<Rightarrow> slots" where
  "release_slot k active = AList.update k (slot_count active k - 1) active"

definition busy_workers :: "slots \<Rightarrow> nat" where
  "busy_workers active = sum_list (map snd active)"

definition localKey :: string where "localKey = ''__local__''"
definition mixedKey :: string where "mixedKey = ''__mixed__''"
definition maxConcurrent :: nat where "maxConcurrent = 8"

definition blocked_keys :: "slots \<Rightarrow> string list" where
  "blocked_keys active = map fst (filter (\<lambda>(k, n). n > 0 \<and> k \<noteq> localKey) active)"

definition operation_slot :: "operation \<Rightarrow> string" where
  "operation_slot op = (if cluster_key op = [] then localKey else cluster_key op)"

definition slot_busy :: "slots \<Rightarrow> string \<Rightarrow> bool" where
  "slot_busy active k \<longleftrightarrow> slot_count active k > 0 \<or>
     k = mixedKey \<and> (\<exists>(k', n)\<in>set active. n > 0 \<and> k' \<noteq> localKey)"

datatype dispatch_outcome = Waits | Idles | Requeues operation | Starts operation string

text \<open>One iteration of the loop of \<open>operationWorker\<close>; \<open>later\<close> is the clock of the requeue.\<close>

definition dispatch ::
    "store \<Rightarrow> time \<Rightarrow> time \<Rightarrow> string \<Rightarrow> slots \<Rightarrow> dispatch_outcome \<times> slots \<times> store" where
  "dispatch db now later owner active =
     (if busy_workers active \<ge> maxConcurrent then (Waits, active, db)
      else if slot_count active mixedKey > 0 then (Waits, active, db)
      else case ClaimNextOperationExcept db now owner (30 * second) (blocked_keys active) of
        (Inr (Some op), db1) \<Rightarrow>
          (let key = operation_slot op
           in if slot_busy active key
              then (Requeues op, active, snd (RequeueOwnedOperation db1 later (op_id op) (lease_owner op)))
              else (Starts op key, take_slot key active, db1))
      | (_, db1) \<Rightarrow> (Idles, active, db1))"

text \<open>The slots a daemon can have: the dispatcher takes them, a finished worker gives one back.\<close>

inductive slots_reachable :: "slots \<Rightarrow> bool" where
  start: "slots_reachable []"
| dispatched: "slots_reachable active \<Longrightarrow> dispatch db now later owner active = (out, active', db') \<Longrightarrow>
    slots_reachable active'"
| released: "slots_reachable active \<Longrightarrow> slot_count active k > 0 \<Longrightarrow> slots_reachable (release_slot k active)"

section \<open>Polling\<close>

definition minute :: time where "minute = 60 * second"

text \<open>\<open>pollInterval\<close> at the instant \<open>now\<close>: the interval and whether there is anything to poll.\<close>

definition uncertain_interval :: "time \<Rightarrow> task \<Rightarrow> int" where
  "uncertain_interval now t =
     (let age = int now - int (updated_at t)
      in if age \<ge> int (10 * minute) then int (2 * minute)
         else if age \<ge> int (2 * minute) then int (30 * second)
         else int (10 * second))"

fun poll_loop :: "time \<Rightarrow> task list \<Rightarrow> int \<times> bool \<Rightarrow> int \<times> bool" where
  "poll_loop now [] acc = acc"
| "poll_loop now (t # ts) (interval, active) =
     (case compute_state t of
        ComputeSubmissionUncertain \<Rightarrow>
          poll_loop now ts (if uncertain_interval now t < interval then uncertain_interval now t else interval, True)
      | ComputeQueued \<Rightarrow> poll_loop now ts (interval, True)
      | ComputeRunning \<Rightarrow> poll_loop now ts (interval, True)
      | ComputeUnknown \<Rightarrow> poll_loop now ts (interval, True)
      | _ \<Rightarrow> poll_loop now ts (interval, active))"

definition pollInterval :: "time \<Rightarrow> task list \<Rightarrow> int \<times> bool" where
  "pollInterval now ts = poll_loop now ts (int (30 * second), False)"

section \<open>Automatic pulls\<close>

definition auto_pull_due :: "task \<Rightarrow> bool" where
  "auto_pull_due t \<longleftrightarrow> (let policy = task_meta t ''auto_pull''
     in \<not> (policy = [] \<or> task_meta t ''auto_pull_enqueued'' = ''1'' \<or> pull_state t = PullSucceeded) \<and>
        (compute_state t = ComputeCompleted \<or>
         policy = ''terminal'' \<and> (compute_state t = ComputeFailed \<or> compute_state t = ComputeCancelled)))"

text \<open>
  One round of the loop of \<open>enqueueAutomaticPulls\<close>; \<open>admit\<close> stands for
  \<open>admitDetachedAt("pull", [id], root)\<close>. The result is the store and the ids admitted.
\<close>

definition enqueue_one ::
    "(store \<Rightarrow> string \<Rightarrow> bool \<times> store) \<Rightarrow> time \<Rightarrow> store \<Rightarrow> task \<Rightarrow> store \<times> string list" where
  "enqueue_one admit now db t =
     (if \<not> auto_pull_due t then (db, [])
      else let t1 = t\<lparr>metadata := (metadata t)(''auto_pull_enqueued'' \<mapsto> ''1''), updated_at := now\<rparr>
        in case UpdateTask db t1 of
             (Inl _, _, db1) \<Rightarrow> (db1, [])
           | (Inr _, t2, db1) \<Rightarrow> (case admit db1 (task_id t2) of
                 (True, db2) \<Rightarrow> (db2, [task_id t2])
               | (False, db2) \<Rightarrow> (snd (snd (UpdateTask db2 (t2\<lparr>metadata :=
                     (metadata t2)(''auto_pull_enqueued'' \<mapsto> []), updated_at := now\<rparr>))), [])))"

fun enqueue_all ::
    "(store \<Rightarrow> string \<Rightarrow> bool \<times> store) \<Rightarrow> time \<Rightarrow> store \<Rightarrow> task list \<Rightarrow> store \<times> string list" where
  "enqueue_all admit now db [] = (db, [])"
| "enqueue_all admit now db (t # ts) = (case enqueue_one admit now db t of
     (db1, ids1) \<Rightarrow> (case enqueue_all admit now db1 ts of (db2, ids2) \<Rightarrow> (db2, ids1 @ ids2)))"

definition enqueueAutomaticPulls ::
    "(store \<Rightarrow> string \<Rightarrow> bool \<times> store) \<Rightarrow> time \<Rightarrow> store \<Rightarrow> string \<Rightarrow> store \<times> string list" where
  "enqueueAutomaticPulls admit now db pid = enqueue_all admit now db (ListTasks db pid)"

section \<open>Admission of a detached command\<close>

text \<open>
  The end of \<open>admitDetachedAt\<close>, after the snapshot: \<open>intent\<close> is the hash of the intent
  (kind, project, arguments and inputs), \<open>Inr (id, True)\<close> is the answer that reuses an
  existing operation.
\<close>

definition admit_intent ::
    "store \<Rightarrow> time \<Rightarrow> string \<Rightarrow> string \<Rightarrow> string \<Rightarrow> string \<Rightarrow> string \<Rightarrow> string \<Rightarrow> bool \<Rightarrow> string list \<Rightarrow>
     (go_error, string \<times> bool) result \<times> store" where
  "admit_intent db now i kind pid cluster payload_text intent force reserved =
     (let key = (if force then ''force:'' @ i else ''v1:'' @ intent)
      in case FindOperationByDedup db kind key of
        Some existing \<Rightarrow> (Inr (op_id existing, True), db)
      | None \<Rightarrow> (case CreateOperation db now
            \<lparr>op_id = i, op_kind = kind, op_project = pid, cluster_key = cluster, dedup_key = key,
             op_state = OperationQueued, op_stage = ''queued'', op_payload = payload_text,
             op_result = ''{}'', op_attempt = 0, max_attempts = 0, retry_deadline_at = None,
             next_attempt_at = None, lease_owner = [], lease_expires_at = None, error_code = [],
             error_message = [], op_retryable = False, op_created_at = now, started_at = None,
             op_updated_at = now, finished_at = None\<rparr> of
          (Inl e, _, db1) \<Rightarrow> (Inl e, db1)
        | (Inr _, _, db1) \<Rightarrow>
            if reserved = [] then (Inr (i, False), db1)
            else (case ReplaceOperationTasks db1 i (map (\<lambda>(n, tid). relation_row i tid n ''admitted'' [])
                     (zip [0..<length reserved] reserved)) of
                (Inl e, db2) \<Rightarrow> (Inl e, db2)
              | (Inr _, db2) \<Rightarrow> (Inr (i, False), db2))))"

section \<open>Slots\<close>

lemma slot_count_update:
  "slot_count (AList.update k v active) k' = (if k' = k then v else slot_count active k')"
  by (simp add: slot_count_def update_conv)

lemma busy_update:
  "distinct (map fst active) \<Longrightarrow>
   busy_workers (AList.update k v active) + slot_count active k = busy_workers active + v"
proof (induction active)
  case Nil
  then show ?case by (simp add: busy_workers_def slot_count_def)
next
  case (Cons a as)
  obtain k' n where a: "a = (k', n)" by fastforce
  show ?case
  proof (cases "k' = k")
    case True
    then show ?thesis by (simp add: a busy_workers_def slot_count_def)
  next
    case False
    then show ?thesis using Cons by (simp add: a busy_workers_def slot_count_def)
  qed
qed

definition slots_ok :: "slots \<Rightarrow> bool" where
  "slots_ok active \<longleftrightarrow> distinct (map fst active) \<and> busy_workers active \<le> maxConcurrent \<and>
     (\<forall>k. slot_count active k \<le> 1) \<and>
     (slot_count active mixedKey > 0 \<longrightarrow> (\<forall>k. k \<noteq> localKey \<and> k \<noteq> mixedKey \<longrightarrow> slot_count active k = 0))"

lemma slot_count_mem:
  "distinct (map fst active) \<Longrightarrow> (k, n) \<in> set active \<Longrightarrow> slot_count active k = n"
  by (simp add: slot_count_def)

lemma slot_busy_mixed:
  assumes "distinct (map fst active)" and "\<not> slot_busy active mixedKey" and "k \<noteq> localKey"
  shows "slot_count active k = 0"
proof (cases "map_of active k")
  case None
  then show ?thesis by (simp add: slot_count_def)
next
  case (Some n)
  then have "(k, n) \<in> set active" by (rule map_of_SomeD)
  with assms Some show ?thesis by (auto simp: slot_busy_def slot_count_def)
qed

lemma dispatch_cases:
  assumes "dispatch db now later owner active = (out, active', db')"
  obtains (kept) "active' = active"
    | (started) op key where "out = Starts op key" "active' = take_slot key active"
        "busy_workers active < maxConcurrent" "slot_count active mixedKey = 0" "\<not> slot_busy active key"
  using assms
  by (auto simp: dispatch_def Let_def split: if_splits prod.splits sum.splits option.splits)

lemma slots_ok_dispatch:
  assumes "slots_ok active" and "dispatch db now later owner active = (out, active', db')"
  shows "slots_ok active'"
  using assms(2)
proof (cases rule: dispatch_cases)
  case kept
  then show ?thesis using assms(1) by simp
next
  case (started op key)
  have d: "distinct (map fst active)" using assms(1) by (simp add: slots_ok_def)
  have zero: "slot_count active key = 0" using started(5) by (simp add: slot_busy_def)
  have "busy_workers active' = busy_workers active + 1"
    using busy_update [OF d, of key 1] zero started(2) by (simp add: take_slot_def)
  moreover have "slot_count active' k = (if k = key then 1 else slot_count active k)" for k
    using zero started(2) by (simp add: take_slot_def slot_count_update)
  moreover have "slot_count active k = 0" if "key = mixedKey" "k \<noteq> localKey" for k
    using slot_busy_mixed [OF d _ that(2)] started(5) that(1) by simp
  moreover have "distinct (map fst active')" using d started(2) by (simp add: take_slot_def distinct_update)
  ultimately show ?thesis using assms(1) started(3,4) by (auto simp: slots_ok_def)
qed

lemma slots_reachable_ok: "slots_reachable active \<Longrightarrow> slots_ok active"
proof (induction rule: slots_reachable.induct)
  case start
  then show ?case by (simp add: slots_ok_def busy_workers_def slot_count_def)
next
  case (dispatched active db now later owner out active' db')
  then show ?case using slots_ok_dispatch by blast
next
  case (released active k)
  have d: "distinct (map fst active)" using released by (simp add: slots_ok_def)
  have "busy_workers (release_slot k active) \<le> busy_workers active"
    using busy_update [OF d, of k "slot_count active k - 1"] by (simp add: release_slot_def)
  moreover have "slot_count (release_slot k active) k' \<le> slot_count active k'" for k'
    by (simp add: release_slot_def slot_count_update)
  ultimately show ?case
    using released(3) d unfolding slots_ok_def
    by (auto simp: release_slot_def distinct_update slot_count_update split: if_splits)
qed

section \<open>Properties\<close>

text \<open>
  However operations arrive and finish, one daemon runs at most eight workers, at
  most one per cluster (and one local one), and a mixed-cluster operation runs alone among
  the remote work.
\<close>

theorem worker_slots_bounded:
  assumes "slots_reachable active"
  shows "busy_workers active \<le> 8 \<and> slot_count active k \<le> 1 \<and>
    (slot_count active mixedKey = 1 \<and> k \<noteq> localKey \<and> k \<noteq> mixedKey \<longrightarrow> slot_count active k = 0)"
  using slots_reachable_ok [OF assms] by (auto simp: slots_ok_def maxConcurrent_def)

lemma sample_dispatch:
  "\<exists>op db'. dispatch sample_queue 2 3 ''w1'' [] = (Starts op ''c'', [(''c'', 1)], db')"
  by (simp add: dispatch_def busy_workers_def maxConcurrent_def slot_count_def blocked_keys_def
      ClaimNextOperationExcept_def claimable_def reclaim_def lease_expired_def due_def unblocked_def
      sample_queue_def sample_operation_def Let_def claimed_def operation_slot_def slot_busy_def
      take_slot_def mixedKey_def second_def)

theorem worker_slots_bounded_witness:
  "busy_workers [(''c'', 1)] \<le> 8 \<and> slot_count [(''c'', 1)] ''c'' \<le> 1"
proof -
  have "slots_reachable [(''c'', 1)]"
    using sample_dispatch slots_reachable.dispatched [OF slots_reachable.start] by blast
  from worker_slots_bounded [OF this, of "''c''"] show ?thesis by simp
qed

lemma poll_loop_result:
  "i = int (30 * second) \<or> i = int (10 * second) \<Longrightarrow>
   poll_loop now ts (i, a) =
     (if i = int (10 * second) \<or> (\<exists>t\<in>set ts. compute_state t = ComputeSubmissionUncertain \<and>
          int now - int (updated_at t) < int (2 * minute))
      then int (10 * second) else int (30 * second),
      a \<or> (\<exists>t\<in>set ts. compute_state t \<in>
         {ComputeSubmissionUncertain, ComputeQueued, ComputeRunning, ComputeUnknown}))"
proof (induction ts arbitrary: i a)
  case Nil
  then show ?case by (auto simp: second_def)
next
  case (Cons t ts)
  have u: "uncertain_interval now t \<in> {int (10 * second), int (30 * second), int (2 * minute)}"
    "uncertain_interval now t = int (10 * second) \<longleftrightarrow> int now - int (updated_at t) < int (2 * minute)"
    by (auto simp: uncertain_interval_def minute_def second_def Let_def)
  show ?case
  proof (cases "compute_state t = ComputeSubmissionUncertain")
    case True
    have m: "(if uncertain_interval now t < i then uncertain_interval now t else i) =
      (if i = int (10 * second) \<or> int now - int (updated_at t) < int (2 * minute)
       then int (10 * second) else int (30 * second))"
      using u Cons.prems by (auto simp: minute_def second_def)
    show ?thesis using True Cons.IH by (simp add: m) blast
  next
    case False
    then show ?thesis using Cons by (cases "compute_state t") auto
  qed
qed

text \<open>
  The poll interval of a project is 10 seconds while some task is submission
  uncertain for less than two minutes and 30 seconds otherwise, and the project is polled
  when it has an uncertain, queued, running or unknown task. The two-minute interval the
  code computes for tasks that are uncertain for ten minutes or more never takes effect.
\<close>

theorem poll_interval_cases:
  "pollInterval now ts =
     (if \<exists>t\<in>set ts. compute_state t = ComputeSubmissionUncertain \<and>
          int now - int (updated_at t) < int (2 * minute)
      then int (10 * second) else int (30 * second),
      \<exists>t\<in>set ts. compute_state t \<in>
         {ComputeSubmissionUncertain, ComputeQueued, ComputeRunning, ComputeUnknown})"
  unfolding pollInterval_def by (subst poll_loop_result) (auto simp: second_def)

text \<open>
  A mixed-cluster operation at the head of the queue starves every other cluster:
  while any remote worker is active, the dispatcher claims it, finds its slot taken and
  requeues it, and starts nothing else. Afterwards it is queued as before with one more
  attempt, and it is due again at every later instant, so the next iteration (which the
  code begins at once) does the same.
\<close>

theorem mixed_operation_starves:
  assumes "db_ok db" and "owner \<noteq> []" and "claimable db now (blocked_keys active) = op # rest"
    and "cluster_key op = mixedKey" and "op_id op \<noteq> []" and "busy_workers active < maxConcurrent"
    and "slot_count active mixedKey = 0" and "\<exists>(k, n)\<in>set active. n > 0 \<and> k \<noteq> localKey"
  shows "\<exists>db' row. dispatch db now later owner active =
      (Requeues (claimed now (30 * second) owner op), active, db') \<and>
    find_operation db' (op_id op) = Some row \<and> op_attempt row = op_attempt op + 1 \<and>
    op_identity row = op_identity op \<and> (\<forall>t. due t row)"
proof -
  have ok: "operations_ok db" using assms(1) by (simp add: db_ok_def)
  obtain db1 where cl: "ClaimNextOperationExcept db now owner (30 * second) (blocked_keys active) =
      (Inr (Some (claimed now (30 * second) owner op)), db1)"
    using assms(2,3) by (simp add: ClaimNextOperationExcept_def Let_def)
  obtain old where o: "\<And>i. find_operation db1 i = (if i = op_id (claimed now (30 * second) owner op)
      then Some (claimed now (30 * second) owner op) else map_option (reclaimed now) (find_operation db i))"
    by (rule Claim_some [OF cl ok]) blast
  let ?run = "claimed now (30 * second) owner op"
  have run: "op_id ?run = op_id op" "lease_owner ?run = owner" "op_state ?run = OperationRunning"
    by (simp_all add: claimed_def)
  have f1: "find_operation db1 (op_id op) = Some ?run" using o run(1) by simp
  have ok1: "operations_ok db1"
    using db_change_ok [OF db_change.claim [OF cl] assms(1)] by (simp add: db_ok_def)
  define f :: "operation \<Rightarrow> operation" where
    "f = (\<lambda>r. r\<lparr>op_state := OperationQueued, op_stage := ''queued'', op_retryable := True,
                next_attempt_at := None, lease_owner := [], lease_expires_at := None,
                error_code := [], error_message := [], op_updated_at := later\<rparr>)"
  obtain r db' where u: "update_operations db1 (owned (op_id op) owner) f
      (fault_new ''OPERATION_LEASE_LOST'' True) = (r, db')" by fastforce
  have req: "RequeueOwnedOperation db1 later (op_id op) owner = (r, db')"
    using u assms(2,5) by (simp add: RequeueOwnedOperation_def f_def)
  have "rows_where (owned (op_id op) owner) (operations db1) \<noteq> 0"
    using find_operation_Some [OF f1] run by (auto simp: rows_where_zero owned_def)
  then have "r = Inr ()" using u by (auto simp: update_operations_def split: if_splits)
  moreover have "keeps_identity f" unfolding f_def by simp
  ultimately have row: "find_operation db' (op_id op) = Some (f ?run)"
    using update_operations_ok(4) [OF u, of "op_id op"] f1 run by (simp add: owned_def)
  have key: "operation_slot ?run = mixedKey" and busy: "slot_busy active mixedKey"
    using assms(4,8) by (auto simp: operation_slot_def claimed_def mixedKey_def slot_busy_def)
  have "dispatch db now later owner active = (Requeues ?run, active, db')"
    using assms(6,7) cl key busy req run(1,2) by (simp add: dispatch_def Let_def)
  moreover have "op_attempt (f ?run) = op_attempt op + 1" "op_identity (f ?run) = op_identity op"
    "\<forall>t. due t (f ?run)"
    by (simp_all add: f_def claimed_def op_identity_def due_def)
  ultimately show ?thesis using row by blast
qed

definition mixed_operation :: operation where
  "mixed_operation = sample_operation\<lparr>cluster_key := ''__mixed__''\<rparr>"

definition mixed_queue :: store where
  "mixed_queue = sample_created\<lparr>operations := [mixed_operation, sample_operation\<lparr>op_id := ''o2'',
     dedup_key := ''v1:y'', cluster_key := ''d'', op_created_at := 5 * nano\<rparr>]\<rparr>"

lemma mixed_queue_ok [simp]: "db_ok mixed_queue"
proof -
  have c: "db_ok sample_created"
    using db_change_ok [OF db_change.tasks [OF sample_created_change]]
      db_change_ok [OF db_change.tasks [OF sample_store_ok(2)]] by simp
  have i1: "insertOperation sample_created mixed_operation = Inr (sample_created\<lparr>operations := [mixed_operation]\<rparr>)"
    by (simp add: insertOperation_def find_operation_def sample_created_def sample_store_def BindProject_def
        empty_store_def project_bound_def mixed_operation_def sample_operation_def)
  have i2: "insertOperation (sample_created\<lparr>operations := [mixed_operation]\<rparr>)
     (sample_operation\<lparr>op_id := ''o2'', dedup_key := ''v1:y'', cluster_key := ''d'', op_created_at := 5 * nano\<rparr>) = Inr mixed_queue"
    by (simp add: insertOperation_def find_operation_def sample_created_def sample_store_def BindProject_def
        empty_store_def project_bound_def mixed_operation_def sample_operation_def mixed_queue_def)
  have "operations_ok mixed_queue"
    using insertOperation_ok [OF i2 insertOperation_ok [OF i1]] c by (simp add: db_ok_def)
  then show ?thesis
    using c store_ok_cong(1) [of mixed_queue sample_created] by (simp add: db_ok_def mixed_queue_def)
qed

theorem mixed_operation_starves_witness:
  "\<exists>db'. dispatch mixed_queue 2 3 ''w1'' [(''c'', 1)] =
     (Requeues (claimed 2 (30 * second) ''w1'' mixed_operation), [(''c'', 1)], db')"
proof -
  let ?o2 = "sample_operation\<lparr>op_id := ''o2'', dedup_key := ''v1:y'', cluster_key := ''d'', op_created_at := 5 * nano\<rparr>"
  have t: "fmt_time 1 \<le> fmt_time (5 * nano)"
    by (rule less_imp_le, rule fmt_time_mono_seconds) (simp_all add: nano_def year_of_def)
  have cl: "claimable mixed_queue 2 (blocked_keys [(''c'', 1)]) = [mixed_operation, ?o2]"
    using t by (simp add: claimable_def reclaim_def lease_expired_def due_def unblocked_def blocked_keys_def
        mixed_queue_def mixed_operation_def sample_operation_def localKey_def insort_key.simps)
  have c: "''w1'' \<noteq> []" "cluster_key mixed_operation = mixedKey" "op_id mixed_operation \<noteq> []"
    "busy_workers [(''c'', 1)] < maxConcurrent" "slot_count [(''c'', 1)] mixedKey = 0"
    "\<exists>(k, n)\<in>set [(''c'', 1::nat)]. n > 0 \<and> k \<noteq> localKey"
    by (simp_all add: mixed_operation_def sample_operation_def mixedKey_def localKey_def busy_workers_def
        maxConcurrent_def slot_count_def)
  from mixed_operation_starves [OF mixed_queue_ok c(1) cl c(2-6), of 3] show ?thesis by blast
qed

text \<open>
  Deduplication of detached commands does not look at the state: once an operation
  with the same intent exists, whether it waits, failed or was cancelled, a new admission
  is answered with its id, and nothing is queued.
\<close>

theorem admission_reuses_any_state:
  assumes "db_ok db" and "r \<in> set (operations db)" and "op_kind r \<noteq> []"
    and "dedup_key r = ''v1:'' @ intent"
  shows "admit_intent db now i (op_kind r) pid cluster body intent False reserved = (Inr (op_id r, True), db)"
proof -
  define hits where "hits = filter (\<lambda>x. op_kind x = op_kind r \<and> dedup_key x = dedup_key r) (operations db)"
  have uniq: "x = r" if "x \<in> set hits" for x
  proof -
    let ?ids = "filter (\<lambda>(i, k, p, c, d, t). d \<noteq> []) (identities db)"
    have d: "distinct (map (\<lambda>(i, k, p, c, d, t). (k, d)) ?ids)"
      using assms(1) by (simp add: db_ok_def operations_ok_def)
    have "op_identity x \<in> set ?ids" "op_identity r \<in> set ?ids"
      using that assms(2,4) by (auto simp: identities_def op_identity_def hits_def)
    from distinct_map_unique [OF d this] that have "op_id x = op_id r"
      by (simp add: op_identity_def hits_def)
    then show ?thesis
      using distinct_map_unique [OF operations_ok_distinct] assms(1,2) that
      by (auto simp: db_ok_def hits_def)
  qed
  have "r \<in> set (sort_desc (\<lambda>r. fmt_time (op_created_at r)) hits)"
    using assms(2) by (simp add: hits_def)
  then obtain x xs where "sort_desc (\<lambda>r. fmt_time (op_created_at r)) hits = x # xs"
    by (cases "sort_desc (\<lambda>r. fmt_time (op_created_at r)) hits") auto
  moreover from this have "x \<in> set hits" by (metis list.set_intros(1) set_sort_desc)
  ultimately have "FindOperationByDedup db (op_kind r) (dedup_key r) = Some r"
    using uniq assms(3,4) unfolding FindOperationByDedup_def hits_def [symmetric] by simp
  then show ?thesis using assms(4) by (simp add: admit_intent_def)
qed

theorem admission_reuses_any_state_witness:
  "admit_intent (sample_queue\<lparr>operations := [sample_operation\<lparr>op_state := OperationFailed\<rparr>]\<rparr>) 9 ''o7''
     ''pull'' ''p'' ''c'' ''{}'' ''x'' False [] =
     (Inr (''o1'', True), sample_queue\<lparr>operations := [sample_operation\<lparr>op_state := OperationFailed\<rparr>]\<rparr>)"
proof -
  let ?db = "sample_queue\<lparr>operations := [sample_operation\<lparr>op_state := OperationFailed\<rparr>]\<rparr>"
  let ?r = "sample_operation\<lparr>op_state := OperationFailed\<rparr>"
  have "operations_ok ?db"
    by (rule operations_ok_update) (use sample_queue_ok in \<open>simp_all add: db_ok_def sample_queue_def op_identity_def\<close>)
  moreover have "store_ok ?db"
    using store_ok_cong(1) [of ?db sample_queue] sample_queue_ok by (simp add: db_ok_def)
  ultimately have ok: "db_ok ?db" by (simp add: db_ok_def)
  have "?r \<in> set (operations ?db)" "op_kind ?r \<noteq> []" "dedup_key ?r = ''v1:'' @ ''x''"
    by (simp_all add: sample_operation_def)
  from admission_reuses_any_state [OF ok this, of 9 "''o7''" "''p''" "''c''" "''{}''" "[]"] show ?thesis
    by (simp add: sample_operation_def)
qed

section \<open>Automatic pulls are admitted once\<close>

text \<open>What the loop needs of the admission: it leaves the task rows alone.\<close>

definition keeps_tasks :: "(store \<Rightarrow> string \<Rightarrow> bool \<times> store) \<Rightarrow> bool" where
  "keeps_tasks admit \<longleftrightarrow> (\<forall>d i. store_ok d \<longrightarrow> store_ok (snd (admit d i)) \<and>
     (\<forall>j. find_row (snd (admit d i)) j = find_row d j))"

lemma flagged_not_due:
  "task_meta t ''auto_pull_enqueued'' = ''1'' \<Longrightarrow> \<not> auto_pull_due t"
  by (simp add: auto_pull_due_def Let_def)

lemma enqueue_one_result:
  assumes "enqueue_one admit now db t = (db', ids)" and "store_ok db" and "keeps_tasks admit"
  shows "store_ok db'" and "j \<noteq> task_id t \<Longrightarrow> find_row db' j = find_row db j"
    and "ids = [] \<or> ids = [task_id t] \<and> auto_pull_due t \<and>
      (\<exists>r. find_row db' (task_id t) = Some r \<and> \<not> auto_pull_due (scanTask r))"
proof -
  define t1 where "t1 = t\<lparr>metadata := (metadata t)(''auto_pull_enqueued'' \<mapsto> ''1''), updated_at := now\<rparr>"
  obtain r1 t2 db1 where u1: "UpdateTask db t1 = (r1, t2, db1)" by (metis prod.collapse)
  obtain a db2 where a: "admit db1 (task_id t2) = (a, db2)" by fastforce
  define t3 where "t3 = t2\<lparr>metadata := (metadata t2)(''auto_pull_enqueued'' \<mapsto> []), updated_at := now\<rparr>"
  obtain r3 t4 db3 where u3: "UpdateTask db2 t3 = (r3, t4, db3)" by (metis prod.collapse)
  have id: "task_id t1 = task_id t" by (simp add: t1_def)
  have res: "(db', ids) = (if \<not> auto_pull_due t then (db, [])
     else case r1 of Inl _ \<Rightarrow> (db1, []) | Inr _ \<Rightarrow> (if a then (db2, [task_id t2]) else (db3, [])))"
    using assms(1) u1 a u3 unfolding enqueue_one_def t1_def [symmetric] Let_def
    by (auto simp: t3_def split: sum.splits if_splits)
  have "store_ok db' \<and> (j \<noteq> task_id t \<longrightarrow> find_row db' j = find_row db j) \<and>
    (ids = [] \<or> ids = [task_id t] \<and> auto_pull_due t \<and>
      (\<exists>r. find_row db' (task_id t) = Some r \<and> \<not> auto_pull_due (scanTask r)))"
  proof (cases "auto_pull_due t")
    case False
    then show ?thesis using res assms(2) by simp
  next
    case due: True
    from u1 assms(2) show ?thesis
    proof (cases rule: UpdateTask_cases)
      case (failed e)
      then show ?thesis using res due assms(2) by simp
    next
      case committed
      have t2: "task_id t2 = task_id t" using committed(2) id by simp
      have ad: "store_ok db2" "\<And>j. find_row db2 j = find_row db1 j"
        using assms(3) committed(3) a unfolding keeps_tasks_def by (metis snd_conv)+
      have "find_row db2 (task_id t) = Some (encodeTask t2)"
        using ad(2) committed(5) id by simp
      moreover have "task_meta (scanTask (encodeTask t2)) ''auto_pull_enqueued'' = ''1''"
        using meta_stored [of "''auto_pull_enqueued''" t2] committed(2)
        by (simp add: stored_def t1_def dryRunKey_def)
      ultimately have flagged: "\<exists>r. find_row db2 (task_id t) = Some r \<and> \<not> auto_pull_due (scanTask r)"
        using flagged_not_due by blast
      have other2: "j \<noteq> task_id t \<Longrightarrow> find_row db2 j = find_row db j"
        using ad(2) committed(5) id by simp
      show ?thesis
      proof (cases a)
        case True
        then show ?thesis using res due committed(1) ad(1) other2 flagged t2 by simp
      next
        case False
        have t3: "task_id t3 = task_id t" by (simp add: t3_def t2)
        have "store_ok db3 \<and> (j \<noteq> task_id t \<longrightarrow> find_row db3 j = find_row db2 j)"
          using u3 ad(1) by (cases rule: UpdateTask_cases) (simp_all add: t3 ad(1))
        then show ?thesis using res due committed(1) other2 False by simp
      qed
    qed
  qed
  then show "store_ok db'" "j \<noteq> task_id t \<Longrightarrow> find_row db' j = find_row db j"
    "ids = [] \<or> ids = [task_id t] \<and> auto_pull_due t \<and>
      (\<exists>r. find_row db' (task_id t) = Some r \<and> \<not> auto_pull_due (scanTask r))" by blast+
qed

lemma enqueue_all_result:
  assumes "enqueue_all admit now db ts = (db', ids)" and "store_ok db" and "keeps_tasks admit"
    and "distinct (map task_id ts)"
  shows "store_ok db' \<and> distinct ids \<and> set ids \<subseteq> task_id ` {t \<in> set ts. auto_pull_due t} \<and>
    (\<forall>j. j \<notin> task_id ` set ts \<longrightarrow> find_row db' j = find_row db j) \<and>
    (\<forall>i\<in>set ids. \<exists>r. find_row db' i = Some r \<and> \<not> auto_pull_due (scanTask r))"
  using assms
proof (induction ts arbitrary: db ids)
  case Nil
  then show ?case by auto
next
  case (Cons t ts)
  obtain db1 ids1 where one: "enqueue_one admit now db t = (db1, ids1)" by fastforce
  obtain ids2 where rest: "enqueue_all admit now db1 ts = (db', ids2)" and ids: "ids = ids1 @ ids2"
    using Cons.prems(1) one by (auto split: prod.splits)
  note o = enqueue_one_result [OF one Cons.prems(2,3)]
  have new: "task_id t \<notin> task_id ` set ts" and dist: "distinct (map task_id ts)"
    using Cons.prems(4) by auto
  note ih = Cons.IH [OF rest o(1) Cons.prems(3) dist]
  have other: "j \<notin> task_id ` set (t # ts) \<Longrightarrow> find_row db' j = find_row db j" for j
    using ih o(2) [of j] by simp
  have keep: "find_row db' (task_id t) = find_row db1 (task_id t)" using ih new by blast
  have "distinct ids" using ih o(3) new unfolding ids by auto
  moreover have "set ids \<subseteq> task_id ` {x \<in> set (t # ts). auto_pull_due x}"
    using ih o(3) unfolding ids by auto
  moreover have "\<forall>i\<in>set ids. \<exists>r. find_row db' i = Some r \<and> \<not> auto_pull_due (scanTask r)"
    using ih o(3) keep unfolding ids by auto
  ultimately show ?case using ih other by blast
qed

lemma ListTasks_member: "t \<in> set (ListTasks db p) \<longleftrightarrow> (\<exists>r\<in>set (tasks db). t = scanTask r \<and> project_id r = p)"
  by (auto simp: ListTasks_def)

lemma ListTasks_distinct: "store_ok db \<Longrightarrow> distinct (map task_id (ListTasks db p))"
proof -
  assume "store_ok db"
  then have "distinct (map task_id (filter (\<lambda>r. project_id r = p) (tasks db)))"
    by (simp add: store_ok_def distinct_map_filter)
  then have "distinct (map task_id (sort_desc created_key (filter (\<lambda>r. project_id r = p) (tasks db))))"
    by simp
  moreover have "map task_id (ListTasks db p) =
      map task_id (sort_desc created_key (filter (\<lambda>r. project_id r = p) (tasks db)))"
    by (simp add: ListTasks_def)
  ultimately show ?thesis by simp
qed


definition sample_pull_task :: task where
  "sample_pull_task = sample_task\<lparr>revision := 1, compute_state := ComputeCompleted,
     metadata := [''auto_pull'' \<mapsto> ''completed'']\<rparr>"

definition sample_pull_store :: store where
  "sample_pull_store = sample_store\<lparr>tasks := [encodeTask sample_pull_task]\<rparr>"


end
