(* ===== verification/Remote_Shell.thy ===== *)
theory Remote_Shell
  imports Joyrun_Model
begin

text \<open>
  \<open>internal/remote/remote.go\<close>: quoting for the remote shell, the \<open>ssh\<close> options, and the
  remote file operations. The \<open>Runner\<close> interface is a parameter: a function from the
  state of the outside world, the host, the command text and the standard input to the
  two output texts, the error and the new state. Against the quoting stands a reference
  reader of POSIX shell words (\<open>sh_words\<close>), which accepts the characters that have no
  special meaning, single quotes, and double quotes without expansions.
\<close>

type_synonym 'w runner = "'w \<Rightarrow> string \<Rightarrow> string \<Rightarrow> string \<Rightarrow> (string \<times> string \<times> go_error option) \<times> 'w"

abbreviation sq :: char where "sq \<equiv> CHR 0x27"
abbreviation dq :: char where "dq \<equiv> CHR 0x22"
abbreviation bs :: char where "bs \<equiv> CHR 0x5C"
abbreviation nl :: char where "nl \<equiv> CHR 0x0A"
abbreviation nul :: char where "nul \<equiv> CHR 0x00"

section \<open>Shell words\<close>

datatype quote_mode = Bare | Single | Double

definition bare_char :: "char \<Rightarrow> bool" where
  "bare_char c \<longleftrightarrow> (let n = (of_char c :: nat) in
     48 \<le> n \<and> n \<le> 57 \<or> 65 \<le> n \<and> n \<le> 90 \<or> 97 \<le> n \<and> n \<le> 122 \<or>
     c \<in> set ''%+,-./:=@_'')"

definition expansion_char :: "char \<Rightarrow> bool" where
  "expansion_char c \<longleftrightarrow> c = CHR ''$'' \<or> c = CHR 0x60 \<or> c = bs \<or> c = CHR ''!''"

text \<open>The words of a simple command; \<open>None\<close> when it is not one.\<close>

fun sh_lex :: "quote_mode \<Rightarrow> string option \<Rightarrow> string \<Rightarrow> string list option" where
  "sh_lex Bare w [] = Some (case w of None \<Rightarrow> [] | Some x \<Rightarrow> [x])"
| "sh_lex Bare w (c # s) =
     (if c = CHR '' '' then (case sh_lex Bare None s of None \<Rightarrow> None
        | Some ws \<Rightarrow> Some ((case w of None \<Rightarrow> [] | Some x \<Rightarrow> [x]) @ ws))
      else if c = sq then sh_lex Single (Some (case w of None \<Rightarrow> [] | Some x \<Rightarrow> x)) s
      else if c = dq then sh_lex Double (Some (case w of None \<Rightarrow> [] | Some x \<Rightarrow> x)) s
      else if bare_char c then sh_lex Bare (Some ((case w of None \<Rightarrow> [] | Some x \<Rightarrow> x) @ [c])) s
      else None)"
| "sh_lex Single w [] = None"
| "sh_lex Single w (c # s) =
     (if c = sq then sh_lex Bare w s
      else sh_lex Single (Some ((case w of None \<Rightarrow> [] | Some x \<Rightarrow> x) @ [c])) s)"
| "sh_lex Double w [] = None"
| "sh_lex Double w (c # s) =
     (if c = dq then sh_lex Bare w s
      else if expansion_char c then None
      else sh_lex Double (Some ((case w of None \<Rightarrow> [] | Some x \<Rightarrow> x) @ [c])) s)"

definition sh_words :: "string \<Rightarrow> string list option" where
  "sh_words s = sh_lex Bare None s"

section \<open>The interface of a quoting function\<close>

text \<open>
  What the builders of remote commands and of job scripts rely on: after the quoted form
  of a value, wherever a word may go on, the shell has read exactly the value and is
  outside of quotes again.
\<close>

locale shell_quoting =
  fixes quote :: "string \<Rightarrow> string"
  assumes quote_reads: "sh_lex Bare w (quote v @ rest) =
      sh_lex Bare (Some ((case w of None \<Rightarrow> [] | Some x \<Rightarrow> x) @ v)) rest"
begin

lemma quoted_word: "sh_words (quote v) = Some [v]"
  using quote_reads [of None v "[]"] by (simp add: sh_words_def)

lemma bare_prefix:
  "list_all bare_char p \<Longrightarrow> sq \<notin> set p \<Longrightarrow> dq \<notin> set p \<Longrightarrow>
   sh_lex Bare w (p @ rest) = (if p = [] then sh_lex Bare w rest
     else sh_lex Bare (Some ((case w of None \<Rightarrow> [] | Some x \<Rightarrow> x) @ p)) rest)"
proof (induction p arbitrary: w)
  case Nil
  then show ?case by simp
next
  case (Cons c p)
  have "c \<noteq> CHR '' ''" using Cons.prems(1) by (auto simp: bare_char_def Let_def)
  with Cons show ?case by (auto split: option.splits)
qed

text \<open>A command word, a space and a quoted argument are two words, whatever the argument.\<close>

lemma command_argument:
  assumes "list_all bare_char p" and "p \<noteq> []" and "sq \<notin> set p" and "dq \<notin> set p"
  shows "sh_words (p @ '' '' @ quote v) = Some [p, v]"
proof -
  have "sh_lex Bare None (quote v) = Some [v]"
    using quoted_word by (simp add: sh_words_def)
  then show ?thesis
    using bare_prefix [OF assms(1,3,4), of None "'' '' @ quote v"] assms(2) by (simp add: sh_words_def)
qed

lemma quoted_words: "sh_words (join_with '' '' (map quote vs)) = Some vs"
proof (induction vs)
  case Nil
  then show ?case by (simp add: sh_words_def)
next
  case (Cons v vs)
  show ?case
  proof (cases "vs = []")
    case True
    then show ?thesis by (simp add: quoted_word)
  next
    case False
    have "sh_words (join_with '' '' (map quote (v # vs))) =
        sh_lex Bare None (quote v @ '' '' @ join_with '' '' (map quote vs))"
      using False by (simp add: sh_words_def join_with_Cons)
    then show ?thesis using Cons.IH by (simp only: quote_reads) (simp add: sh_words_def)
  qed
qed

lemma command_arguments:
  assumes "list_all bare_char p" and "p \<noteq> []" and "sq \<notin> set p" and "dq \<notin> set p" and "vs \<noteq> []"
  shows "sh_words (p @ '' '' @ join_with '' '' (map quote vs)) = Some (p # vs)"
  using bare_prefix [OF assms(1,3,4), of None "'' '' @ join_with '' '' (map quote vs)"] assms(2)
    quoted_words [of vs] by (simp add: sh_words_def)

lemma quote_injective: "quote u = quote v \<Longrightarrow> u = v"
  by (metis quoted_word list.inject option.inject)

end

section \<open>Quoting\<close>

definition Quote :: "string \<Rightarrow> string" where
  "Quote value = [sq] @ replace_char sq [sq, dq, sq, dq, sq] value @ [sq]"

lemma quote_single: "sh_lex Single (Some w) (replace_char sq [sq, dq, sq, dq, sq] v @ sq # rest) =
    sh_lex Bare (Some (w @ v)) rest"
  by (induction v arbitrary: w) (auto simp: expansion_char_def)

interpretation remote_quote: shell_quoting Quote
proof unfold_locales
  show "sh_lex Bare w (Quote v @ rest) =
      sh_lex Bare (Some ((case w of None \<Rightarrow> [] | Some x \<Rightarrow> x) @ v)) rest" for w v rest
    using quote_single [of "case w of None \<Rightarrow> [] | Some x \<Rightarrow> x" v rest] by (simp add: Quote_def)
qed

definition last_index :: "char \<Rightarrow> string \<Rightarrow> nat option" where
  "last_index c s = (if c \<in> set s then Some (length s - 1 - length (takeWhile (\<lambda>x. x \<noteq> c) (rev s))) else None)"

text \<open>\<open>remote.Dir\<close>: the text before the last slash, \<open>.\<close> when there is none or it is the first byte.\<close>

definition Dir :: "string \<Rightarrow> string" where
  "Dir path = (case last_index (CHR ''/'') path of
     None \<Rightarrow> ''.'' | Some i \<Rightarrow> if i = 0 then ''.'' else take i path)"

definition detail :: "string \<Rightarrow> string \<Rightarrow> string" where
  "detail message stderr = (let t = trim_space stderr in if t = [] then message else message @ '': '' @ t)"

section \<open>The ssh client\<close>

definition OpenSSHOptionsFor :: "string \<Rightarrow> string list" where
  "OpenSSHOptionsFor controlPath =
     [''-o'', ''BatchMode=yes'', ''-o'', ''ConnectTimeout=15'',
      ''-o'', ''ServerAliveInterval=15'', ''-o'', ''ServerAliveCountMax=3''] @
     (if controlPath \<noteq> []
      then [''-o'', ''ControlMaster=auto'', ''-o'', ''ControlPersist=300'', ''-o'', ''ControlPath='' @ controlPath]
      else [])"

fun option_pairs :: "string list \<Rightarrow> string list" where
  "option_pairs (a # b # rest) = Quote a # Quote b # option_pairs rest"
| "option_pairs _ = []"

definition OpenSSHShellFor :: "string \<Rightarrow> string" where
  "OpenSSHShellFor controlPath = join_with '' '' (''ssh'' # option_pairs (OpenSSHOptionsFor controlPath))"

definition Check :: "'w runner \<Rightarrow> 'w \<Rightarrow> string \<Rightarrow> (go_error, unit) result \<times> 'w" where
  "Check exec w host = (case exec w host ''true'' [] of ((out, err, e), w') \<Rightarrow>
     (case e of None \<Rightarrow> Inr () | Some x \<Rightarrow> Inl (fault_wrap ''SSH_FAILED'' (detail (''cannot connect to '' @ host) err) True x), w'))"

definition write_command :: "string \<Rightarrow> string \<Rightarrow> string" where
  "write_command path mode =
     ''umask 077 && mkdir -p '' @ Quote (Dir path) @ '' && tmp='' @ Quote (path @ ''.joyrun-tmp'') @ ''.$$ && '' @
     ''trap '' @ [sq] @ ''rm -f '' @ [dq] @ ''$tmp'' @ [dq, sq] @ '' EXIT HUP INT TERM && '' @
     ''cat > '' @ [dq] @ ''$tmp'' @ [dq] @ '' && chmod '' @ Quote mode @ '' '' @ [dq] @ ''$tmp'' @ [dq] @
     '' && mv -f '' @ [dq] @ ''$tmp'' @ [dq] @ '' '' @ Quote path @ '' && trap - EXIT HUP INT TERM''"

definition WriteFile ::
    "'w runner \<Rightarrow> 'w \<Rightarrow> string \<Rightarrow> string \<Rightarrow> string \<Rightarrow> string \<Rightarrow> (go_error, unit) result \<times> 'w" where
  "WriteFile exec w host path content mode =
     (case exec w host (write_command path mode) content of ((out, err, e), w') \<Rightarrow>
       (case e of None \<Rightarrow> Inr ()
        | Some x \<Rightarrow> Inl (fault_wrap ''REMOTE_WRITE_FAILED'' (detail ''cannot write remote file'' err) True x), w'))"

definition ReadFile :: "'w runner \<Rightarrow> 'w \<Rightarrow> string \<Rightarrow> string \<Rightarrow> (go_error, string) result \<times> 'w" where
  "ReadFile exec w host path =
     (case exec w host (''cat '' @ Quote path) [] of ((out, err, e), w') \<Rightarrow>
       (case e of None \<Rightarrow> Inr out
        | Some x \<Rightarrow> Inl (fault_wrap ''REMOTE_READ_FAILED'' (detail ''cannot read remote file'' err) True x), w'))"

lemma option_pairs_map: "even (length os) \<Longrightarrow> option_pairs os = map Quote os"
  by (induction os rule: option_pairs.induct) auto

section \<open>Properties\<close>


end
