(* ===== verification/Slurm_Scheduler.thy ===== *)
theory Slurm_Scheduler
  imports Remote_Shell
begin

text \<open>
  \<open>internal/scheduler/slurm.go\<close>: the command texts sent to the cluster and the reading of
  what Slurm answers. A panic of the Go code (an index out of range) is \<open>None\<close> in the
  functions that can panic.
\<close>

section \<open>Data\<close>

record job_status =
  js_state :: string
  js_raw :: string
  js_elapsed :: string
  js_exit :: string
  js_reason :: string
  js_start :: string
  js_end :: string

record batch_job =
  bj_task :: string
  bj_workdir :: string
  bj_partition :: string

record batch_submit_result =
  scheduler_ids :: "string \<rightharpoonup> string"
  batch_failures :: "string \<rightharpoonup> string"
  batch_rejected :: "string set"

record node_info =
  nd_name :: string
  nd_state :: string
  nd_cpus :: int
  nd_memory :: int
  nd_gres :: string
  nd_partition :: string

record node_summary =
  total_nodes :: nat
  idle_nodes :: nat
  mixed_nodes :: nat
  allocated_nodes :: nat
  unavailable_nodes :: nat

definition unknown_status :: job_status where
  "unknown_status = \<lparr>js_state = ''unknown'', js_raw = [], js_elapsed = [], js_exit = [],
     js_reason = [], js_start = [], js_end = []\<rparr>"

definition message :: "string \<Rightarrow> string \<Rightarrow> string" where
  "message prefix stderr = (let t = trim_space stderr in if t = [] then prefix else prefix @ '': '' @ t)"

section \<open>Submission\<close>

abbreviation line_format :: string where
  "line_format \<equiv> [sq] @ ''%s'' @ [bs] @ ''n'' @ [sq]"

definition submit_command :: "string \<Rightarrow> string \<Rightarrow> string \<Rightarrow> string" where
  "submit_command workDir taskID part =
     ''cd '' @ Quote workDir @ '' && chmod 700 joyrun-job.sh'' @
     '' && printf '' @ line_format @ '' '' @ Quote taskID @ '' > ../submit_started.tmp'' @
     '' && mv -f ../submit_started.tmp ../submit_started'' @
     '' && sbatch_output=$(sbatch --parsable --comment='' @ Quote (''joyrun:'' @ taskID) @
     '' --partition='' @ Quote part @
     '' --output=joyrun-slurm-%j.log joyrun-job.sh 2>../submit_stderr.tmp); sbatch_status=$?; '' @
     ''if [ '' @ [dq] @ ''$sbatch_status'' @ [dq] @ '' -ne 0 ]; then '' @
     ''printf '' @ [sq] @ ''JOYRUN_SUBMIT_REJECTED'' @ [bs] @ ''n'' @ [sq] @ '' >&2; cat ../submit_stderr.tmp >&2; '' @
     ''rm -f ../submit_stderr.tmp; exit '' @ [dq] @ ''$sbatch_status'' @ [dq] @ ''; fi; '' @
     ''rm -f ../submit_stderr.tmp; jobid=${sbatch_output%%;*}; '' @
     ''if ! printf '' @ [sq] @ ''%s'' @ [sq] @ '' '' @ [dq] @ ''$jobid'' @ [dq] @ '' | grep -Eq '' @ [sq] @ ''^[0-9]+$'' @ [sq] @ ''; then '' @
     ''printf '' @ [sq] @ ''JOYRUN_SUBMIT_UNCERTAIN: invalid scheduler output'' @ [bs] @ ''n'' @ [sq] @ '' >&2; exit 1; fi; '' @
     ''printf '' @ line_format @ '' '' @ [dq] @ ''$jobid'' @ [dq] @ '' > ../scheduler_id.tmp'' @
     '' && mv -f ../scheduler_id.tmp ../scheduler_id && printf '' @ line_format @ '' '' @ [dq] @ ''$jobid'' @ [dq]"

text \<open>What \<open>Submit\<close> makes of the three outputs of the runner.\<close>

definition submit_result :: "string \<Rightarrow> string \<Rightarrow> go_error option \<Rightarrow> (go_error, string) result" where
  "submit_result stdout stderr e = (case e of
     Some x \<Rightarrow>
       (let code = (if contains stderr ''JOYRUN_SUBMIT_REJECTED'' then ''SUBMIT_REJECTED'' else ''SUBMIT_FAILED'')
        in Inl (fault_wrap code (message ''Slurm submission failed'' stderr) (code \<noteq> ''SUBMIT_REJECTED'') x))
   | None \<Rightarrow>
       (let t = trim_space stdout;
            i = (case cut_at (CHR '';'') t of Some (head, _) \<Rightarrow> head | None \<Rightarrow> t)
        in if i = [] then Inl (fault_new ''SUBMIT_FAILED'' True)
           else if parse_uint64 i = None
           then Inl (fault_wrap ''SUBMIT_FAILED'' [] False (PlainError ''invalid syntax''))
           else Inr i))"

definition Submit ::
    "'w runner \<Rightarrow> 'w \<Rightarrow> string \<Rightarrow> string \<Rightarrow> string \<Rightarrow> string \<Rightarrow> (go_error, string) result \<times> 'w" where
  "Submit exec w host workDir taskID part =
     (case exec w host (submit_command workDir taskID part) [] of
        ((out, err, e), w') \<Rightarrow> (submit_result out err e, w'))"

definition pathJoinParent :: "string \<Rightarrow> string \<Rightarrow> string" where
  "pathJoinParent workDir name =
     (let d = trim_suffix workDir ''/''
      in case last_index (CHR ''/'') d of
           None \<Rightarrow> ''../'' @ name | Some i \<Rightarrow> take i d @ ''/'' @ name)"

definition batch_job_command :: "batch_job \<Rightarrow> string" where
  "batch_job_command job =
     ''taskid='' @ Quote (bj_task job) @ ''; cd '' @ Quote (bj_workdir job) @
     '' && chmod 700 joyrun-job.sh && printf '' @ line_format @ '' '' @ [dq] @ ''$taskid'' @ [dq] @
     '' > ../submit_started.tmp && mv -f ../submit_started.tmp ../submit_started && output=$(sbatch --parsable --comment='' @
     Quote (''joyrun:'' @ bj_task job) @ '' --partition='' @ Quote (bj_partition job) @
     '' --output=joyrun-slurm-%j.log joyrun-job.sh 2>&1); status=$?; '' @
     ''if [ '' @ [dq] @ ''$status'' @ [dq] @ '' -eq 0 ]; then jobid=${output%%;*}; '' @
     ''if printf '' @ [sq] @ ''%s'' @ [sq] @ '' '' @ [dq] @ ''$jobid'' @ [dq] @ '' | grep -Eq '' @ [sq] @ ''^[0-9]+$'' @ [sq] @ ''; then '' @
     ''printf '' @ line_format @ '' '' @ [dq] @ ''$jobid'' @ [dq] @ '' > '' @ Quote (pathJoinParent (bj_workdir job) ''scheduler_id.tmp'') @
     '' && mv '' @ Quote (pathJoinParent (bj_workdir job) ''scheduler_id.tmp'') @ '' '' @
     Quote (pathJoinParent (bj_workdir job) ''scheduler_id'') @
     ''; printf '' @ [sq] @ ''OK'' @ [bs] @ ''0%s'' @ [bs] @ ''0%s'' @ [bs] @ ''0'' @ [sq] @ '' '' @ [dq] @ ''$taskid'' @ [dq] @ '' '' @ [dq] @ ''$jobid'' @ [dq] @ ''; '' @
     ''else printf '' @ [sq] @ ''ERR'' @ [bs] @ ''0%s'' @ [bs] @ ''0%s'' @ [bs] @ ''0'' @ [sq] @ '' '' @ [dq] @ ''$taskid'' @ [dq] @ '' '' @
     [dq] @ ''unexpected sbatch output: $output'' @ [dq] @ ''; fi; '' @
     ''else printf '' @ [sq] @ ''REJ'' @ [bs] @ ''0%s'' @ [bs] @ ''0%s'' @ [bs] @ ''0'' @ [sq] @ '' '' @ [dq] @ ''$taskid'' @ [dq] @ '' '' @ [dq] @ ''$output'' @ [dq] @ ''; fi; ''"

definition empty_batch :: batch_submit_result where
  "empty_batch = \<lparr>scheduler_ids = Map.empty, batch_failures = Map.empty, batch_rejected = {}\<rparr>"

definition batch_record ::
    "string \<Rightarrow> string \<Rightarrow> string \<Rightarrow> batch_submit_result \<Rightarrow> batch_submit_result" where
  "batch_record kind tid value r =
     (if kind = ''OK'' then
        (if parse_uint64 value \<noteq> None then r\<lparr>scheduler_ids := (scheduler_ids r)(tid \<mapsto> value)\<rparr>
         else r\<lparr>batch_failures := (batch_failures r)(tid \<mapsto> ''invalid scheduler ID: '' @ value)\<rparr>)
      else if kind = ''ERR'' then r\<lparr>batch_failures := (batch_failures r)(tid \<mapsto> trim_space value)\<rparr>
      else if kind = ''REJ'' then r\<lparr>batch_failures := (batch_failures r)(tid \<mapsto> trim_space value),
             batch_rejected := insert tid (batch_rejected r)\<rparr>
      else r)"

fun batch_records :: "string list \<Rightarrow> batch_submit_result \<Rightarrow> batch_submit_result" where
  "batch_records (kind # tid # value # rest) r = batch_records rest (batch_record kind tid value r)"
| "batch_records _ r = r"

definition SubmitMany ::
    "'w runner \<Rightarrow> 'w \<Rightarrow> string \<Rightarrow> batch_job list \<Rightarrow>
     (batch_submit_result \<times> go_error option) \<times> 'w" where
  "SubmitMany exec w host jobs =
     (if jobs = [] then ((empty_batch, None), w)
      else case exec w host (concat (map batch_job_command jobs)) [] of
        ((out, err, e), w') \<Rightarrow> (case e of
            Some x \<Rightarrow> ((empty_batch, Some (fault_wrap ''SUBMIT_FAILED''
                (message ''batch Slurm submission connection failed'' err) True x)), w')
          | None \<Rightarrow> ((batch_records (split_on nul out) empty_batch, None), w')))"

definition SubmissionDefinitelyRejected :: "go_error option \<Rightarrow> bool" where
  "SubmissionDefinitelyRejected e = (case e of None \<Rightarrow> False
     | Some x \<Rightarrow> fault_code x = ''SUBMIT_REJECTED'' \<or> contains (error_text x) ''JOYRUN_SUBMIT_REJECTED'')"

section \<open>Finding a job by its comment\<close>

definition find_queries :: "string \<Rightarrow> string list" where
  "find_queries since =
     [''squeue -h -o '' @ [sq] @ ''%A|%k'' @ [sq],
      ''sacct -n -X --starttime '' @ Quote since @ '' --format=JobIDRaw,Comment --parsable2'']"

definition comment_match :: "string \<Rightarrow> string \<Rightarrow> string option" where
  "comment_match comment line =
     (case split_n (CHR ''|'') 3 (trim_space line) of
        a # b # _ \<Rightarrow> if b \<noteq> comment then None
          else let i = trim_space a in if parse_uint64 i \<noteq> None then Some i else None
      | _ \<Rightarrow> None)"

definition matches_of :: "string \<Rightarrow> string \<Rightarrow> string list" where
  "matches_of comment stdout = remdups (List.map_filter (comment_match comment) (split_on nl stdout))"

fun run_queries ::
    "'w runner \<Rightarrow> 'w \<Rightarrow> string \<Rightarrow> string \<Rightarrow> string list \<Rightarrow> (go_error, string list) result \<times> 'w" where
  "run_queries exec w host comment [] = (Inr [], w)"
| "run_queries exec w host comment (q # qs) = (case exec w host q [] of
     ((out, err, e), w') \<Rightarrow> (case e of
         Some x \<Rightarrow> (Inl (fault_wrap ''STATUS_FAILED''
             (message ''cannot reconcile JoyRun task with Slurm'' err) True x), w')
       | None \<Rightarrow> (let m = matches_of comment out
           in if m \<noteq> [] then (Inr m, w') else run_queries exec w' host comment qs)))"

text \<open>\<open>since\<close> is the creation time in the layout that sacct reads.\<close>

definition FindByTaskID ::
    "'w runner \<Rightarrow> 'w \<Rightarrow> string \<Rightarrow> string \<Rightarrow> string \<Rightarrow> (go_error, string) result \<times> 'w" where
  "FindByTaskID exec w host taskID since =
     (case run_queries exec w host (''joyrun:'' @ taskID) (find_queries since) of
        (Inl e, w') \<Rightarrow> (Inl e, w')
      | (Inr m, w') \<Rightarrow>
          (case m of [] \<Rightarrow> (Inr [], w') | [i] \<Rightarrow> (Inr i, w')
           | _ \<Rightarrow> (Inl (fault_new ''SUBMIT_AMBIGUOUS'' False), w')))"

definition LogName :: "string \<Rightarrow> string" where
  "LogName jobID = ''joyrun-slurm-'' @ jobID @ ''.log''"

section \<open>States\<close>

text \<open>\<open>strings.Fields(s)[0]\<close>; \<open>None\<close> where there is no field and Go panics.\<close>

fun take_field :: "string \<Rightarrow> string" where
  "take_field [] = []"
| "take_field (c # s) = (if space_width wide_spaces (c # s) \<noteq> 0 then [] else c # take_field s)"

definition first_field :: "string \<Rightarrow> string option" where
  "first_field s = (let t = drop_spaces wide_spaces s in if t = [] then None else Some (take_field t))"

definition queued_states :: "string list" where
  "queued_states = [''PENDING'', ''CONFIGURING'', ''SUSPENDED'', ''REQUEUED'', ''REQUEUE_FED'', ''REQUEUE_HOLD'']"

definition running_states :: "string list" where
  "running_states = [''RUNNING'', ''COMPLETING'', ''RESIZING'', ''SIGNALING'', ''STAGE_OUT'']"

definition failed_states :: "string list" where
  "failed_states = [''FAILED'', ''TIMEOUT'', ''NODE_FAIL'', ''OUT_OF_MEMORY'', ''PREEMPTED'',
     ''BOOT_FAIL'', ''DEADLINE'', ''REVOKED'', ''SPECIAL_EXIT'']"

definition normalize_word :: "string \<Rightarrow> string" where
  "normalize_word w =
     (if w \<in> set queued_states then ''queued''
      else if w \<in> set running_states then ''running''
      else if w = ''COMPLETED'' then ''completed''
      else if w = ''CANCELLED'' \<or> w = ''CANCELLED+'' then ''cancelled''
      else if w \<in> set failed_states then ''failed''
      else ''unknown'')"

definition normalize :: "string \<Rightarrow> string option" where
  "normalize raw = map_option (\<lambda>w. normalize_word (to_upper w)) (first_field raw)"

definition cleanTime :: "string \<Rightarrow> string" where
  "cleanTime value = (let v = trim_space value
     in if v = [] \<or> v = ''Unknown'' \<or> v = ''N/A'' \<or> v = ''None'' then [] else v)"

definition pad_fields :: "string list \<Rightarrow> string list" where
  "pad_fields cols = cols @ replicate (6 - length cols) []"

definition raw_state :: "string list \<Rightarrow> string" where
  "raw_state cols = trim_space (trim_suffix (cols ! 0) ''+'')"

definition status_row :: "string \<Rightarrow> string \<Rightarrow> string list \<Rightarrow> job_status" where
  "status_row state raw cols = \<lparr>js_state = state, js_raw = raw, js_elapsed = trim_space (cols ! 1),
     js_exit = trim_space (cols ! 2), js_reason = trim_space (cols ! 3),
     js_start = cleanTime (cols ! 4), js_end = cleanTime (cols ! 5)\<rparr>"

section \<open>One job\<close>

definition status_command :: "string \<Rightarrow> string" where
  "status_command i =
     ''squeue_output=$(squeue -h -j '' @ Quote i @ '' -o '' @ [sq] @ ''%T|%M||%R|%S|%e'' @ [sq] @ '' 2>&1); squeue_status=$?; '' @
     ''if [ '' @ [dq] @ ''$squeue_status'' @ [dq] @ '' -eq 0 ]; then row=$(printf '' @ line_format @ '' '' @ [dq] @ ''$squeue_output'' @ [dq] @ '' | head -n1); fi; '' @
     ''if [ -z '' @ [dq] @ ''$row'' @ [dq] @ '' ]; then '' @
     ''sacct_output=$(sacct -n -X -j '' @ Quote i @ '' --format=State,Elapsed,ExitCode,Reason,Start,End --parsable2 2>&1); sacct_status=$?; '' @
     ''if [ '' @ [dq] @ ''$sacct_status'' @ [dq] @ '' -ne 0 ]; then '' @
     ''printf '' @ [sq] @ ''squeue: %s'' @ [bs] @ ''nsacct: %s'' @ [bs] @ ''n'' @ [sq] @ '' '' @ [dq] @ ''$squeue_output'' @ [dq] @ '' '' @ [dq] @ ''$sacct_output'' @ [dq] @ '' >&2; exit 1; fi; '' @
     ''row=$(printf '' @ line_format @ '' '' @ [dq] @ ''$sacct_output'' @ [dq] @ '' | head -n1); fi; '' @
     ''printf '' @ [sq] @ ''%s'' @ [sq] @ '' '' @ [dq] @ ''$row'' @ [dq]"

text \<open>The reading of the row; \<open>None\<close> is the panic of \<open>normalize\<close> on an empty raw state.\<close>

definition status_of_output :: "string \<Rightarrow> job_status option" where
  "status_of_output stdout =
     (let cols = split_n (CHR ''|'') 7 (trim_space stdout)
      in if trim_space (cols ! 0) = [] then Some unknown_status
         else let f = pad_fields cols; raw = raw_state f
           in case normalize raw of None \<Rightarrow> None | Some st \<Rightarrow> Some (status_row st raw f))"

definition Status ::
    "'w runner \<Rightarrow> 'w \<Rightarrow> string \<Rightarrow> string \<Rightarrow> (go_error, job_status) result option \<times> 'w" where
  "Status exec w host i = (case exec w host (status_command i) [] of
     ((out, err, e), w') \<Rightarrow> (case e of
         Some x \<Rightarrow> (Some (Inl (fault_wrap ''STATUS_FAILED'' (message ''cannot query Slurm job'' err) True x)), w')
       | None \<Rightarrow> (map_option Inr (status_of_output out), w')))"

section \<open>Many jobs\<close>

text \<open>The trimmed, distinct, numeric ids in order; \<open>None\<close> for an invalid one.\<close>

fun ordered_ids :: "string list \<Rightarrow> string list \<Rightarrow> string list option" where
  "ordered_ids seen [] = Some (rev seen)"
| "ordered_ids seen (i # is) =
     (let t = trim_space i
      in if t = [] \<or> t \<in> set seen then ordered_ids seen is
         else if parse_uint64 t = None then None
         else ordered_ids (t # seen) is)"

definition statusFromFields :: "string list \<Rightarrow> job_status" where
  "statusFromFields cols =
     (let f = pad_fields cols; raw = raw_state f
      in if raw = [] then unknown_status
         else case normalize raw of None \<Rightarrow> unknown_status | Some st \<Rightarrow> status_row st raw f)"

definition statuses_command :: "string list \<Rightarrow> string" where
  "statuses_command ids =
     ''ids='' @ Quote (join_with '','' ids) @ ''; '' @
     ''queue_output=$(squeue -h -j '' @ [dq] @ ''$ids'' @ [dq] @ '' -o '' @ [sq] @ ''%A|%T|%M||%R|%S|%e'' @ [sq] @ '' 2>&1); queue_status=$?; '' @
     ''account_output=$(sacct -n -X -j '' @ [dq] @ ''$ids'' @ [dq] @ '' --format=JobIDRaw,State,Elapsed,ExitCode,Reason,Start,End --parsable2 2>&1); account_status=$?; '' @
     ''if [ '' @ [dq] @ ''$queue_status'' @ [dq] @ '' -ne 0 ] && [ '' @ [dq] @ ''$account_status'' @ [dq] @ '' -ne 0 ]; then '' @
     ''printf '' @ [sq] @ ''squeue: %s'' @ [bs] @ ''nsacct: %s'' @ [bs] @ ''n'' @ [sq] @ '' '' @ [dq] @ ''$queue_output'' @ [dq] @ '' '' @ [dq] @ ''$account_output'' @ [dq] @ '' >&2; exit 1; fi; '' @
     ''if [ '' @ [dq] @ ''$account_status'' @ [dq] @ '' -eq 0 ]; then printf '' @ line_format @ '' '' @ [dq] @ ''$account_output'' @ [dq] @
     '' | sed '' @ [sq] @ ''/^[[:space:]]*$/d;s/^/A|/'' @ [sq] @ ''; fi; '' @
     ''if [ '' @ [dq] @ ''$queue_status'' @ [dq] @ '' -eq 0 ]; then printf '' @ line_format @ '' '' @ [dq] @ ''$queue_output'' @ [dq] @
     '' | sed '' @ [sq] @ ''/^[[:space:]]*$/d;s/^/Q|/'' @ [sq] @ ''; fi''"

definition status_line ::
    "string list \<Rightarrow> (string \<rightharpoonup> job_status) \<Rightarrow> string \<Rightarrow> (string \<rightharpoonup> job_status)" where
  "status_line seen r line = (case split_n (CHR ''|'') 9 (trim_space line) of
     source # a # b # rest \<Rightarrow>
       (let i = trim_space a
        in if i \<notin> set seen then r
           else if source = ''A'' then r(i \<mapsto> statusFromFields (b # rest))
           else if source = ''Q'' then r(i \<mapsto> statusFromFields (b # rest))
           else r)
   | _ \<Rightarrow> r)"

definition initial_statuses :: "string list \<Rightarrow> (string \<rightharpoonup> job_status)" where
  "initial_statuses ids = (\<lambda>i. if i \<in> set ids then Some unknown_status else None)"

definition Statuses ::
    "'w runner \<Rightarrow> 'w \<Rightarrow> string \<Rightarrow> string list \<Rightarrow> (go_error, string \<rightharpoonup> job_status) result \<times> 'w" where
  "Statuses exec w host ids = (case ordered_ids [] ids of
     None \<Rightarrow> (Inl (fault_wrap ''STATUS_FAILED'' [] False (PlainError ''invalid syntax'')), w)
   | Some ordered \<Rightarrow>
       if ordered = [] then (Inr Map.empty, w)
       else case exec w host (statuses_command ordered) [] of
         ((out, err, e), w') \<Rightarrow> (case e of
             Some x \<Rightarrow> (Inl (fault_wrap ''STATUS_FAILED'' (message ''cannot query Slurm jobs'' err) True x), w')
           | None \<Rightarrow> (Inr (fold (\<lambda>line r. status_line ordered r line) (split_on nl out)
                        (initial_statuses ordered)), w')))"

definition Cancel_job :: "'w runner \<Rightarrow> 'w \<Rightarrow> string \<Rightarrow> string \<Rightarrow> (go_error, unit) result \<times> 'w" where
  "Cancel_job exec w host i = (case exec w host (''scancel '' @ Quote i) [] of
     ((out, err, e), w') \<Rightarrow> (case e of None \<Rightarrow> Inr ()
       | Some x \<Rightarrow> Inl (fault_wrap ''CANCEL_FAILED'' (message ''cannot cancel Slurm job'' err) True x), w'))"

section \<open>Nodes\<close>

definition node_flags :: string where
  "node_flags = ''*~#@%$!^''"

definition normalizeNodeState :: "string \<Rightarrow> string" where
  "normalizeNodeState raw =
     to_lower (rev (dropWhile (\<lambda>c. c \<in> set node_flags) (rev (trim_space raw))))"

definition nodeStateCategory :: "string \<Rightarrow> string" where
  "nodeStateCategory state =
     (if state = ''idle'' then ''idle''
      else if state = ''mixed'' \<or> state = ''mix'' then ''mixed''
      else if state = ''allocated'' \<or> state = ''alloc'' \<or> state = ''completing'' \<or> state = ''comp'' then ''allocated''
      else ''unavailable'')"

definition empty_summary :: node_summary where
  "empty_summary = \<lparr>total_nodes = 0, idle_nodes = 0, mixed_nodes = 0, allocated_nodes = 0, unavailable_nodes = 0\<rparr>"

definition count_node :: "string \<Rightarrow> node_summary \<Rightarrow> node_summary" where
  "count_node state s =
     (let s1 = s\<lparr>total_nodes := total_nodes s + 1\<rparr>; c = nodeStateCategory state
      in if c = ''idle'' then s1\<lparr>idle_nodes := idle_nodes s1 + 1\<rparr>
         else if c = ''mixed'' then s1\<lparr>mixed_nodes := mixed_nodes s1 + 1\<rparr>
         else if c = ''allocated'' then s1\<lparr>allocated_nodes := allocated_nodes s1 + 1\<rparr>
         else s1\<lparr>unavailable_nodes := unavailable_nodes s1 + 1\<rparr>)"

definition node_error :: "bool \<Rightarrow> go_error" where
  "node_error wrapped = (if wrapped then fault_wrap ''NODES_QUERY_FAILED'' [] False (PlainError ''invalid syntax'')
     else fault_new ''NODES_QUERY_FAILED'' False)"

fun parse_rows ::
    "string list \<Rightarrow> node_summary \<Rightarrow> node_info list \<Rightarrow> (go_error, node_summary \<times> node_info list) result" where
  "parse_rows [] s nodes = Inr (s, nodes)"
| "parse_rows (l # ls) s nodes =
     (let line = trim_space l; cols = split_n (CHR ''|'') 6 line
      in if line = [] then parse_rows ls s nodes
         else if length cols \<noteq> 6 then Inl (node_error False)
         else let name = trim_space (cols ! 1)
           in if name = [] then Inl (node_error False)
              else if name \<in> nd_name ` set nodes then parse_rows ls s nodes
              else case parse_int64 (trim_space (cols ! 3)) of
                None \<Rightarrow> Inl (node_error True)
              | Some cpus \<Rightarrow> (case parse_int64 (trim_space (cols ! 4)) of
                  None \<Rightarrow> Inl (node_error True)
                | Some memory \<Rightarrow>
                    let state = normalizeNodeState (cols ! 2)
                    in parse_rows ls (count_node state s) (nodes @
                       [\<lparr>nd_name = name, nd_state = state, nd_cpus = cpus, nd_memory = memory,
                         nd_gres = trim_space (cols ! 5),
                         nd_partition = trim_suffix (trim_space (cols ! 0)) ''*''\<rparr>])))"

definition parseNodes :: "string \<Rightarrow> (go_error, node_summary \<times> node_info list) result" where
  "parseNodes output = parse_rows (split_on nl output) empty_summary []"

definition Nodes ::
    "'w runner \<Rightarrow> 'w \<Rightarrow> string \<Rightarrow> string \<Rightarrow> (go_error, node_summary \<times> node_info list) result \<times> 'w" where
  "Nodes exec w host part =
     (let p = trim_space part
      in if p = [] then (Inl (fault_new ''TARGET_STATUS_INVALID'' False), w)
         else case exec w host (''LC_ALL=C sinfo -N -h -p '' @ Quote p @ '' -o '' @ [sq] @ ''%P|%N|%T|%c|%m|%G'' @ [sq]) [] of
           ((out, err, e), w') \<Rightarrow> (case e of
               Some x \<Rightarrow> (Inl (fault_wrap ''NODES_QUERY_FAILED''
                   (message (''cannot query Slurm nodes for partition '' @ p) err) True x), w')
             | None \<Rightarrow> (parseNodes out, w')))"

section \<open>The interface of a scheduler\<close>

text \<open>
  What the application layer relies on: an accepted submission and a recovered job carry a
  decimal id, and a recovery that finds nothing says so with the empty id.
\<close>

locale job_scheduler =
  fixes submit :: "'w \<Rightarrow> string \<Rightarrow> string \<Rightarrow> string \<Rightarrow> string \<Rightarrow> (go_error, string) result \<times> 'w"
    and find_job :: "'w \<Rightarrow> string \<Rightarrow> string \<Rightarrow> string \<Rightarrow> (go_error, string) result \<times> 'w"
  assumes submit_numeric: "submit w h d t p = (Inr i, w') \<Longrightarrow> is_uint64_text i"
    and find_numeric: "find_job w h t since = (Inr i, w') \<Longrightarrow> i = [] \<or> is_uint64_text i"
begin

lemma submit_nonempty: "submit w h d t p = (Inr i, w') \<Longrightarrow> i \<noteq> [] \<and> trim_space i = i"
  using submit_numeric [of w h d t p i w']
  by (auto simp: is_uint64_text_def parse_uint64_def all_digits_def split: if_splits
      intro!: trim_space_digits)

lemma found_or_nothing:
  assumes "find_job w h t since = (Inr i, w')"
  obtains "i = []" | n where "parse_uint64 i = Some n"
  using find_numeric [OF assms] by (auto simp: is_uint64_text_def)

end

lemma submit_result_numeric: "submit_result out err e = Inr i \<Longrightarrow> is_uint64_text i"
  by (auto simp: submit_result_def is_uint64_text_def Let_def split: option.splits if_splits prod.splits)

lemma comment_match_numeric: "comment_match c l = Some i \<Longrightarrow> is_uint64_text i"
  by (auto simp: comment_match_def is_uint64_text_def Let_def split: list.splits if_splits)

lemma matches_numeric: "i \<in> set (matches_of c out) \<Longrightarrow> is_uint64_text i"
  by (auto simp: matches_of_def List.map_filter_def intro: comment_match_numeric)

lemma run_queries_numeric:
  "run_queries exec w host c qs = (Inr m, w') \<Longrightarrow> i \<in> set m \<Longrightarrow> is_uint64_text i"
  by (induction qs arbitrary: w)
    (auto simp: Let_def split: prod.splits option.splits if_splits dest: matches_numeric)

interpretation slurm: job_scheduler "Submit exec" "FindByTaskID exec" for exec :: "'w runner"
proof unfold_locales
  show "is_uint64_text i" if "Submit exec w h d t p = (Inr i, w')" for w h d t p i w'
    using that by (auto simp: Submit_def split: prod.splits dest: submit_result_numeric)
  show "i = [] \<or> is_uint64_text i" if "FindByTaskID exec w h t since = (Inr i, w')" for w h t since i w'
    using that run_queries_numeric [of exec w h]
    by (auto simp: FindByTaskID_def split: prod.splits sum.splits list.splits)
qed

section \<open>Readings of the output\<close>

lemma has_prefix_longer: "has_prefix s w \<Longrightarrow> has_prefix (s @ t) w"
  by (auto simp: has_prefix_iff)

lemma drop_spaces_fixed: "space_width wide (drop_spaces wide s) = 0"
proof (induction wide s rule: drop_spaces.induct)
  case (1 wide s)
  then show ?case
    by (cases "space_width wide s = 0 \<or> s = []")
      (auto simp: drop_spaces.simps [of wide s] Let_def space_width_def)
qed

lemma drop_spaces_suffix: "\<exists>u. s = u @ drop_spaces wide s"
proof (induction wide s rule: drop_spaces.induct)
  case (1 wide s)
  show ?case
  proof (cases "space_width wide s = 0 \<or> s = []")
    case True
    then show ?thesis by (auto simp: drop_spaces.simps [of wide s] Let_def)
  next
    case False
    then obtain u where "drop (space_width wide s) s = u @ drop_spaces wide (drop (space_width wide s) s)"
      using 1 by auto
    then have "s = (take (space_width wide s) s @ u) @ drop_spaces wide s"
      using False by (simp add: drop_spaces.simps [of wide s] Let_def)
    then show ?thesis by blast
  qed
qed

lemma space_width_prefix:
  assumes "space_width wide (s @ t) = 0" and "\<forall>w\<in>set wide. w \<noteq> []"
  shows "space_width wide s = 0"
proof (cases s)
  case Nil
  then show ?thesis by (simp add: space_width_def)
next
  case (Cons c r)
  have c: "c \<notin> set ascii_spaces" using assms(1) Cons by (auto simp: space_width_def split: if_splits)
  have "\<not> has_prefix (c # r) w" if "w \<in> set wide" for w
  proof
    assume p: "has_prefix (c # r) w"
    then have "has_prefix (s @ t) w" using has_prefix_longer [of "c # r" w t] Cons by simp
    with that have "find (\<lambda>w. has_prefix (s @ t) w) wide \<noteq> None" by (auto simp: find_None_all)
    then obtain x where x: "find (\<lambda>w. has_prefix (s @ t) w) wide = Some x" by auto
    with find_Some_mem [OF this] assms Cons c show False by (auto simp: space_width_def)
  qed
  then have "find (\<lambda>w. has_prefix (c # r) w) wide = None" by (auto simp: find_None_all)
  with Cons c show ?thesis by (simp add: space_width_def)
qed

lemma trim_space_no_lead: "drop_spaces wide_spaces (trim_space s) = trim_space s"
proof -
  let ?u = "drop_spaces wide_spaces s"
  obtain v where "rev ?u = v @ drop_spaces (map rev wide_spaces) (rev ?u)"
    using drop_spaces_suffix by blast
  then have "?u = trim_space s @ rev v" by (metis rev_append rev_rev_ident trim_space_def)
  then have "space_width wide_spaces (trim_space s) = 0"
    using space_width_prefix [of wide_spaces "trim_space s" "rev v"] drop_spaces_fixed [of wide_spaces s]
    by (simp add: wide_spaces_def)
  then show ?thesis by (subst drop_spaces.simps) simp
qed

lemma normalize_trimmed: "normalize (trim_space s) = None \<longleftrightarrow> trim_space s = []"
  by (simp add: normalize_def first_field_def trim_space_no_lead Let_def)

lemma normalize_raw: "normalize (raw_state cols) = None \<longleftrightarrow> raw_state cols = []"
  by (simp add: raw_state_def normalize_trimmed)

definition six_states :: "string set" where
  "six_states = {''queued'', ''running'', ''completed'', ''cancelled'', ''failed'', ''unknown''}"

lemma normalize_word_states: "normalize_word w \<in> six_states"
  by (simp add: normalize_word_def six_states_def)

lemma normalize_states: "normalize raw = Some s \<Longrightarrow> s \<in> six_states"
  by (auto simp: normalize_def normalize_word_states)

lemma statusFromFields_states: "js_state (statusFromFields cols) \<in> six_states"
  using normalize_states
  by (auto simp: statusFromFields_def unknown_status_def status_row_def Let_def six_states_def split: option.split)

text \<open>The job an output line of \<open>Statuses\<close> speaks about, and what it says.\<close>

definition line_job :: "string \<Rightarrow> (string \<times> job_status) option" where
  "line_job line = (case split_n (CHR ''|'') 9 (trim_space line) of
     source # a # b # rest \<Rightarrow> if source = ''A'' \<or> source = ''Q''
       then Some (trim_space a, statusFromFields (b # rest)) else None
   | _ \<Rightarrow> None)"

lemma status_line_job:
  "status_line seen r line = (case line_job line of
     Some (i, st) \<Rightarrow> if i \<in> set seen then r(i \<mapsto> st) else r | None \<Rightarrow> r)"
  by (auto simp: status_line_def line_job_def Let_def split: list.split)

lemma status_lines_last:
  "i \<in> set seen \<Longrightarrow>
   fold (\<lambda>line r. status_line seen r line) lines r i =
     (case find (\<lambda>(j, st). j = i) (rev (List.map_filter line_job lines)) of
        Some (j, st) \<Rightarrow> Some st | None \<Rightarrow> r i)"
proof (induction lines arbitrary: r)
  case Nil
  then show ?case by (simp add: List.map_filter_simps)
next
  case (Cons l ls)
  show ?case
    using Cons
    by (auto simp: status_line_job List.map_filter_simps find_append split: option.split prod.split)
qed

lemma ordered_ids_result:
  "ordered_ids seen ids = Some ordered \<Longrightarrow>
   set ordered = set seen \<union> {t. t \<noteq> [] \<and> t \<in> trim_space ` set ids}"
proof (induction ids arbitrary: seen)
  case Nil
  then show ?case by auto
next
  case (Cons i ids)
  then show ?case by (auto simp: Let_def split: if_splits)
qed

lemma run_queries_single:
  "run_queries exec w host c qs = (Inr [i], w') \<Longrightarrow>
   \<exists>q\<in>set qs. \<exists>w1 out err. exec w1 host q [] = ((out, err, None), w') \<and> set (matches_of c out) = {i}"
proof (induction qs arbitrary: w)
  case Nil
  then show ?case by simp
next
  case (Cons q qs)
  obtain out err e w1 where x: "exec w host q [] = ((out, err, e), w1)" by (metis prod.collapse)
  then have e: "e = None" using Cons.prems by (auto split: option.splits)
  show ?case
  proof (cases "matches_of c out = []")
    case True
    then have "run_queries exec w1 host c qs = (Inr [i], w')" using Cons.prems x e by simp
    from Cons.IH [OF this] show ?thesis by auto
  next
    case False
    then have "matches_of c out = [i]" "w1 = w'" using Cons.prems x e by simp_all
    then have "set (matches_of c out) = {i}" "exec w host q [] = ((out, err, None), w')" using x e by auto
    then show ?thesis by (meson list.set_intros(1))
  qed
qed

text \<open>A runner that answers every command alike, for the witnesses.\<close>

definition echo_runner :: "string \<Rightarrow> unit runner" where
  "echo_runner out = (\<lambda>w host command stdin. ((out, [], None), w))"

lemma echo_runner [simp]: "echo_runner out w host command stdin = ((out, [], None), w)"
  by (simp add: echo_runner_def)

section \<open>Properties\<close>

text \<open>
  \<open>Submit\<close> accepts only a clean decimal job id: it runs its command once; it
  succeeds with an id only when the command succeeded and printed that id (possibly
  followed by a semicolon and the cluster name); and it reports a definite rejection
  exactly when the command failed and its standard error carries the marker the remote
  script prints after \<open>sbatch\<close> refused.
\<close>

theorem submit_outcomes:
  assumes "exec w host (submit_command d t p) [] = ((out, err, e), w1)"
  shows "\<exists>r. Submit exec w host d t p = (r, w1) \<and> (case r of
      Inr i \<Rightarrow> e = None \<and> all_digits i \<and> digits_val i < 2 ^ 64 \<and>
        (trim_space out = i \<or> has_prefix (trim_space out) (i @ '';''))
    | Inl x \<Rightarrow> fault_code x \<in> {''SUBMIT_REJECTED'', ''SUBMIT_FAILED''} \<and>
        (fault_code x = ''SUBMIT_REJECTED'') = (e \<noteq> None \<and> contains err ''JOYRUN_SUBMIT_REJECTED'') \<and>
        (fault_code x = ''SUBMIT_REJECTED'' \<longrightarrow> SubmissionDefinitelyRejected (Some x) \<and> \<not> fault_retryable x))"
proof -
  define r where "r = submit_result out err e"
  have s: "Submit exec w host d t p = (r, w1)" by (simp add: Submit_def assms r_def)
  show ?thesis
  proof (cases r)
    case (Inl x)
    then show ?thesis
      using s by (auto simp: r_def submit_result_def SubmissionDefinitelyRejected_def Let_def
          split: option.splits if_splits prod.splits)
  next
    case (Inr i)
    have "is_uint64_text i" using Inr r_def submit_result_numeric by metis
    then have "all_digits i" "digits_val i < 2 ^ 64"
      by (auto simp: is_uint64_text_def parse_uint64_def split: if_splits)
    moreover have "e = None" using Inr by (auto simp: r_def submit_result_def Let_def split: option.splits)
    moreover have "trim_space out = i \<or> has_prefix (trim_space out) (i @ '';'')"
      using Inr \<open>e = None\<close> cut_at_Some [of "CHR '';''" "trim_space out"]
      by (auto simp: r_def submit_result_def Let_def has_prefix_iff split: option.splits if_splits prod.splits)
    ultimately show ?thesis using s Inr by simp
  qed
qed

theorem submit_outcomes_witness:
  "\<exists>r. Submit (echo_runner ''4711'') () ''h'' ''/d'' ''jr_1'' ''p'' = (r, ()) \<and>
     (case r of Inr i \<Rightarrow> all_digits i | Inl x \<Rightarrow> fault_code x \<in> {''SUBMIT_REJECTED'', ''SUBMIT_FAILED''})"
proof -
  have "echo_runner ''4711'' () ''h'' (submit_command ''/d'' ''jr_1'' ''p'') [] = ((''4711'', [], None), ())" by simp
  from submit_outcomes [where exec = "echo_runner ''4711''", OF this] show ?thesis
    by (elim exE, rename_tac r, case_tac r) auto
qed

text \<open>
  \<open>Statuses\<close> reports exactly the requested jobs: the trimmed, non-empty ids that were
  asked for. The value of each is read from the last line of the output that names the
  job, which is its queue line when the queue listing has one because that listing is
  printed last, and is \<open>unknown\<close> when no line does.
\<close>

theorem statuses_last_line:
  assumes "Statuses exec w host ids = (Inr r, w')" and "ordered_ids [] ids = Some ordered"
    and "ordered \<noteq> []" and "exec w host (statuses_command ordered) [] = ((out, err, e), w1)"
  shows "e = None \<and> w' = w1 \<and>
    (\<forall>i. r i = (if i \<noteq> [] \<and> i \<in> trim_space ` set ids
       then Some (case find (\<lambda>(j, st). j = i) (rev (List.map_filter line_job (split_on nl out))) of
           Some (j, st) \<Rightarrow> st | None \<Rightarrow> unknown_status)
       else None))"
proof -
  have e: "e = None" "w' = w1"
    and r: "r = fold (\<lambda>line r. status_line ordered r line) (split_on nl out) (initial_statuses ordered)"
    using assms by (auto simp: Statuses_def split: option.splits)
  have set: "i \<in> set ordered \<longleftrightarrow> i \<noteq> [] \<and> i \<in> trim_space ` set ids" for i
    using ordered_ids_result [OF assms(2)] by auto
  have dom: "fold (\<lambda>line r. status_line ordered r line) lines r0 i = r0 i" if "i \<notin> set ordered" for lines r0 i
    using that by (induction lines arbitrary: r0) (auto simp: status_line_job split: option.split prod.split)
  have "r i = (if i \<in> set ordered
       then Some (case find (\<lambda>(j, st). j = i) (rev (List.map_filter line_job (split_on nl out))) of
           Some (j, st) \<Rightarrow> st | None \<Rightarrow> unknown_status)
       else None)" for i
    using status_lines_last [of i ordered "split_on nl out" "initial_statuses ordered"] dom [of i]
    by (auto simp: r initial_statuses_def split: option.split)
  then show ?thesis using e unfolding set by blast
qed

definition sample_listing :: string where
  "sample_listing = ''A|7|COMPLETED|1'' @ nl # ''Q|7|RUNNING|2''"

lemma seven_digits: "trim_space ''7'' = ''7''" "parse_uint64 ''7'' = Some 7"
  by (rule trim_space_digits) (simp_all add: all_digits_def is_digit_def parse_uint64_def digits_val_def digit_val_def)

lemma sample_line_jobs:
  "List.map_filter line_job (split_on nl sample_listing) =
     [(''7'', statusFromFields [''COMPLETED'', ''1'']), (''7'', statusFromFields [''RUNNING'', ''2''])]"
  by (simp add: sample_listing_def List.map_filter_simps line_job_def trim_space_graph graph_char_def
      cut_at_def seven_digits numeral_eq_Suc)

theorem statuses_last_line_witness:
  "\<exists>r. Statuses (echo_runner sample_listing) () ''h'' [''7''] = (Inr r, ()) \<and>
     r ''7'' = Some (statusFromFields [''RUNNING'', ''2''])"
proof -
  have o: "ordered_ids [] [''7''] = Some [''7'']" by (simp add: seven_digits Let_def)
  obtain r where s: "Statuses (echo_runner sample_listing) () ''h'' [''7''] = (Inr r, ())"
    unfolding Statuses_def o by auto
  have "r ''7'' = Some (case find (\<lambda>(j, st). j = ''7'') (rev (List.map_filter line_job (split_on nl sample_listing))) of
           Some (j, st) \<Rightarrow> st | None \<Rightarrow> unknown_status)"
    using statuses_last_line [where exec = "echo_runner sample_listing", OF s o _ echo_runner] by (simp add: seven_digits)
  then show ?thesis using s by (simp add: sample_line_jobs)
qed

text \<open>
  C24. A job recovered by its comment is the only one: when \<open>FindByTaskID\<close> answers with an
  id, the listing that answered (the queue, or the accounting when the queue has no match)
  names exactly that id with the comment \<open>joyrun:\<close> and the task id; two different ids are
  \<open>SUBMIT_AMBIGUOUS\<close>, never one of them.
\<close>

theorem recovered_job_is_unique:
  assumes "FindByTaskID exec w host t since = (Inr i, w')" and "i \<noteq> []"
  shows "\<exists>q\<in>set (find_queries since). \<exists>w1 out err. exec w1 host q [] = ((out, err, None), w') \<and>
     set (matches_of (''joyrun:'' @ t) out) = {i}"
proof -
  have "run_queries exec w host (''joyrun:'' @ t) (find_queries since) = (Inr [i], w')"
    using assms by (auto simp: FindByTaskID_def split: prod.splits sum.splits list.splits)
  from run_queries_single [OF this] show ?thesis .
qed

theorem recovered_job_is_unique_witness:
  "\<exists>q\<in>set (find_queries ''2026-01-01T00:00:00''). \<exists>w1 out err.
     echo_runner ''12|joyrun:a'' w1 ''h'' q [] = ((out, err, None), ()) \<and>
     set (matches_of (''joyrun:'' @ ''a'') out) = {''12''}"
proof -
  have "trim_space ''12'' = ''12''" "parse_uint64 ''12'' = Some 12"
    by (rule trim_space_digits) (simp_all add: all_digits_def is_digit_def parse_uint64_def digits_val_def digit_val_def)
  then have "matches_of ''joyrun:a'' ''12|joyrun:a'' = [''12'']"
    by (simp add: matches_of_def List.map_filter_simps comment_match_def trim_space_graph graph_char_def
        cut_at_def numeral_eq_Suc)
  then have "FindByTaskID (echo_runner ''12|joyrun:a'') () ''h'' ''a'' ''2026-01-01T00:00:00'' = (Inr ''12'', ())"
    by (simp add: FindByTaskID_def find_queries_def)
  from recovered_job_is_unique [where exec = "echo_runner ''12|joyrun:a''", OF this] show ?thesis by simp
qed

text \<open>
  \<open>Status\<close> panics exactly on a state column that is a lone plus sign: the sign is cut
  off after the emptiness test, and \<open>normalize\<close> indexes the first field of the empty rest.
  (\<open>statusFromFields\<close> tests after the cut and cannot.)
\<close>

theorem status_panics_on_plus:
  "status_of_output stdout = None \<longleftrightarrow>
     (let col = split_n (CHR ''|'') 7 (trim_space stdout) ! 0
      in trim_space col \<noteq> [] \<and> trim_space (trim_suffix col ''+'') = [])"
proof -
  have ne: "split_n (CHR ''|'') 7 (trim_space stdout) \<noteq> []" by (rule split_n_nonempty) simp
  then have "pad_fields (split_n (CHR ''|'') 7 (trim_space stdout)) ! 0 = split_n (CHR ''|'') 7 (trim_space stdout) ! 0"
    by (simp add: pad_fields_def nth_append)
  then show ?thesis
    using normalize_raw [of "pad_fields (split_n (CHR ''|'') 7 (trim_space stdout))"]
    by (auto simp: status_of_output_def raw_state_def Let_def split: option.split)
qed

end
