(* ===== verification/Go_Paths.thy ===== *)
theory Go_Paths
  imports Go_Prelude
begin

text \<open>
  The functions of Go's \<open>path\<close> package (and of \<open>path/filepath\<close> on Unix) that the program
  uses, on slash-separated paths, with the facts about relative paths that the components
  share.
\<close>

fun clean_elems :: "bool \<Rightarrow> string list \<Rightarrow> string list \<Rightarrow> string list" where
  "clean_elems rooted out [] = rev out"
| "clean_elems rooted out (e # es) =
     (if e = [] \<or> e = ''.'' then clean_elems rooted out es
      else if e = ''..'' then
        (case out of
           x # below \<Rightarrow> if x = ''..'' then clean_elems rooted (e # out) es
                      else clean_elems rooted below es
         | [] \<Rightarrow> if rooted then clean_elems rooted [] es else clean_elems rooted [e] es)
      else clean_elems rooted (e # out) es)"

definition path_elems :: "string \<Rightarrow> string list" where
  "path_elems p = clean_elems (has_prefix p ''/'') [] (split_on (CHR ''/'') p)"

definition path_clean :: "string \<Rightarrow> string" where
  "path_clean p =
     (if has_prefix p ''/'' then CHR ''/'' # join_with ''/'' (path_elems p)
      else if path_elems p = [] then ''.'' else join_with ''/'' (path_elems p))"

definition path_join :: "string list \<Rightarrow> string" where
  "path_join es = (case dropWhile (\<lambda>e. e = []) es of
     [] \<Rightarrow> [] | es' \<Rightarrow> path_clean (join_with ''/'' es'))"

definition path_is_abs :: "string \<Rightarrow> bool" where
  "path_is_abs p \<longleftrightarrow> has_prefix p ''/''"

definition path_base :: "string \<Rightarrow> string" where
  "path_base p = (if p = [] then ''.''
     else let t = rev (dropWhile (\<lambda>c. c = CHR ''/'') (rev p))
       in if t = [] then ''/'' else last (split_on (CHR ''/'') t))"

section \<open>Clean relative paths\<close>

text \<open>An element that names an entry of the directory it is resolved in.\<close>

definition plain_elem :: "string \<Rightarrow> bool" where
  "plain_elem e \<longleftrightarrow> e \<noteq> [] \<and> e \<noteq> ''.'' \<and> e \<noteq> ''..'' \<and> CHR ''/'' \<notin> set e"

lemma clean_elems_plain:
  "\<forall>e\<in>set es. plain_elem e \<Longrightarrow> clean_elems rooted out es = rev out @ es"
  by (induction rooted out es rule: clean_elems.induct) (auto simp: plain_elem_def)

lemma clean_elems_append:
  "clean_elems rooted out (es @ fs) = clean_elems rooted (rev (clean_elems rooted out es)) fs"
  by (induction rooted out es rule: clean_elems.induct) (auto split: list.split)

text \<open>In a clean relative path the parent references stand in front.\<close>

definition path_stack :: "bool \<Rightarrow> string list \<Rightarrow> bool" where
  "path_stack rooted out \<longleftrightarrow> (\<exists>n ws. out = ws @ replicate n ''..'' \<and> (\<forall>w\<in>set ws. plain_elem w) \<and> (rooted \<longrightarrow> n = 0))"

lemma path_stack_Nil [simp]: "path_stack rooted []"
  unfolding path_stack_def by (intro exI [of _ 0] exI [of _ "[]"]) simp

lemma path_stack_plain: "path_stack rooted out \<Longrightarrow> plain_elem e \<Longrightarrow> path_stack rooted (e # out)"
  unfolding path_stack_def by (elim exE conjE, rename_tac n ws, rule_tac x = n in exI, rule_tac x = "e # ws" in exI) simp

lemma path_stack_up:
  assumes "path_stack rooted out" and "out = [] \<or> hd out = ''..''" and "out = [] \<Longrightarrow> \<not> rooted"
  shows "path_stack rooted (''..'' # out)"
proof -
  obtain n ws where o: "out = ws @ replicate n ''..''" "\<forall>w\<in>set ws. plain_elem w" "rooted \<longrightarrow> n = 0"
    using assms(1) by (auto simp: path_stack_def)
  then have ws: "ws = []" using assms(2) by (cases ws) (auto simp: plain_elem_def)
  then have "\<not> rooted" using o assms(2,3) by (cases n) auto
  then show ?thesis
    unfolding path_stack_def by (intro exI [of _ "Suc n"] exI [of _ "[]"]) (simp add: o(1) ws)
qed

lemma path_stack_twice: "path_stack rooted (''..'' # out) \<Longrightarrow> path_stack rooted (''..'' # ''..'' # out)"
  by (rule path_stack_up) simp_all

lemma path_stack_pop: "path_stack rooted (x # out) \<Longrightarrow> x \<noteq> ''..'' \<Longrightarrow> path_stack rooted out"
  unfolding path_stack_def
proof (elim exE conjE)
  fix n ws
  assume o: "x # out = ws @ replicate n ''..''" "\<forall>w\<in>set ws. plain_elem w" "rooted \<longrightarrow> n = 0" and "x \<noteq> ''..''"
  then obtain ws' where "ws = x # ws'" by (cases ws; cases n) auto
  with o show "\<exists>n ws. out = ws @ replicate n ''..'' \<and> (\<forall>w\<in>set ws. plain_elem w) \<and> (rooted \<longrightarrow> n = 0)"
    by (intro exI [of _ n] exI [of _ ws']) simp
qed

lemma clean_elems_shape:
  "path_stack rooted out \<Longrightarrow> \<forall>e\<in>set es. CHR ''/'' \<notin> set e \<Longrightarrow>
   path_stack rooted (rev (clean_elems rooted out es))"
proof (induction rooted out es rule: clean_elems.induct)
  case (1 rooted out)
  then show ?case by simp
next
  case (2 rooted out e es)
  then show ?case
    by (auto split: list.split simp: path_stack_plain [unfolded plain_elem_def] path_stack_up path_stack_twice
        dest: path_stack_pop)
qed

section \<open>Absolute paths, and paths below a directory\<close>

definition abs_path :: "string list \<Rightarrow> string" where
  "abs_path es = CHR ''/'' # join_with ''/'' es"

lemma path_elems_plain:
  assumes "path_is_abs p" and "e \<in> set (path_elems p)"
  shows "plain_elem e"
proof -
  have r: "has_prefix p ''/''" using assms(1) by (simp add: path_is_abs_def)
  have "path_stack True (rev (path_elems p))"
    unfolding path_elems_def using r split_on_no_sep by (simp add: clean_elems_shape)
  with assms(2) show ?thesis by (auto simp: path_stack_def)
qed

lemma path_elems_join:
  assumes "es \<noteq> []" and "\<forall>e\<in>set es. plain_elem e"
  shows "path_elems (join_with ''/'' es) = es" and "\<not> has_prefix (join_with ''/'' es) ''/''"
proof -
  obtain e rest where e: "es = e # rest" using assms(1) by (cases es) auto
  then obtain c w where c: "e = c # w" "c \<noteq> CHR ''/''" using assms(2) by (cases e) (auto simp: plain_elem_def)
  with e show np: "\<not> has_prefix (join_with ''/'' es) ''/''" by (cases rest) auto
  have "split_on (CHR ''/'') (join_with ''/'' es) = es"
    using assms by (intro split_join) (auto simp: plain_elem_def)
  with np show "path_elems (join_with ''/'' es) = es"
    by (simp add: path_elems_def clean_elems_plain assms(2))
qed

lemma clean_rel:
  assumes "es \<noteq> []" and "\<forall>e\<in>set es. plain_elem e"
  shows "path_clean (join_with ''/'' es) = join_with ''/'' es"
  using path_elems_join [OF assms] assms(1) by (simp add: path_clean_def)

lemma split_on_append_sep: "split_on c (s @ c # t) = split_on c s @ split_on c t"
  by (induction s) (auto split: list.split)

lemma join_with_snoc: "join_with sep (es @ [e]) = (if es = [] then e else join_with sep es @ sep @ e)"
  by (induction es) (auto simp: join_with_Cons)

lemma join_with_two: "es \<noteq> [] \<Longrightarrow> join_with sep (es @ [a, b]) = join_with sep es @ sep @ a @ sep @ b"
  using join_with_snoc [of sep "es @ [a]" b] by (simp add: join_with_snoc)

lemma path_elems_child: "path_is_abs r \<Longrightarrow> plain_elem e \<Longrightarrow> path_elems (r @ CHR ''/'' # e) = path_elems r @ [e]"
  by (cases r)
    (auto simp: path_elems_def path_is_abs_def split_on_append_sep split_on_id clean_elems_append clean_elems_plain plain_elem_def)

lemma path_elems_abs: "\<forall>e\<in>set es. plain_elem e \<Longrightarrow> path_elems (CHR ''/'' # join_with ''/'' es) = es"
proof (cases "es = []")
  case True
  then show ?thesis by (simp add: path_elems_def)
next
  case False
  assume p: "\<forall>e\<in>set es. plain_elem e"
  then have "split_on (CHR ''/'') (join_with ''/'' es) = es"
    using False by (intro split_join) (auto simp: plain_elem_def)
  with p show ?thesis by (simp add: path_elems_def clean_elems_plain)
qed

lemma path_join_child:
  assumes "path_is_abs r" and "plain_elem e"
  shows "path_join [r, e] = abs_path (path_elems r @ [e])" "path_is_abs (path_join [r, e])"
    "path_elems (path_join [r, e]) = path_elems r @ [e]"
proof -
  have "r \<noteq> []" using assms(1) by (auto simp: path_is_abs_def)
  then have "path_join [r, e] = path_clean (r @ CHR ''/'' # e)" by (simp add: path_join_def)
  moreover have "has_prefix (r @ CHR ''/'' # e) ''/''"
    using assms(1) by (cases r) (auto simp: path_is_abs_def)
  ultimately show j: "path_join [r, e] = abs_path (path_elems r @ [e])"
    using path_elems_child [OF assms] by (simp add: path_clean_def abs_path_def)
  show "path_is_abs (path_join [r, e])" unfolding j by (simp add: abs_path_def path_is_abs_def)
  have "\<forall>x\<in>set (path_elems r @ [e]). plain_elem x" using path_elems_plain [OF assms(1)] assms(2) by auto
  from path_elems_abs [OF this] show "path_elems (path_join [r, e]) = path_elems r @ [e]"
    unfolding j by (simp add: abs_path_def)
qed

text \<open>A path of plain elements only: clean, relative, without parent references.\<close>

definition plain_path :: "string \<Rightarrow> bool" where
  "plain_path p \<longleftrightarrow> (\<forall>e\<in>set (split_on (CHR ''/'') p). plain_elem e)"

lemma plain_path_join:
  assumes "es \<noteq> []" and "\<forall>e\<in>set es. plain_elem e"
  shows "split_on (CHR ''/'') (join_with ''/'' es) = es" and "plain_path (join_with ''/'' es)"
proof -
  show s: "split_on (CHR ''/'') (join_with ''/'' es) = es"
    using assms by (intro split_join) (auto simp: plain_elem_def)
  show "plain_path (join_with ''/'' es)" using assms by (simp add: plain_path_def s)
qed

lemma plain_path_elems:
  assumes "plain_path p"
  shows "path_elems p = split_on (CHR ''/'') p" "\<not> path_is_abs p" "path_clean p = p" "p \<noteq> []"
proof -
  let ?es = "split_on (CHR ''/'') p"
  have es: "?es \<noteq> []" "\<forall>e\<in>set ?es. plain_elem e" using assms by (simp_all add: plain_path_def)
  have p: "join_with ''/'' ?es = p" by (rule join_split)
  show "path_elems p = ?es" "\<not> path_is_abs p" "path_clean p = p"
    using path_elems_join [OF es, unfolded p] clean_rel [OF es, unfolded p] unfolding path_is_abs_def by blast+
  show "p \<noteq> []"
  proof
    assume "p = []"
    then have "plain_elem []" using es(2) by simp
    then show False by (simp add: plain_elem_def)
  qed
qed

text \<open>The test that the program makes of a relative path, and what it means.\<close>

lemma plain_path_iff:
  "plain_path p \<longleftrightarrow> p \<noteq> [] \<and> \<not> path_is_abs p \<and> path_clean p = p \<and> p \<noteq> ''.'' \<and> p \<noteq> ''..'' \<and> \<not> has_prefix p ''../''"
proof
  assume a: "plain_path p"
  then have "p \<noteq> ''.''" and "p \<noteq> ''..''"
    by (intro notI, simp add: plain_path_def plain_elem_def)+
  moreover have "\<not> has_prefix p ''../''"
  proof
    assume "has_prefix p ''../''"
    then obtain t where "p = ''..'' @ CHR ''/'' # t" by (auto simp only: has_prefix_iff append_Cons append_Nil)
    then have "''..'' \<in> set (split_on (CHR ''/'') p)" by (simp add: split_on_append)
    with a show False by (auto simp only: plain_path_def plain_elem_def)
  qed
  ultimately show "p \<noteq> [] \<and> \<not> path_is_abs p \<and> path_clean p = p \<and> p \<noteq> ''.'' \<and> p \<noteq> ''..'' \<and> \<not> has_prefix p ''../''"
    using plain_path_elems [OF a] by simp
next
  assume a: "p \<noteq> [] \<and> \<not> path_is_abs p \<and> path_clean p = p \<and> p \<noteq> ''.'' \<and> p \<noteq> ''..'' \<and> \<not> has_prefix p ''../''"
  then have "path_clean p = p" "\<not> has_prefix p ''/''" "p \<noteq> ''.''" by (simp_all add: path_is_abs_def)
  then have e: "path_elems p \<noteq> []" "p = join_with ''/'' (path_elems p)"
    unfolding path_clean_def by presburger+
  have "path_stack False (rev (path_elems p))"
    using a split_on_no_sep by (simp add: path_elems_def path_is_abs_def clean_elems_shape)
  then obtain n ws where s: "rev (path_elems p) = ws @ replicate n ''..''" "\<forall>w\<in>set ws. plain_elem w"
    by (auto simp: path_stack_def)
  then have r: "path_elems p = replicate n ''..'' @ rev ws"
    by (metis rev_append rev_replicate rev_rev_ident)
  have "n = 0"
  proof (rule ccontr)
    assume "n \<noteq> 0"
    then obtain rest where "path_elems p = ''..'' # rest" using r by (cases n) auto
    with e(2) have "p = join_with ''/'' (''..'' # rest)" by simp
    then have "p = ''..'' \<or> has_prefix p ''../''" by (cases "rest = []") (simp_all add: join_with_Cons)
    with a show False by blast
  qed
  with r s(2) e show "plain_path p" using plain_path_join(2) [of "path_elems p"] by simp
qed

text \<open>A plain path below an absolute directory.\<close>

lemma path_join_plain:
  assumes "path_is_abs r" and "plain_path f"
  shows "path_join [r, f] = abs_path (path_elems r @ split_on (CHR ''/'') f)" "path_is_abs (path_join [r, f])"
    "path_elems (path_join [r, f]) = path_elems r @ split_on (CHR ''/'') f"
proof -
  let ?es = "split_on (CHR ''/'') f"
  have es: "\<forall>e\<in>set ?es. plain_elem e" using assms(2) by (simp add: plain_path_def)
  have r: "has_prefix (r @ CHR ''/'' # f) ''/''" "r \<noteq> []"
    using assms(1) by (cases r; simp add: path_is_abs_def)+
  have "path_join [r, f] = path_clean (r @ CHR ''/'' # f)" using r(2) by (simp add: path_join_def)
  moreover have "path_elems (r @ CHR ''/'' # f) = path_elems r @ ?es"
  proof -
    have "has_prefix r ''/''" using assms(1) by (simp add: path_is_abs_def)
    then show ?thesis using r(1) es
      by (simp add: path_elems_def split_on_append_sep clean_elems_append clean_elems_plain)
  qed
  ultimately show j: "path_join [r, f] = abs_path (path_elems r @ ?es)"
    using r(1) by (simp add: path_clean_def abs_path_def)
  show "path_is_abs (path_join [r, f])" unfolding j by (simp add: abs_path_def path_is_abs_def)
  have "\<forall>x\<in>set (path_elems r @ ?es). plain_elem x" using path_elems_plain [OF assms(1)] es by auto
  from path_elems_abs [OF this] show "path_elems (path_join [r, f]) = path_elems r @ ?es"
    unfolding j by (simp add: abs_path_def)
qed

end
