(* ===== verification/Submission.thy ===== *)
theory Submission
  imports Slurm_Scheduler Store_Tasks Go_Paths
begin

text \<open>
  The submission of one task (\<open>internal/app/app.go\<close>): the reserved submission that a worker
  executes, its stages, the recovery of a lost scheduler id, and the failures. What is
  outside the program (ssh, the transfer, the local disk, the clock, the deadlines of the
  contexts, the configuration, the JSON encoder) is one record, \<open>'w outside\<close>, over a state
  \<open>'w\<close> of the world. The submission is a sequence of points between which any other
  process may act on the database, so that crashes and concurrent workers can be stated.
\<close>

datatype ctx_status = Live | DeadlineExceeded | Canceled

record 'w outside =
  exec_cmd :: "'w runner"
  push_files :: "'w \<Rightarrow> cluster \<Rightarrow> string \<Rightarrow> string \<Rightarrow> go_error option \<times> 'w"
  write_local :: "'w \<Rightarrow> string \<Rightarrow> string \<Rightarrow> go_error option \<times> 'w"
  task_json :: "task \<Rightarrow> (go_error, string) result"
  remote_ctx :: "'w \<Rightarrow> ctx_status"
  upload_ctx :: "'w \<Rightarrow> ctx_status"
  submit_ctx :: "'w \<Rightarrow> ctx_status"
  clock :: "'w \<Rightarrow> time"
  clusters :: "string \<rightharpoonup> cluster"

definition no_cluster :: cluster where
  "no_cluster = \<lparr>cluster_host = [], scheduler_kind = [], remote_root = [], transfer_kind = [],
     partitions = Map.empty\<rparr>"

definition cluster_of :: "'w outside \<Rightarrow> task \<Rightarrow> cluster" where
  "cluster_of env t = (case clusters env (cluster_name t) of None \<Rightarrow> no_cluster | Some c \<Rightarrow> c)"

definition operationFailure :: "ctx_status \<Rightarrow> string \<Rightarrow> string \<Rightarrow> string" where
  "operationFailure ctx fallback timeout = (case ctx of
     DeadlineExceeded \<Rightarrow> timeout | Canceled \<Rightarrow> ''SUBMISSION_CANCELLED'' | Live \<Rightarrow> fallback)"

definition transferFailure :: "ctx_status \<Rightarrow> go_error \<Rightarrow> string" where
  "transferFailure ctx e = (case ctx of
     DeadlineExceeded \<Rightarrow> ''UPLOAD_TIMEOUT'' | Canceled \<Rightarrow> ''SUBMISSION_CANCELLED''
   | Live \<Rightarrow> if fault_code e = ''UPLOAD_TIMEOUT'' then ''UPLOAD_TIMEOUT'' else ''UPLOAD_FAILED'')"

section \<open>Writing down a stage or a failure\<close>

definition taskEvent ::
    "task \<Rightarrow> string \<Rightarrow> string \<Rightarrow> (string \<rightharpoonup> string) \<Rightarrow> time \<Rightarrow> task_event" where
  "taskEvent t ty stage data now =
     \<lparr>ev_task = task_id t, ev_type = ty, ev_stage = stage, ev_data = data, ev_created = now\<rparr>"

definition recordStage ::
    "store \<Rightarrow> time \<Rightarrow> task \<Rightarrow> string \<Rightarrow> string \<Rightarrow> (go_error, unit) result \<times> task \<times> store" where
  "recordStage db now t ty stage =
     (let t1 = t\<lparr>updated_at := now\<rparr>
      in UpdateTaskWithEvent db now t1 (taskEvent t1 ty stage Map.empty now))"

definition failed_task ::
    "task \<Rightarrow> time \<Rightarrow> compute_state \<Rightarrow> string \<Rightarrow> string \<Rightarrow> go_error \<Rightarrow> task" where
  "failed_task t now cs code stage cause =
     t\<lparr>compute_state := cs, updated_at := now,
       metadata := (metadata t)(''error_code'' \<mapsto> code, ''error'' \<mapsto> error_text cause,
         ''error_stage'' \<mapsto> stage)\<rparr>"

text \<open>Both ignore the result of the write: the caller gets the failure in any case.\<close>

definition failSubmission ::
    "store \<Rightarrow> time \<Rightarrow> task \<Rightarrow> string \<Rightarrow> string \<Rightarrow> bool \<Rightarrow> go_error \<Rightarrow> go_error \<times> task \<times> store" where
  "failSubmission db now t code stage retry cause =
     (let t1 = failed_task t now ComputeSubmissionFailed code stage cause
      in case UpdateTaskWithEvent db now t1 (taskEvent t1 ''SUBMISSION_FAILED'' stage
           [''code'' \<mapsto> code, ''error'' \<mapsto> error_text cause] now) of
         (_, t2, db') \<Rightarrow>
           (with_task stage (compute_state t2) (pull_state t2) (fault_wrap code [] retry cause), t2, db'))"

definition failSubmissionUncertain ::
    "store \<Rightarrow> time \<Rightarrow> task \<Rightarrow> string \<Rightarrow> go_error \<Rightarrow> go_error \<times> task \<times> store" where
  "failSubmissionUncertain db now t stage cause =
     (let t1 = failed_task t now ComputeSubmissionUncertain ''SUBMISSION_UNCERTAIN'' stage cause
      in case UpdateTaskWithEvent db now t1 (taskEvent t1 ''SUBMISSION_UNCERTAIN'' stage
           [''code'' \<mapsto> ''SUBMISSION_UNCERTAIN'', ''error'' \<mapsto> error_text cause] now) of
         (_, t2, db') \<Rightarrow>
           (with_task stage (compute_state t2) (pull_state t2)
              (fault_wrap ''SUBMISSION_UNCERTAIN'' [] True cause), t2, db'))"

definition accepted_task :: "task \<Rightarrow> time \<Rightarrow> string \<Rightarrow> task" where
  "accepted_task t now i = t\<lparr>scheduler_id := i, compute_state := ComputeQueued,
     submitted_at := Some now, updated_at := now\<rparr>"

definition acceptSubmission ::
    "store \<Rightarrow> time \<Rightarrow> task \<Rightarrow> string \<Rightarrow> (go_error, unit) result \<times> task \<times> store" where
  "acceptSubmission db now t i =
     (let t1 = accepted_task t now i
      in UpdateTaskWithEvent db now t1
           (taskEvent t1 ''SCHEDULER_ACCEPTED'' ''submit'' [''scheduler_id'' \<mapsto> i] now))"

section \<open>Remote parts\<close>

definition writeMetadata :: "'w outside \<Rightarrow> 'w \<Rightarrow> cluster \<Rightarrow> task \<Rightarrow> (go_error, unit) result \<times> 'w" where
  "writeMetadata env w c t = (case task_json env t of
     Inl e \<Rightarrow> (Inl e, w)
   | Inr text \<Rightarrow> WriteFile (exec_cmd env) w (cluster_host c)
       (path_join [remote_dir t, ''metadata.json'']) (text @ [nl]) ''600'')"

definition since_text :: "task \<Rightarrow> string" where
  "since_text t = second_text ((created_at t - 60 * nano) div nano)"

text \<open>The marker file of the remote script first, then the comment of the job.\<close>

definition recoverSchedulerID ::
    "'w runner \<Rightarrow> 'w \<Rightarrow> cluster \<Rightarrow> task \<Rightarrow> (go_error, string) result \<times> 'w" where
  "recoverSchedulerID exec w c t =
     (case ReadFile exec w (cluster_host c) (path_join [remote_dir t, ''scheduler_id'']) of
        (marker, w1) \<Rightarrow>
          (case marker of
             Inr text \<Rightarrow>
               if trim_space text \<noteq> [] \<and> parse_uint64 (trim_space text) \<noteq> None
               then (Inr (trim_space text), w1)
               else FindByTaskID exec w1 (cluster_host c) (task_id t) (since_text t)
           | Inl _ \<Rightarrow> FindByTaskID exec w1 (cluster_host c) (task_id t) (since_text t)))"

section \<open>The points of a submission\<close>

datatype submit_action =
    RecordStage string string
  | WriteMetadata
  | WriteScript
  | PushSnapshot

text \<open>The stages of \<open>submitPrepared\<close> before the \<open>sbatch\<close> command.\<close>

definition submit_plan :: "submit_action list" where
  "submit_plan =
     [RecordStage ''UPLOAD_STARTED'' ''upload'',
      WriteMetadata,
      RecordStage ''REMOTE_DIR_CREATED'' ''remote_directory'',
      RecordStage ''METADATA_WRITTEN'' ''metadata'',
      WriteScript,
      PushSnapshot,
      RecordStage ''SNAPSHOT_UPLOADED'' ''snapshot'',
      RecordStage ''SCRIPT_UPLOADED'' ''script'',
      RecordStage ''UPLOAD_COMPLETED'' ''upload'',
      RecordStage ''SUBMIT_STARTED'' ''submit'']"

type_synonym submit_answer = "(go_error, task \<times> bool) result"

text \<open>
  Where an executor stands: reading the task, looking for the fence, reconciling, with
  some stages before \<open>sbatch\<close> left (none left is the command itself), recovering after an
  error of the command (and whether its context had ended), writing down an acceptance, a
  failure or a doubt, or returned with its answer (the task and the deduplicated flag).
\<close>

datatype submit_point =
    ReadTask
  | CheckFence
  | Reconciling
  | Planned "submit_action list"
  | Recovering go_error bool
  | Accepting string
  | Failing string string bool go_error
  | Doubting go_error
  | Returned submit_answer

record executor =
  ex_id :: string
  ex_dir :: string
  ex_point :: submit_point
  ex_task :: task

definition fence_found :: "task_event list \<Rightarrow> bool" where
  "fence_found es \<longleftrightarrow> (\<exists>e\<in>set es. ev_type e = ''SUBMIT_STARTED'')"

definition submission_work_dir :: "task \<Rightarrow> string" where
  "submission_work_dir t = path_join [remote_dir t, ''work'']"

text \<open>The point after one stage, given what the remote or local part answered.\<close>

definition after_part :: "go_error option \<Rightarrow> string \<Rightarrow> string \<Rightarrow> bool \<Rightarrow> submit_action list \<Rightarrow> submit_point" where
  "after_part r code stage retry rest =
     (case r of None \<Rightarrow> Planned rest | Some e \<Rightarrow> Failing code stage retry e)"

definition error_of :: "(go_error, unit) result \<Rightarrow> go_error option" where
  "error_of r = (case r of Inl e \<Rightarrow> Some e | Inr _ \<Rightarrow> None)"

text \<open>One stage before the command.\<close>

fun planned_step ::
    "'w outside \<Rightarrow> executor \<Rightarrow> submit_action \<Rightarrow> submit_action list \<Rightarrow> 'w \<Rightarrow> store \<Rightarrow> executor \<times> 'w \<times> store" where
  "planned_step env e (RecordStage ty stage) rest w db =
     (case recordStage db (clock env w) (ex_task e) ty stage of
        (Inl x, t, db') \<Rightarrow> (e\<lparr>ex_point := Returned (Inl x), ex_task := t\<rparr>, w, db')
      | (Inr _, t, db') \<Rightarrow> (e\<lparr>ex_point := Planned rest, ex_task := t\<rparr>, w, db'))"
| "planned_step env e WriteMetadata rest w db =
     (case writeMetadata env w (cluster_of env (ex_task e)) (ex_task e) of
        (r, w') \<Rightarrow> (e\<lparr>ex_point := after_part (error_of r)
            (operationFailure (remote_ctx env w') ''REMOTE_METADATA_FAILED'' ''SSH_TIMEOUT'') ''metadata'' True rest\<rparr>,
          w', db))"
| "planned_step env e WriteScript rest w db =
     (case write_local env w (path_join [ex_dir e, ''joyrun-job.sh'']) (rendered_script (ex_task e)) of
        (r, w') \<Rightarrow> (e\<lparr>ex_point := after_part r ''SNAPSHOT_PREPARE_FAILED'' ''script'' False rest\<rparr>, w', db))"
| "planned_step env e PushSnapshot rest w db =
     (case push_files env w (cluster_of env (ex_task e)) (ex_dir e) (submission_work_dir (ex_task e)) of
        (r, w') \<Rightarrow> (e\<lparr>ex_point := after_part r
            (case r of Some x \<Rightarrow> transferFailure (upload_ctx env w') x | None \<Rightarrow> []) ''snapshot'' True rest\<rparr>, w', db))"

lemma part_step:
  assumes "\<forall>ty stage. a \<noteq> RecordStage ty stage"
  shows "\<exists>r c st rt w1. planned_step env e a rest w db = (e\<lparr>ex_point := after_part r c st rt rest\<rparr>, w1, db)"
proof (cases a)
  case (RecordStage ty stage)
  with assms show ?thesis by blast
next
  case WriteMetadata
  show ?thesis
    unfolding WriteMetadata by (simp split: prod.split) blast
next
  case WriteScript
  show ?thesis
    unfolding WriteScript by (simp split: prod.split) blast
next
  case PushSnapshot
  show ?thesis
    unfolding PushSnapshot by (simp split: prod.split) blast
qed

text \<open>The \<open>sbatch\<close> command, and the recovery after an error of it.\<close>

definition issue_sbatch :: "'w outside \<Rightarrow> executor \<Rightarrow> 'w \<Rightarrow> submit_point \<times> 'w" where
  "issue_sbatch env e w =
     (let t = ex_task e
      in case Submit (exec_cmd env) w (cluster_host (cluster_of env t)) (submission_work_dir t)
           (task_id t) (task_meta t ''partition'') of
         (Inr i, w') \<Rightarrow> (Accepting i, w')
       | (Inl x, w') \<Rightarrow>
           (if SubmissionDefinitelyRejected (Some x) then Failing ''SUBMIT_FAILED'' ''submit'' False x
            else Recovering x (submit_ctx env w' \<noteq> Live), w'))"

definition recover_submit :: "'w outside \<Rightarrow> executor \<Rightarrow> go_error \<Rightarrow> bool \<Rightarrow> 'w \<Rightarrow> submit_point \<times> 'w" where
  "recover_submit env e x uncertain w =
     (case recoverSchedulerID (exec_cmd env) w (cluster_of env (ex_task e)) (ex_task e) of
        (Inl _, w') \<Rightarrow> (Doubting x, w')
      | (Inr i, w') \<Rightarrow>
          (if i \<noteq> [] then Accepting i
           else if uncertain then Doubting x
           else Failing ''SUBMIT_FAILED'' ''submit'' True x, w'))"

text \<open>\<open>reconcileReservedSubmit\<close> up to the write of its outcome.\<close>

definition no_match :: go_error where
  "no_match = PlainError ''no scheduler job matched the immutable JoyRun task marker''"

definition unconfirmed :: "task \<Rightarrow> go_error \<Rightarrow> submit_point" where
  "unconfirmed t cause =
     (if compute_state t = ComputeSubmissionUncertain
      then Returned (Inl (with_task ''submit'' (compute_state t) (pull_state t)
             (fault_wrap ''SUBMISSION_UNCERTAIN'' [] True cause)))
      else Doubting cause)"

definition reconcileReservedSubmit :: "'w outside \<Rightarrow> executor \<Rightarrow> 'w \<Rightarrow> submit_point \<times> 'w" where
  "reconcileReservedSubmit env e w =
     (let t = ex_task e
      in case clusters env (cluster_name t) of
           None \<Rightarrow> (Returned (Inl (fault_new ''CLUSTER_NOT_FOUND'' False)), w)
         | Some c \<Rightarrow>
             (case recoverSchedulerID (exec_cmd env) w c t of
                (Inl x, w') \<Rightarrow> (unconfirmed t x, w')
              | (Inr i, w') \<Rightarrow> (if i = [] then unconfirmed t no_match else Accepting i, w')))"

text \<open>The head of \<open>ExecuteReservedSubmit\<close>: the task, then the events.\<close>

definition read_task :: "executor \<Rightarrow> store \<Rightarrow> executor" where
  "read_task e db = (case GetTask db (ex_id e) of
     Inl x \<Rightarrow> e\<lparr>ex_point := Returned (Inl x)\<rparr>
   | Inr t \<Rightarrow> e\<lparr>ex_task := t, ex_point :=
       (if compute_state t = ComputeSubmissionUncertain then Reconciling
        else if compute_state t \<noteq> ComputeCreated then Returned (Inr (t, True))
        else CheckFence)\<rparr>)"

definition check_fence :: "executor \<Rightarrow> store \<Rightarrow> executor" where
  "check_fence e db = (case Events db (task_id (ex_task e)) of
     Inl x \<Rightarrow> e\<lparr>ex_point := Returned (Inl x)\<rparr>
   | Inr es \<Rightarrow> e\<lparr>ex_point := (if fence_found es then Reconciling else Planned submit_plan)\<rparr>)"

text \<open>One step of an executor; every step touches the database at most once.\<close>

fun submit_step :: "'w outside \<Rightarrow> executor \<Rightarrow> 'w \<Rightarrow> store \<Rightarrow> executor \<times> 'w \<times> store" where
  "submit_step env e w db = (case ex_point e of
     ReadTask \<Rightarrow> (read_task e db, w, db)
   | CheckFence \<Rightarrow> (check_fence e db, w, db)
   | Reconciling \<Rightarrow> (case reconcileReservedSubmit env e w of (p, w') \<Rightarrow> (e\<lparr>ex_point := p\<rparr>, w', db))
   | Planned (a # rest) \<Rightarrow> planned_step env e a rest w db
   | Planned [] \<Rightarrow> (case issue_sbatch env e w of (p, w') \<Rightarrow> (e\<lparr>ex_point := p\<rparr>, w', db))
   | Recovering x u \<Rightarrow> (case recover_submit env e x u w of (p, w') \<Rightarrow> (e\<lparr>ex_point := p\<rparr>, w', db))
   | Accepting i \<Rightarrow> (case acceptSubmission db (clock env w) (ex_task e) i of
       (Inl x, t, db') \<Rightarrow> (e\<lparr>ex_point := Returned (Inl x), ex_task := t\<rparr>, w, db')
     | (Inr _, t, db') \<Rightarrow> (e\<lparr>ex_point := Returned (Inr (t, False)), ex_task := t\<rparr>, w, db'))
   | Failing code stage retry cause \<Rightarrow>
       (case failSubmission db (clock env w) (ex_task e) code stage retry cause of
          (x, t, db') \<Rightarrow> (e\<lparr>ex_point := Returned (Inl x), ex_task := t\<rparr>, w, db'))
   | Doubting cause \<Rightarrow>
       (case failSubmissionUncertain db (clock env w) (ex_task e) ''submit'' cause of
          (x, t, db') \<Rightarrow> (e\<lparr>ex_point := Returned (Inl x), ex_task := t\<rparr>, w, db'))
   | Returned r \<Rightarrow> (e, w, db))"

declare submit_step.simps [simp del]

section \<open>The whole submission\<close>

fun point_rank :: "submit_point \<Rightarrow> nat" where
  "point_rank ReadTask = 16"
| "point_rank CheckFence = 15"
| "point_rank (Planned acts) = 4 + length acts"
| "point_rank Reconciling = 3"
| "point_rank (Recovering x u) = 3"
| "point_rank (Accepting i) = 1"
| "point_rank (Failing c s r x) = 1"
| "point_rank (Doubting x) = 1"
| "point_rank (Returned r) = 0"

fun returned :: "submit_point \<Rightarrow> bool" where
  "returned (Returned r) = True"
| "returned p = False"

lemma planned_step_rank:
  "planned_step env e a rest w db = (e', w', db') \<Longrightarrow> point_rank (ex_point e') < 5 + length rest"
  by (cases a) (auto simp: after_part_def split: prod.splits sum.splits option.splits)

lemma submit_step_rank:
  "submit_step env e w db = (e', w', db') \<Longrightarrow> \<not> returned (ex_point e) \<Longrightarrow>
   point_rank (ex_point e') < point_rank (ex_point e)"
  by (auto simp: submit_step.simps read_task_def check_fence_def reconcileReservedSubmit_def Let_def
      unconfirmed_def issue_sbatch_def recover_submit_def submit_plan_def
      split: submit_point.splits list.splits prod.splits sum.splits option.splits if_splits
      dest: planned_step_rank)

function run_submit :: "'w outside \<Rightarrow> executor \<Rightarrow> 'w \<Rightarrow> store \<Rightarrow> executor \<times> 'w \<times> store" where
  "run_submit env e w db =
     (if returned (ex_point e) then (e, w, db)
      else case submit_step env e w db of (e', w', db') \<Rightarrow> run_submit env e' w' db')"
  by pat_completeness auto

termination
proof (relation "measure (\<lambda>(env, e, w, db). point_rank (ex_point e))")
  show "wf (measure (\<lambda>(env, e, w, db). point_rank (ex_point e)))" by simp
next
  fix env :: "'w outside" and e :: executor and w :: 'w and db e' y w' db'
  assume "\<not> returned (ex_point e)" "(e', y) = submit_step env e w db" "(w', db') = y"
  then have "submit_step env e w db = (e', w', db')" by simp
  from submit_step_rank [OF this \<open>\<not> returned (ex_point e)\<close>]
  show "((env, e', w', db'), env, e, w, db) \<in> measure (\<lambda>(env, e, w, db). point_rank (ex_point e))"
    by simp
qed

declare run_submit.simps [simp del]

definition start_executor :: "string \<Rightarrow> string \<Rightarrow> task \<Rightarrow> submit_point \<Rightarrow> executor" where
  "start_executor i dir t p = \<lparr>ex_id = i, ex_dir = dir, ex_point = p, ex_task = t\<rparr>"

definition answer_of :: "executor \<Rightarrow> submit_answer" where
  "answer_of e = (case ex_point e of Returned r \<Rightarrow> r | _ \<Rightarrow> Inl (PlainError []))"

definition submitPrepared ::
    "'w outside \<Rightarrow> 'w \<Rightarrow> store \<Rightarrow> task \<Rightarrow> string \<Rightarrow> submit_answer \<times> 'w \<times> store" where
  "submitPrepared env w db t dir =
     (case run_submit env (start_executor (task_id t) dir t (Planned submit_plan)) w db of
        (e, w', db') \<Rightarrow> (answer_of e, w', db'))"

definition no_task :: task where
  "no_task = \<lparr>task_id = [], revision = 0, dry_run = False, project_id = [], source_path = [],
     source_workdir = [], source_entry = None, target_name = [], cluster_name = [],
     remote_dir = [], scheduler_id = [], compute_state = no_compute_state,
     pull_state = no_pull_state, scheduler_state = [], scheduler_reason = [], elapsed = [],
     exit_code = [], scheduler_start = [], scheduler_end = [], resolved_params = Map.empty,
     rendered_script = [], target_hash = [], input_manifest = [], pull_patterns = [],
     push_excludes = [], log_paths = [], created_at = 0, submitted_at = None, updated_at = 0,
     pulled_at = None, metadata = Map.empty\<rparr>"

definition ExecuteReservedSubmit ::
    "'w outside \<Rightarrow> 'w \<Rightarrow> store \<Rightarrow> string \<Rightarrow> string \<Rightarrow> submit_answer \<times> 'w \<times> store" where
  "ExecuteReservedSubmit env w db i dir =
     (case run_submit env (start_executor i dir no_task ReadTask) w db of
        (e, w', db') \<Rightarrow> (answer_of e, w', db'))"

text \<open>
  The end of \<open>App.Submit\<close>, from the creation on: a task found under the same submission key
  is answered, unless it is still \<open>created\<close>, when its stages are executed.
\<close>

definition submit_created ::
    "'w outside \<Rightarrow> 'w \<Rightarrow> store \<Rightarrow> task \<Rightarrow> bool \<Rightarrow> string \<Rightarrow> submit_answer \<times> 'w \<times> store" where
  "submit_created env w db t force dir =
     (case CreateTaskIdempotent db t force of
        (Inl x, _, db') \<Rightarrow> (Inl x, w, db')
      | (Inr None, t', db') \<Rightarrow> submitPrepared env w db' t' dir
      | (Inr (Some existing), _, db') \<Rightarrow>
          (if compute_state existing \<noteq> ComputeCreated then (Inr (existing, True), w, db')
           else submitPrepared env w db' existing dir))"

text \<open>A cluster that answers every command with a job id, on top of a disk and a transfer that work.\<close>

definition sample_outside :: "unit outside" where
  "sample_outside = \<lparr>exec_cmd = echo_runner ''7'', push_files = (\<lambda>w c d p. (None, w)),
     write_local = (\<lambda>w p s. (None, w)), task_json = (\<lambda>t. Inr ''{}''), remote_ctx = (\<lambda>w. Live),
     upload_ctx = (\<lambda>w. Live), submit_ctx = (\<lambda>w. Live), clock = (\<lambda>w. 5), clusters = Map.empty\<rparr>"


section \<open>Progress under interference\<close>

text \<open>
  The executor alone against the world: before each of its steps anybody may have changed
  the database and the cluster, so each step starts from the moment it is given.
\<close>

fun drive :: "'w outside \<Rightarrow> executor \<Rightarrow> ('w \<times> store) list \<Rightarrow> executor" where
  "drive env e [] = e"
| "drive env e ((w, db) # moments) = drive env (fst (submit_step env e w db)) moments"

lemma submit_step_returned: "returned (ex_point e) \<Longrightarrow> fst (submit_step env e w db) = e"
  by (cases "ex_point e") (simp_all add: submit_step.simps)

lemma drive_returned: "returned (ex_point e) \<Longrightarrow> drive env e moments = e"
  by (induction env e moments rule: drive.induct) (simp_all add: submit_step_returned)

lemma drive_append: "drive env e (xs @ ys) = drive env (drive env e xs) ys"
  by (induction env e xs rule: drive.induct) simp_all

lemma drive_ends: "point_rank (ex_point e) \<le> length moments \<Longrightarrow> returned (ex_point (drive env e moments))"
proof (induction env e moments rule: drive.induct)
  case (1 env e)
  then show ?case by (cases "ex_point e") simp_all
next
  case (2 env e w db moments)
  show ?case
  proof (cases "returned (ex_point e)")
    case True
    then show ?thesis by (simp add: submit_step_returned drive_returned)
  next
    case False
    obtain e' w' db' where step: "submit_step env e w db = (e', w', db')"
      by (cases "submit_step env e w db")
    show ?thesis using 2 submit_step_rank [OF step False] step by simp
  qed
qed



end
