(* ===== verification/Submission_Outcomes.thy ===== *)
theory Submission_Outcomes
  imports Submission
begin

text \<open>
  How an undisturbed submission ends: the stages as one lemma per kind of step, the good
  case with its exact history, and the error branches after the \<open>sbatch\<close> command.
\<close>

section \<open>Writes of the holder of the current revision\<close>

lemma taskEvent_task [simp]: "ev_task (taskEvent t ty st d n) = task_id t"
  by (simp add: taskEvent_def)

lemma complete_taskEvent [simp]:
  "ev_task (complete_event t n e) = (if ev_task e = [] then task_id t else ev_task e)"
  "ev_type (complete_event t n e) = ev_type e"
  by (simp_all add: complete_event_def Let_def)

lemma ev_type_taskEvent [simp]: "ev_type (taskEvent t ty st d n) = ty"
  by (simp add: taskEvent_def)

lemma recordStage_synced:
  assumes "store_ok db" and "synced db t"
  shows "\<exists>db' ev. recordStage db now t ty stage = (Inr (), t\<lparr>updated_at := now, revision := revision t + 1\<rparr>, db') \<and>
     store_ok db' \<and> synced db' (t\<lparr>updated_at := now, revision := revision t + 1\<rparr>) \<and>
     task_events db' = task_events db @ [ev] \<and> ev_task ev = task_id t \<and> ev_type ev = ty \<and>
     (\<forall>i. i \<noteq> task_id t \<longrightarrow> find_row db' i = find_row db i) \<and>
     find_row db' (task_id t) = Some (encodeTask (t\<lparr>updated_at := now, revision := revision t + 1\<rparr>))"
proof -
  define t1 where "t1 = t\<lparr>updated_at := now\<rparr>"
  have f: "task_id t1 = task_id t" "revision t1 = revision t" "project_id t1 = project_id t"
    by (simp_all add: t1_def)
  have s: "synced db t1" using assms(2) by (simp add: synced_def f)
  obtain db' where d: "UpdateTaskWithEvent db now t1 (taskEvent t1 ty stage Map.empty now) =
      (Inr (), t1\<lparr>revision := revision t1 + 1\<rparr>, db')"
    "store_ok db'" "synced db' (t1\<lparr>revision := revision t1 + 1\<rparr>)"
    "\<forall>i. find_row db' i = (if i = task_id t1 then Some (encodeTask (t1\<lparr>revision := revision t1 + 1\<rparr>)) else find_row db i)"
    "task_events db' = task_events db @ [complete_event t1 now (taskEvent t1 ty stage Map.empty now)]"
    using UpdateTaskWithEvent_synced [OF assms(1) s, of "taskEvent t1 ty stage Map.empty now" now] by auto
  have "t1\<lparr>revision := revision t1 + 1\<rparr> = t\<lparr>updated_at := now, revision := revision t + 1\<rparr>"
    by (simp add: t1_def)
  then show ?thesis
    using d by (simp add: recordStage_def Let_def flip: t1_def) (simp add: f)
qed

text \<open>The part of a task that the stages leave alone.\<close>

definition same_progress :: "task \<Rightarrow> task \<Rightarrow> bool" where
  "same_progress a b \<longleftrightarrow> same_snapshot a b \<and> metadata a = metadata b \<and>
     compute_state a = compute_state b \<and> scheduler_id a = scheduler_id b \<and> pull_state a = pull_state b"

lemma same_progress_refl [simp]: "same_progress a a"
  by (simp add: same_progress_def)

lemma same_progress_trans: "same_progress a b \<Longrightarrow> same_progress b c \<Longrightarrow> same_progress a c"
  unfolding same_progress_def using same_snapshot_trans by metis

lemma same_progress_stage [simp]: "same_progress (t\<lparr>updated_at := n, revision := k\<rparr>) t"
  by (simp add: same_progress_def same_snapshot_def)

fun action_events :: "submit_action \<Rightarrow> string list" where
  "action_events (RecordStage ty stage) = [ty]"
| "action_events a = []"

definition stage_types :: "submit_action list \<Rightarrow> string list" where
  "stage_types acts = concat (map action_events acts)"

lemma stage_types_simps [simp]:
  "stage_types [] = []" "stage_types (a # acts) = action_events a @ stage_types acts"
  by (simp_all add: stage_types_def)

text \<open>What the stages up to now have left in the database.\<close>

definition advanced :: "task \<Rightarrow> store \<Rightarrow> string list \<Rightarrow> task \<Rightarrow> store \<Rightarrow> bool" where
  "advanced t db types t' db' \<longleftrightarrow> store_ok db' \<and> synced db' t' \<and> same_progress t' t \<and>
     revision t' = revision t + int (length types) \<and>
     (\<exists>evs. task_events db' = task_events db @ evs \<and> map ev_type evs = types \<and>
        (\<forall>ev\<in>set evs. ev_task ev = task_id t)) \<and>
     (\<forall>i. i \<noteq> task_id t \<longrightarrow> find_row db' i = find_row db i) \<and>
     (if types = [] then t' = t \<and> db' = db else find_row db' (task_id t) = Some (encodeTask t'))"

lemma advanced_refl: "store_ok db \<Longrightarrow> synced db t \<Longrightarrow> advanced t db [] t db"
  by (simp add: advanced_def)

lemma same_progress_id: "same_progress a b \<Longrightarrow> task_id a = task_id b"
  by (simp add: same_progress_def same_snapshot_def)

lemma advanced_trans:
  assumes "advanced t db xs t1 db1" and "advanced t1 db1 ys t2 db2"
  shows "advanced t db (xs @ ys) t2 db2"
proof -
  have i: "task_id t1 = task_id t" using assms(1) by (auto simp: advanced_def same_progress_id)
  obtain e1 e2 where e: "task_events db1 = task_events db @ e1" "map ev_type e1 = xs"
      "\<forall>ev\<in>set e1. ev_task ev = task_id t"
      "task_events db2 = task_events db1 @ e2" "map ev_type e2 = ys" "\<forall>ev\<in>set e2. ev_task ev = task_id t"
    using assms i by (auto simp: advanced_def)
  then have "\<exists>evs. task_events db2 = task_events db @ evs \<and> map ev_type evs = xs @ ys \<and>
        (\<forall>ev\<in>set evs. ev_task ev = task_id t)"
    by (intro exI [of _ "e1 @ e2"]) auto
  moreover have "if xs @ ys = [] then t2 = t \<and> db2 = db else find_row db2 (task_id t) = Some (encodeTask t2)"
    using assms i unfolding advanced_def by (cases "ys = []"; cases "xs = []") simp_all
  ultimately show ?thesis
    using assms i same_progress_trans [of t2 t1 t] unfolding advanced_def by simp
qed

section \<open>The stages when the outside works\<close>

definition smooth :: "'w outside \<Rightarrow> bool" where
  "smooth env \<longleftrightarrow> (\<forall>w c t. \<exists>w'. writeMetadata env w c t = (Inr (), w')) \<and>
     (\<forall>w p s. \<exists>w'. write_local env w p s = (None, w')) \<and>
     (\<forall>w c d p. \<exists>w'. push_files env w c d p = (None, w'))"

lemma planned_smooth:
  assumes "smooth env" and "store_ok db" and "synced db (ex_task e)"
  shows "\<exists>t' w' db'. planned_step env e a rest w db = (e\<lparr>ex_point := Planned rest, ex_task := t'\<rparr>, w', db') \<and>
     advanced (ex_task e) db (action_events a) t' db'"
proof (cases a)
  case (RecordStage ty stage)
  let ?t' = "(ex_task e)\<lparr>updated_at := clock env w, revision := revision (ex_task e) + 1\<rparr>"
  obtain db' ev where "recordStage db (clock env w) (ex_task e) ty stage = (Inr (), ?t', db')"
     "store_ok db'" "synced db' ?t'" "task_events db' = task_events db @ [ev]"
     "ev_task ev = task_id (ex_task e)" "ev_type ev = ty"
     "\<forall>i. i \<noteq> task_id (ex_task e) \<longrightarrow> find_row db' i = find_row db i"
     "find_row db' (task_id (ex_task e)) = Some (encodeTask ?t')"
    using recordStage_synced [OF assms(2,3)] by metis
  then show ?thesis
    by (intro exI [of _ ?t'] exI [of _ w] exI [of _ db']) (simp add: RecordStage advanced_def)
next
  case WriteMetadata
  obtain w' where "writeMetadata env w (cluster_of env (ex_task e)) (ex_task e) = (Inr (), w')"
    using assms(1) unfolding smooth_def by blast
  then show ?thesis
    using advanced_refl [OF assms(2,3)]
    by (intro exI [of _ "ex_task e"] exI [of _ w'] exI [of _ db])
      (simp add: WriteMetadata after_part_def error_of_def)
next
  case WriteScript
  obtain w' where "write_local env w (path_join [ex_dir e, ''joyrun-job.sh'']) (rendered_script (ex_task e)) = (None, w')"
    using assms(1) unfolding smooth_def by blast
  then show ?thesis
    using advanced_refl [OF assms(2,3)]
    by (intro exI [of _ "ex_task e"] exI [of _ w'] exI [of _ db]) (simp add: WriteScript after_part_def)
next
  case PushSnapshot
  obtain w' where "push_files env w (cluster_of env (ex_task e)) (ex_dir e) (submission_work_dir (ex_task e)) = (None, w')"
    using assms(1) unfolding smooth_def by blast
  then show ?thesis
    using advanced_refl [OF assms(2,3)]
    by (intro exI [of _ "ex_task e"] exI [of _ w'] exI [of _ db]) (simp add: PushSnapshot after_part_def)
qed

lemma run_planned_smooth:
  assumes "smooth env"
  shows "ex_point e = Planned acts \<Longrightarrow> store_ok db \<Longrightarrow> synced db (ex_task e) \<Longrightarrow>
    \<exists>t' w' db'. run_submit env e w db = run_submit env (e\<lparr>ex_point := Planned [], ex_task := t'\<rparr>) w' db' \<and>
      advanced (ex_task e) db (stage_types acts) t' db'"
proof (induction acts arbitrary: e w db)
  case Nil
  then have "e\<lparr>ex_point := Planned [], ex_task := ex_task e\<rparr> = e" by simp
  then have "run_submit env e w db = run_submit env (e\<lparr>ex_point := Planned [], ex_task := ex_task e\<rparr>) w db"
    by (rule arg_cong [OF sym])
  moreover have "advanced (ex_task e) db (stage_types []) (ex_task e) db"
    using advanced_refl Nil by simp
  ultimately show ?case by blast
next
  case (Cons a rest)
  obtain t1 w1 db1 where st: "planned_step env e a rest w db = (e\<lparr>ex_point := Planned rest, ex_task := t1\<rparr>, w1, db1)"
    and adv: "advanced (ex_task e) db (action_events a) t1 db1"
    using planned_smooth [OF assms Cons.prems(2,3)] by blast
  let ?e1 = "e\<lparr>ex_point := Planned rest, ex_task := t1\<rparr>"
  have run: "run_submit env e w db = run_submit env ?e1 w1 db1"
    by (subst run_submit.simps) (simp add: Cons.prems(1) submit_step.simps st)
  have "store_ok db1" "synced db1 (ex_task ?e1)" using adv by (auto simp: advanced_def)
  from Cons.IH [OF _ this, of w1] obtain t' w' db' where
      "run_submit env ?e1 w1 db1 = run_submit env (e\<lparr>ex_point := Planned [], ex_task := t'\<rparr>) w' db'"
      "advanced t1 db1 (stage_types rest) t' db'" by auto
  with run advanced_trans [OF adv] show ?case unfolding stage_types_simps by metis
qed

section \<open>The end of a submission\<close>

text \<open>What an executor has written down when it returns, given the task it held.\<close>

definition settled_as :: "compute_state \<Rightarrow> task \<Rightarrow> store \<Rightarrow> task \<Rightarrow> store \<Rightarrow> bool" where
  "settled_as cs t db t' db' \<longleftrightarrow> store_ok db' \<and> synced db' t' \<and> same_snapshot t' t \<and>
     compute_state t' = cs \<and> revision t' = revision t + 1 \<and> GetTask db' (task_id t) = Inr (stored t') \<and>
     (\<exists>ev. task_events db' = task_events db @ [ev] \<and> ev_task ev = task_id t) \<and>
     (\<forall>j. j \<noteq> task_id t \<longrightarrow> find_row db' j = find_row db j)"

lemma update_settles:
  assumes "store_ok db" and "synced db t" and "same_snapshot t1 t" and "revision t1 = revision t"
    and "ev_task ev = task_id t"
  shows "\<exists>db'. UpdateTaskWithEvent db now t1 ev = (Inr (), t1\<lparr>revision := revision t1 + 1\<rparr>, db') \<and>
     settled_as (compute_state t1) t db (t1\<lparr>revision := revision t1 + 1\<rparr>) db' \<and>
     (\<exists>e. task_events db' = task_events db @ [e] \<and> ev_task e = task_id t \<and> ev_type e = ev_type ev)"
proof -
  have f: "task_id t1 = task_id t" "project_id t1 = project_id t" using assms(3) by (simp_all add: same_snapshot_def)
  have "synced db t1" using assms(2,4) by (simp add: synced_def f)
  from UpdateTaskWithEvent_synced [OF assms(1) this, of ev now] assms(5) f obtain db' where
    d: "UpdateTaskWithEvent db now t1 ev = (Inr (), t1\<lparr>revision := revision t1 + 1\<rparr>, db')"
      "store_ok db'" "synced db' (t1\<lparr>revision := revision t1 + 1\<rparr>)"
      "find_row db' (task_id t) = Some (encodeTask (t1\<lparr>revision := revision t1 + 1\<rparr>))"
      "task_events db' = task_events db @ [complete_event t1 now ev]"
      "\<forall>j. j \<noteq> task_id t \<longrightarrow> find_row db' j = find_row db j" by auto
  have "same_snapshot (t1\<lparr>revision := revision t1 + 1\<rparr>) t" using assms(3) by (simp add: same_snapshot_def)
  with d assms(4,5) f show ?thesis
    by (auto simp: settled_as_def GetTask_def stored_def)
qed

lemma failed_task_fields [simp]:
  "same_snapshot (failed_task t n cs c st x) t" "revision (failed_task t n cs c st x) = revision t"
  "task_id (failed_task t n cs c st x) = task_id t"
  "compute_state (failed_task t n cs c st x) = cs" "task_meta (failed_task t n cs c st x) ''error_code'' = c"
  by (simp_all add: failed_task_def same_snapshot_def)

lemma accepted_task_fields [simp]:
  "same_snapshot (accepted_task t n i) t" "revision (accepted_task t n i) = revision t"
  "task_id (accepted_task t n i) = task_id t"
  "compute_state (accepted_task t n i) = ComputeQueued" "scheduler_id (accepted_task t n i) = i"
  by (simp_all add: accepted_task_def same_snapshot_def)

lemma run_accepting:
  assumes "store_ok db" and "synced db (ex_task e)" and "ex_point e = Accepting i"
  shows "\<exists>t' db' e'. run_submit env e w db = (e', w, db') \<and> ex_point e' = Returned (Inr (t', False)) \<and>
     settled_as ComputeQueued (ex_task e) db t' db' \<and> scheduler_id t' = i \<and>
     (\<exists>ev. task_events db' = task_events db @ [ev] \<and> ev_task ev = task_id (ex_task e) \<and>
        ev_type ev = ''SCHEDULER_ACCEPTED'')"
proof -
  let ?t1 = "accepted_task (ex_task e) (clock env w) i"
  let ?ev = "taskEvent ?t1 ''SCHEDULER_ACCEPTED'' ''submit'' [''scheduler_id'' \<mapsto> i] (clock env w)"
  obtain db' where u: "UpdateTaskWithEvent db (clock env w) ?t1 ?ev = (Inr (), ?t1\<lparr>revision := revision ?t1 + 1\<rparr>, db')"
      "settled_as (compute_state ?t1) (ex_task e) db (?t1\<lparr>revision := revision ?t1 + 1\<rparr>) db'"
      "\<exists>x. task_events db' = task_events db @ [x] \<and> ev_task x = task_id (ex_task e) \<and> ev_type x = ev_type ?ev"
    using update_settles [OF assms(1,2), of ?t1 ?ev "clock env w"] by auto
  have "submit_step env e w db = (e\<lparr>ex_point := Returned (Inr (?t1\<lparr>revision := revision ?t1 + 1\<rparr>, False)),
      ex_task := ?t1\<lparr>revision := revision ?t1 + 1\<rparr>\<rparr>, w, db')"
    using u(1) assms(3) by (simp add: submit_step.simps acceptSubmission_def Let_def)
  then have "run_submit env e w db = (e\<lparr>ex_point := Returned (Inr (?t1\<lparr>revision := revision ?t1 + 1\<rparr>, False)),
      ex_task := ?t1\<lparr>revision := revision ?t1 + 1\<rparr>\<rparr>, w, db')"
    using assms(3) by (subst run_submit.simps) (simp, subst run_submit.simps, simp)
  with u show ?thesis
    by (intro exI [of _ "?t1\<lparr>revision := revision ?t1 + 1\<rparr>"]) simp
qed

lemma run_failing:
  assumes "store_ok db" and "synced db (ex_task e)" and "ex_point e = Failing code stage retry x"
  shows "\<exists>t' db' e' y. run_submit env e w db = (e', w, db') \<and> ex_point e' = Returned (Inl y) \<and>
     settled_as ComputeSubmissionFailed (ex_task e) db t' db' \<and> fault_code y = code \<and>
     task_meta t' ''error_code'' = code"
proof -
  let ?t1 = "failed_task (ex_task e) (clock env w) ComputeSubmissionFailed code stage x"
  let ?ev = "taskEvent ?t1 ''SUBMISSION_FAILED'' stage [''code'' \<mapsto> code, ''error'' \<mapsto> error_text x] (clock env w)"
  obtain db' where u: "UpdateTaskWithEvent db (clock env w) ?t1 ?ev = (Inr (), ?t1\<lparr>revision := revision ?t1 + 1\<rparr>, db')"
      "settled_as (compute_state ?t1) (ex_task e) db (?t1\<lparr>revision := revision ?t1 + 1\<rparr>) db'"
    using update_settles [OF assms(1,2), of ?t1 ?ev "clock env w"] by auto
  let ?t2 = "?t1\<lparr>revision := revision ?t1 + 1\<rparr>"
  let ?y = "with_task stage (compute_state ?t2) (pull_state ?t2) (fault_wrap code [] retry x)"
  have "submit_step env e w db = (e\<lparr>ex_point := Returned (Inl ?y), ex_task := ?t2\<rparr>, w, db')"
    using u(1) assms(3) by (simp add: submit_step.simps failSubmission_def Let_def)
  then have "run_submit env e w db = (e\<lparr>ex_point := Returned (Inl ?y), ex_task := ?t2\<rparr>, w, db')"
    using assms(3) by (subst run_submit.simps) (simp, subst run_submit.simps, simp)
  with u(2) show ?thesis
    by (intro exI [of _ ?t2]) simp
qed

lemma run_doubting:
  assumes "store_ok db" and "synced db (ex_task e)" and "ex_point e = Doubting x"
  shows "\<exists>t' db' e' y. run_submit env e w db = (e', w, db') \<and> ex_point e' = Returned (Inl y) \<and>
     settled_as ComputeSubmissionUncertain (ex_task e) db t' db' \<and> fault_code y = ''SUBMISSION_UNCERTAIN'' \<and>
     task_meta t' ''error_code'' = ''SUBMISSION_UNCERTAIN''"
proof -
  let ?t1 = "failed_task (ex_task e) (clock env w) ComputeSubmissionUncertain ''SUBMISSION_UNCERTAIN'' ''submit'' x"
  let ?ev = "taskEvent ?t1 ''SUBMISSION_UNCERTAIN'' ''submit''
    [''code'' \<mapsto> ''SUBMISSION_UNCERTAIN'', ''error'' \<mapsto> error_text x] (clock env w)"
  obtain db' where u: "UpdateTaskWithEvent db (clock env w) ?t1 ?ev = (Inr (), ?t1\<lparr>revision := revision ?t1 + 1\<rparr>, db')"
      "settled_as (compute_state ?t1) (ex_task e) db (?t1\<lparr>revision := revision ?t1 + 1\<rparr>) db'"
    using update_settles [OF assms(1,2), of ?t1 ?ev "clock env w"] by auto
  let ?t2 = "?t1\<lparr>revision := revision ?t1 + 1\<rparr>"
  let ?y = "with_task ''submit'' (compute_state ?t2) (pull_state ?t2) (fault_wrap ''SUBMISSION_UNCERTAIN'' [] True x)"
  have "submit_step env e w db = (e\<lparr>ex_point := Returned (Inl ?y), ex_task := ?t2\<rparr>, w, db')"
    using u(1) assms(3) by (simp add: submit_step.simps failSubmissionUncertain_def Let_def)
  then have "run_submit env e w db = (e\<lparr>ex_point := Returned (Inl ?y), ex_task := ?t2\<rparr>, w, db')"
    using assms(3) by (subst run_submit.simps) (simp, subst run_submit.simps, simp)
  with u(2) show ?thesis
    by (intro exI [of _ ?t2]) simp
qed

text \<open>The three endings together.\<close>

definition answer_fits :: "submit_answer \<Rightarrow> task \<Rightarrow> bool" where
  "answer_fits a t' \<longleftrightarrow> (case a of
     Inr (u, dedup) \<Rightarrow> u = t' \<and> \<not> dedup \<and> compute_state t' = ComputeQueued \<and> is_uint64_text (scheduler_id t')
   | Inl x \<Rightarrow> fault_code x = task_meta t' ''error_code'' \<and>
       (compute_state t' = ComputeSubmissionFailed \<or>
        compute_state t' = ComputeSubmissionUncertain \<and> fault_code x = ''SUBMISSION_UNCERTAIN''))"

definition ended :: "task \<Rightarrow> submit_answer \<Rightarrow> store \<Rightarrow> bool" where
  "ended t a db' \<longleftrightarrow> (\<exists>t'. same_snapshot t' t \<and> GetTask db' (task_id t) = Inr (stored t') \<and> answer_fits a t')"

lemma ended_snapshot: "same_snapshot u t \<Longrightarrow> ended u a db' \<Longrightarrow> ended t a db'"
  unfolding ended_def using same_snapshot_trans same_snapshot_id by metis

lemma settled_ended: "settled_as cs t db t' db' \<Longrightarrow> answer_fits a t' \<Longrightarrow> ended t a db'"
  unfolding settled_as_def ended_def by blast

fun last_point :: "submit_point \<Rightarrow> bool" where
  "last_point (Accepting i) = is_uint64_text i"
| "last_point (Failing code stage retry x) = True"
| "last_point (Doubting x) = True"
| "last_point p = False"

lemma run_last_point:
  assumes "store_ok db" and "synced db (ex_task e)" and "last_point (ex_point e)"
  shows "\<exists>e' w' db'. run_submit env e w db = (e', w', db') \<and> ended (ex_task e) (answer_of e') db'"
proof (cases "ex_point e")
  case (Accepting i)
  from run_accepting [OF assms(1,2) this, of env w] obtain t' db' e' where
    r: "run_submit env e w db = (e', w, db')" "ex_point e' = Returned (Inr (t', False))"
      "settled_as ComputeQueued (ex_task e) db t' db'" "scheduler_id t' = i" by auto
  then have "answer_fits (answer_of e') t'"
    using assms(3) Accepting by (auto simp: answer_fits_def answer_of_def settled_as_def)
  with r(1) settled_ended [OF r(3)] show ?thesis by blast
next
  case (Failing code stage retry x)
  from run_failing [OF assms(1,2) this, of env w] obtain t' db' e' y where
    r: "run_submit env e w db = (e', w, db')" "ex_point e' = Returned (Inl y)"
      "settled_as ComputeSubmissionFailed (ex_task e) db t' db'" "fault_code y = task_meta t' ''error_code''" by auto
  then have "answer_fits (answer_of e') t'" by (simp add: answer_fits_def answer_of_def settled_as_def)
  with r(1) settled_ended [OF r(3)] show ?thesis by blast
next
  case (Doubting x)
  from run_doubting [OF assms(1,2) this, of env w] obtain t' db' e' y where
    r: "run_submit env e w db = (e', w, db')" "ex_point e' = Returned (Inl y)"
      "settled_as ComputeSubmissionUncertain (ex_task e) db t' db'" "fault_code y = ''SUBMISSION_UNCERTAIN''"
      "task_meta t' ''error_code'' = ''SUBMISSION_UNCERTAIN''" by auto
  then have "answer_fits (answer_of e') t'" by (simp add: answer_fits_def answer_of_def settled_as_def)
  with r(1) settled_ended [OF r(3)] show ?thesis by blast
qed (use assms(3) in auto)

text \<open>From the command on.\<close>

lemma recovered_numeric: "recoverSchedulerID exec w c t = (Inr i, w') \<Longrightarrow> i = [] \<or> is_uint64_text i"
  using slurm.find_numeric [of exec]
  by (auto simp: recoverSchedulerID_def is_uint64_text_def split: prod.splits sum.splits if_splits)

lemma run_unfold:
  "\<not> returned (ex_point e) \<Longrightarrow> submit_step env e w db = (e', w', db') \<Longrightarrow>
   run_submit env e w db = run_submit env e' w' db'"
  by (subst run_submit.simps) simp

lemma run_recovering:
  assumes "store_ok db" and "synced db (ex_task e)" and "ex_point e = Recovering x u"
  shows "\<exists>e' w' db'. run_submit env e w db = (e', w', db') \<and> ended (ex_task e) (answer_of e') db'"
proof -
  obtain p w1 where p: "recover_submit env e x u w = (p, w1)" by fastforce
  then have "submit_step env e w db = (e\<lparr>ex_point := p\<rparr>, w1, db)"
    by (simp add: submit_step.simps assms(3))
  then have run: "run_submit env e w db = run_submit env (e\<lparr>ex_point := p\<rparr>) w1 db"
    using run_unfold assms(3) by (metis returned.simps(6))
  have "last_point p"
    using p recovered_numeric [of "exec_cmd env" w "cluster_of env (ex_task e)" "ex_task e"]
    by (auto simp: recover_submit_def split: prod.splits sum.splits if_splits)
  with run_last_point [of db "e\<lparr>ex_point := p\<rparr>" env w1] assms(1,2) run show ?thesis by simp
qed

lemma run_sbatch:
  assumes "store_ok db" and "synced db (ex_task e)" and "ex_point e = Planned []"
  shows "\<exists>e' w' db'. run_submit env e w db = (e', w', db') \<and> ended (ex_task e) (answer_of e') db'"
proof -
  obtain p w1 where p: "issue_sbatch env e w = (p, w1)" by fastforce
  then have "submit_step env e w db = (e\<lparr>ex_point := p\<rparr>, w1, db)"
    by (simp add: submit_step.simps assms(3))
  then have run: "run_submit env e w db = run_submit env (e\<lparr>ex_point := p\<rparr>) w1 db"
    using run_unfold assms(3) by (metis returned.simps(5))
  have "last_point p \<or> (\<exists>x u. p = Recovering x u)"
    using p slurm.submit_numeric [of "exec_cmd env" w]
    by (auto simp: issue_sbatch_def Let_def split: prod.splits sum.splits if_splits)
  with run_last_point [of db "e\<lparr>ex_point := p\<rparr>" env w1] run_recovering [of db "e\<lparr>ex_point := p\<rparr>" _ _ env w1]
    assms(1,2) run show ?thesis by auto
qed

lemma run_planned:
  "ex_point e = Planned acts \<Longrightarrow> store_ok db \<Longrightarrow> synced db (ex_task e) \<Longrightarrow>
   \<exists>e' w' db'. run_submit env e w db = (e', w', db') \<and> ended (ex_task e) (answer_of e') db'"
proof (induction acts arbitrary: e w db)
  case Nil
  show ?case by (rule run_sbatch [OF Nil(2,3,1)])
next
  case (Cons a rest)
  have run: "run_submit env e w db = run_submit env e1 w1 db1" if "planned_step env e a rest w db = (e1, w1, db1)" for e1 w1 db1
    using that Cons.prems(1) by (intro run_unfold) (simp_all add: submit_step.simps)
  show ?case
  proof (cases "\<exists>ty stage. a = RecordStage ty stage")
    case True
    then obtain ty stage where a: "a = RecordStage ty stage" by blast
    let ?t' = "(ex_task e)\<lparr>updated_at := clock env w, revision := revision (ex_task e) + 1\<rparr>"
    obtain db1 where r: "recordStage db (clock env w) (ex_task e) ty stage = (Inr (), ?t', db1)"
       "store_ok db1" "synced db1 ?t'"
      using recordStage_synced [OF Cons.prems(2,3)] by metis
    have "run_submit env e w db = run_submit env (e\<lparr>ex_point := Planned rest, ex_task := ?t'\<rparr>) w db1"
      by (rule run) (simp add: a r(1))
    with Cons.IH [of "e\<lparr>ex_point := Planned rest, ex_task := ?t'\<rparr>" db1 w] r(2,3)
      ended_snapshot [of ?t' "ex_task e"] show ?thesis
      by (auto simp: same_snapshot_def)
  next
    case False
    then obtain r c st rt w1 where
      ps: "planned_step env e a rest w db = (e\<lparr>ex_point := after_part r c st rt rest\<rparr>, w1, db)"
      using part_step [of a env e rest w db] by blast
    note run' = run [OF ps]
    show ?thesis
    proof (cases r)
      case None
      with run' Cons.IH [of "e\<lparr>ex_point := Planned rest\<rparr>" db w1] Cons.prems(2,3) show ?thesis
        by (simp add: after_part_def)
    next
      case (Some x)
      with run' run_last_point [of db "e\<lparr>ex_point := Failing c st rt x\<rparr>" env w1] Cons.prems(2,3) show ?thesis
        by (simp add: after_part_def)
    qed
  qed
qed

section \<open>Properties\<close>

lemma read_and_check:
  assumes "find_row db i = Some r" and "compute_state r = ComputeCreated"
    and "\<forall>ev\<in>set (task_events db). ev_task ev = i \<longrightarrow> ev_type ev \<noteq> ''SUBMIT_STARTED''"
  shows "run_submit env (start_executor i dir no_task ReadTask) w db =
     run_submit env (start_executor i dir (scanTask r) (Planned submit_plan)) w db"
proof -
  have i: "task_id r = i" using find_row_tasks [OF assms(1)] by simp
  have "submit_step env (start_executor i dir no_task ReadTask) w db =
      (start_executor i dir (scanTask r) CheckFence, w, db)"
    by (simp add: submit_step.simps start_executor_def read_task_def GetTask_def assms(1,2))
  moreover have "\<not> fence_found (filter (\<lambda>e. ev_task e = i) (task_events db))"
    using assms(3) by (auto simp: fence_found_def)
  then have "submit_step env (start_executor i dir (scanTask r) CheckFence) w db =
      (start_executor i dir (scanTask r) (Planned submit_plan), w, db)"
    by (simp add: submit_step.simps start_executor_def check_fence_def Events_def GetTask_def i assms(1))
  ultimately show ?thesis
    using run_unfold [of "start_executor i dir no_task ReadTask" env w db]
      run_unfold [of "start_executor i dir (scanTask r) CheckFence" env w db]
    by (simp add: start_executor_def)
qed

lemma created_synced:
  assumes "store_ok db" and "find_row db i = Some r" and "1 \<le> revision r"
  shows "synced db (scanTask r)" "task_id (scanTask r) = i"
  using assms find_row_tasks [OF assms(2)] by (auto simp: synced_def store_ok_def)

text \<open>
  C4. How a reserved submission ends, whatever ssh, the transfer, the disk, the deadlines
  and the cluster do, when nobody else writes the task: the worker gets an answer and the
  stored task agrees with it. Either the task is queued with a decimal scheduler id and is
  the answer; or it is \<open>submission_failed\<close> and the error has the code stored in it; or it
  is \<open>submission_uncertain\<close> and the error is \<open>SUBMISSION_UNCERTAIN\<close>. It never stays \<open>created\<close>,
  and its execution snapshot is the one it was admitted with.
\<close>

theorem submission_outcomes:
  assumes "store_ok db" and "find_row db i = Some r" and "1 \<le> revision r"
    and "compute_state r = ComputeCreated"
    and "\<forall>ev\<in>set (task_events db). ev_task ev = i \<longrightarrow> ev_type ev \<noteq> ''SUBMIT_STARTED''"
  shows "\<exists>a w' db' t'. ExecuteReservedSubmit env w db i dir = (a, w', db') \<and>
    GetTask db' i = Inr (stored t') \<and> same_snapshot t' (scanTask r) \<and>
    (case a of
       Inr (u, dedup) \<Rightarrow> u = t' \<and> \<not> dedup \<and> compute_state t' = ComputeQueued \<and> is_uint64_text (scheduler_id t')
     | Inl x \<Rightarrow> fault_code x = task_meta t' ''error_code'' \<and>
         (compute_state t' = ComputeSubmissionFailed \<or>
          compute_state t' = ComputeSubmissionUncertain \<and> fault_code x = ''SUBMISSION_UNCERTAIN''))"
proof -
  let ?e = "start_executor i dir (scanTask r) (Planned submit_plan)"
  note s = created_synced [OF assms(1-3)]
  have "ex_point ?e = Planned submit_plan" "synced db (ex_task ?e)"
    using s by (simp_all add: start_executor_def)
  from run_planned [OF this(1) assms(1) this(2), of env w] obtain e' w' db' where
    "run_submit env ?e w db = (e', w', db')" "ended (scanTask r) (answer_of e') db'"
    by (auto simp: start_executor_def)
  then show ?thesis
    using s(2) read_and_check [OF assms(2,4,5), of env dir w]
    by (auto simp: ExecuteReservedSubmit_def ended_def answer_fits_def)
qed

lemma sample_row:
  "find_row sample_created ''t1'' = Some (encodeTask (first_revision sample_task))"
  "revision (first_revision sample_task) = 1"
  "compute_state (encodeTask (first_revision sample_task)) = ComputeCreated"
  "\<forall>ev\<in>set (task_events sample_created). ev_type ev = ''TASK_CREATED''"
  by (simp_all add: find_row_def sample_created_def sample_task_def first_revision_def encodeTask_def created_event_def)

lemma sample_synced: "synced sample_created (scanTask (encodeTask (first_revision sample_task)))"
  by (rule created_synced [OF sample_created_ok sample_row(1)]) (simp add: sample_row(2))

lemma sample_unfenced:
  "\<forall>ev\<in>set (task_events sample_created). ev_task ev = ''t1'' \<longrightarrow> ev_type ev \<noteq> ''SUBMIT_STARTED''"
  using sample_row(4) by simp

theorem submission_outcomes_witness:
  "\<exists>a db' t'. ExecuteReservedSubmit sample_outside () sample_created ''t1'' ''/snap'' = (a, (), db') \<and>
    GetTask db' ''t1'' = Inr (stored t') \<and> compute_state t' \<noteq> ComputeCreated"
proof -
  have "1 \<le> revision (encodeTask (first_revision sample_task))" by (simp add: sample_row(2))
  from submission_outcomes [OF sample_created_ok sample_row(1) this sample_row(3) sample_unfenced,
      of sample_outside "()" "''/snap''"] obtain a w' db' t'
    where r: "ExecuteReservedSubmit sample_outside () sample_created ''t1'' ''/snap'' = (a, w', db')"
      "GetTask db' ''t1'' = Inr (stored t')"
      and c: "case a of
       Inr (u, dedup) \<Rightarrow> u = t' \<and> \<not> dedup \<and> compute_state t' = ComputeQueued \<and> is_uint64_text (scheduler_id t')
     | Inl x \<Rightarrow> fault_code x = task_meta t' ''error_code'' \<and>
         (compute_state t' = ComputeSubmissionFailed \<or>
          compute_state t' = ComputeSubmissionUncertain \<and> fault_code x = ''SUBMISSION_UNCERTAIN'')"
    by blast
  have "compute_state t' \<noteq> ComputeCreated" using c by (cases a) auto
  with r show ?thesis by auto
qed

lemma sample_smooth: "smooth sample_outside"
  by (simp add: smooth_def sample_outside_def writeMetadata_def WriteFile_def)

text \<open>
  C22. The good case. When the upload works and \<open>sbatch\<close> prints a job id, the task is
  queued under that id; its history gains exactly the eight stages, in order, with the
  fence \<open>SUBMIT_STARTED\<close> before the acceptance; the revision counts them; and no other
  task changes.
\<close>

theorem submission_completes:
  assumes "store_ok db" and "find_row db i = Some r" and "1 \<le> revision r"
    and "compute_state r = ComputeCreated"
    and "\<forall>ev\<in>set (task_events db). ev_task ev = i \<longrightarrow> ev_type ev \<noteq> ''SUBMIT_STARTED''"
    and "smooth env"
    and "\<And>w host dir part. \<exists>w'. Submit (exec_cmd env) w host dir i part = (Inr job, w')"
  shows "\<exists>t' w' db' evs. ExecuteReservedSubmit env w db i dir = (Inr (t', False), w', db') \<and>
    GetTask db' i = Inr (stored t') \<and> same_snapshot t' (scanTask r) \<and>
    compute_state t' = ComputeQueued \<and> scheduler_id t' = job \<and> revision t' = revision r + 8 \<and>
    task_events db' = task_events db @ evs \<and> (\<forall>ev\<in>set evs. ev_task ev = i) \<and>
    map ev_type evs = [''UPLOAD_STARTED'', ''REMOTE_DIR_CREATED'', ''METADATA_WRITTEN'', ''SNAPSHOT_UPLOADED'',
      ''SCRIPT_UPLOADED'', ''UPLOAD_COMPLETED'', ''SUBMIT_STARTED'', ''SCHEDULER_ACCEPTED''] \<and>
    (\<forall>j. j \<noteq> i \<longrightarrow> GetTask db' j = GetTask db j)"
proof -
  let ?e = "start_executor i dir (scanTask r) (Planned submit_plan)"
  note s = created_synced [OF assms(1-3)]
  have e: "ex_point ?e = Planned submit_plan" "ex_task ?e = scanTask r" by (simp_all add: start_executor_def)
  from run_planned_smooth [OF assms(6) e(1) assms(1), of w] s(1) e(2) obtain t1 w1 db1 where
    run: "run_submit env ?e w db = run_submit env (?e\<lparr>ex_point := Planned [], ex_task := t1\<rparr>) w1 db1"
    and adv: "advanced (scanTask r) db (stage_types submit_plan) t1 db1" by auto
  let ?e1 = "?e\<lparr>ex_point := Planned [], ex_task := t1\<rparr>"
  have i: "task_id t1 = i" using adv s(2) same_progress_id by (auto simp: advanced_def)
  obtain w2 where "issue_sbatch env ?e1 w1 = (Accepting job, w2)"
    using assms(7) [of w1 "cluster_host (cluster_of env t1)" "submission_work_dir t1" "task_meta t1 ''partition''"] i
    by (auto simp: issue_sbatch_def Let_def)
  then have "submit_step env ?e1 w1 db1 = (?e1\<lparr>ex_point := Accepting job\<rparr>, w2, db1)"
    by (simp add: submit_step.simps)
  from run_unfold [OF _ this] have run2: "run_submit env ?e1 w1 db1 = run_submit env (?e1\<lparr>ex_point := Accepting job\<rparr>) w2 db1"
    by simp
  have "store_ok db1" "synced db1 (ex_task (?e1\<lparr>ex_point := Accepting job\<rparr>))" using adv by (auto simp: advanced_def)
  from run_accepting [OF this, of job env w2] obtain t' db' e' ev where
    a: "run_submit env (?e1\<lparr>ex_point := Accepting job\<rparr>) w2 db1 = (e', w2, db')" "ex_point e' = Returned (Inr (t', False))"
      "settled_as ComputeQueued t1 db1 t' db'" "scheduler_id t' = job"
      "task_events db' = task_events db1 @ [ev]" "ev_task ev = task_id t1" "ev_type ev = ''SCHEDULER_ACCEPTED''"
    by auto
  note run_all = read_and_check [OF assms(2,4,5), of env dir w, unfolded run run2 a(1)]
  obtain evs where evs: "task_events db1 = task_events db @ evs" "map ev_type evs = stage_types submit_plan"
      "\<forall>x\<in>set evs. ev_task x = i"
    using adv s(2) by (auto simp: advanced_def)
  have rows: "GetTask db' j = GetTask db j" if "j \<noteq> i" for j
    using adv a(3) that s(2) i by (auto simp: advanced_def settled_as_def GetTask_def)
  have snap: "same_snapshot t' (scanTask r)"
    using adv a(3) same_snapshot_trans by (auto simp: advanced_def settled_as_def same_progress_def)
  have "revision t' = revision r + 8" "compute_state t' = ComputeQueued" "GetTask db' i = Inr (stored t')"
    using adv a(3) i by (auto simp: advanced_def settled_as_def stage_types_def submit_plan_def)
  then show ?thesis
    using run_all a(2,4-7) rows snap evs i
    by (intro exI [of _ t'] exI [of _ w2] exI [of _ db'] exI [of _ "evs @ [ev]"])
      (simp add: ExecuteReservedSubmit_def answer_of_def stage_types_def submit_plan_def)
qed

lemma sample_submit: "\<exists>w'. Submit (exec_cmd sample_outside) w host dir i part = (Inr ''7'', w')"
  by (simp add: Submit_def submit_result_def sample_outside_def seven_digits cut_at_def Let_def)

theorem submission_completes_witness:
  "\<exists>t' db'. ExecuteReservedSubmit sample_outside () sample_created ''t1'' ''/snap'' = (Inr (t', False), (), db') \<and>
     scheduler_id t' = ''7'' \<and> revision t' = 9"
proof -
  have r: "1 \<le> revision (encodeTask (first_revision sample_task))" by (simp add: sample_row(2))
  from submission_completes [OF sample_created_ok sample_row(1) r sample_row(3) sample_unfenced
      sample_smooth sample_submit, of "()" "''/snap''"] show ?thesis
    by (auto simp: sample_row(2))
qed

text \<open>
  An answer that is lost is not always a doubt. When the \<open>sbatch\<close> command fails without
  the rejection marker (the connection broke, or the wrapper printed
  \<open>JOYRUN_SUBMIT_UNCERTAIN\<close>) while its deadline has not passed, and the one recovery
  lookup finds no job yet, the task is written down as \<open>submission_failed\<close>; from then on a
  submission with the same key is no longer answered with this task.
\<close>

theorem lost_answer_forgotten:
  assumes "store_ok db" and "synced db (ex_task e)" and "ex_point e = Planned []"
    and "Submit (exec_cmd env) w (cluster_host (cluster_of env (ex_task e))) (submission_work_dir (ex_task e))
           (task_id (ex_task e)) (task_meta (ex_task e) ''partition'') = (Inl x, w1)"
    and "\<not> SubmissionDefinitelyRejected (Some x)" and "submit_ctx env w1 = Live"
    and "recoverSchedulerID (exec_cmd env) w1 (cluster_of env (ex_task e)) (ex_task e) = (Inr [], w2)"
  shows "\<exists>t' db' e' y. run_submit env e w db = (e', w2, db') \<and> ex_point e' = Returned (Inl y) \<and>
    fault_code y = ''SUBMIT_FAILED'' \<and> GetTask db' (task_id (ex_task e)) = Inr (stored t') \<and>
    compute_state t' = ComputeSubmissionFailed \<and>
    (\<forall>pid path key z. FindTaskBySubmissionKey db' pid path key = Inr (Some z) \<longrightarrow> task_id z \<noteq> task_id (ex_task e))"
proof -
  let ?e1 = "e\<lparr>ex_point := Recovering x False\<rparr>"
  let ?e2 = "e\<lparr>ex_point := Failing ''SUBMIT_FAILED'' ''submit'' True x\<rparr>"
  have "submit_step env e w db = (?e1, w1, db)"
    using assms(3-6) by (simp add: submit_step.simps issue_sbatch_def Let_def)
  from run_unfold [OF _ this] assms(3) have r1: "run_submit env e w db = run_submit env ?e1 w1 db" by simp
  have "submit_step env ?e1 w1 db = (?e2, w2, db)"
    using assms(7) by (simp add: submit_step.simps recover_submit_def)
  from run_unfold [OF _ this] have r2: "run_submit env ?e1 w1 db = run_submit env ?e2 w2 db" by simp
  have "synced db (ex_task ?e2)" "ex_point ?e2 = Failing ''SUBMIT_FAILED'' ''submit'' True x" using assms(2) by simp_all
  from run_failing [OF assms(1) this, of env w2] obtain t' db' e' y where
    f: "run_submit env ?e2 w2 db = (e', w2, db')" "ex_point e' = Returned (Inl y)" "fault_code y = ''SUBMIT_FAILED''"
      "settled_as ComputeSubmissionFailed (ex_task e) db t' db'" by auto
  have "task_id z \<noteq> task_id (ex_task e)" if z: "FindTaskBySubmissionKey db' pid path key = Inr (Some z)" for pid path key z
  proof
    assume i: "task_id z = task_id (ex_task e)"
    have "find_active db' pid path key = Some z" using z by (auto simp: FindTaskBySubmissionKey_def split: if_splits)
    from find_active_Some [OF this] obtain r where r: "r \<in> set (tasks db')" "z = scanTask r"
      "compute_state z \<noteq> ComputeSubmissionFailed" by (auto simp: History_member)
    have "find_row db' (task_id r) = Some r"
      using f(4) r(1) find_row_member by (auto simp: settled_as_def)
    then have "GetTask db' (task_id (ex_task e)) = Inr z" using r(2) i by (simp add: GetTask_def)
    then show False using f(4) r(3) by (auto simp: settled_as_def)
  qed
  then show ?thesis using r1 r2 f by (auto simp: settled_as_def)
qed

text \<open>A cluster on which every \<open>sbatch\<close> connection breaks and the queues are empty.\<close>

definition broken_runner :: "unit runner" where
  "broken_runner w host command stdin =
     (if has_prefix command ''cd '' then (([], ''reset'', Some (PlainError ''exit status 255'')), w)
      else (([], [], None), w))"

definition broken_outside :: "unit outside" where
  "broken_outside = sample_outside\<lparr>exec_cmd := broken_runner\<rparr>"

theorem lost_answer_forgotten_witness:
  "\<exists>t' db' e'. run_submit broken_outside (start_executor ''t1'' ''/snap'' (first_revision sample_task) (Planned []))
      () sample_created = (e', (), db') \<and> GetTask db' ''t1'' = Inr (stored t') \<and>
    compute_state t' = ComputeSubmissionFailed"
proof -
  let ?e = "start_executor ''t1'' ''/snap'' (first_revision sample_task) (Planned [])"
  have s: "synced sample_created (ex_task ?e)"
    using created_synced(1) [OF sample_created_ok sample_row(1)] sample_row(2)
    by (simp add: start_executor_def synced_def)
  let ?x = "fault_wrap ''SUBMIT_FAILED'' (message ''Slurm submission failed'' ''reset'') True (PlainError ''exit status 255'')"
  have sub: "Submit (exec_cmd broken_outside) () h d i p = (Inl ?x, ())" for h d i p
    by (simp add: broken_outside_def Submit_def broken_runner_def submit_command_def submit_result_def Let_def)
  have "message ''Slurm submission failed'' ''reset'' = ''Slurm submission failed: reset''"
    by (simp add: message_def Let_def trim_space_graph graph_char_def)
  then have rej: "\<not> SubmissionDefinitelyRejected (Some ?x)"
    by (simp add: SubmissionDefinitelyRejected_def) (simp add: fault_wrap_def)
  have rec: "recoverSchedulerID (exec_cmd broken_outside) () c t = (Inr [], ())" for c t
    by (simp add: recoverSchedulerID_def broken_outside_def ReadFile_def broken_runner_def FindByTaskID_def
        find_queries_def matches_of_def comment_match_def List.map_filter_simps numeral_3_eq_3 cut_at_def)
  have "submit_ctx broken_outside () = Live" by (simp add: broken_outside_def sample_outside_def)
  from lost_answer_forgotten [OF sample_created_ok s _ sub rej this rec] show ?thesis
    by (fastforce simp: start_executor_def sample_task_def)
qed

end
