(* ===== verification/Submission_Fence.thy ===== *)
theory Submission_Fence
  imports Submission_Outcomes "HOL-Library.Sublist"
begin

text \<open>
  Many executors on one database: workers start, advance by the steps of \<open>Submission\<close>,
  crash at any point, and every other task operation may run in between. The event
  \<open>SUBMIT_STARTED\<close>, written before the command, together with the compare-and-swap of the
  revision, keeps any task from being given to \<open>sbatch\<close> twice.
\<close>

text \<open>\<open>issued\<close> records the tasks the \<open>sbatch\<close> command has been sent for.\<close>

record 'w submit_world =
  db_of :: store
  out_of :: 'w
  executors :: "executor list"
  issued :: "string list"

definition at_sbatch :: "executor \<Rightarrow> bool" where
  "at_sbatch e \<longleftrightarrow> ex_point e = Planned []"

inductive submit_move :: "'w outside \<Rightarrow> 'w submit_world \<Rightarrow> 'w submit_world \<Rightarrow> bool" for env where
  start_reserved: "submit_move env s
     (s\<lparr>executors := executors s @ [start_executor i dir no_task ReadTask]\<rparr>)"
| start_new: "CreateTaskIdempotent (db_of s) t force = (Inr None, t', db') \<Longrightarrow> submit_move env s
     (s\<lparr>db_of := db',
        executors := executors s @ [start_executor (task_id t') dir t' (Planned submit_plan)]\<rparr>)"
| advance: "executors s = xs @ e # ys \<Longrightarrow> \<not> returned (ex_point e) \<Longrightarrow>
     submit_step env e (out_of s) (db_of s) = (e', w', db') \<Longrightarrow> submit_move env s
     (s\<lparr>db_of := db', out_of := w', executors := xs @ e' # ys,
        issued := issued s @ (if at_sbatch e then [task_id (ex_task e)] else [])\<rparr>)"
| crash: "executors s = xs @ e # ys \<Longrightarrow> submit_move env s (s\<lparr>executors := xs @ ys\<rparr>)"
| other: "store_change (db_of s) db' \<Longrightarrow> submit_move env s (s\<lparr>db_of := db'\<rparr>)"
| outside: "submit_move env s (s\<lparr>out_of := w'\<rparr>)"

section \<open>What a step can do\<close>

lemma recordStage_cases:
  assumes "recordStage db now t ty stage = (r, t', db')" and "store_ok db"
  obtains (failed) x where "r = Inl x" "db' = db"
    | (committed) "r = Inr ()" "task_id t' = task_id t" "revision t' = revision t + 1"
      "store_ok db'" "store_extends db db'"
      "\<exists>x. find_row db (task_id t) = Some x \<and> revision x = revision t"
      "\<exists>x. find_row db' (task_id t) = Some x \<and> revision x = revision t + 1"
      "\<exists>ev\<in>set (task_events db'). ev_task ev = task_id t \<and> ev_type ev = ty"
  using assms unfolding recordStage_def Let_def
proof (cases rule: UpdateTaskWithEvent_cases)
  case (failed x)
  then show ?thesis by (auto intro: that(1))
next
  case committed
  show ?thesis
  proof (rule that(2))
    show "\<exists>x. find_row db' (task_id t) = Some x \<and> revision x = revision t + 1"
      using committed by simp
    show "\<exists>ev\<in>set (task_events db'). ev_task ev = task_id t \<and> ev_type ev = ty"
      using committed by (auto simp: complete_event_def taskEvent_def Let_def)
  qed (use committed in simp_all)
qed

text \<open>An event of the fence in the database.\<close>

definition fenced :: "store \<Rightarrow> string \<Rightarrow> bool" where
  "fenced db i \<longleftrightarrow> (\<exists>ev\<in>set (task_events db). ev_task ev = i \<and> ev_type ev = ''SUBMIT_STARTED'')"

text \<open>The stored row is at the held revision or later; strictly later: the holder is stale.\<close>

definition behind :: "store \<Rightarrow> executor \<Rightarrow> bool" where
  "behind db e \<longleftrightarrow> (\<exists>r. find_row db (task_id (ex_task e)) = Some r \<and> revision (ex_task e) \<le> revision r)"

definition stale :: "store \<Rightarrow> executor \<Rightarrow> bool" where
  "stale db e \<longleftrightarrow> (\<exists>r. find_row db (task_id (ex_task e)) = Some r \<and> revision (ex_task e) < revision r)"

fun before_sbatch :: "submit_point \<Rightarrow> bool" where
  "before_sbatch (Planned (a # rest)) = True"
| "before_sbatch p = False"

definition executor_ok :: "store \<Rightarrow> executor \<Rightarrow> bool" where
  "executor_ok db e \<longleftrightarrow>
     (ex_point e = CheckFence \<or> before_sbatch (ex_point e) \<longrightarrow> behind db e) \<and>
     (\<forall>acts. ex_point e = Planned acts \<longrightarrow> suffix acts submit_plan)"

lemma fenced_extends: "fenced db i \<Longrightarrow> store_extends db db' \<Longrightarrow> fenced db' i"
  by (fastforce simp: fenced_def store_extends_def)

lemma behind_extends: "behind db e \<Longrightarrow> store_extends db db' \<Longrightarrow> behind db' e"
  by (fastforce simp: behind_def store_extends_def)

lemma stale_extends: "stale db e \<Longrightarrow> store_extends db db' \<Longrightarrow> stale db' e"
  by (fastforce simp: stale_def store_extends_def)

lemma executor_ok_extends: "executor_ok db e \<Longrightarrow> store_extends db db' \<Longrightarrow> executor_ok db' e"
  using behind_extends by (auto simp: executor_ok_def)

lemma read_task_fields:
  "ex_point (read_task e db) \<in> {Reconciling, CheckFence} \<or> returned (ex_point (read_task e db))"
  "ex_point (read_task e db) = CheckFence \<Longrightarrow> behind db (read_task e db)"
  by (auto simp: read_task_def behind_def GetTask_def find_row_tasks split: sum.splits option.splits)

lemma check_fence_fields:
  "ex_task (check_fence e db) = ex_task e"
  "ex_point (check_fence e db) = Planned acts \<Longrightarrow> acts = submit_plan \<and> \<not> fenced db (task_id (ex_task e))"
  by (auto simp: check_fence_def Events_def fence_found_def fenced_def split: sum.splits if_splits)

lemma after_part_planned: "after_part r c st rt rest = Planned acts \<Longrightarrow> acts = rest"
  by (auto simp: after_part_def split: option.splits)

lemma unconfirmed_not_planned [simp]: "unconfirmed t x \<noteq> Planned acts" "unconfirmed t x \<noteq> CheckFence"
  by (simp_all add: unconfirmed_def)

text \<open>A step of an executor seen from the fence.\<close>

lemma planned_step_cases:
  assumes "planned_step env e a rest w db = (e', w', db')" and "store_ok db"
  obtains (recorded) ty stage where "a = RecordStage ty stage" "ex_point e' = Planned rest"
      "task_id (ex_task e') = task_id (ex_task e)" "revision (ex_task e') = revision (ex_task e) + 1"
      "store_ok db'" "store_extends db db'" "\<not> stale db e"
      "\<exists>x. find_row db' (task_id (ex_task e)) = Some x \<and> revision x = revision (ex_task e) + 1"
      "\<exists>ev\<in>set (task_events db'). ev_task ev = task_id (ex_task e) \<and> ev_type ev = ty"
    | (part) "db' = db" "ex_task e' = ex_task e" "ex_point e' = Planned rest" "\<forall>ty stage. a \<noteq> RecordStage ty stage"
    | (stop) "db' = db" "\<forall>acts. ex_point e' \<noteq> Planned acts" "ex_point e' \<noteq> CheckFence"
proof (cases "\<exists>ty stage. a = RecordStage ty stage")
  case True
  then obtain ty stage where RecordStage: "a = RecordStage ty stage" by blast
  obtain r t d where rs: "recordStage db (clock env w) (ex_task e) ty stage = (r, t, d)" by (cases rule: prod_cases3)
  from rs assms(2) show ?thesis
  proof (cases rule: recordStage_cases)
    case (failed x)
    then show ?thesis using assms(1) RecordStage rs by (auto intro: that(3))
  next
    case committed
    then have e': "ex_point e' = Planned rest" "ex_task e' = t" "db' = d"
      using assms(1) RecordStage rs by auto
    show ?thesis
      by (rule that(1) [OF RecordStage e'(1)]) (use committed e' in \<open>auto simp: stale_def\<close>)
  qed
next
  case False
  then have "db' = db \<and> ex_task e' = ex_task e \<and> (\<exists>r c st rt. ex_point e' = after_part r c st rt rest)"
    using assms(1) part_step [of a env e rest w db] by (auto; blast)
  then obtain r c st rt where p: "db' = db" "ex_task e' = ex_task e" "ex_point e' = after_part r c st rt rest"
    by blast
  show ?thesis
  proof (cases r)
    case None
    then show ?thesis using p False by (intro that(2)) (auto simp: after_part_def)
  next
    case (Some x)
    then show ?thesis using p by (intro that(3)) (auto simp: after_part_def)
  qed
qed

text \<open>The steps that are not a stage before the command.\<close>

lemma other_step_cases:
  assumes "submit_step env e w db = (e', w', db')" and "store_ok db"
    and "\<not> before_sbatch (ex_point e)" and "\<not> returned (ex_point e)"
  shows "store_ok db' \<and> store_extends db db' \<and>
    (ex_point e' = CheckFence \<longrightarrow> behind db' e') \<and>
    (\<forall>acts. ex_point e' = Planned acts \<longrightarrow> acts = submit_plan \<and> ex_point e = CheckFence \<and>
       ex_task e' = ex_task e \<and> db' = db \<and> \<not> fenced db (task_id (ex_task e)))"
proof -
  have upd: "store_ok d \<and> store_extends db d" if "UpdateTaskWithEvent db n t ev = (r, t', d)" for n t ev r t' d
    using that assms(2) by (cases rule: UpdateTaskWithEvent_cases) (simp_all add: assms(2))
  show ?thesis
  proof (cases "ex_point e")
    case ReadTask
    then show ?thesis
      using assms read_task_fields [of e db] by (auto simp: submit_step.simps)
  next
    case CheckFence
    then show ?thesis
      using assms check_fence_fields [of e db] by (auto simp: submit_step.simps check_fence_def split: sum.splits if_splits)
  next
    case Reconciling
    then show ?thesis using assms
      by (auto simp: submit_step.simps reconcileReservedSubmit_def Let_def
          split: prod.splits option.splits sum.splits if_splits)
  next
    case (Planned acts)
    then have "acts = []" using assms(3) by (cases acts) auto
    with Planned show ?thesis using assms
      by (auto simp: submit_step.simps issue_sbatch_def Let_def split: prod.splits sum.splits if_splits)
  next
    case (Recovering x u)
    then show ?thesis using assms
      by (auto simp: submit_step.simps recover_submit_def split: prod.splits sum.splits if_splits)
  next
    case (Accepting i)
    then show ?thesis using assms upd
      by (auto simp: submit_step.simps acceptSubmission_def Let_def split: prod.splits sum.splits)
  next
    case (Failing c st rt x)
    then show ?thesis using assms upd
      by (auto simp: submit_step.simps failSubmission_def Let_def split: prod.splits sum.splits)
  next
    case (Doubting x)
    then show ?thesis using assms upd
      by (auto simp: submit_step.simps failSubmissionUncertain_def Let_def split: prod.splits sum.splits)
  next
    case (Returned r)
    then show ?thesis using assms by simp
  qed
qed

section \<open>The invariant\<close>

text \<open>Executors at the command, and commands sent, for one task.\<close>

definition live :: "executor list \<Rightarrow> string list \<Rightarrow> string \<Rightarrow> nat" where
  "live es sent i = length (filter (\<lambda>e. at_sbatch e \<and> task_id (ex_task e) = i) es) + count_list sent i"

definition guarded :: "store \<Rightarrow> executor list \<Rightarrow> string list \<Rightarrow> string \<Rightarrow> bool" where
  "guarded db es sent i \<longleftrightarrow> live es sent i \<le> 1 \<and> (live es sent i \<noteq> 0 \<longrightarrow> fenced db i \<and>
     (\<forall>e\<in>set es. before_sbatch (ex_point e) \<and> task_id (ex_task e) = i \<longrightarrow> stale db e))"

definition fence_inv :: "'w submit_world \<Rightarrow> bool" where
  "fence_inv s \<longleftrightarrow> store_ok (db_of s) \<and>
     (\<forall>e\<in>set (executors s). executor_ok (db_of s) e) \<and>
     (\<forall>i. guarded (db_of s) (executors s) (issued s) i)"

lemma live_simps [simp]:
  "live (xs @ e # ys) sent i = live (xs @ ys) sent i + (if at_sbatch e \<and> task_id (ex_task e) = i then 1 else 0)"
  "live es (sent @ [j]) i = live es sent i + (if j = i then 1 else 0)"
  "live es (sent @ []) i = live es sent i"
  by (simp_all add: live_def)

lemma guarded_extends:
  "guarded db es sent i \<Longrightarrow> store_extends db db' \<Longrightarrow> guarded db' es sent i"
  unfolding guarded_def using fenced_extends stale_extends by blast

lemma created_row:
  assumes "CreateTaskIdempotent db t force = (Inr None, t', db')" and "store_ok db"
  shows "find_row db (task_id t') = None" and "find_row db' (task_id t') = Some (encodeTask t')"
proof -
  have "insert_created db t' = Inr db' \<or> insert_all db [t'] = Inr db'"
    using assms(1) by (auto simp: CreateTaskIdempotent_def CreateTasks_def Let_def
        split: if_splits sum.splits option.splits)
  then have "insert_all db [t'] = Inr db'" by (auto split: sum.splits)
  from insert_all_find [OF this assms(2)] show "find_row db (task_id t') = None"
    "find_row db' (task_id t') = Some (encodeTask t')" by simp_all
qed

lemma fenced_row: "fenced db i \<Longrightarrow> store_ok db \<Longrightarrow> find_row db i \<noteq> None"
  by (auto simp: fenced_def store_ok_def)

text \<open>An executor that can no longer pass the fence changes nothing for it.\<close>

lemma guarded_other:
  assumes "guarded db (xs @ e # ys) sent i" and "store_extends db db'"
    and "\<not> before_sbatch (ex_point e') \<or> (\<not> fenced db i \<and> db' = db) \<or> task_id (ex_task e') \<noteq> i"
    and "\<not> at_sbatch e'"
    and "at_sbatch e \<Longrightarrow> sent' = sent @ [task_id (ex_task e)]" and "\<not> at_sbatch e \<Longrightarrow> sent' = sent"
  shows "guarded db' (xs @ e' # ys) sent' i"
proof -
  have l: "live (xs @ e' # ys) sent' i = live (xs @ e # ys) sent i"
    using assms(4-6) by (cases "at_sbatch e") simp_all
  show ?thesis
    using assms(1) fenced_extends [OF _ assms(2)] stale_extends [OF _ assms(2)] assms(3)
    unfolding guarded_def l by auto
qed

lemma last_stage: "suffix [a] submit_plan \<Longrightarrow> a = RecordStage ''SUBMIT_STARTED'' ''submit''"
proof -
  assume "suffix [a] submit_plan"
  then have "last submit_plan = a" by (metis last_snoc suffix_def)
  then show ?thesis by (simp add: submit_plan_def)
qed

lemma guarded_planned:
  assumes g: "guarded db (xs @ e # ys) sent i"
    and ok: "store_ok db" and st: "planned_step env e a rest w db = (e', w', db')"
    and p: "ex_point e = Planned (a # rest)"
    and es: "\<forall>x\<in>set (xs @ e # ys). executor_ok db x"
  shows "guarded db' (xs @ e' # ys) sent i"
  using st ok
proof (cases rule: planned_step_cases)
  case (part)
  have last: "rest \<noteq> []"
  proof
    assume "rest = []"
    then have "suffix [a] submit_plan" using es p by (auto simp: executor_ok_def)
    then show False using part(4) last_stage by blast
  qed
  then have "\<not> at_sbatch e'" "\<not> at_sbatch e" "before_sbatch (ex_point e)" using part p by (simp_all add: at_sbatch_def)
  moreover have "live (xs @ e' # ys) sent i = live (xs @ e # ys) sent i" using calculation by simp
  moreover have "stale db e' = stale db e" by (simp add: stale_def part)
  ultimately show ?thesis using g unfolding guarded_def part(1) by (auto simp: part(2))
next
  case stop
  then have "\<not> before_sbatch (ex_point e')" by (cases "ex_point e'" rule: before_sbatch.cases) auto
  then show ?thesis
    using stop p by (intro guarded_other [OF g]) (auto simp: at_sbatch_def)
next
  case (recorded ty stage)
  show ?thesis
  proof (cases "task_id (ex_task e) = i")
    case False
    have "live (xs @ e' # ys) sent i = live (xs @ e # ys) sent i"
      using False recorded(3) by simp
    with g recorded(3,6) False fenced_extends [OF _ recorded(6)] stale_extends [OF _ recorded(6)]
    show ?thesis unfolding guarded_def by auto
  next
    case True
    then have "live (xs @ e # ys) sent i = 0"
      using g p recorded(7) by (auto simp: guarded_def)
    then have none: "live (xs @ ys) sent i = 0" by simp
    have stale': "stale db' x" if x: "x \<in> set (xs @ ys)" "before_sbatch (ex_point x)" "task_id (ex_task x) = i" for x
    proof -
      have "behind db x" using es x by (auto simp: executor_ok_def)
      then obtain r where r: "find_row db i = Some r" "revision (ex_task x) \<le> revision r"
        using x(3) by (auto simp: behind_def)
      have "behind db e" using es p by (auto simp: executor_ok_def)
      with recorded(7) True r(1) have "revision r = revision (ex_task e)" by (auto simp: behind_def stale_def)
      with r(2) recorded(8) True x(3) show ?thesis by (auto simp: stale_def)
    qed
    show ?thesis
    proof (cases "at_sbatch e'")
      case False
      then have "live (xs @ e' # ys) sent i = 0" using none by simp
      then show ?thesis by (simp add: guarded_def)
    next
      case at: True
      then have "rest = []" using recorded(2) by (simp add: at_sbatch_def)
      then have "suffix [a] submit_plan" using es p by (auto simp: executor_ok_def)
      from last_stage [OF this] have ty: "ty = ''SUBMIT_STARTED''" unfolding recorded(1) by simp
      have "fenced db' i" using recorded(9) unfolding True ty fenced_def .
      moreover have "live (xs @ e' # ys) sent i \<le> 1" using none by simp
      moreover have "\<not> before_sbatch (ex_point e')" using at by (simp add: at_sbatch_def)
      ultimately show ?thesis using stale' unfolding guarded_def by auto
    qed
  qed
qed

lemma advance_inv:
  assumes inv: "fence_inv s" and ex: "executors s = xs @ e # ys" and r: "\<not> returned (ex_point e)"
    and st: "submit_step env e (out_of s) (db_of s) = (e', w', db')"
  shows "fence_inv (s\<lparr>db_of := db', out_of := w', executors := xs @ e' # ys,
     issued := issued s @ (if at_sbatch e then [task_id (ex_task e)] else [])\<rparr>)"
proof -
  let ?sent = "issued s @ (if at_sbatch e then [task_id (ex_task e)] else [])"
  have ok: "store_ok (db_of s)" and es: "\<forall>x\<in>set (xs @ e # ys). executor_ok (db_of s) x"
    and g: "guarded (db_of s) (xs @ e # ys) (issued s) i" for i
    using inv ex by (auto simp: fence_inv_def)
  have "store_ok db' \<and> store_extends (db_of s) db' \<and> executor_ok db' e' \<and>
    (\<forall>i. guarded db' (xs @ e' # ys) ?sent i)"
  proof (cases "before_sbatch (ex_point e)")
    case True
    then obtain a rest where p: "ex_point e = Planned (a # rest)"
      by (cases "ex_point e" rule: before_sbatch.cases) auto
    then have ps: "planned_step env e a rest (out_of s) (db_of s) = (e', w', db')"
      using st by (simp add: submit_step.simps)
    have "\<not> at_sbatch e" using p by (simp add: at_sbatch_def)
    then have gu: "\<forall>i. guarded db' (xs @ e' # ys) ?sent i"
      using guarded_planned [OF g ok ps p es] by simp
    have suf: "suffix rest submit_plan" and be: "behind (db_of s) e"
      using es p by (auto simp: executor_ok_def dest: suffix_ConsD)
    have "store_ok db' \<and> store_extends (db_of s) db' \<and> executor_ok db' e'"
      using ps ok
    proof (cases rule: planned_step_cases)
      case recorded
      then have "behind db' e'" by (auto simp: behind_def)
      then show ?thesis using recorded(2,5,6) suf by (simp add: executor_ok_def)
    next
      case part
      then have "behind db' e'" using be by (simp add: behind_def)
      then show ?thesis using part(1,3) suf ok by (simp add: executor_ok_def)
    next
      case stop
      then have "\<not> before_sbatch (ex_point e')" by (cases "ex_point e'" rule: before_sbatch.cases) auto
      then show ?thesis using stop ok by (simp add: executor_ok_def)
    qed
    with gu show ?thesis by blast
  next
    case False
    note o = other_step_cases [OF st ok False r]
    have nb: "before_sbatch (ex_point e') \<Longrightarrow> ex_point e' = Planned submit_plan \<and> ex_point e = CheckFence \<and>
        ex_task e' = ex_task e \<and> db' = db_of s \<and> \<not> fenced (db_of s) (task_id (ex_task e))"
      using o by (cases "ex_point e'" rule: before_sbatch.cases) auto
    have "\<not> at_sbatch e'" using o by (auto simp: at_sbatch_def submit_plan_def)
    then have gu: "\<forall>i. guarded db' (xs @ e' # ys) ?sent i"
      using nb o by (intro allI guarded_other [OF g]) auto
    have "before_sbatch (ex_point e') \<longrightarrow> behind db' e'"
      using nb es by (auto simp: executor_ok_def behind_def)
    then have "executor_ok db' e'" using o unfolding executor_ok_def by auto
    with gu o show ?thesis by blast
  qed
  then show ?thesis using es executor_ok_extends by (auto simp: fence_inv_def)
qed

lemma guarded_new:
  assumes "guarded db es sent i" and "store_extends db db'"
    and "\<not> at_sbatch e" and "before_sbatch (ex_point e) \<and> task_id (ex_task e) = i \<longrightarrow> \<not> fenced db i"
  shows "guarded db' (es @ [e]) sent i"
  using assms(1,3,4) fenced_extends [OF _ assms(2)] stale_extends [OF _ assms(2)]
  by (auto simp: guarded_def)

lemma guarded_crash:
  assumes "guarded db (xs @ e # ys) sent i"
  shows "guarded db (xs @ ys) sent i"
  using assms by (auto simp: guarded_def split: if_splits)

lemma fence_step:
  assumes "submit_move env s s'" and inv: "fence_inv s"
  shows "fence_inv s'"
  using assms(1)
proof cases
  case (start_reserved i dir)
  have "executor_ok (db_of s) (start_executor i dir no_task ReadTask)"
    by (simp add: executor_ok_def start_executor_def)
  moreover have "guarded (db_of s) (executors s @ [start_executor i dir no_task ReadTask]) (issued s) j" for j
    using inv by (intro guarded_new [of "db_of s"]) (auto simp: fence_inv_def start_executor_def at_sbatch_def)
  ultimately show ?thesis using inv by (auto simp: start_reserved fence_inv_def)
next
  case (start_new t force t' db' dir)
  have ok: "store_ok (db_of s)" using inv by (simp add: fence_inv_def)
  have ex: "store_ok db'" "store_extends (db_of s) db'"
    using store_change_ok [OF store_change.create_one [OF start_new(2)] ok] by auto
  let ?e = "start_executor (task_id t') dir t' (Planned submit_plan)"
  have "behind db' ?e" using created_row(2) [OF start_new(2) ok] by (simp add: behind_def start_executor_def)
  then have "executor_ok db' ?e" by (auto simp: executor_ok_def start_executor_def)
  moreover have "\<not> fenced (db_of s) (task_id t')"
    using created_row(1) [OF start_new(2) ok] fenced_row [OF _ ok] by blast
  then have "guarded db' (executors s @ [?e]) (issued s) j" for j
    using inv ex(2) by (intro guarded_new [of "db_of s"])
      (auto simp: fence_inv_def start_executor_def at_sbatch_def submit_plan_def)
  ultimately show ?thesis
    using inv ex executor_ok_extends [OF _ ex(2)] by (auto simp: start_new(1) fence_inv_def)
next
  case (advance xs e ys e' w' db')
  then show ?thesis using advance_inv [OF inv] by simp
next
  case (crash xs e ys)
  then have "guarded (db_of s) (xs @ ys) (issued s) i" for i
    using inv guarded_crash [of "db_of s" xs e ys] by (auto simp: fence_inv_def)
  then show ?thesis using inv crash by (auto simp: fence_inv_def)
next
  case (other db')
  then have "store_ok db'" "store_extends (db_of s) db'"
    using store_change_ok inv by (auto simp: fence_inv_def)
  then show ?thesis
    using inv executor_ok_extends guarded_extends unfolding other(1) fence_inv_def by fastforce
next
  case (outside w')
  then show ?thesis using inv by (simp add: fence_inv_def)
qed

lemma fence_run:
  "(submit_move env)\<^sup>*\<^sup>* s s' \<Longrightarrow> fence_inv s \<Longrightarrow> fence_inv s'"
  by (induction rule: rtranclp_induct) (auto dest: fence_step)

section \<open>Properties\<close>

lemma count_list_distinct: "(\<And>i. count_list xs i \<le> 1) \<Longrightarrow> distinct xs"
proof (induction xs)
  case (Cons a xs)
  have "count_list xs a = 0" using Cons.prems [of a] by simp
  moreover have "count_list xs i \<le> 1" for i using Cons.prems [of i] by (simp split: if_splits)
  ultimately show ?case using Cons.IH by (simp add: count_list_0_iff)
qed simp

definition initial_world :: "store \<Rightarrow> 'w \<Rightarrow> 'w submit_world" where
  "initial_world db w = \<lparr>db_of = db, out_of = w, executors = [], issued = []\<rparr>"

lemma initial_inv: "store_ok db \<Longrightarrow> fence_inv (initial_world db w)"
  by (simp add: initial_world_def fence_inv_def guarded_def live_def)

text \<open>The undisturbed stages as moves of the world.\<close>

lemma smooth_moves:
  assumes "smooth env"
  shows "executors s = [e] \<Longrightarrow> ex_point e = Planned acts \<Longrightarrow> store_ok (db_of s) \<Longrightarrow> synced (db_of s) (ex_task e) \<Longrightarrow>
    \<exists>s' t'. (submit_move env)\<^sup>*\<^sup>* s s' \<and> executors s' = [e\<lparr>ex_point := Planned [], ex_task := t'\<rparr>] \<and>
      issued s' = issued s \<and> advanced (ex_task e) (db_of s) (stage_types acts) t' (db_of s')"
proof (induction acts arbitrary: e s)
  case Nil
  then have "executors s = [e\<lparr>ex_point := Planned [], ex_task := ex_task e\<rparr>]" by simp
  moreover have "advanced (ex_task e) (db_of s) (stage_types []) (ex_task e) (db_of s)"
    using advanced_refl Nil by simp
  ultimately show ?case by blast
next
  case (Cons a rest)
  obtain t1 w1 db1 where
    st: "planned_step env e a rest (out_of s) (db_of s) = (e\<lparr>ex_point := Planned rest, ex_task := t1\<rparr>, w1, db1)"
    and adv: "advanced (ex_task e) (db_of s) (action_events a) t1 db1"
    using planned_smooth [OF assms Cons.prems(3,4)] by blast
  let ?e1 = "e\<lparr>ex_point := Planned rest, ex_task := t1\<rparr>"
  let ?s1 = "s\<lparr>db_of := db1, out_of := w1, executors := [?e1], issued := issued s\<rparr>"
  have "submit_step env e (out_of s) (db_of s) = (?e1, w1, db1)"
    using st by (simp add: submit_step.simps Cons.prems(2))
  from submit_move.advance [of s "[]" e "[]" env, OF _ _ this] have mv: "submit_move env s ?s1"
    using Cons.prems(1,2) by (simp add: at_sbatch_def)
  have "store_ok (db_of ?s1)" "synced (db_of ?s1) (ex_task ?e1)" using adv by (auto simp: advanced_def)
  from Cons.IH [of ?s1 ?e1, OF _ _ this] obtain s' t' where
    "(submit_move env)\<^sup>*\<^sup>* ?s1 s'" "executors s' = [e\<lparr>ex_point := Planned [], ex_task := t'\<rparr>]"
    "issued s' = issued s" "advanced t1 db1 (stage_types rest) t' (db_of s')" by auto
  with converse_rtranclp_into_rtranclp [of "submit_move env", OF mv] advanced_trans [OF adv]
  show ?case unfolding stage_types_simps by metis
qed

lemma issue_move:
  assumes "executors s = [e]" and "ex_point e = Planned []"
  shows "\<exists>s' e'. submit_move env s s' \<and> issued s' = issued s @ [task_id (ex_task e)] \<and>
    db_of s' = db_of s \<and> executors s' = [e']"
proof -
  obtain p w' where p: "issue_sbatch env e (out_of s) = (p, w')" by fastforce
  then have "submit_step env e (out_of s) (db_of s) = (e\<lparr>ex_point := p\<rparr>, w', db_of s)"
    by (simp add: submit_step.simps assms(2))
  from submit_move.advance [of s "[]" e "[]" env, OF _ _ this] assms
  have "submit_move env s (s\<lparr>db_of := db_of s, out_of := w', executors := [e\<lparr>ex_point := p\<rparr>],
      issued := issued s @ [task_id (ex_task e)]\<rparr>)"
    by (simp add: at_sbatch_def)
  then show ?thesis by fastforce
qed

lemma smooth_issue:
  assumes "smooth env" and "executors s = [start_executor i dir t (Planned submit_plan)]"
    and "store_ok (db_of s)" and "synced (db_of s) t"
  shows "\<exists>s' e' t'. (submit_move env)\<^sup>*\<^sup>* s s' \<and> issued s' = issued s @ [task_id t] \<and> executors s' = [e'] \<and>
    advanced t (db_of s) (stage_types submit_plan) t' (db_of s')"
proof -
  let ?e = "start_executor i dir t (Planned submit_plan)"
  have "ex_point ?e = Planned submit_plan" "synced (db_of s) (ex_task ?e)" "ex_task ?e = t"
    using assms(4) by (simp_all add: start_executor_def)
  with smooth_moves [OF assms(1,2) _ assms(3), of submit_plan] obtain s1 t' where
    m: "(submit_move env)\<^sup>*\<^sup>* s s1" "executors s1 = [?e\<lparr>ex_point := Planned [], ex_task := t'\<rparr>]" "issued s1 = issued s"
    and adv: "advanced t (db_of s) (stage_types submit_plan) t' (db_of s1)" by metis
  from issue_move [OF m(2), where env = env] obtain s2 e2 where
    "submit_move env s1 s2" "issued s2 = issued s1 @ [task_id t']" "db_of s2 = db_of s1" "executors s2 = [e2]" by auto
  moreover have "task_id t' = task_id t" using adv same_progress_id by (auto simp: advanced_def)
  ultimately show ?thesis using m adv by (metis rtranclp.rtrancl_into_rtrancl)
qed

text \<open>
  C1. No task is given to \<open>sbatch\<close> twice. Workers executing reserved submissions and new
  submissions start in any number, for any tasks, advance in any order, crash at any
  point, and any task operation of the store runs in between: the command is sent at most
  once for every task, and no worker is left that could send it again for a task it was
  sent for.
\<close>

theorem at_most_one_sbatch:
  assumes "store_ok db" and "(submit_move env)\<^sup>*\<^sup>* (initial_world db w) s"
  shows "distinct (issued s) \<and>
    (\<forall>e\<in>set (executors s). at_sbatch e \<longrightarrow> task_id (ex_task e) \<notin> set (issued s))"
proof -
  have g: "live (executors s) (issued s) i \<le> 1" for i
    using fence_run [OF assms(2) initial_inv [OF assms(1)]] by (simp add: fence_inv_def guarded_def)
  have "count_list (issued s) i \<le> 1" for i using g [of i] by (simp add: live_def)
  then have "distinct (issued s)" by (rule count_list_distinct)
  moreover have "task_id (ex_task e) \<notin> set (issued s)" if "e \<in> set (executors s)" "at_sbatch e" for e
  proof
    assume i: "task_id (ex_task e) \<in> set (issued s)"
    have "e \<in> set (filter (\<lambda>x. at_sbatch x \<and> task_id (ex_task x) = task_id (ex_task e)) (executors s))"
      using that by simp
    then have "length (filter (\<lambda>x. at_sbatch x \<and> task_id (ex_task x) = task_id (ex_task e)) (executors s)) \<noteq> 0"
      by (metis length_0_conv empty_iff list.set(1))
    moreover have "count_list (issued s) (task_id (ex_task e)) \<noteq> 0" using i by (simp add: count_list_0_iff)
    ultimately show False using g [of "task_id (ex_task e)"] unfolding live_def by linarith
  qed
  ultimately show ?thesis by blast
qed

lemma sample_read: "\<exists>s. (submit_move sample_outside)\<^sup>*\<^sup>* (initial_world sample_created ()) s \<and>
    db_of s = sample_created \<and> issued s = [] \<and>
    executors s = [start_executor ''t1'' ''/snap'' (scanTask (encodeTask (first_revision sample_task))) (Planned submit_plan)]"
proof -
  let ?t = "scanTask (encodeTask (first_revision sample_task))"
  let ?e0 = "start_executor ''t1'' ''/snap'' no_task ReadTask"
  let ?e1 = "start_executor ''t1'' ''/snap'' ?t CheckFence"
  let ?e2 = "start_executor ''t1'' ''/snap'' ?t (Planned submit_plan)"
  let ?s = "\<lambda>es. \<lparr>db_of = sample_created, out_of = (), executors = es, issued = []\<rparr>"
  have i: "task_id ?t = ''t1''" by (simp add: sample_task_def)
  have "submit_move sample_outside (?s []) (?s [?e0])"
    using submit_move.start_reserved [of sample_outside "?s []" "''t1''" "''/snap''"] by simp
  moreover have "submit_step sample_outside ?e0 () sample_created = (?e1, (), sample_created)"
    using sample_row(3) by (simp add: submit_step.simps start_executor_def read_task_def GetTask_def sample_row(1))
  then have "submit_move sample_outside (?s [?e0]) (?s [?e1])"
    using submit_move.advance [of "?s [?e0]" "[]" ?e0 "[]" sample_outside ?e1 "()" sample_created]
    by (simp add: at_sbatch_def start_executor_def)
  moreover have "\<not> fence_found (filter (\<lambda>e. ev_task e = ''t1'') (task_events sample_created))"
    using sample_unfenced by (auto simp: fence_found_def)
  then have "submit_step sample_outside ?e1 () sample_created = (?e2, (), sample_created)"
    using i by (simp add: submit_step.simps start_executor_def check_fence_def Events_def GetTask_def sample_row(1))
  then have "submit_move sample_outside (?s [?e1]) (?s [?e2])"
    using submit_move.advance [of "?s [?e1]" "[]" ?e1 "[]" sample_outside ?e2 "()" sample_created]
    by (simp add: at_sbatch_def start_executor_def)
  ultimately have "(submit_move sample_outside)\<^sup>*\<^sup>* (?s []) (?s [?e2])"
    by (meson converse_rtranclp_into_rtranclp r_into_rtranclp)
  then show ?thesis unfolding initial_world_def by (intro exI [of _ "?s [?e2]"]) simp
qed

text \<open>The command has been sent for the sample task, and the worker has crashed after it.\<close>

lemma sample_crashed: "\<exists>s t. (submit_move sample_outside)\<^sup>*\<^sup>* (initial_world sample_created ()) s \<and>
    issued s = [''t1''] \<and> executors s = [] \<and> store_ok (db_of s) \<and> synced (db_of s) t \<and>
    same_progress t (scanTask (encodeTask (first_revision sample_task))) \<and>
    find_row (db_of s) ''t1'' = Some (encodeTask t) \<and>
    (\<forall>i. i \<noteq> ''t1'' \<longrightarrow> find_row (db_of s) i = find_row sample_created i)"
proof -
  let ?t = "scanTask (encodeTask (first_revision sample_task))"
  obtain s1 where s1: "(submit_move sample_outside)\<^sup>*\<^sup>* (initial_world sample_created ()) s1"
      "db_of s1 = sample_created" "issued s1 = []"
      "executors s1 = [start_executor ''t1'' ''/snap'' ?t (Planned submit_plan)]"
    using sample_read by blast
  have "store_ok (db_of s1)" "synced (db_of s1) ?t" using sample_synced by (simp_all add: s1(2))
  from smooth_issue [OF sample_smooth s1(4) this] obtain s2 e' t' where
    s2: "(submit_move sample_outside)\<^sup>*\<^sup>* s1 s2" "issued s2 = issued s1 @ [task_id ?t]" "executors s2 = [e']"
    and adv: "advanced ?t (db_of s1) (stage_types submit_plan) t' (db_of s2)" by blast
  have "submit_move sample_outside s2 (s2\<lparr>executors := []\<rparr>)"
    using submit_move.crash [of s2 "[]" e' "[]" sample_outside] s2(3) by simp
  with s1(1) s2(1) have "(submit_move sample_outside)\<^sup>*\<^sup>* (initial_world sample_created ()) (s2\<lparr>executors := []\<rparr>)"
    by (meson rtranclp.rtrancl_into_rtrancl rtranclp_trans)
  moreover have "task_id ?t = ''t1''" by (simp add: sample_task_def)
  ultimately show ?thesis
    using s2(2) s1(2,3) adv
    by (intro exI [of _ "s2\<lparr>executors := []\<rparr>"] exI [of _ t'])
      (simp add: advanced_def, simp add: stage_types_def submit_plan_def)
qed

theorem at_most_one_sbatch_witness:
  "\<exists>s. issued s = [''t1''] \<and> distinct (issued s) \<and>
     (\<forall>e\<in>set (executors s). at_sbatch e \<longrightarrow> task_id (ex_task e) \<notin> set (issued (s :: unit submit_world)))"
proof -
  obtain s where s: "(submit_move sample_outside)\<^sup>*\<^sup>* (initial_world sample_created ()) s" "issued s = [''t1'']"
    using sample_crashed by blast
  from at_most_one_sbatch [OF sample_created_ok s(1)] s(2) show ?thesis by blast
qed

text \<open>
  C31. The way around the fence. \<open>App.Submit\<close> that finds a task still \<open>created\<close> under its
  submission key executes the stages from the start without looking at the events: a task
  whose command has been sent by a worker that crashed before it wrote the answer down is
  given to \<open>sbatch\<close> again.
\<close>

theorem reuse_sends_again:
  assumes "CreateTaskIdempotent (db_of s) t False = (Inr (Some x), t', db')"
    and "compute_state x = ComputeCreated" and "smooth env"
    and "store_ok (db_of s)" and "synced (db_of s) x" and "executors s = []"
  shows "submit_created env w (db_of s) t False dir = submitPrepared env w (db_of s) x dir \<and>
    (\<exists>s2. (submit_move env)\<^sup>*\<^sup>* (s\<lparr>executors := [start_executor (task_id x) dir x (Planned submit_plan)]\<rparr>) s2 \<and>
       issued s2 = issued s @ [task_id x])"
proof -
  let ?s = "s\<lparr>executors := [start_executor (task_id x) dir x (Planned submit_plan)]\<rparr>"
  have "db' = db_of s" using assms(1)
    by (auto simp: CreateTaskIdempotent_def Let_def split: if_splits option.splits sum.splits)
  then have "submit_created env w (db_of s) t False dir = submitPrepared env w (db_of s) x dir"
    using assms(1,2) by (simp add: submit_created_def)
  moreover have "\<exists>s2. (submit_move env)\<^sup>*\<^sup>* ?s s2 \<and> issued s2 = issued ?s @ [task_id x]"
    using smooth_issue [OF assms(3), of ?s "task_id x" dir x] assms(4,5) by auto
  ultimately show ?thesis by simp
qed

text \<open>The sample task is still found under its key after the crash.\<close>

lemma sample_reuse:
  assumes "store_ok db" and "find_row db ''t1'' = Some (encodeTask t)"
    and "same_progress t (scanTask (encodeTask (first_revision sample_task)))"
    and "\<forall>i. i \<noteq> ''t1'' \<longrightarrow> find_row db i = find_row sample_created i"
  shows "CreateTaskIdempotent db (sample_task\<lparr>task_id := ''t2''\<rparr>) False =
     (Inr (Some (stored t)), first_revision (sample_task\<lparr>task_id := ''t2''\<rparr>), db)"
proof -
  let ?u = "first_revision (sample_task\<lparr>task_id := ''t2''\<rparr>)"
  have key: "submission_key_of t = ''k''" "project_id t = ''p''" "source_path t = ''/p/a''" "compute_state t = ComputeCreated"
    using assms(3) by (simp_all add: same_progress_def same_snapshot_def submission_key_of_def
        first_revision_def sample_task_def encodeTask_def scanTask_def dryRunKey_def)
  have only: "r = encodeTask t" if "r \<in> set (tasks db)" for r
  proof -
    have f: "find_row db (task_id r) = Some r" by (rule find_row_member [OF assms(1) that])
    have "find_row sample_created j = None" if "j \<noteq> ''t1''" for j
      using that by (simp add: find_row_def sample_created_def sample_task_def)
    with f assms(2,4) show ?thesis by (cases "task_id r = ''t1''") auto
  qed
  have "stored t \<in> set (History db ''p'' ''/p/a'')"
    using find_row_tasks [OF assms(2)] key(2,3) by (auto simp: History_member stored_def)
  then have "find_active db ''p'' ''/p/a'' ''k'' \<noteq> None"
    using key(1,4) by (auto simp: find_active_None stored_def intro!: bexI [of _ "stored t"])
  then obtain x where x: "find_active db ''p'' ''/p/a'' ''k'' = Some x" by blast
  from find_active_Some [OF this] only have "x = stored t" by (auto simp: History_member stored_def)
  moreover have "submission_key_of ?u = ''k''" "project_id ?u = ''p''" "source_path ?u = ''/p/a''"
    by (simp_all add: sample_task_def) (simp_all add: submission_key_of_def)
  ultimately show ?thesis using x by (simp add: CreateTaskIdempotent_def Let_def)
qed

theorem reuse_sends_again_witness:
  "\<exists>s s2. (submit_move sample_outside)\<^sup>*\<^sup>* (initial_world sample_created ()) s \<and> issued s = [''t1''] \<and>
     executors s = [] \<and> issued (s2 :: unit submit_world) = [''t1'', ''t1'']"
proof -
  obtain s t where s: "(submit_move sample_outside)\<^sup>*\<^sup>* (initial_world sample_created ()) s"
    "issued s = [''t1'']" "executors s = []" "store_ok (db_of s)" "synced (db_of s) t"
    "same_progress t (scanTask (encodeTask (first_revision sample_task)))"
    "find_row (db_of s) ''t1'' = Some (encodeTask t)"
    "\<forall>i. i \<noteq> ''t1'' \<longrightarrow> find_row (db_of s) i = find_row sample_created i"
    using sample_crashed by (elim exE conjE) (rule that)
  have x: "synced (db_of s) (stored t)" using s(5) by (simp add: synced_def)
  have "compute_state t = compute_state (scanTask (encodeTask (first_revision sample_task)))"
    using s(6) unfolding same_progress_def by (elim conjE)
  with sample_row(3) have c: "compute_state (stored t) = ComputeCreated" by simp
  have i: "task_id (stored t) = ''t1''"
    using find_row_tasks [OF s(7)] by simp
  from reuse_sends_again [OF sample_reuse [OF s(4,7,6,8)] c sample_smooth s(4) x s(3), of "()" "''/snap''"] obtain s2 :: "unit submit_world"
    where "issued s2 = issued s @ [task_id (stored t)]" by blast
  then have "issued s2 = [''t1'', ''t1'']" unfolding i s(2) by simp
  with s(1-3) show ?thesis by blast
qed

end
