(* ===== verification/Job_Template.thy ===== *)
theory Job_Template
  imports Remote_Shell
begin

text \<open>
  \<open>internal/template/render.go\<close>: which templates a target may use, the data they see, and
  the script that is rendered. Of Go's \<open>text/template\<close> the model reads text, comments, trim
  markers and actions that are one field chain; any other action is \<open>OtherNode\<close>, which the
  program rejects. Templates with \<open>define\<close> blocks are outside of it.
\<close>

section \<open>Template texts\<close>

datatype template_node = TextNode string | FieldNode "string list" | OtherNode

definition template_space :: "char \<Rightarrow> bool" where
  "template_space c \<longleftrightarrow> c = CHR '' '' \<or> c = CHR 0x09 \<or> c = CHR 0x0D \<or> c = nl"

text \<open>\<open>strings.Cut\<close> with a text separator.\<close>

fun cut_text :: "string \<Rightarrow> string \<Rightarrow> (string \<times> string) option" where
  "cut_text sep [] = (if sep = [] then Some ([], []) else None)"
| "cut_text sep (c # s) =
     (if has_prefix (c # s) sep then Some ([], drop (length sep) (c # s))
      else case cut_text sep s of None \<Rightarrow> None | Some (a, b) \<Rightarrow> Some (c # a, b))"

lemma cut_text_Some: "cut_text sep s = Some (a, b) \<Longrightarrow> s = a @ sep @ b"
proof (induction s arbitrary: a)
  case (Cons c s)
  show ?case
  proof (cases "has_prefix (c # s) sep")
    case True
    with Cons.prems show ?thesis by (auto simp: has_prefix_iff)
  next
    case False
    with Cons show ?thesis by (auto split: option.splits)
  qed
qed (auto split: if_splits)

lemma cut_text_shorter: "cut_text sep s = Some (a, b) \<Longrightarrow> sep \<noteq> [] \<Longrightarrow> length b < length s"
  by (drule cut_text_Some) (cases sep, auto)

definition ident_start :: "char \<Rightarrow> bool" where
  "ident_start c \<longleftrightarrow> (let n = (of_char c :: nat) in 65 \<le> n \<and> n \<le> 90 \<or> 97 \<le> n \<and> n \<le> 122 \<or> n = 95)"

definition ident :: "string \<Rightarrow> bool" where
  "ident w \<longleftrightarrow> w \<noteq> [] \<and> ident_start (hd w) \<and> list_all (\<lambda>c. ident_start c \<or> is_digit c) w"

definition trim_template :: "string \<Rightarrow> string" where
  "trim_template s = rev (dropWhile template_space (rev (dropWhile template_space s)))"

text \<open>The node of an action, from the text between its delimiters and trim markers.\<close>

definition action_node :: "string \<Rightarrow> template_node" where
  "action_node content =
     (case split_on (CHR ''.'') (trim_template content) of
        [] # ids \<Rightarrow> if ids \<noteq> [] \<and> list_all ident ids then FieldNode ids else OtherNode
      | _ \<Rightarrow> OtherNode)"

definition text_node :: "string \<Rightarrow> template_node list" where
  "text_node s = (if s = [] then [] else [TextNode s])"

text \<open>The text of an action and its right trim marker.\<close>

definition right_marker :: "string \<Rightarrow> string \<times> bool" where
  "right_marker content = (case rev content of
     m # c # rest \<Rightarrow> if m = CHR ''-'' \<and> template_space c then (rev rest, True) else (content, False)
   | _ \<Rightarrow> (content, False))"

text \<open>What follows a comment: the end of the action, with or without a trim marker.\<close>

definition comment_end :: "string \<Rightarrow> (bool \<times> string) option" where
  "comment_end s =
     (if has_prefix s ''}}'' then Some (False, drop 2 s)
      else case s of
        c # rest \<Rightarrow> if template_space c \<and> has_prefix rest ''-}}'' then Some (True, drop 3 rest) else None
      | [] \<Rightarrow> None)"

lemma comment_end_shorter: "comment_end s = Some (m, r) \<Longrightarrow> length r < length s"
  by (auto simp: comment_end_def has_prefix_iff split: if_splits list.splits)

definition skip_space :: "bool \<Rightarrow> string \<Rightarrow> string" where
  "skip_space m s = (if m then dropWhile template_space s else s)"

lemma length_skip_space: "length (skip_space m s) \<le> length s"
  by (simp add: skip_space_def length_dropWhile_le)

definition left_marker :: "string \<Rightarrow> bool \<times> string" where
  "left_marker s = (case s of
     m # c # rest \<Rightarrow> if m = CHR ''-'' \<and> template_space c then (True, dropWhile template_space (c # rest)) else (False, s)
   | _ \<Rightarrow> (False, s))"

lemma length_left_marker: "length (snd (left_marker s)) \<le> length s"
  by (auto simp: left_marker_def split: list.splits intro: le_SucI le_trans [OF length_dropWhile_le])

function parse_nodes :: "string \<Rightarrow> template_node list option" where
  "parse_nodes s = (case cut_text ''{{'' s of
     None \<Rightarrow> Some (text_node s)
   | Some (t, r) \<Rightarrow>
       (let (trim, body) = left_marker r;
            before = text_node (if trim then rev (dropWhile template_space (rev t)) else t)
        in if has_prefix body ''/*'' then
             (case cut_text ''*/'' (drop 2 body) of
                None \<Rightarrow> None
              | Some (_, after) \<Rightarrow> (case comment_end after of
                  None \<Rightarrow> None
                | Some (m, rest) \<Rightarrow> (case parse_nodes (skip_space m rest) of
                    None \<Rightarrow> None | Some ns \<Rightarrow> Some (before @ ns))))
           else case cut_text ''}}'' body of
             None \<Rightarrow> None
           | Some (content, rest) \<Rightarrow>
               if list_ex (\<lambda>c. c = dq \<or> c = sq \<or> c = CHR 0x60) content then None
               else (let (inner, m) = right_marker content
                 in if trim_template inner = [] then None
                    else case parse_nodes (skip_space m rest) of
                      None \<Rightarrow> None | Some ns \<Rightarrow> Some (before @ action_node inner # ns))))"
  by pat_completeness auto
termination
proof (relation "measure length", goal_cases)
  case (2 s x t r y trim body before z d after u m rest)
  have "length r < length s" using 2 cut_text_shorter [of "''{{''" s t r] by simp
  moreover have "length body \<le> length r" using 2 length_left_marker [of r] by (cases "left_marker r") auto
  moreover have "length after < length (drop 2 body)" using 2 cut_text_shorter [of "''*/''" "drop 2 body" d after] by simp
  moreover have "length rest < length after" using 2 comment_end_shorter [of after m rest] by simp
  ultimately show ?case using length_skip_space [of m rest] by simp
next
  case (3 s x t r y trim body before z content rest u inner m)
  have "length r < length s" using 3 cut_text_shorter [of "''{{''" s t r] by simp
  moreover have "length body \<le> length r" using 3 length_left_marker [of r] by (cases "left_marker r") auto
  moreover have "length rest < length body" using 3 cut_text_shorter [of "''}}''" body content rest] by simp
  ultimately show ?case using length_skip_space [of m rest] by simp
qed simp

declare parse_nodes.simps [simp del]

section \<open>Accepted templates\<close>

definition invalid_template :: go_error where
  "invalid_template = fault_new ''TARGET_INVALID'' False"

text \<open>\<open>validateAction\<close>, on a field chain.\<close>

definition allowed_field :: "string list \<Rightarrow> string list \<Rightarrow> bool" where
  "allowed_field params f \<longleftrightarrow>
     f \<in> {[''Input''], [''Stem''], [''Name''], [''TaskID''], [''WorkDir'']} \<or>
     (\<exists>k\<in>set params. f = [''Params'', k]) \<or>
     f \<in> {[''Partition'', ''Name''], [''Partition'', ''CoresPerNode''], [''Partition'', ''MemoryPerNode'']}"

fun validate_node :: "string list \<Rightarrow> template_node \<Rightarrow> bool" where
  "validate_node params (TextNode t) = True"
| "validate_node params (FieldNode f) = allowed_field params f"
| "validate_node params OtherNode = False"

text \<open>\<open>Validate\<close>; \<open>params\<close> are the declared parameter names.\<close>

definition Validate :: "string \<Rightarrow> string list \<Rightarrow> go_error option" where
  "Validate template params = (case parse_nodes template of
     None \<Rightarrow> Some invalid_template
   | Some ns \<Rightarrow> if list_all (validate_node params) ns then None else Some invalid_template)"

definition UsesEntry :: "string \<Rightarrow> bool" where
  "UsesEntry template = (case parse_nodes template of
     None \<Rightarrow> False
   | Some ns \<Rightarrow> list_ex (\<lambda>n. n = FieldNode [''Input''] \<or> n = FieldNode [''Stem'']) ns)"

section \<open>The data of a template\<close>

record resolved_partition =
  rp_name :: string
  rp_cores :: int
  rp_memory :: string

record source =
  src_project :: string
  src_relative :: string
  src_workdir :: string
  src_entry :: "string option"
  src_kind :: string

record template_data =
  td_input :: string
  td_stem :: string
  td_name :: string
  td_task :: string
  td_workdir :: string
  td_params :: "(string \<times> param_value) list"
  td_partition :: resolved_partition

text \<open>\<open>filepath.Ext\<close>: from the last dot of the last element on.\<close>

definition path_ext :: "string \<Rightarrow> string" where
  "path_ext p = (let e = last (split_on (CHR ''/'') p)
     in case last_index (CHR ''.'') e of None \<Rightarrow> [] | Some i \<Rightarrow> drop i e)"

definition no_partition :: resolved_partition where
  "no_partition = \<lparr>rp_name = [], rp_cores = 0, rp_memory = []\<rparr>"

definition Values :: "source \<Rightarrow> string \<Rightarrow> string \<Rightarrow> string \<Rightarrow> (string \<times> param_value) list \<Rightarrow> template_data" where
  "Values src taskid workdir name params =
     (let input = (case src_entry src of None \<Rightarrow> [] | Some e \<Rightarrow> e)
      in \<lparr>td_input = input, td_stem = take (length input - length (path_ext input)) input, td_name = name,
          td_task = taskid, td_workdir = workdir, td_params = params, td_partition = no_partition\<rparr>)"

definition hasLineBreak :: "string \<Rightarrow> bool" where
  "hasLineBreak v \<longleftrightarrow> CHR 0x0D \<in> set v \<or> nl \<in> set v \<or> nul \<in> set v"

definition shellQuote :: "string \<Rightarrow> string" where
  "shellQuote v = [sq] @ replace_char sq [sq, dq, sq, dq, sq] v @ [sq]"

fun quote_param :: "param_value \<Rightarrow> param_value" where
  "quote_param (StringParam s) = StringParam (shellQuote s)"
| "quote_param v = v"

fun unsafe_param :: "param_value \<Rightarrow> bool" where
  "unsafe_param (StringParam s) = hasLineBreak s"
| "unsafe_param v = False"

definition shellData :: "template_data \<Rightarrow> (go_error, template_data) result" where
  "shellData d =
     (if list_ex hasLineBreak [td_input d, td_stem d, td_name d, td_task d, td_workdir d]
      then Inl (fault_new ''UNSAFE_TEMPLATE_VALUE'' False)
      else if list_ex (\<lambda>(k, v). unsafe_param v) (td_params d) then Inl (fault_new ''UNSAFE_TEMPLATE_VALUE'' False)
      else Inr (d\<lparr>td_input := shellQuote (td_input d), td_stem := shellQuote (td_stem d),
        td_name := shellQuote (td_name d), td_task := shellQuote (td_task d), td_workdir := shellQuote (td_workdir d),
        td_params := map (\<lambda>(k, v). (k, quote_param v)) (td_params d),
        td_partition := (td_partition d)\<lparr>rp_name := shellQuote (rp_name (td_partition d)),
          rp_memory := shellQuote (rp_memory (td_partition d))\<rparr>\<rparr>))"

section \<open>Rendering\<close>

definition int_text :: "int \<Rightarrow> string" where
  "int_text i = (if i < 0 then CHR ''-'' # itoa (nat (- i)) else itoa (nat i))"

text \<open>\<open>fmt.Sprint\<close> of a parameter; a float is kept as its printed form.\<close>

fun param_text :: "param_value \<Rightarrow> string" where
  "param_text (StringParam s) = s"
| "param_text (IntParam i) = int_text i"
| "param_text (FloatParam s) = s"
| "param_text (BoolParam b) = (if b then ''true'' else ''false'')"

text \<open>The value of an accepted field; \<open>None\<close> for a parameter that is missing.\<close>

definition field_text :: "template_data \<Rightarrow> string list \<Rightarrow> string option" where
  "field_text d f =
     (if f = [''Input''] then Some (td_input d) else if f = [''Stem''] then Some (td_stem d)
      else if f = [''Name''] then Some (td_name d) else if f = [''TaskID''] then Some (td_task d)
      else if f = [''WorkDir''] then Some (td_workdir d)
      else if f = [''Partition'', ''Name''] then Some (rp_name (td_partition d))
      else if f = [''Partition'', ''CoresPerNode''] then Some (int_text (rp_cores (td_partition d)))
      else if f = [''Partition'', ''MemoryPerNode''] then Some (rp_memory (td_partition d))
      else case f of
        [a, k] \<Rightarrow> if a = ''Params'' then map_option param_text (map_of (td_params d) k) else None
      | _ \<Rightarrow> None)"

fun node_text :: "template_data \<Rightarrow> template_node \<Rightarrow> string option" where
  "node_text d (TextNode t) = Some t"
| "node_text d (FieldNode f) = field_text d f"
| "node_text d OtherNode = None"

fun nodes_text :: "template_data \<Rightarrow> template_node list \<Rightarrow> string option" where
  "nodes_text d [] = Some []"
| "nodes_text d (n # ns) = (case node_text d n of
     None \<Rightarrow> None | Some t \<Rightarrow> map_option ((@) t) (nodes_text d ns))"

definition RenderString :: "string \<Rightarrow> template_data \<Rightarrow> string option" where
  "RenderString template d = (case parse_nodes template of None \<Rightarrow> None | Some ns \<Rightarrow> nodes_text d ns)"

definition Render :: "string \<Rightarrow> template_data \<Rightarrow> (go_error, string) result" where
  "Render script d = (case parse_nodes script of
     None \<Rightarrow> Inl invalid_template
   | Some ns \<Rightarrow> (case shellData d of
       Inl e \<Rightarrow> Inl e
     | Inr safe \<Rightarrow> (case nodes_text safe ns of None \<Rightarrow> Inl invalid_template | Some out \<Rightarrow> Inr out)))"

section \<open>Quoted values\<close>

interpretation template_quote: shell_quoting shellQuote
proof unfold_locales
  show "sh_lex Bare w (shellQuote v @ rest) = sh_lex Bare (Some ((case w of None \<Rightarrow> [] | Some x \<Rightarrow> x) @ v)) rest" for w v rest
    using remote_quote.quote_reads [of w v rest] by (simp add: shellQuote_def Quote_def)
qed

text \<open>The fields that print a number or a truth value, which are not quoted.\<close>

definition plain_field :: "template_data \<Rightarrow> string list \<Rightarrow> bool" where
  "plain_field d f \<longleftrightarrow> f = [''Partition'', ''CoresPerNode''] \<or>
     (\<exists>k v. f = [''Params'', k] \<and> map_of (td_params d) k = Some v \<and> (\<forall>s. v \<noteq> StringParam s))"

definition partition_text :: "string list \<Rightarrow> bool" where
  "partition_text f \<longleftrightarrow> f = [''Partition'', ''Name''] \<or> f = [''Partition'', ''MemoryPerNode'']"

text \<open>How a node of the script appears in the output.\<close>

definition rendered_as :: "template_data \<Rightarrow> template_node \<Rightarrow> string \<Rightarrow> bool" where
  "rendered_as d n out = (case n of
     TextNode t \<Rightarrow> out = t
   | FieldNode f \<Rightarrow> (\<exists>v. field_text d f = Some v \<and>
       (if plain_field d f then out = v
        else out = shellQuote v \<and> sh_words out = Some [v] \<and> (\<not> partition_text f \<longrightarrow> \<not> hasLineBreak v)))
   | OtherNode \<Rightarrow> False)"

lemma map_of_quote: "map_of (map (\<lambda>(k, v). (k, quote_param v)) ps) k = map_option quote_param (map_of ps k)"
  by (induction ps) auto

lemma safe_param: "list_ex (\<lambda>(k, v). unsafe_param v) ps = False \<Longrightarrow> map_of ps k = Some v \<Longrightarrow> \<not> unsafe_param v"
  using map_of_SomeD [of ps k v] by (auto simp: list_ex_iff)

lemma node_rendered:
  assumes "shellData d = Inr safe" and "node_text safe n = Some out"
  shows "rendered_as d n out"
proof (cases n)
  case (FieldNode f)
  from assms(1) have nb: "\<not> hasLineBreak (td_input d)" "\<not> hasLineBreak (td_stem d)" "\<not> hasLineBreak (td_name d)"
    "\<not> hasLineBreak (td_task d)" "\<not> hasLineBreak (td_workdir d)"
    and ps: "list_ex (\<lambda>(k, v). unsafe_param v) (td_params d) = False"
    by (auto simp: shellData_def split: if_splits)
  from assms(1) have safe: "safe = d\<lparr>td_input := shellQuote (td_input d), td_stem := shellQuote (td_stem d),
        td_name := shellQuote (td_name d), td_task := shellQuote (td_task d), td_workdir := shellQuote (td_workdir d),
        td_params := map (\<lambda>(k, v). (k, quote_param v)) (td_params d),
        td_partition := (td_partition d)\<lparr>rp_name := shellQuote (rp_name (td_partition d)),
          rp_memory := shellQuote (rp_memory (td_partition d))\<rparr>\<rparr>"
    by (simp add: shellData_def split: if_splits)
  from assms(2) FieldNode have t: "field_text safe f = Some out" by simp
  show ?thesis
  proof (cases "\<exists>k. f = [''Params'', k]")
    case True
    then obtain k where k: "f = [''Params'', k]" by blast
    from t k safe obtain v where v: "map_of (td_params d) k = Some v" "out = param_text (quote_param v)"
      by (auto simp: field_text_def map_of_quote)
    then show ?thesis using safe_param [OF ps v(1)] FieldNode k
      by (cases v) (auto simp: rendered_as_def field_text_def plain_field_def template_quote.quoted_word)
  next
    case False
    then have "\<not> plain_field d f \<or> f = [''Partition'', ''CoresPerNode'']" by (auto simp: plain_field_def)
    with False t nb safe FieldNode show ?thesis
      by (auto simp: rendered_as_def field_text_def template_quote.quoted_word partition_text_def plain_field_def
          split: if_splits list.splits)
  qed
qed (use assms(2) in \<open>auto simp: rendered_as_def\<close>)

lemma nodes_rendered:
  assumes "shellData d = Inr safe"
  shows "nodes_text safe ns = Some out \<Longrightarrow> \<exists>ps. out = concat ps \<and> list_all2 (rendered_as d) ns ps"
proof (induction ns arbitrary: out)
  case (Cons n ns)
  from Cons.prems obtain t u where t: "node_text safe n = Some t" "nodes_text safe ns = Some u" "out = t @ u"
    by (auto split: option.splits)
  from Cons.IH [OF t(2)] obtain ps where "u = concat ps" "list_all2 (rendered_as d) ns ps" by blast
  with t(3) node_rendered [OF assms t(1)] show ?case by (intro exI [of _ "t # ps"]) simp
qed simp

text \<open>
  C29. Values stay values in a job script. A rendered script is the text of the template
  with each field replaced: numbers and truth values as printed, every other value as
  exactly one shell word that reads as the value, whatever characters it has; and only the
  partition's name and memory may hold a line break.
\<close>

theorem rendered_values_are_words:
  assumes "Render script d = Inr out"
  shows "\<exists>ns ps. parse_nodes script = Some ns \<and> out = concat ps \<and> list_all2 (rendered_as d) ns ps"
proof -
  from assms obtain ns safe where "parse_nodes script = Some ns" "shellData d = Inr safe" "nodes_text safe ns = Some out"
    by (auto simp: Render_def split: option.splits sum.splits)
  with nodes_rendered [of d safe ns out] show ?thesis by blast
qed

lemma sample_template: "parse_nodes ''run {{ .Input }}'' = Some [TextNode ''run '', FieldNode [''Input'']]"
  by code_simp

definition sample_data :: template_data where
  "sample_data = Values \<lparr>src_project = ''p'', src_relative = ''a/it is.inp'', src_workdir = ''a'',
     src_entry = Some ''it is.inp'', src_kind = ''file''\<rparr> ''jr_1'' ''/r/jr_1/work'' ''a'' []"

theorem rendered_values_are_words_witness:
  "\<exists>ns ps. parse_nodes ''run {{ .Input }}'' = Some ns \<and> concat ps = ''run '' @ shellQuote ''it is.inp'' \<and>
     list_all2 (rendered_as sample_data) ns ps"
proof -
  have "Render ''run {{ .Input }}'' sample_data = Inr (''run '' @ shellQuote ''it is.inp'')"
    unfolding Render_def sample_template
    by (simp add: shellData_def hasLineBreak_def sample_data_def Values_def path_ext_def last_index_def field_text_def Let_def)
  from rendered_values_are_words [OF this] show ?thesis by metis
qed

end
