(* ===== verification/Project_Sources.thy ===== *)
theory Project_Sources
  imports Job_Template Go_Paths
begin

text \<open>
  Finding the project and the source of a task (\<open>internal/project/project.go\<close> and
  \<open>internal/source/source.go\<close>). The file system is a parameter: what \<open>os.Stat\<close>, \<open>os.ReadFile\<close>
  with the YAML decoder, and \<open>os.SameFile\<close> answer for an absolute path.
\<close>

section \<open>Absolute and relative paths\<close>

text \<open>\<open>filepath.Abs\<close> in the process's directory \<open>wd\<close>, \<open>filepath.Dir\<close>, and \<open>filepath.Rel\<close> of absolute paths.\<close>

definition path_abs :: "string \<Rightarrow> string \<Rightarrow> string" where
  "path_abs wd p = (if path_is_abs p then path_clean p else path_join [wd, p])"

definition path_dir :: "string \<Rightarrow> string" where
  "path_dir p = (case last_index (CHR ''/'') p of None \<Rightarrow> ''.'' | Some i \<Rightarrow> path_clean (take (Suc i) p))"

fun common_prefix :: "string list \<Rightarrow> string list \<Rightarrow> nat" where
  "common_prefix (x # xs) (y # ys) = (if x = y then Suc (common_prefix xs ys) else 0)"
| "common_prefix _ _ = 0"

definition rel_elems :: "string list \<Rightarrow> string list \<Rightarrow> string list" where
  "rel_elems b t = (let n = common_prefix b t in replicate (length b - n) ''..'' @ drop n t)"

definition path_rel :: "string \<Rightarrow> string \<Rightarrow> string" where
  "path_rel b t = (let es = rel_elems (path_elems b) (path_elems t) in if es = [] then ''.'' else join_with ''/'' es)"

section \<open>The file system\<close>

record file_system =
  fs_wd :: string
  fs_is_dir :: "string \<Rightarrow> (go_error, bool) result"
  fs_same_file :: "string \<Rightarrow> string \<Rightarrow> bool"
  fs_project :: "string \<Rightarrow> (go_error, (go_error, int \<times> string) result) result option"
  fs_dir_names :: "string \<Rightarrow> (go_error, (string \<times> bool) list) result"
  fs_ignore_file :: "string \<Rightarrow> string option"

text \<open>
  \<open>fs_project root\<close> is \<open>None\<close> when \<open>.joyrun/project.yaml\<close> below \<open>root\<close> cannot be examined; then the
  answer of reading it; then the answer of decoding it to a version and an id.
\<close>

definition Load_project :: "file_system \<Rightarrow> string \<Rightarrow> (go_error, project) result" where
  "Load_project fs root = (case fs_project fs root of
     None \<Rightarrow> Inl (fault_new ''PROJECT_NOT_FOUND'' False)
   | Some (Inl e) \<Rightarrow> Inl (fault_wrap ''PROJECT_NOT_FOUND'' [] False e)
   | Some (Inr (Inl e)) \<Rightarrow> Inl (fault_wrap ''PROJECT_INVALID'' [] False e)
   | Some (Inr (Inr (version, i))) \<Rightarrow>
       if version \<noteq> 1 \<or> i = [] then Inl (fault_new ''PROJECT_INVALID'' False)
       else Inr \<lparr>proj_id = i, proj_root = path_abs (fs_wd fs) root\<rparr>)"

text \<open>The loop of \<open>Discover\<close>, on the elements of the current directory, the last one in front.\<close>

fun discover_up :: "file_system \<Rightarrow> string list \<Rightarrow> (go_error, project) result" where
  "discover_up fs es =
     (if fs_project fs (abs_path (rev es)) \<noteq> None then Load_project fs (abs_path (rev es))
      else case es of
        [] \<Rightarrow> Inl (fault_new ''PROJECT_NOT_FOUND'' False)
      | _ # parent \<Rightarrow> discover_up fs parent)"

declare discover_up.simps [simp del]

definition Discover :: "file_system \<Rightarrow> string \<Rightarrow> (go_error, project) result" where
  "Discover fs start =
     (let current = path_abs (fs_wd fs) start; es = rev (path_elems current)
      in discover_up fs (if fs_is_dir fs current = Inr False then tl es else es))"

definition resolveFrom :: "string \<Rightarrow> string \<Rightarrow> string" where
  "resolveFrom cwd v = (if path_is_abs v then v else path_join [cwd, v])"

section \<open>The source\<close>

text \<open>\<open>source.Resolve\<close>: the source and its absolute work directory.\<close>

definition Resolve :: "file_system \<Rightarrow> project \<Rightarrow> string \<Rightarrow> (go_error, source \<times> string) result" where
  "Resolve fs p path =
     (let absolute = (if path_is_abs path then path else path_abs (fs_wd fs) path)
      in case fs_is_dir fs absolute of
           Inl e \<Rightarrow> Inl (fault_wrap ''SOURCE_NOT_FOUND'' [] False e)
         | Inr dir \<Rightarrow>
             (let rel = path_rel (proj_root p) absolute
              in if rel = ''..'' \<or> has_prefix rel ''../'' then Inl (fault_new ''SOURCE_OUTSIDE_PROJECT'' False)
                 else (let relative = path_clean rel;
                           workdir = (if dir then relative else path_dir relative)
                   in Inr (\<lparr>src_project = proj_id p, src_relative = relative,
                           src_workdir = (if workdir = ''.'' then [] else workdir),
                           src_entry = (if dir then None else Some (path_base relative)),
                           src_kind = (if dir then ''directory'' else ''file'')\<rparr>,
                        if dir then absolute else path_dir absolute))))"

definition sameDirectory :: "file_system \<Rightarrow> string \<Rightarrow> string \<Rightarrow> bool" where
  "sameDirectory fs a b = (case (fs_is_dir fs a, fs_is_dir fs b) of
     (Inr _, Inr _) \<Rightarrow> fs_same_file fs a b
   | _ \<Rightarrow> path_abs (fs_wd fs) a = path_abs (fs_wd fs) b)"

text \<open>\<open>ensureProjectIgnore\<close>: the content that is written, or nothing.\<close>

definition ensured_ignore :: "string option \<Rightarrow> string option" where
  "ensured_ignore content = (case content of
     None \<Rightarrow> Some (''project.yaml'' @ [nl])
   | Some s \<Rightarrow>
       if list_ex (\<lambda>l. trim_space l = ''project.yaml'') (split_on nl s) then None
       else Some ((if s \<noteq> [] \<and> last s \<noteq> nl then s @ [nl] else s) @ ''project.yaml'' @ [nl]))"

section \<open>A resolved source lies in the project\<close>

lemma common_prefix_le: "common_prefix b t \<le> length b" "common_prefix b t \<le> length t"
  by (induction b t rule: common_prefix.induct) auto

lemma common_prefix_take: "take (common_prefix b t) b = take (common_prefix b t) t"
  by (induction b t rule: common_prefix.induct) auto

text \<open>Not starting with a parent reference means that the base is a prefix.\<close>

lemma rel_elems_inside:
  assumes "\<forall>e\<in>set t. plain_elem e" and "rel_elems b t \<noteq> []" and "rel = join_with ''/'' (rel_elems b t)"
    and "rel \<noteq> ''..''" and "\<not> has_prefix rel ''../''"
  shows "t = b @ rel_elems b t"
proof -
  let ?n = "common_prefix b t"
  have "length b - ?n = 0"
  proof (rule ccontr)
    assume "length b - ?n \<noteq> 0"
    then obtain rest where r: "rel_elems b t = ''..'' # rest"
      by (cases "length b - ?n") (auto simp: rel_elems_def Let_def)
    with assms(3-5) show False by (cases rest) (auto simp: join_with_Cons has_prefix_iff)
  qed
  then have n: "?n = length b" using common_prefix_le(1) [of b t] by simp
  then have "rel_elems b t = drop (length b) t" by (simp add: rel_elems_def)
  moreover have "take (length b) t = b" using common_prefix_take [of b t] n by simp
  ultimately show ?thesis by (metis append_take_drop_id)
qed

text \<open>
  C33. A source lies in its project. When \<open>Resolve\<close> succeeds, the path of the source is the
  root of the project followed by the relative path that is stored, which is the project
  itself or a sequence of plain names without parent references.
\<close>

theorem source_inside_project:
  assumes "Resolve fs p path = Inr (src, dir)" and "path_is_abs path" and "path_is_abs (proj_root p)"
  shows "\<exists>es. path_elems path = path_elems (proj_root p) @ es \<and> (\<forall>e\<in>set es. plain_elem e) \<and>
    src_relative src = (if es = [] then ''.'' else join_with ''/'' es) \<and> src_project src = proj_id p"
proof -
  let ?b = "path_elems (proj_root p)" and ?t = "path_elems path"
  let ?es = "rel_elems ?b ?t"
  have t: "\<forall>e\<in>set ?t. plain_elem e" using path_elems_plain [OF assms(2)] by blast
  have rel: "path_rel (proj_root p) path \<noteq> ''..''" "\<not> has_prefix (path_rel (proj_root p) path) ''../''"
    "src_relative src = path_clean (path_rel (proj_root p) path)" "src_project src = proj_id p"
    using assms(1,2) by (auto simp: Resolve_def Let_def split: sum.splits if_splits)
  show ?thesis
  proof (cases "?es = []")
    case True
    then have "?t = ?b"
      using common_prefix_le [of ?b ?t] common_prefix_take [of ?b ?t] by (simp add: rel_elems_def Let_def)
    moreover have "path_clean ''.'' = ''.''" by (simp add: path_clean_def path_elems_def)
    ultimately show ?thesis using rel True by (intro exI [of _ "[]"]) (simp add: path_rel_def)
  next
    case False
    then have r: "path_rel (proj_root p) path = join_with ''/'' ?es" by (simp add: path_rel_def Let_def)
    have i: "?t = ?b @ ?es" by (rule rel_elems_inside [OF t False r rel(1,2)])
    then have pl: "\<forall>e\<in>set ?es. plain_elem e" using t by (metis Un_iff set_append)
    from i pl False rel(3,4) r clean_rel [OF False pl] show ?thesis by (intro exI [of _ ?es]) simp
  qed
qed

definition sample_files :: file_system where
  "sample_files = \<lparr>fs_wd = ''/p'', fs_is_dir = (\<lambda>f. Inr (f \<noteq> ''/p/a/in.dat'')), fs_same_file = (=),
     fs_project = (\<lambda>d. if d = ''/p'' then Some (Inr (Inr (1, ''pj''))) else None),
     fs_dir_names = (\<lambda>d. Inr [(''in.dat'', False)]), fs_ignore_file = (\<lambda>d. None)\<rparr>"

lemma sample_discover: "Discover sample_files ''/p/a'' = Inr \<lparr>proj_id = ''pj'', proj_root = ''/p''\<rparr>"
  by (simp add: Discover_def sample_files_def path_abs_def path_is_abs_def path_clean_def path_elems_def
      discover_up.simps abs_path_def Load_project_def)

lemma sample_resolve: "Resolve sample_files \<lparr>proj_id = ''pj'', proj_root = ''/p''\<rparr> ''/p/a/in.dat'' =
    Inr (\<lparr>src_project = ''pj'', src_relative = ''a/in.dat'', src_workdir = ''a'', src_entry = Some ''in.dat'',
      src_kind = ''file''\<rparr>, ''/p/a'')"
  by (simp add: Resolve_def sample_files_def path_is_abs_def path_rel_def rel_elems_def path_elems_def path_clean_def
      path_dir_def last_index_def path_base_def Let_def)

theorem source_inside_project_witness:
  "\<exists>es. path_elems ''/p/a/in.dat'' = path_elems ''/p'' @ es \<and> (\<forall>e\<in>set es. plain_elem e) \<and> es \<noteq> []"
proof -
  from source_inside_project [OF sample_resolve] obtain es where
    "path_elems ''/p/a/in.dat'' = path_elems ''/p'' @ es" "\<forall>e\<in>set es. plain_elem e"
    "''a/in.dat'' = (if es = [] then ''.'' else join_with ''/'' es)" by (auto simp: path_is_abs_def)
  then show ?thesis by (intro exI [of _ es]) auto
qed

end
