(* ===== verification/Glob_Match.thy ===== *)
theory Glob_Match
  imports Go_Paths
begin

text \<open>
  Go's \<open>path.Match\<close>, as the program uses it for file patterns: the pattern is cut into
  chunks that start after a star, each chunk is compared with the text in front, and a star
  skips to the first place where its chunk fits. \<open>None\<close> is \<open>ErrBadPattern\<close>. A character is
  one byte, which is exact for patterns and names in ASCII.
\<close>

definition bad_range_start :: "char \<Rightarrow> bool" where
  "bad_range_start c \<longleftrightarrow> c = CHR ''-'' \<or> c = CHR '']''"

text \<open>One bound of a range of a character class, and the text behind it.\<close>

definition get_esc :: "string \<Rightarrow> (char \<times> string) option" where
  "get_esc s = (case s of
     [] \<Rightarrow> None
   | c # r \<Rightarrow>
       if bad_range_start c then None
       else if c = CHR 0x5C then
         (case r of [] \<Rightarrow> None | d # r' \<Rightarrow> if r' = [] then None else Some (d, r'))
       else if r = [] then None else Some (c, r))"

lemma get_esc_shorter: "get_esc s = Some (c, r) \<Longrightarrow> length r < length s \<and> r \<noteq> []"
  by (auto simp: get_esc_def split: list.splits if_splits)

lemma get_esc_twice:
  assumes "get_esc s = Some (lo, s1)" and "get_esc (tl s1) = Some (hi, s2)"
  shows "length s2 < length s"
  using get_esc_shorter [OF assms(1)] get_esc_shorter [OF assms(2)] by (cases s1) auto

abbreviation char_code :: "char \<Rightarrow> nat" where
  "char_code c \<equiv> of_char c"

text \<open>The ranges of a class up to its closing bracket; \<open>n\<close> counts them.\<close>

function class_ranges :: "char \<Rightarrow> nat \<Rightarrow> bool \<Rightarrow> string \<Rightarrow> (bool \<times> string) option" where
  "class_ranges r n m s =
     (if 0 < n \<and> s \<noteq> [] \<and> hd s = CHR '']'' then Some (m, tl s)
      else case get_esc s of
        None \<Rightarrow> None
      | Some (lo, s1) \<Rightarrow>
          if hd s1 = CHR ''-'' then
            (case get_esc (tl s1) of
               None \<Rightarrow> None
             | Some (hi, s2) \<Rightarrow>
                 class_ranges r (Suc n) (m \<or> char_code lo \<le> char_code r \<and> char_code r \<le> char_code hi) s2)
          else class_ranges r (Suc n) (m \<or> r = lo) s1)"
  by pat_completeness auto
termination
  by (relation "measure (\<lambda>(r, n, m, s). length s)") (auto dest: get_esc_shorter get_esc_twice)

declare class_ranges.simps [simp del]

lemma class_ranges_shorter: "class_ranges r n m s = Some (b, t) \<Longrightarrow> length t < length s"
proof (induction r n m s rule: class_ranges.induct)
  case (1 r n m s)
  show ?case
  proof (cases "0 < n \<and> s \<noteq> [] \<and> hd s = CHR '']''")
    case True
    with 1(3) show ?thesis by (cases s) (auto simp: class_ranges.simps)
  next
    case F: False
    with 1(3) obtain lo s1 where g: "get_esc s = Some (lo, s1)"
      by (subst (asm) class_ranges.simps) (auto split: option.splits)
    note l = get_esc_shorter [OF g]
    show ?thesis
    proof (cases "hd s1 = CHR ''-''")
      case True
      with 1(3) F g obtain hi s2 where g2: "get_esc (tl s1) = Some (hi, s2)"
        "class_ranges r (Suc n) (m \<or> char_code lo \<le> char_code r \<and> char_code r \<le> char_code hi) s2 = Some (b, t)"
        by (subst (asm) class_ranges.simps) (auto split: option.splits)
      from 1(1) [OF F g refl True g2(1) refl g2(2)] get_esc_shorter [OF g2(1)]
      have "length t < length (tl s1)" by linarith
      with l show ?thesis by (cases s1) auto
    next
      case False
      with 1(3) F g have "class_ranges r (Suc n) (m \<or> r = lo) s1 = Some (b, t)"
        by (subst (asm) class_ranges.simps) simp
      from 1(2) [OF F g refl False this] l show ?thesis by simp
    qed
  qed
qed

lemma class_ranges_tail:
  "class_ranges r n m rest = Some (b, t) \<Longrightarrow> length t < Suc (length rest)"
  "class_ranges r n m (tl rest) = Some (b, t) \<Longrightarrow> length t < Suc (length rest)"
  "class_ranges r n m [] = Some (b, t) \<Longrightarrow> t = []"
  using class_ranges_shorter [of r n m rest b t] class_ranges_shorter [of r n m "tl rest" b t]
    class_ranges_shorter [of r n m "[]" b t] by simp_all

text \<open>
  A chunk against the text in front. A mismatch is remembered and the rest of the chunk is
  still read, so that a malformed chunk is reported. The result is the rest of the text.
\<close>

function match_chunk :: "string \<Rightarrow> string \<Rightarrow> bool \<Rightarrow> string option option" where
  "match_chunk [] s failed = Some (if failed then None else Some s)"
| "match_chunk (c # rest) s failed0 =
     (let failed = failed0 \<or> s = []
      in if c = CHR ''['' then
           (let negated = (rest \<noteq> [] \<and> hd rest = CHR ''^'')
            in case class_ranges (if failed then CHR 0x00 else hd s) 0 False (if negated then tl rest else rest) of
                 None \<Rightarrow> None
               | Some (m, rest') \<Rightarrow> match_chunk rest' (if failed then s else tl s) (failed \<or> m = negated))
         else if c = CHR ''?'' then match_chunk rest (if failed then s else tl s) (failed \<or> hd s = CHR ''/'')
         else if c = CHR 0x5C then
           (case rest of
              [] \<Rightarrow> None
            | d # rest' \<Rightarrow> match_chunk rest' (if failed then s else tl s) (failed \<or> d \<noteq> hd s))
         else match_chunk rest (if failed then s else tl s) (failed \<or> c \<noteq> hd s))"
  by pat_completeness auto
termination
  by (relation "measure (\<lambda>(chunk, s, failed). length chunk)") (auto dest: class_ranges_tail split: if_splits)

text \<open>The chunk in front, up to a star outside of a class, and what follows.\<close>

fun take_chunk :: "bool \<Rightarrow> string \<Rightarrow> string \<times> string" where
  "take_chunk inrange [] = ([], [])"
| "take_chunk inrange (c # s) =
     (if c = CHR 0x5C then
        (case s of [] \<Rightarrow> ([c], [])
         | d # s' \<Rightarrow> (case take_chunk inrange s' of (a, b) \<Rightarrow> (c # d # a, b)))
      else if c = CHR ''*'' \<and> \<not> inrange then ([], c # s)
      else (case take_chunk (c = CHR ''['' \<or> c \<noteq> CHR '']'' \<and> inrange) s of (a, b) \<Rightarrow> (c # a, b)))"

definition scan_chunk :: "string \<Rightarrow> bool \<times> string \<times> string" where
  "scan_chunk p = (let q = dropWhile (\<lambda>c. c = CHR ''*'') p in (q \<noteq> p, take_chunk False q))"

lemma take_chunk_append: "take_chunk i s = (a, b) \<Longrightarrow> s = a @ b"
  by (induction i s arbitrary: a b rule: take_chunk.induct) (auto split: if_splits list.splits prod.splits)

lemma scan_chunk_shorter:
  assumes "scan_chunk p = (star, chunk, rest)" and "p \<noteq> []"
  shows "length rest < length p"
proof -
  let ?q = "dropWhile (\<lambda>c. c = CHR ''*'') p"
  have t: "take_chunk False ?q = (chunk, rest)" using assms(1) by (simp add: scan_chunk_def Let_def)
  then have "?q = chunk @ rest" by (rule take_chunk_append)
  moreover have "length ?q \<le> length p" by (rule length_dropWhile_le)
  moreover have "?q = p \<Longrightarrow> chunk \<noteq> []"
  proof -
    assume "?q = p"
    then have "hd p \<noteq> CHR ''*''" using assms(2) hd_dropWhile [of "\<lambda>c. c = CHR ''*''" p] by simp
    then obtain c s where p: "p = c # s" "c \<noteq> CHR ''*''" using assms(2) by (cases p) auto
    then show "chunk \<noteq> []" using t \<open>?q = p\<close> by (auto simp del: dropWhile.simps split: if_splits list.splits prod.splits)
  qed
  moreover have "?q \<noteq> p \<Longrightarrow> length ?q < length p"
    using calculation(2) by (metis le_neq_implies_less length_dropWhile_le takeWhile_dropWhile_id
        append_eq_append_conv append_Nil)
  ultimately show ?thesis by (cases "?q = p") auto
qed

function later_chunks_valid :: "string \<Rightarrow> bool" where
  "later_chunks_valid p =
     (if p = [] then True
      else case scan_chunk p of (star, chunk, rest) \<Rightarrow>
        if match_chunk chunk [] False = None then False else later_chunks_valid rest)"
  by pat_completeness auto
termination
  by (relation "measure length") (auto dest: scan_chunk_shorter [OF sym])

text \<open>A star skips bytes other than slashes until its chunk fits; the last chunk must fit at the end.\<close>

fun star_search :: "string \<Rightarrow> bool \<Rightarrow> string \<Rightarrow> string option option" where
  "star_search chunk final [] = Some None"
| "star_search chunk final (c # name) =
     (if c = CHR ''/'' then Some None
      else case match_chunk chunk name False of
        None \<Rightarrow> None
      | Some None \<Rightarrow> star_search chunk final name
      | Some (Some t) \<Rightarrow> if final \<and> t \<noteq> [] then star_search chunk final name else Some (Some t))"

function path_match :: "string \<Rightarrow> string \<Rightarrow> bool option" where
  "path_match p name =
     (if p = [] then Some (name = [])
      else case scan_chunk p of (star, chunk, rest) \<Rightarrow>
        if star \<and> chunk = [] then Some (CHR ''/'' \<notin> set name)
        else
          (let failed = (if later_chunks_valid rest then Some False else None)
           in case match_chunk chunk name False of
                None \<Rightarrow> None
              | Some m \<Rightarrow>
                  if m \<noteq> None \<and> (the m = [] \<or> rest \<noteq> []) then path_match rest (the m)
                  else if star then
                    (case star_search chunk (rest = []) name of
                       None \<Rightarrow> None
                     | Some None \<Rightarrow> failed
                     | Some (Some t) \<Rightarrow> path_match rest t)
                  else failed))"
  by pat_completeness auto
termination
  by (relation "measure (\<lambda>(p, name). length p)") (auto dest: scan_chunk_shorter [OF sym])

declare later_chunks_valid.simps [simp del] path_match.simps [simp del]

section \<open>Patterns without special characters, and suffix patterns\<close>

definition glob_plain :: "string \<Rightarrow> bool" where
  "glob_plain s \<longleftrightarrow> (\<forall>c\<in>set s. c \<noteq> CHR ''*'' \<and> c \<noteq> CHR ''?'' \<and> c \<noteq> CHR ''['' \<and> c \<noteq> CHR 0x5C)"

lemma match_chunk_failed_plain: "glob_plain chunk \<Longrightarrow> match_chunk chunk s True = Some None"
  by (induction chunk arbitrary: s) (auto simp: glob_plain_def Let_def)

lemma match_chunk_plain:
  "glob_plain chunk \<Longrightarrow> match_chunk chunk s False =
     Some (if has_prefix s chunk then Some (drop (length chunk) s) else None)"
proof (induction chunk arbitrary: s)
  case (Cons c chunk)
  then have p: "glob_plain chunk" by (simp add: glob_plain_def)
  show ?case
  proof (cases s)
    case Nil
    with Cons.prems match_chunk_failed_plain [OF p] show ?thesis by (simp add: glob_plain_def Let_def)
  next
    case (Cons d s')
    with Cons.prems Cons.IH [OF p, of s'] match_chunk_failed_plain [OF p] show ?thesis
      by (cases "c = d") (simp_all add: glob_plain_def Let_def)
  qed
qed simp

lemma take_chunk_plain: "glob_plain p \<Longrightarrow> take_chunk i p = (p, [])"
  by (induction i p rule: take_chunk.induct) (auto simp: glob_plain_def split: list.splits)

lemma scan_chunk_plain: "glob_plain p \<Longrightarrow> scan_chunk p = (False, p, [])"
proof -
  assume g: "glob_plain p"
  then have "dropWhile (\<lambda>c. c = CHR ''*'') p = p"
    by (cases p) (auto simp: glob_plain_def)
  with g show ?thesis by (simp add: scan_chunk_def take_chunk_plain)
qed

lemma later_chunks_valid_Nil [simp]: "later_chunks_valid []"
  by (subst later_chunks_valid.simps) simp

lemma path_match_Nil [simp]: "path_match [] name = Some (name = [])"
  by (subst path_match.simps) simp

lemma path_match_plain: "glob_plain p \<Longrightarrow> path_match p name = Some (p = name)"
proof (cases "p = []")
  case False
  assume g: "glob_plain p"
  have "has_prefix name p \<and> drop (length p) name = [] \<longleftrightarrow> p = name"
    by (auto simp: has_prefix_iff)
  with g False show ?thesis
    by (subst path_match.simps) (auto simp: scan_chunk_plain match_chunk_plain Let_def)
qed auto

end
