(* ===== verification/Configuration.thy ===== *)
theory Configuration
  imports Job_Template Glob_Match "HOL-Library.AList"
begin

text \<open>
  \<open>internal/config/config.go\<close>: sizes, parameters, partitions, and the validation of a decoded
  configuration (\<open>Load\<close> after the YAML decoder). A Go map that is ranged over is the list of its
  entries in the order of the iteration. A YAML value of a parameter is kept as the text
  \<open>fmt.Sprint\<close> prints, the only way the code reads it. \<open>parse_float\<close> is \<open>strconv.ParseFloat\<close>
  for a finite number, with the text it is printed as.
\<close>

section \<open>The configuration\<close>

record param_spec =
  ps_type :: string
  ps_default :: "string option"
  ps_required :: bool
  ps_choices :: "string list"

record target =
  tg_cluster :: string
  software_name :: string
  software_version :: string
  default_partition :: string
  allowed_partitions :: "string list"
  kind_of_source :: string
  source_patterns :: "string list"
  tg_params :: "(string \<times> param_spec) list"
  tg_script :: string
  push_mode :: string
  push_include :: "string list"
  push_exclude :: "string list"
  push_max_files :: int
  push_max_size :: string
  pull_default :: "string list"
  tg_logs :: "string list"

record raw_cluster =
  rw_host :: string
  rw_scheduler :: string
  rw_root :: string
  rw_transfer :: string
  rw_partitions :: "(string \<times> partition) list"

record raw_config =
  rw_version :: int
  rw_clusters :: "(string \<times> raw_cluster) list"
  rw_targets :: "(string \<times> target) list"

record config =
  cfg_clusters :: "string \<rightharpoonup> cluster"
  cfg_targets :: "string \<rightharpoonup> target"

section \<open>Sizes\<close>

definition max_int64 :: int where
  "max_int64 = 2 ^ 63 - 1"

text \<open>The units in upper case.\<close>

definition byte_units :: "(string \<times> int) list" where
  "byte_units = [([], 1), (''B'', 1), (''K'', 2 ^ 10), (''M'', 2 ^ 20), (''G'', 2 ^ 30), (''T'', 2 ^ 40),
     (''KB'', 1000), (''MB'', 1000 ^ 2), (''GB'', 1000 ^ 3), (''TB'', 1000 ^ 4),
     (''KIB'', 2 ^ 10), (''MIB'', 2 ^ 20), (''GIB'', 2 ^ 30), (''TIB'', 2 ^ 40)]"

text \<open>
  The KELVIN SIGN (U+212A) folds to the letter K: the case-insensitive expression matches
  it, \<open>strings.ToUpper\<close> keeps it, and the map of multipliers has no such key and yields 0.
\<close>

definition kelvin_sign :: string where
  "kelvin_sign = [CHR 0xE2, CHR 0x84, CHR 0xAA]"

definition unit_multiplier :: "string \<Rightarrow> int option" where
  "unit_multiplier u = (case map_of byte_units (to_upper u) of
     Some m \<Rightarrow> Some m
   | None \<Rightarrow> if has_prefix u kelvin_sign \<and> to_upper (drop 3 u) \<in> {[], ''B'', ''IB''} then Some 0 else None)"

text \<open>\<open>ParseByteSize\<close>; \<open>None\<close> is the panic of an integer division by zero.\<close>

definition ParseByteSize :: "string \<Rightarrow> (go_error, int) result option" where
  "ParseByteSize raw =
     (let s = trim_space raw; digits = takeWhile is_digit s
      in if digits = [] \<or> hd digits = CHR ''0'' then Some (Inl (PlainError ''size must be a positive integer''))
         else case unit_multiplier (drop (length digits) s) of
           None \<Rightarrow> Some (Inl (PlainError ''size must be a positive integer''))
         | Some m \<Rightarrow> (case parse_int64 digits of
             None \<Rightarrow> Some (Inl (PlainError ''value out of range''))
           | Some v \<Rightarrow>
               if m = 0 then None
               else if max_int64 div m < v then Some (Inl (PlainError ''size exceeds the supported range''))
               else Some (Inr (v * m))))"

section \<open>Parameters\<close>

definition parse_bool :: "string \<Rightarrow> bool option" where
  "parse_bool s =
     (if s \<in> {''1'', ''t'', ''T'', ''true'', ''TRUE'', ''True''} then Some True
      else if s \<in> {''0'', ''f'', ''F'', ''false'', ''FALSE'', ''False''} then Some False
      else None)"

definition convert :: "(string \<Rightarrow> string option) \<Rightarrow> string \<Rightarrow> string \<Rightarrow> param_value option" where
  "convert parse_float kind raw =
     (if kind = ''string'' then Some (StringParam raw)
      else if kind = ''int'' then map_option IntParam (parse_int64 raw)
      else if kind = ''float'' then map_option FloatParam (parse_float raw)
      else if kind = ''bool'' then map_option BoolParam (parse_bool raw)
      else None)"

definition choiceAllowed :: "(string \<Rightarrow> string option) \<Rightarrow> param_value \<Rightarrow> string list \<Rightarrow> string \<Rightarrow> bool" where
  "choiceAllowed parse_float v choices kind =
     list_ex (\<lambda>c. case convert parse_float kind c of None \<Rightarrow> False | Some x \<Rightarrow> param_text x = param_text v) choices"

definition invalid_config :: go_error where
  "invalid_config = fault_new ''CONFIG_INVALID'' False"

definition validateSpec :: "(string \<Rightarrow> string option) \<Rightarrow> param_spec \<Rightarrow> bool" where
  "validateSpec parse_float spec \<longleftrightarrow>
     ps_type spec \<in> {''string'', ''int'', ''float'', ''bool''} \<and>
     (ps_default spec = None \<longrightarrow> ps_required spec) \<and>
     (case ps_default spec of None \<Rightarrow> True | Some d \<Rightarrow>
        (case convert parse_float (ps_type spec) d of
           None \<Rightarrow> False
         | Some v \<Rightarrow> ps_choices spec = [] \<or> choiceAllowed parse_float v (ps_choices spec) (ps_type spec))) \<and>
     list_all (\<lambda>c. convert parse_float (ps_type spec) c \<noteq> None) (ps_choices spec)"

text \<open>\<open>ResolveParams\<close>: the defaults, the \<open>--set\<close> items, the required names.\<close>

definition conversion_error :: go_error where
  "conversion_error = PlainError ''cannot convert parameter''"

fun default_params ::
    "(string \<Rightarrow> string option) \<Rightarrow> (string \<times> param_spec) list \<Rightarrow> (go_error, (string \<times> param_value) list) result" where
  "default_params parse_float [] = Inr []"
| "default_params parse_float ((k, spec) # rest) = (case ps_default spec of
     None \<Rightarrow> default_params parse_float rest
   | Some d \<Rightarrow> (case convert parse_float (ps_type spec) d of
       None \<Rightarrow> Inl conversion_error
     | Some v \<Rightarrow> (case default_params parse_float rest of Inl e \<Rightarrow> Inl e | Inr vs \<Rightarrow> Inr ((k, v) # vs))))"

fun set_params ::
    "(string \<Rightarrow> string option) \<Rightarrow> (string \<times> param_spec) list \<Rightarrow> string list \<Rightarrow> (string \<times> param_value) list \<Rightarrow>
     (go_error, (string \<times> param_value) list) result" where
  "set_params parse_float specs [] vs = Inr vs"
| "set_params parse_float specs (item # rest) vs = (case cut_at (CHR ''='') item of
     None \<Rightarrow> Inl (fault_new ''INVALID_PARAMETER'' False)
   | Some (k, raw) \<Rightarrow>
       if k = [] then Inl (fault_new ''INVALID_PARAMETER'' False)
       else case map_of specs k of
         None \<Rightarrow> Inl (fault_new ''UNKNOWN_PARAMETER'' False)
       | Some spec \<Rightarrow> (case convert parse_float (ps_type spec) raw of
           None \<Rightarrow> Inl (fault_wrap ''INVALID_PARAMETER'' [] False conversion_error)
         | Some v \<Rightarrow>
             if ps_choices spec \<noteq> [] \<and> \<not> choiceAllowed parse_float v (ps_choices spec) (ps_type spec)
             then Inl (fault_new ''INVALID_PARAMETER'' False)
             else set_params parse_float specs rest (AList.update k v vs)))"

definition ResolveParams ::
    "(string \<Rightarrow> string option) \<Rightarrow> target \<Rightarrow> string list \<Rightarrow> (go_error, (string \<times> param_value) list) result" where
  "ResolveParams parse_float t sets = (case default_params parse_float (tg_params t) of
     Inl e \<Rightarrow> Inl e
   | Inr vs \<Rightarrow> (case set_params parse_float (tg_params t) sets vs of
       Inl e \<Rightarrow> Inl e
     | Inr vs' \<Rightarrow>
         if list_ex (\<lambda>(k, spec). ps_required spec \<and> map_of vs' k = None) (tg_params t)
         then Inl (fault_new ''MISSING_PARAMETER'' False)
         else Inr vs'))"

section \<open>Partitions\<close>

definition ResolvePartition :: "cluster \<Rightarrow> target \<Rightarrow> string \<Rightarrow> (go_error, resolved_partition \<times> string) result" where
  "ResolvePartition c t override =
     (let name = (if override \<noteq> [] then override else default_partition t);
          origin = (if override \<noteq> [] then ''cli'' else ''target_default'')
      in if name = [] then Inr (no_partition, [])
         else if name \<notin> set (allowed_partitions t) then Inl (fault_new ''INVALID_PARTITION'' False)
         else case partitions c name of
           None \<Rightarrow> Inl (fault_new ''TARGET_INVALID'' False)
         | Some p \<Rightarrow> Inr (\<lparr>rp_name = name, rp_cores = cores_per_node p, rp_memory = memory_per_node p\<rparr>, origin))"

section \<open>Validation\<close>

text \<open>
  The checks of \<open>Load\<close> in the order of the code: \<open>None\<close> is a panic, \<open>Some True\<close> lets the next
  check run, \<open>Some False\<close> ends with \<open>CONFIG_INVALID\<close>.
\<close>

fun all_checks :: "bool option list \<Rightarrow> bool option" where
  "all_checks [] = Some True"
| "all_checks (c # cs) = (if c = Some True then all_checks cs else c)"

definition size_check :: "string \<Rightarrow> bool option" where
  "size_check s = (if s = [] then Some True else case ParseByteSize s of
     None \<Rightarrow> None | Some (Inl e) \<Rightarrow> Some False | Some (Inr n) \<Rightarrow> Some True)"

definition lower_alpha :: "char \<Rightarrow> bool" where
  "lower_alpha c \<longleftrightarrow> (let n = (of_char c :: nat) in 97 \<le> n \<and> n \<le> 122)"

definition alpha :: "char \<Rightarrow> bool" where
  "alpha c \<longleftrightarrow> lower_alpha (lower_char c)"

definition param_name :: "string \<Rightarrow> bool" where
  "param_name s \<longleftrightarrow> s \<noteq> [] \<and> lower_alpha (hd s) \<and> list_all (\<lambda>c. lower_alpha c \<or> is_digit c \<or> c = CHR ''_'') (tl s)"

definition partition_name :: "string \<Rightarrow> bool" where
  "partition_name s \<longleftrightarrow> s \<noteq> [] \<and> (alpha (hd s) \<or> is_digit (hd s)) \<and>
     list_all (\<lambda>c. alpha c \<or> is_digit c \<or> c \<in> set ''._-'') (tl s)"

definition partition_checks :: "string \<times> partition \<Rightarrow> bool option list" where
  "partition_checks = (\<lambda>(k, p). [Some (partition_name k), Some (0 \<le> cores_per_node p), size_check (memory_per_node p)])"

definition transfer_or_auto :: "raw_cluster \<Rightarrow> string" where
  "transfer_or_auto c = (if rw_transfer c = [] then ''auto'' else rw_transfer c)"

definition cluster_checks :: "raw_cluster \<Rightarrow> bool option list" where
  "cluster_checks c =
     [Some (rw_host c \<noteq> [] \<and> rw_root c \<noteq> []), Some (has_prefix (rw_root c) ''/''), Some (rw_scheduler c = ''slurm''),
      Some (transfer_or_auto c \<in> {''auto'', ''rsync'', ''sftp''})] @
     concat (map partition_checks (rw_partitions c))"

definition loaded_cluster :: "raw_cluster \<Rightarrow> cluster" where
  "loaded_cluster c = \<lparr>cluster_host = rw_host c, scheduler_kind = rw_scheduler c, remote_root = rw_root c,
     transfer_kind = transfer_or_auto c, partitions = map_of (rw_partitions c)\<rparr>"

fun allowed_checks :: "cluster \<Rightarrow> string list \<Rightarrow> string list \<Rightarrow> bool option list" where
  "allowed_checks c seen [] = []"
| "allowed_checks c seen (p # ps) = Some (p \<notin> set seen) # Some (partitions c p \<noteq> None) # allowed_checks c (p # seen) ps"

definition param_checks :: "(string \<Rightarrow> string option) \<Rightarrow> string \<times> param_spec \<Rightarrow> bool option list" where
  "param_checks parse_float = (\<lambda>(k, spec). [Some (k \<noteq> ''partition''), Some (param_name k), Some (validateSpec parse_float spec)])"

definition push_pattern_check :: "string \<Rightarrow> bool option" where
  "push_pattern_check p = Some (p \<noteq> [] \<and> path_match (trim_suffix (trim_prefix p ''/'') ''/'') ''entry'' \<noteq> None)"

definition target_uses_entry :: "target \<Rightarrow> bool" where
  "target_uses_entry t \<longleftrightarrow> list_ex UsesEntry (tg_script t # tg_logs t)"

definition target_checks :: "(string \<Rightarrow> string option) \<Rightarrow> (string \<rightharpoonup> cluster) \<Rightarrow> target \<Rightarrow> bool option list" where
  "target_checks parse_float clusters t = (case clusters (tg_cluster t) of
     None \<Rightarrow> [Some False]
   | Some c \<Rightarrow>
       [Some (trim_space (software_name t) \<noteq> []), Some (default_partition t \<noteq> []), Some (allowed_partitions t \<noteq> [])] @
       allowed_checks c [] (allowed_partitions t) @
       [Some (default_partition t \<in> set (allowed_partitions t)), Some (tg_script t \<noteq> [])] @
       concat (map (param_checks parse_float) (tg_params t)) @
       map (\<lambda>s. Some (Validate s (map fst (tg_params t)) = None)) (tg_script t # tg_logs t) @
       [Some (kind_of_source t \<noteq> []), Some (kind_of_source t \<in> {''file'', ''directory'', ''either''}),
        Some (target_uses_entry t \<longrightarrow> kind_of_source t = ''file''),
        Some (\<not> (kind_of_source t = ''directory'' \<and> source_patterns t \<noteq> []))] @
       map (\<lambda>p. Some (p \<noteq> [] \<and> path_match p ''entry'' \<noteq> None)) (source_patterns t) @
       [Some (push_mode t = ''entry'' \<and> kind_of_source t = ''file'' \<or> push_mode t = ''workdir'')] @
       map push_pattern_check (push_include t @ push_exclude t) @
       [Some (0 \<le> push_max_files t), size_check (push_max_size t)])"

definition config_checks :: "(string \<Rightarrow> string option) \<Rightarrow> raw_config \<Rightarrow> bool option list" where
  "config_checks parse_float rw =
     [Some (rw_version rw = 1)] @ concat (map (\<lambda>(k, c). cluster_checks c) (rw_clusters rw)) @
     concat (map (\<lambda>(k, t). target_checks parse_float (map_of (map (\<lambda>(k, c). (k, loaded_cluster c)) (rw_clusters rw))) t)
       (rw_targets rw))"

text \<open>\<open>Load\<close> after the decoder.\<close>

definition Load :: "(string \<Rightarrow> string option) \<Rightarrow> raw_config \<Rightarrow> (go_error, config) result option" where
  "Load parse_float rw = (case all_checks (config_checks parse_float rw) of
     None \<Rightarrow> None
   | Some False \<Rightarrow> Some (Inl invalid_config)
   | Some True \<Rightarrow> Some (Inr \<lparr>cfg_clusters = map_of (map (\<lambda>(k, c). (k, loaded_cluster c)) (rw_clusters rw)),
       cfg_targets = map_of (rw_targets rw)\<rparr>))"


section \<open>What a loaded configuration guarantees\<close>

lemma all_checks_True: "all_checks cs = Some True \<longleftrightarrow> (\<forall>c\<in>set cs. c = Some True)"
  by (induction cs) auto

lemma default_params_keys:
  "default_params parse_float specs = Inr vs \<Longrightarrow> (k, spec) \<in> set specs \<Longrightarrow> ps_default spec \<noteq> None \<Longrightarrow> map_of vs k \<noteq> None"
  by (induction parse_float specs arbitrary: vs rule: default_params.induct)
    (auto split: option.splits sum.splits if_splits)

lemma set_params_keys:
  "set_params parse_float specs items vs = Inr vs' \<Longrightarrow> map_of vs k \<noteq> None \<Longrightarrow> map_of vs' k \<noteq> None"
proof (induction parse_float specs items vs arbitrary: vs' rule: set_params.induct)
  case (2 parse_float specs item rest vs)
  from 2(2) obtain j raw spec v where a: "cut_at (CHR ''='') item = Some (j, raw)" "j \<noteq> []" "map_of specs j = Some spec"
    "convert parse_float (ps_type spec) raw = Some v"
    "\<not> (ps_choices spec \<noteq> [] \<and> \<not> choiceAllowed parse_float v (ps_choices spec) (ps_type spec))"
    "set_params parse_float specs rest (AList.update j v vs) = Inr vs'"
    by (auto split: option.splits prod.splits if_splits)
  have "map_of (AList.update j v vs) k \<noteq> None" using 2(3) by (simp add: update_conv')
  from 2(1) [OF a(1) refl a(2-6) this] show ?case .
qed simp

lemma declared_params_resolved:
  assumes "ResolveParams parse_float t sets = Inr vs" and "(k, spec) \<in> set (tg_params t)" and "validateSpec parse_float spec"
  shows "map_of vs k \<noteq> None"
proof -
  from assms(1) obtain us where us: "default_params parse_float (tg_params t) = Inr us"
    "set_params parse_float (tg_params t) sets us = Inr vs"
    "\<not> list_ex (\<lambda>(k, spec). ps_required spec \<and> map_of vs k = None) (tg_params t)"
    by (auto simp: ResolveParams_def split: sum.splits if_splits)
  show ?thesis
  proof (cases "ps_default spec")
    case None
    with assms(2,3) us(3) show ?thesis by (auto simp: validateSpec_def list_ex_iff)
  next
    case (Some d)
    with default_params_keys [OF us(1) assms(2)] set_params_keys [OF us(2)] show ?thesis by simp
  qed
qed

lemma field_text_allowed:
  "allowed_field names f \<Longrightarrow> \<forall>k\<in>set names. map_of (td_params d) k \<noteq> None \<Longrightarrow> field_text d f \<noteq> None"
  unfolding allowed_field_def by (elim disjE bexE insertE emptyE) (simp_all add: field_text_def)

lemma nodes_text_allowed:
  "list_all (validate_node names) ns \<Longrightarrow> \<forall>k\<in>set names. map_of (td_params d) k \<noteq> None \<Longrightarrow> nodes_text d ns \<noteq> None"
proof (induction ns)
  case (Cons n ns)
  have "node_text d n \<noteq> None"
    using Cons.prems field_text_allowed [of names _ d] by (cases n) simp_all
  with Cons show ?case by (auto split: option.splits)
qed simp

lemma Render_valid:
  assumes "Validate script names = None" and "\<forall>k\<in>set names. map_of (td_params d) k \<noteq> None"
  shows "\<exists>out. RenderString script d = Some out"
    and "Render script d = Inl e \<Longrightarrow> fault_code e = ''UNSAFE_TEMPLATE_VALUE''"
proof -
  obtain ns where ns: "parse_nodes script = Some ns" "list_all (validate_node names) ns"
    using assms(1) by (auto simp: Validate_def split: option.splits if_splits)
  from nodes_text_allowed [OF ns(2) assms(2)] ns(1) show "\<exists>out. RenderString script d = Some out"
    by (auto simp: RenderString_def)
  assume r: "Render script d = Inl e"
  show "fault_code e = ''UNSAFE_TEMPLATE_VALUE''"
  proof (cases "shellData d")
    case (Inl x)
    with r ns show ?thesis by (auto simp: Render_def shellData_def split: if_splits)
  next
    case (Inr safe)
    then have "td_params safe = map (\<lambda>(k, v). (k, quote_param v)) (td_params d)"
      by (auto simp: shellData_def split: if_splits)
    with assms(2) have "\<forall>k\<in>set names. map_of (td_params safe) k \<noteq> None" by (simp add: map_of_quote)
    from nodes_text_allowed [OF ns(2) this] r ns(1) Inr show ?thesis by (auto simp: Render_def)
  qed
qed

lemma loaded_target:
  assumes "Load parse_float rw = Some (Inr cfg)" and "cfg_targets cfg name = Some t"
  shows "\<forall>c\<in>set (target_checks parse_float (cfg_clusters cfg) t). c = Some True"
proof -
  from assms(1) have ok: "\<forall>c\<in>set (config_checks parse_float rw). c = Some True"
    and cfg: "cfg_targets cfg = map_of (rw_targets rw)"
      "cfg_clusters cfg = map_of (map (\<lambda>(k, c). (k, loaded_cluster c)) (rw_clusters rw))"
    by (auto simp: Load_def all_checks_True [symmetric] split: option.splits bool.splits)
  have "(name, t) \<in> set (rw_targets rw)" using assms(2) cfg(1) map_of_SomeD by fastforce
  with ok cfg(2) show ?thesis by (fastforce simp: config_checks_def)
qed

text \<open>
  C30. A loaded configuration does not go wrong. For every target of it the cluster exists,
  the default partition resolves, the size limit parses, and once the parameters resolve,
  whatever was set and whatever the source and the partition are, every log template renders
  and the job script fails to render only because a value holds a line break.
\<close>

theorem loaded_targets_render:
  assumes "Load parse_float rw = Some (Inr cfg)" and "cfg_targets cfg name = Some t"
    and "ResolveParams parse_float t sets = Inr vs"
  shows "\<exists>c p. cfg_clusters cfg (tg_cluster t) = Some c \<and> ResolvePartition c t [] = Inr (p, ''target_default'') \<and>
      rp_name p = default_partition t \<and>
    (push_max_size t \<noteq> [] \<longrightarrow> (\<exists>n. ParseByteSize (push_max_size t) = Some (Inr n))) \<and>
    (\<forall>d. td_params d = vs \<longrightarrow>
       (\<forall>l\<in>set (tg_logs t). \<exists>out. RenderString l d = Some out) \<and>
       (\<forall>e. Render (tg_script t) d = Inl e \<longrightarrow> fault_code e = ''UNSAFE_TEMPLATE_VALUE''))"
proof -
  note ok = loaded_target [OF assms(1,2)]
  obtain c where c: "cfg_clusters cfg (tg_cluster t) = Some c"
    using ok by (auto simp: target_checks_def split: option.splits)
  note ok = ok [unfolded target_checks_def c option.case]
  have allowed: "p \<in> set ps \<Longrightarrow> \<forall>x\<in>set (allowed_checks c seen ps). x = Some True \<Longrightarrow> partitions c p \<noteq> None" for p ps seen
    by (induction ps arbitrary: seen) auto
  have "Some (default_partition t \<in> set (allowed_partitions t)) = Some True" by (rule bspec [OF ok]) simp
  moreover have "Some (default_partition t \<noteq> []) = Some True" by (rule bspec [OF ok]) simp
  moreover have "\<forall>x\<in>set (allowed_checks c [] (allowed_partitions t)). x = Some True"
    by (intro ballI, rule bspec [OF ok]) simp
  ultimately have part: "default_partition t \<in> set (allowed_partitions t)" "default_partition t \<noteq> []"
    "partitions c (default_partition t) \<noteq> None"
    using allowed [of "default_partition t" "allowed_partitions t" "[]"] by simp_all
  then obtain p where p: "ResolvePartition c t [] = Inr (p, ''target_default'')" "rp_name p = default_partition t"
    by (auto simp: ResolvePartition_def)
  have "size_check (push_max_size t) = Some True" by (rule bspec [OF ok]) simp
  then have size: "push_max_size t \<noteq> [] \<longrightarrow> (\<exists>n. ParseByteSize (push_max_size t) = Some (Inr n))"
    by (auto simp: size_check_def split: option.splits sum.splits if_splits)
  have valid: "Validate s (map fst (tg_params t)) = None" if "s \<in> set (tg_script t # tg_logs t)" for s
  proof -
    have "Some (Validate s (map fst (tg_params t)) = None) = Some True" using that by (intro bspec [OF ok]) auto
    then show ?thesis by simp
  qed
  have "validateSpec parse_float spec" if "(k, spec) \<in> set (tg_params t)" for k spec
  proof -
    have "Some (validateSpec parse_float spec) = Some True"
      using that by (intro bspec [OF ok]) (force simp: param_checks_def)
    then show ?thesis by simp
  qed
  with declared_params_resolved [OF assms(3)] have keys: "\<forall>k\<in>set (map fst (tg_params t)). map_of vs k \<noteq> None" by fastforce
  have logs: "\<exists>out. RenderString l d = Some out" if "td_params d = vs" "l \<in> set (tg_logs t)" for l d
    using Render_valid(1) [OF valid, of l d] that keys by simp
  have script: "fault_code e = ''UNSAFE_TEMPLATE_VALUE''" if "td_params d = vs" "Render (tg_script t) d = Inl e" for d e
    using Render_valid(2) [OF valid _ that(2)] that(1) keys by simp
  show ?thesis
    using c p size logs script by blast
qed

section \<open>Sizes are exact\<close>

lemma char_codes: "char_of (48 :: nat) = CHR ''0''" "char_of (73 :: nat) = CHR ''I''"
  by code_simp+

lemma digits_acc_ge: "n \<le> digits_acc n s"
proof (induction s arbitrary: n)
  case (Cons c s)
  from Cons.IH [of "10 * n + digit_val c"] show ?case by simp
qed simp

lemma digits_val_pos: "all_digits d \<Longrightarrow> hd d \<noteq> CHR ''0'' \<Longrightarrow> 0 < digits_val d"
proof -
  assume a: "all_digits d" "hd d \<noteq> CHR ''0''"
  then obtain c s where d: "d = c # s" "is_digit c" by (cases d) (auto simp: all_digits_def)
  have "c \<noteq> char_of (48 :: nat)" using a(2) d(1) by (simp add: char_codes)
  then have "(of_char c :: nat) \<noteq> 48" by (metis char_of_char)
  with d(2) have "0 < digit_val c" by (simp add: is_digit_def digit_val_def)
  with d(1) digits_acc_ge [of "digit_val c" s] show ?thesis by (simp add: digits_val_def)
qed

lemma unit_multiplier_bound: "unit_multiplier u = Some m \<Longrightarrow> 0 \<le> m"
  by (auto simp: unit_multiplier_def byte_units_def split: option.splits if_splits)

lemma all_digits_takeWhile: "takeWhile is_digit s \<noteq> [] \<Longrightarrow> all_digits (takeWhile is_digit s)"
  by (auto simp: all_digits_def list_all_iff dest: set_takeWhileD)

text \<open>
  C35. A size is exact. An accepted size is the product of its digits and the multiplier of
  its unit, computed without wrap-around, positive and at most \<open>MaxInt64\<close>.
\<close>

theorem byte_size_exact:
  assumes "ParseByteSize raw = Some (Inr n)"
  shows "\<exists>d u m. trim_space raw = d @ u \<and> all_digits d \<and> unit_multiplier u = Some m \<and>
    n = int (digits_val d) * m \<and> 0 < n \<and> n \<le> max_int64"
proof -
  let ?s = "trim_space raw" let ?d = "takeWhile is_digit ?s" let ?u = "drop (length ?d) ?s"
  from assms obtain m v where m: "?d \<noteq> []" "hd ?d \<noteq> CHR ''0''" "unit_multiplier ?u = Some m" "parse_int64 ?d = Some v"
    "m \<noteq> 0" "v \<le> max_int64 div m" "n = v * m"
    by (auto simp: ParseByteSize_def Let_def split: if_splits option.splits)
  note ad = all_digits_takeWhile [OF m(1)]
  have "is_digit (hd ?d)" using ad by (cases ?d) (auto simp: all_digits_def)
  then have "hd ?d \<noteq> CHR ''-''" "hd ?d \<noteq> CHR ''+''" by (auto simp: is_digit_def)
  then have v: "v = int (digits_val ?d)"
    using m(1,4) by (cases ?d) (auto simp: parse_int64_def Let_def split: if_splits)
  have pos: "0 < v" using digits_val_pos [OF ad m(2)] v by simp
  have mp: "0 < m" using unit_multiplier_bound [OF m(3)] m(5) by simp
  have "v * m \<le> (max_int64 div m) * m" using m(6) mp by (simp add: mult_right_mono)
  also have "\<dots> \<le> max_int64" using mp by (metis mult.commute mult_div_mod_eq pos_mod_sign add_increasing2 order_refl)
  finally have "n \<le> max_int64" using m(7) by simp
  moreover have "?s = ?d @ ?u" by (simp add: dropWhile_eq_drop [symmetric])
  ultimately show ?thesis using ad m(3,7) v pos mp by (intro exI [of _ ?d] exI [of _ ?u] exI [of _ m]) simp
qed

lemma two_gib: "ParseByteSize ''2GiB'' = Some (Inr 2147483648)"
proof -
  have "trim_space ''2GiB'' = ''2GiB''" by (rule trim_space_graph) (simp_all add: graph_char_def)
  then show ?thesis
    by (simp add: ParseByteSize_def Let_def is_digit_def unit_multiplier_def byte_units_def to_upper_def upper_char_def
        parse_int64_def all_digits_def digits_val_def digit_val_def max_int64_def char_codes)
qed

theorem byte_size_exact_witness:
  "\<exists>d u m. trim_space ''2GiB'' = d @ u \<and> all_digits d \<and> unit_multiplier u = Some m \<and>
     2147483648 = int (digits_val d) * m \<and> 0 < (2147483648 :: int) \<and> 2147483648 \<le> max_int64"
  by (rule byte_size_exact [OF two_gib])

text \<open>A unit written with the KELVIN SIGN ends in a division by zero.\<close>

lemma kelvin_size_panics: "ParseByteSize (CHR ''1'' # kelvin_sign) = None"
proof -
  have "drop_spaces (map rev wide_spaces) (rev (CHR ''1'' # kelvin_sign)) = rev (CHR ''1'' # kelvin_sign)"
    by (subst drop_spaces.simps) (simp add: space_width_def kelvin_sign_def ascii_spaces_def wide_spaces_def)
  moreover have "drop_spaces wide_spaces (CHR ''1'' # kelvin_sign) = CHR ''1'' # kelvin_sign"
    by (rule drop_spaces_graph) (simp_all add: graph_char_def)
  ultimately have "trim_space (CHR ''1'' # kelvin_sign) = CHR ''1'' # kelvin_sign"
    by (simp add: trim_space_def)
  then show ?thesis
    by (simp add: ParseByteSize_def Let_def kelvin_sign_def is_digit_def unit_multiplier_def byte_units_def to_upper_def
        upper_char_def parse_int64_def all_digits_def digits_val_def digit_val_def)
qed

definition sample_target :: target where
  "sample_target = \<lparr>tg_cluster = ''c'', software_name = ''prog'', software_version = [], default_partition = ''cpu'',
     allowed_partitions = [''cpu''], kind_of_source = ''file'', source_patterns = [],
     tg_params = [(''n'', \<lparr>ps_type = ''int'', ps_default = Some ''4'', ps_required = False, ps_choices = []\<rparr>)],
     tg_script = ''run {{ .Input }}'', push_mode = ''entry'', push_include = [], push_exclude = [], push_max_files = 20,
     push_max_size = ''2GiB'', pull_default = [''*.out''], tg_logs = []\<rparr>"

definition sample_raw_config :: raw_config where
  "sample_raw_config = \<lparr>rw_version = 1,
     rw_clusters = [(''c'', \<lparr>rw_host = ''h'', rw_scheduler = ''slurm'', rw_root = ''/r'', rw_transfer = [],
       rw_partitions = [(''cpu'', \<lparr>cores_per_node = 64, memory_per_node = []\<rparr>)]\<rparr>)],
     rw_targets = [(''t'', sample_target)]\<rparr>"

lemma sample_checks: "all_checks (config_checks (\<lambda>s. None) sample_raw_config) = Some True"
proof -
  have v: "Validate ''run {{ .Input }}'' [''n''] = None"
    unfolding Validate_def sample_template by (simp add: allowed_field_def)
  have u: "UsesEntry ''run {{ .Input }}''" unfolding UsesEntry_def sample_template by simp
  have "trim_space ''prog'' = ''prog''" by (rule trim_space_graph) (simp_all add: graph_char_def)
  then show ?thesis using v u
    by (simp add: config_checks_def sample_raw_config_def cluster_checks_def transfer_or_auto_def partition_checks_def
        partition_name_def alpha_def lower_alpha_def lower_char_def size_check_def target_checks_def sample_target_def
        loaded_cluster_def param_checks_def param_name_def validateSpec_def convert_def parse_int64_def all_digits_def
        is_digit_def digits_val_def digit_val_def target_uses_entry_def two_gib)
qed

theorem loaded_targets_render_witness:
  "\<exists>cfg vs c p. Load (\<lambda>s. None) sample_raw_config = Some (Inr cfg) \<and>
     ResolveParams (\<lambda>s. None) sample_target [''n=8''] = Inr vs \<and> vs = [(''n'', IntParam 8)] \<and>
     ResolvePartition c sample_target [] = Inr (p, ''target_default'') \<and> rp_name p = ''cpu''"
proof -
  obtain cfg where cfg: "Load (\<lambda>s. None) sample_raw_config = Some (Inr cfg)" "cfg_targets cfg ''t'' = Some sample_target"
    by (simp add: Load_def sample_checks) (simp add: sample_raw_config_def)
  have r: "ResolveParams (\<lambda>s. None) sample_target [''n=8''] = Inr [(''n'', IntParam 8)]"
    by (simp add: ResolveParams_def sample_target_def convert_def parse_int64_def all_digits_def is_digit_def
        digits_val_def digit_val_def cut_at_def)
  from loaded_targets_render [OF cfg r] obtain c p where
    "ResolvePartition c sample_target [] = Inr (p, ''target_default'')" "rp_name p = default_partition sample_target" by blast
  with cfg(1) r show ?thesis by (auto simp: sample_target_def)
qed

end
