(* ===== verification/Upload_Manifest.thy ===== *)
theory Upload_Manifest
  imports Glob_Match Remote_Shell
begin

text \<open>
  \<open>internal/manifest/manifest.go\<close>: the file patterns, the walk over the work directory, the
  manifest of a dry run (\<open>Build\<close>) and the snapshot that is uploaded (\<open>Snapshot\<close>). The work
  directory is a tree that holds what each system call on a file would answer; the checksum,
  the temporary directory and the writes into it are parameters.
\<close>

section \<open>Patterns\<close>

definition pattern_matches :: "string \<Rightarrow> bool \<Rightarrow> string \<Rightarrow> bool" where
  "pattern_matches path is_dir raw =
     (let p = trim_prefix (trim_space raw) ''/''
      in if has_suffix p ''/'' then
           (let prefix = trim_suffix p ''/''
            in path = prefix \<or> has_prefix path (prefix @ ''/'') \<or>
               (\<not> contains prefix ''/'' \<and> prefix \<in> set (split_on (CHR ''/'') path)))
         else path_match p path = Some True \<or>
              (\<not> contains p ''/'' \<and> path_match p (path_base path) = Some True) \<or>
              (is_dir \<and> (path = p \<or> has_prefix path (p @ ''/''))))"

definition matches :: "string \<Rightarrow> bool \<Rightarrow> string list \<Rightarrow> bool" where
  "matches path is_dir patterns = list_ex (pattern_matches path is_dir) patterns"

text \<open>\<open>Match\<close> and \<open>Excluded\<close>.\<close>

definition manifest_match :: "string \<Rightarrow> string list \<Rightarrow> bool" where
  "manifest_match path patterns = matches path False patterns"

definition manifest_excluded :: "string \<Rightarrow> bool \<Rightarrow> string list \<Rightarrow> bool" where
  "manifest_excluded path is_dir patterns = matches path is_dir patterns"

section \<open>The selection\<close>

record selection =
  sel_mode :: string
  sel_entry :: string
  sel_include :: "string list"
  sel_exclude :: "string list"
  max_files :: int
  max_total_bytes :: int

definition validateSelection :: "selection \<Rightarrow> go_error option" where
  "validateSelection sel =
     (if sel_mode sel \<noteq> ''entry'' then None
      else if sel_entry sel = [] then Some (fault_new ''SOURCE_ENTRY_REQUIRED'' False)
      else if matches (sel_entry sel) False (sel_exclude sel) then Some (fault_new ''SOURCE_ENTRY_EXCLUDED'' False)
      else None)"

definition selected :: "string \<Rightarrow> selection \<Rightarrow> bool" where
  "selected rel sel \<longleftrightarrow> sel_mode sel = ''workdir'' \<or> rel = sel_entry sel \<or> matches rel False (sel_include sel)"

definition enforceLimits :: "selection \<Rightarrow> int \<Rightarrow> int \<Rightarrow> go_error option" where
  "enforceLimits sel n bytes =
     (if 0 < max_files sel \<and> max_files sel < n then Some (fault_new ''UPLOAD_POLICY_EXCEEDED'' False)
      else if 0 < max_total_bytes sel \<and> max_total_bytes sel < bytes then Some (fault_new ''UPLOAD_POLICY_EXCEEDED'' False)
      else None)"

text \<open>\<open>readIgnore\<close> on the text of the file: a line of 64 KiB or more ends the scan.\<close>

definition scan_lines :: "string \<Rightarrow> string list" where
  "scan_lines content =
     (let ls = split_on nl content
      in takeWhile (\<lambda>l. length l < 65536) (if last ls = [] then butlast ls else ls))"

definition ignore_lines :: "string \<Rightarrow> string list" where
  "ignore_lines content =
     filter (\<lambda>l. l \<noteq> [] \<and> \<not> has_prefix l ''#'') (map trim_space (scan_lines content))"

text \<open>The rules of the project file for a work directory, given relative to the project root.\<close>

definition ignore_rule :: "string \<Rightarrow> string \<Rightarrow> string list" where
  "ignore_rule workdir raw =
     (let p = trim_prefix raw ''/'';
          prefix = trim_suffix workdir ''/'' @ ''/''
      in if workdir = [] \<or> \<not> contains p ''/'' then [p]
         else if has_prefix p prefix then [trim_prefix p prefix]
         else if trim_suffix p ''/'' = workdir then [''*'']
         else [])"

definition projectIgnorePatterns :: "string option \<Rightarrow> string option \<Rightarrow> string list" where
  "projectIgnorePatterns work_relative ignore_file = (case work_relative of
     None \<Rightarrow> []
   | Some w \<Rightarrow>
       (let c = path_clean w; workdir = (if c = ''.'' then [] else c)
        in concat (map (ignore_rule workdir) (case ignore_file of None \<Rightarrow> [] | Some content \<Rightarrow> ignore_lines content))))"

definition ExcludePatterns :: "string option \<Rightarrow> string option \<Rightarrow> string list \<Rightarrow> string list" where
  "ExcludePatterns work_relative ignore_file target_patterns =
     [''.joyrun/'', ''.git/''] @ target_patterns @ projectIgnorePatterns work_relative ignore_file"

section \<open>The work directory\<close>

text \<open>
  A regular file: the size \<open>Info\<close> reports and the bytes a copy reads. A symbolic link: the
  absolute path it resolves to, \<open>Stat\<close> of that path (the size of a regular file, \<open>None\<close> for
  anything else) and the bytes. A directory: the error of reading it, and its entries in
  lexical order. Each entry carries the error of \<open>entry.Info\<close>.
\<close>

datatype node =
    Regular int "(go_error, string) result"
  | Link "(go_error, string) result" "(go_error, int option) result" "(go_error, string) result"
  | Special
  | Directory "go_error option" listing
and listing =
    Done
  | Item string "go_error option" node listing

fun is_dir :: "node \<Rightarrow> bool" where
  "is_dir (Directory e l) = True"
| "is_dir _ = False"

text \<open>\<open>filepath.WalkDir\<close>: what the callback answers for one entry.\<close>

datatype 's visit = Go_on 's | Skip_dir 's | Stop go_error

definition below :: "string \<Rightarrow> string \<Rightarrow> string" where
  "below rel name = (if rel = [] then name else rel @ ''/'' @ name)"

fun walk_node :: "(string \<Rightarrow> go_error option \<Rightarrow> node \<Rightarrow> 's \<Rightarrow> 's visit) \<Rightarrow> string \<Rightarrow> go_error option \<Rightarrow> node \<Rightarrow> 's \<Rightarrow> (go_error, 's) result"
and walk_listing :: "(string \<Rightarrow> go_error option \<Rightarrow> node \<Rightarrow> 's \<Rightarrow> 's visit) \<Rightarrow> string \<Rightarrow> listing \<Rightarrow> 's \<Rightarrow> (go_error, 's) result" where
  "walk_node visit rel info (Directory err l) s = (case visit rel info (Directory err l) s of
     Stop e \<Rightarrow> Inl e
   | Skip_dir s' \<Rightarrow> Inr s'
   | Go_on s' \<Rightarrow> (case err of Some e \<Rightarrow> Inl e | None \<Rightarrow> walk_listing visit rel l s'))"
| "walk_node visit rel info n s = (case visit rel info n s of
     Stop e \<Rightarrow> Inl e | Skip_dir s' \<Rightarrow> Inr s' | Go_on s' \<Rightarrow> Inr s')"
| "walk_listing visit rel Done s = Inr s"
| "walk_listing visit rel (Item name info n rest) s = (case walk_node visit (below rel name) info n s of
     Inl e \<Rightarrow> Inl e
   | Inr s' \<Rightarrow> walk_listing visit rel rest s')"

section \<open>The manifest of a dry run\<close>

text \<open>The checksum, the resolved work directory, and the temporary directory with its writes.\<close>

record upload_env =
  sha256 :: "string \<Rightarrow> string"
  root_absolute :: "(go_error, string) result"
  root_entries :: node
  make_temp :: "(go_error, string) result"
  make_dirs :: "string \<Rightarrow> go_error option"
  create_file :: "string \<Rightarrow> go_error option"

text \<open>\<open>validateFileSymlink\<close>: the target lies under the resolved work directory and is a regular file.\<close>

definition path_under :: "string \<Rightarrow> string \<Rightarrow> bool" where
  "path_under root target \<longleftrightarrow> take (length (path_elems root)) (path_elems target) = path_elems root"

definition validateFileSymlink :: "string \<Rightarrow> (go_error, string) result \<Rightarrow> (go_error, int option) result \<Rightarrow> (go_error, int) result" where
  "validateFileSymlink root target st = (case target of
     Inl e \<Rightarrow> Inl e
   | Inr t \<Rightarrow>
       if \<not> path_under root t then Inl (PlainError ''symbolic link points outside the source work directory'')
       else (case st of
           Inl e \<Rightarrow> Inl e
         | Inr None \<Rightarrow> Inl (PlainError ''symbolic link must point to a regular file'')
         | Inr (Some sz) \<Rightarrow> Inr sz))"

record manifest_state =
  ms_entries :: "manifest_entry list"
  ms_ignored :: "string list"
  ms_total :: int
  ms_staged :: "(string \<times> string) list"

definition ignore_path :: "string \<Rightarrow> manifest_state \<Rightarrow> manifest_state" where
  "ignore_path rel s = s\<lparr>ms_ignored := ms_ignored s @ [rel]\<rparr>"

definition add_entry :: "string \<Rightarrow> int \<Rightarrow> string \<Rightarrow> manifest_state \<Rightarrow> manifest_state" where
  "add_entry rel sz hash s = s\<lparr>ms_entries := ms_entries s @ [\<lparr>me_path = rel, me_size = sz, me_sha256 = hash\<rparr>],
     ms_total := ms_total s + sz\<rparr>"

text \<open>The size and the bytes of a file that may be selected.\<close>

definition file_info :: "string \<Rightarrow> node \<Rightarrow> (go_error, int \<times> (go_error, string) result) result" where
  "file_info root n = (case n of
     Regular sz bytes \<Rightarrow> Inr (sz, bytes)
   | Link target st bytes \<Rightarrow> (case validateFileSymlink root target st of Inl e \<Rightarrow> Inl e | Inr sz \<Rightarrow> Inr (sz, bytes))
   | _ \<Rightarrow> Inl (PlainError ''unsupported special file''))"

definition build_visit ::
    "(string \<Rightarrow> string) \<Rightarrow> string \<Rightarrow> selection \<Rightarrow> string \<Rightarrow> go_error option \<Rightarrow> node \<Rightarrow> manifest_state \<Rightarrow> manifest_state visit" where
  "build_visit sha root sel rel info n s =
     (if matches rel (is_dir n) (sel_exclude sel) then
        (if is_dir n then Skip_dir (ignore_path rel s) else Go_on (ignore_path rel s))
      else if is_dir n then Go_on s
      else if \<not> selected rel sel then Go_on (ignore_path rel s)
      else case info of Some e \<Rightarrow> Stop e | None \<Rightarrow>
        (case file_info root n of
           Inl e \<Rightarrow> Stop e
         | Inr (sz, bytes) \<Rightarrow>
             (case enforceLimits sel (int (length (ms_entries s)) + 1) (ms_total s + sz) of
                Some e \<Rightarrow> Stop e
              | None \<Rightarrow> (case bytes of
                  Inl e \<Rightarrow> Stop e
                | Inr content \<Rightarrow> Go_on (add_entry rel sz (sha content) s)))))"

definition empty_manifest :: manifest_state where
  "empty_manifest = \<lparr>ms_entries = [], ms_ignored = [], ms_total = 0, ms_staged = []\<rparr>"

text \<open>The walk below the root, for which the callback returns at once.\<close>

definition walk_root ::
    "(string \<Rightarrow> go_error option \<Rightarrow> node \<Rightarrow> manifest_state \<Rightarrow> manifest_state visit) \<Rightarrow> node \<Rightarrow> (go_error, manifest_state) result" where
  "walk_root visit root = (case root of
     Directory None l \<Rightarrow> walk_listing visit [] l empty_manifest
   | Directory (Some e) l \<Rightarrow> Inl e
   | _ \<Rightarrow> Inr empty_manifest)"

definition walk_error :: "string \<Rightarrow> go_error \<Rightarrow> go_error" where
  "walk_error code e = (if fault_code e = ''UPLOAD_POLICY_EXCEEDED'' then e else fault_wrap code [] False e)"

definition Build :: "upload_env \<Rightarrow> selection \<Rightarrow> (go_error, manifest_entry list \<times> string list) result" where
  "Build env sel = (case validateSelection sel of
     Some e \<Rightarrow> Inl e
   | None \<Rightarrow> (case root_absolute env of
       Inl e \<Rightarrow> Inl (fault_wrap ''SOURCE_SCAN_FAILED'' [] False e)
     | Inr root \<Rightarrow> (case walk_root (build_visit (sha256 env) root sel) (root_entries env) of
         Inl e \<Rightarrow> Inl (walk_error ''SOURCE_SCAN_FAILED'' e)
       | Inr s \<Rightarrow> Inr (ms_entries s, ms_ignored s))))"

section \<open>The snapshot that is uploaded\<close>

definition stage_file :: "string \<Rightarrow> string \<Rightarrow> manifest_state \<Rightarrow> manifest_state" where
  "stage_file rel content s = s\<lparr>ms_staged := ms_staged s @ [(rel, content)]\<rparr>"

definition snapshot_visit ::
    "upload_env \<Rightarrow> string \<Rightarrow> selection \<Rightarrow> string \<Rightarrow> go_error option \<Rightarrow> node \<Rightarrow> manifest_state \<Rightarrow> manifest_state visit" where
  "snapshot_visit env root sel rel info n s =
     (if matches rel (is_dir n) (sel_exclude sel) then
        (if is_dir n then Skip_dir (ignore_path rel s) else Go_on (ignore_path rel s))
      else case info of Some e \<Rightarrow> Stop e | None \<Rightarrow>
        if is_dir n then Go_on s
        else if \<not> selected rel sel then Go_on (ignore_path rel s)
        else (case make_dirs env rel of Some e \<Rightarrow> Stop e | None \<Rightarrow>
          (case file_info root n of
             Inl e \<Rightarrow> Stop e
           | Inr (sz, bytes) \<Rightarrow>
               (case enforceLimits sel (int (length (ms_entries s)) + 1) (ms_total s + sz) of
                  Some e \<Rightarrow> Stop e
                | None \<Rightarrow> (case bytes of
                    Inl e \<Rightarrow> Stop e
                  | Inr content \<Rightarrow> (case create_file env rel of
                      Some e \<Rightarrow> Stop e
                    | None \<Rightarrow> Go_on (stage_file rel content
                        (add_entry rel (int (length content)) (sha256 env content) s))))))))"

text \<open>The staging directory, its files, the manifest and the ignored paths.\<close>

definition Snapshot ::
    "upload_env \<Rightarrow> selection \<Rightarrow> (go_error, string \<times> (string \<times> string) list \<times> manifest_entry list \<times> string list) result" where
  "Snapshot env sel = (case validateSelection sel of
     Some e \<Rightarrow> Inl e
   | None \<Rightarrow> (case make_temp env of
       Inl e \<Rightarrow> Inl (fault_wrap ''SOURCE_SNAPSHOT_FAILED'' [] False e)
     | Inr staging \<Rightarrow> (case root_absolute env of
         Inl e \<Rightarrow> Inl (fault_wrap ''SOURCE_SNAPSHOT_FAILED'' [] False e)
       | Inr root \<Rightarrow> (case walk_root (snapshot_visit env root sel) (root_entries env) of
           Inl e \<Rightarrow> Inl (walk_error ''SOURCE_SNAPSHOT_FAILED'' e)
         | Inr s \<Rightarrow> Inr (staging, ms_staged s, ms_entries s, ms_ignored s)))))"

section \<open>Two walks over one tree\<close>

fun every_node :: "(go_error option \<Rightarrow> node \<Rightarrow> bool) \<Rightarrow> go_error option \<Rightarrow> node \<Rightarrow> bool"
and every_item :: "(go_error option \<Rightarrow> node \<Rightarrow> bool) \<Rightarrow> listing \<Rightarrow> bool" where
  "every_node P info (Directory e l) \<longleftrightarrow> P info (Directory e l) \<and> every_item P l"
| "every_node P info n \<longleftrightarrow> P info n"
| "every_item P Done \<longleftrightarrow> True"
| "every_item P (Item name info n rest) \<longleftrightarrow> every_node P info n \<and> every_item P rest"

text \<open>
  Two callbacks that answer alike, as far as the first one goes on, make walks that end
  alike. \<open>fits\<close> is what is known of a node of the tree.
\<close>

locale related_visits =
  fixes visit1 :: "string \<Rightarrow> go_error option \<Rightarrow> node \<Rightarrow> 's \<Rightarrow> 's visit"
    and visit2 :: "string \<Rightarrow> go_error option \<Rightarrow> node \<Rightarrow> 't \<Rightarrow> 't visit"
    and fits :: "go_error option \<Rightarrow> node \<Rightarrow> bool"
    and rel_state :: "'s \<Rightarrow> 't \<Rightarrow> bool"
  assumes goes_on: "rel_state s t \<Longrightarrow> fits info n \<Longrightarrow> visit1 rel info n s = Go_on s' \<Longrightarrow>
      \<exists>t'. visit2 rel info n t = Go_on t' \<and> rel_state s' t'"
    and skips: "rel_state s t \<Longrightarrow> fits info n \<Longrightarrow> visit1 rel info n s = Skip_dir s' \<Longrightarrow>
      \<exists>t'. visit2 rel info n t = Skip_dir t' \<and> rel_state s' t'"
begin

lemma walks_agree:
  "rel_state s t \<Longrightarrow> every_node fits info n \<Longrightarrow> walk_node visit1 rel info n s = Inr s' \<Longrightarrow>
     \<exists>t'. walk_node visit2 rel info n t = Inr t' \<and> rel_state s' t'"
  "rel_state s t \<Longrightarrow> every_item fits l \<Longrightarrow> walk_listing visit1 rel l s = Inr s' \<Longrightarrow>
     \<exists>t'. walk_listing visit2 rel l t = Inr t' \<and> rel_state s' t'"
proof (induction n and l arbitrary: rel info s t s' and rel s t s')
  case (Directory e l)
  from Directory.prems(2) have f: "fits info (Directory e l)" "every_item fits l" by simp_all
  show ?case
  proof (cases "visit1 rel info (Directory e l) s")
    case (Go_on s1)
    from goes_on [OF Directory.prems(1) f(1) this] obtain t1 where
      t1: "visit2 rel info (Directory e l) t = Go_on t1" "rel_state s1 t1" by blast
    from Directory.prems(3) Go_on have e: "e = None" "walk_listing visit1 rel l s1 = Inr s'"
      by (auto split: option.splits)
    from Directory.IH [OF t1(2) f(2) e(2)] t1(1) e(1) show ?thesis by simp
  next
    case (Skip_dir s1)
    from skips [OF Directory.prems(1) f(1) this] Skip_dir Directory.prems(3) show ?thesis by auto
  qed (use Directory.prems(3) in simp)
next
  case (Item name info n rest)
  from Item.prems(3) obtain s1 where s1: "walk_node visit1 (below rel name) info n s = Inr s1"
    "walk_listing visit1 rel rest s1 = Inr s'" by (auto split: sum.splits)
  from Item.prems(2) have f: "every_node fits info n" "every_item fits rest" by simp_all
  from Item.IH(1) [OF Item.prems(1) f(1) s1(1)] obtain t1 where
    t1: "walk_node visit2 (below rel name) info n t = Inr t1" "rel_state s1 t1" by blast
  from Item.IH(2) [OF t1(2) f(2) s1(2)] t1(1) show ?case by simp
qed (auto split: visit.splits dest: goes_on skips)

end

text \<open>A file whose reported size is the number of bytes a copy reads, and whose \<open>Info\<close> answers.\<close>

fun file_bytes :: "node \<Rightarrow> (go_error, string) result" where
  "file_bytes (Regular sz bytes) = bytes"
| "file_bytes (Link target st bytes) = bytes"
| "file_bytes _ = Inl (PlainError [])"

definition steady :: "go_error option \<Rightarrow> node \<Rightarrow> bool" where
  "steady info n \<longleftrightarrow> info = None \<and>
     (\<forall>root sz bytes content. file_info root n = Inr (sz, bytes) \<longrightarrow> bytes = Inr content \<longrightarrow> sz = int (length content))"

definition same_manifest :: "manifest_state \<Rightarrow> manifest_state \<Rightarrow> bool" where
  "same_manifest s t \<longleftrightarrow> ms_entries s = ms_entries t \<and> ms_ignored s = ms_ignored t \<and> ms_total s = ms_total t"

definition staging_works :: "upload_env \<Rightarrow> bool" where
  "staging_works env \<longleftrightarrow> (\<exists>d. make_temp env = Inr d) \<and> (\<forall>rel. make_dirs env rel = None) \<and> (\<forall>rel. create_file env rel = None)"

lemma same_manifest_simps [simp]:
  "same_manifest s s"
  "same_manifest (ignore_path rel s) (ignore_path rel t) \<longleftrightarrow> same_manifest s t"
  "same_manifest (add_entry rel n h s) (stage_file rel c (add_entry rel n h t)) \<longleftrightarrow> same_manifest s t"
  "same_manifest (stage_file rel c (add_entry rel n h s)) (add_entry rel n h t) \<longleftrightarrow> same_manifest s t"
  by (auto simp: same_manifest_def ignore_path_def add_entry_def stage_file_def)

lemma same_manifest_sym: "same_manifest s t \<Longrightarrow> same_manifest t s"
  by (simp add: same_manifest_def)

text \<open>One step of each callback, on related states.\<close>

lemma build_steps_as_snapshot:
  assumes "same_manifest s t" and "steady info n" and "\<And>r. make_dirs env r = None" "\<And>r. create_file env r = None"
  shows "(case build_visit (sha256 env) root sel rel info n s of
      Go_on s' \<Rightarrow> \<exists>t'. snapshot_visit env root sel rel info n t = Go_on t' \<and> same_manifest s' t'
    | Skip_dir s' \<Rightarrow> \<exists>t'. snapshot_visit env root sel rel info n t = Skip_dir t' \<and> same_manifest s' t'
    | Stop e \<Rightarrow> \<exists>e'. snapshot_visit env root sel rel info n t = Stop e')"
proof -
  have e: "ms_entries s = ms_entries t" "ms_total s = ms_total t" and info: "info = None"
    using assms(1,2) by (simp_all add: same_manifest_def steady_def)
  note step = build_visit_def snapshot_visit_def e info assms(1,3,4)
  show ?thesis
  proof (cases "file_info root n")
    case (Inl x)
    then show ?thesis by (auto simp: step)
  next
    case (Inr f)
    then obtain sz bytes where f: "file_info root n = Inr (sz, bytes)" by (cases f) simp
    show ?thesis
    proof (cases bytes)
      case (Inl x)
      with f show ?thesis by (auto simp: step split: option.splits)
    next
      case (Inr content)
      with assms(2) f have "sz = int (length content)" by (simp add: steady_def)
      with f Inr show ?thesis by (auto simp: step split: option.splits)
    qed
  qed
qed

lemma snapshot_steps_as_build:
  assumes "same_manifest s t" and "steady info n" and "\<And>r. make_dirs env r = None" "\<And>r. create_file env r = None"
  shows "(case snapshot_visit env root sel rel info n s of
      Go_on s' \<Rightarrow> \<exists>t'. build_visit (sha256 env) root sel rel info n t = Go_on t' \<and> same_manifest s' t'
    | Skip_dir s' \<Rightarrow> \<exists>t'. build_visit (sha256 env) root sel rel info n t = Skip_dir t' \<and> same_manifest s' t'
    | Stop e \<Rightarrow> True)"
proof -
  from build_steps_as_snapshot [OF same_manifest_sym [OF assms(1)] assms(2-4), of root sel rel]
  show ?thesis by (auto split: visit.splits dest: same_manifest_sym)
qed

interpretation build_snapshot: related_visits "build_visit (sha256 env) root sel" "snapshot_visit env root sel"
    "\<lambda>info n. steady info n \<and> staging_works env" same_manifest
  for env root sel
proof unfold_locales
  fix s t info n rel s'
  assume r: "same_manifest s t" and f: "steady info n \<and> staging_works env"
  from build_steps_as_snapshot [OF r, of info n env root sel rel] f
  show "build_visit (sha256 env) root sel rel info n s = Go_on s' \<Longrightarrow>
      \<exists>t'. snapshot_visit env root sel rel info n t = Go_on t' \<and> same_manifest s' t'"
    and "build_visit (sha256 env) root sel rel info n s = Skip_dir s' \<Longrightarrow>
      \<exists>t'. snapshot_visit env root sel rel info n t = Skip_dir t' \<and> same_manifest s' t'"
    by (auto simp: staging_works_def)
qed

interpretation snapshot_build: related_visits "snapshot_visit env root sel" "build_visit (sha256 env) root sel"
    "\<lambda>info n. steady info n \<and> staging_works env" same_manifest
  for env root sel
proof unfold_locales
  fix s t info n rel s'
  assume r: "same_manifest s t" and f: "steady info n \<and> staging_works env"
  from snapshot_steps_as_build [OF r, of info n env root sel rel] f
  show "snapshot_visit env root sel rel info n s = Go_on s' \<Longrightarrow>
      \<exists>t'. build_visit (sha256 env) root sel rel info n t = Go_on t' \<and> same_manifest s' t'"
    and "snapshot_visit env root sel rel info n s = Skip_dir s' \<Longrightarrow>
      \<exists>t'. build_visit (sha256 env) root sel rel info n t = Skip_dir t' \<and> same_manifest s' t'"
    by (auto simp: staging_works_def)
qed

lemma every_node_and: "every_node P info n \<Longrightarrow> Q \<Longrightarrow> every_node (\<lambda>info n. P info n \<and> Q) info n"
  and every_item_and: "every_item P l \<Longrightarrow> Q \<Longrightarrow> every_item (\<lambda>info n. P info n \<and> Q) l"
  by (induction n and l arbitrary: info) auto

text \<open>
  On a work directory at rest, with a staging area that works, \<open>Build\<close> succeeds exactly when
  \<open>Snapshot\<close> does, with the same manifest and the same ignored paths.
\<close>

lemma dry_run_agrees:
  assumes "every_node steady None (root_entries env)" and "staging_works env"
  shows "Build env sel = Inr (entries, ignored) \<longleftrightarrow>
    (\<exists>staging staged. Snapshot env sel = Inr (staging, staged, entries, ignored))"
proof -
  obtain dir where dir: "make_temp env = Inr dir" using assms(2) by (auto simp: staging_works_def)
  have f: "every_item (\<lambda>info n. steady info n \<and> staging_works env) l" if "root_entries env = Directory e l" for e l
    using that assms by (intro every_item_and) auto
  have there: "\<exists>t'. walk_root (snapshot_visit env root sel) (root_entries env) = Inr t' \<and> same_manifest s' t'"
    if "walk_root (build_visit (sha256 env) root sel) (root_entries env) = Inr s'" for root s'
    using that build_snapshot.walks_agree(2) [OF same_manifest_simps(1) f]
    by (auto simp: walk_root_def split: node.splits option.splits)
  have conversely: "\<exists>t'. walk_root (build_visit (sha256 env) root sel) (root_entries env) = Inr t' \<and> same_manifest s' t'"
    if "walk_root (snapshot_visit env root sel) (root_entries env) = Inr s'" for root s'
    using that snapshot_build.walks_agree(2) [OF same_manifest_simps(1) f]
    by (auto simp: walk_root_def split: node.splits option.splits)
  show ?thesis
    using there conversely dir
    by (fastforce simp: Build_def Snapshot_def same_manifest_def split: option.splits sum.splits)
qed

section \<open>What a snapshot holds\<close>

text \<open>
  The reference: the entries that are not directories, not excluded, and not below an
  excluded directory, in the order of the walk.
\<close>

fun visible :: "selection \<Rightarrow> string \<Rightarrow> node \<Rightarrow> (string \<times> node) list"
and visible_below :: "selection \<Rightarrow> string \<Rightarrow> listing \<Rightarrow> (string \<times> node) list" where
  "visible sel rel (Directory e l) = (if matches rel True (sel_exclude sel) then [] else visible_below sel rel l)"
| "visible sel rel n = (if matches rel False (sel_exclude sel) then [] else [(rel, n)])"
| "visible_below sel rel Done = []"
| "visible_below sel rel (Item name info n rest) = visible sel (below rel name) n @ visible_below sel rel rest"

text \<open>A staged file has the bytes of a regular file, or of a link that stays inside the work directory.\<close>

definition staged_from :: "string \<Rightarrow> (string \<times> node) list \<Rightarrow> string \<times> string \<Rightarrow> bool" where
  "staged_from root seen = (\<lambda>(rel, content). \<exists>n. (rel, n) \<in> set seen \<and> file_bytes n = Inr content \<and>
     (\<exists>sz bytes. file_info root n = Inr (sz, bytes)))"

definition manifest_of :: "upload_env \<Rightarrow> (string \<times> string) list \<Rightarrow> manifest_entry list" where
  "manifest_of env staged = map (\<lambda>(rel, content).
     \<lparr>me_path = rel, me_size = int (length content), me_sha256 = sha256 env content\<rparr>) staged"

definition within_limits :: "selection \<Rightarrow> manifest_state \<Rightarrow> bool" where
  "within_limits sel s \<longleftrightarrow> (0 < max_files sel \<longrightarrow> int (length (ms_entries s)) \<le> max_files sel)"

definition collected ::
    "upload_env \<Rightarrow> string \<Rightarrow> selection \<Rightarrow> (string \<times> node) list \<Rightarrow> manifest_state \<Rightarrow> manifest_state \<Rightarrow> bool" where
  "collected env root sel seen s s' \<longleftrightarrow> (\<exists>new.
     ms_staged s' = ms_staged s @ new \<and> ms_entries s' = ms_entries s @ manifest_of env new \<and>
     map fst new = filter (\<lambda>r. selected r sel) (map fst seen) \<and>
     (\<forall>f\<in>set new. staged_from root seen f) \<and> (within_limits sel s \<longrightarrow> within_limits sel s'))"

lemma collected_none: "ms_staged s' = ms_staged s \<Longrightarrow> ms_entries s' = ms_entries s \<Longrightarrow>
    \<forall>r\<in>fst ` set seen. \<not> selected r sel \<Longrightarrow> collected env root sel seen s s'"
  unfolding collected_def by (intro exI [of _ "[]"]) (auto simp: manifest_of_def within_limits_def filter_empty_conv)

lemma staged_from_more: "staged_from root seen f \<Longrightarrow> set seen \<subseteq> set seen' \<Longrightarrow> staged_from root seen' f"
  by (cases f) (auto simp: staged_from_def)

lemma collected_trans:
  assumes "collected env root sel seen s s1" and "collected env root sel seen' s1 s2"
  shows "collected env root sel (seen @ seen') s s2"
proof -
  from assms obtain a b where
    "ms_staged s1 = ms_staged s @ a" "ms_entries s1 = ms_entries s @ manifest_of env a"
    "map fst a = filter (\<lambda>r. selected r sel) (map fst seen)" "\<forall>f\<in>set a. staged_from root seen f"
    "ms_staged s2 = ms_staged s1 @ b" "ms_entries s2 = ms_entries s1 @ manifest_of env b"
    "map fst b = filter (\<lambda>r. selected r sel) (map fst seen')" "\<forall>f\<in>set b. staged_from root seen' f"
    "within_limits sel s \<longrightarrow> within_limits sel s1" "within_limits sel s1 \<longrightarrow> within_limits sel s2"
    by (auto simp: collected_def)
  then show ?thesis unfolding collected_def
    by (intro exI [of _ "a @ b"])
      (auto simp: manifest_of_def intro: staged_from_more [of root seen] staged_from_more [of root seen'])
qed

lemma snapshot_file:
  assumes "\<not> is_dir n" and "snapshot_visit env root sel rel info n s = Go_on s'"
  shows "collected env root sel (visible sel rel n) s s'"
proof -
  have v: "visible sel rel n = (if matches rel False (sel_exclude sel) then [] else [(rel, n)])"
    using assms(1) by (cases n) simp_all
  show ?thesis
  proof (cases "matches rel False (sel_exclude sel) \<or> \<not> selected rel sel")
    case True
    with assms v show ?thesis
      by (intro collected_none) (auto simp: snapshot_visit_def ignore_path_def split: option.splits if_splits)
  next
    case False
    with assms obtain sz content where f: "file_info root n = Inr (sz, Inr content)"
      "enforceLimits sel (int (length (ms_entries s)) + 1) (ms_total s + sz) = None"
      "s' = stage_file rel content (add_entry rel (int (length content)) (sha256 env content) s)"
      by (auto simp: snapshot_visit_def split: option.splits sum.splits if_splits)
    have "file_bytes n = Inr content"
      using f(1) by (auto simp: file_info_def split: node.splits sum.splits)
    with f False v show ?thesis unfolding collected_def
      by (intro exI [of _ "[(rel, content)]"])
        (auto simp: stage_file_def add_entry_def manifest_of_def staged_from_def within_limits_def enforceLimits_def
          split: if_splits)
  qed
qed

lemma snapshot_file_walk:
  assumes "\<not> is_dir n" and "walk_node (snapshot_visit env root sel) rel info n s = Inr s'"
  shows "collected env root sel (visible sel rel n) s s'"
proof -
  have "walk_node (snapshot_visit env root sel) rel info n s = (case snapshot_visit env root sel rel info n s of
      Stop e \<Rightarrow> Inl e | Skip_dir s' \<Rightarrow> Inr s' | Go_on s' \<Rightarrow> Inr s')"
    using assms(1) by (cases n) simp_all
  moreover have skip: "snapshot_visit env root sel rel info n s \<noteq> Skip_dir x" for x
    using assms(1) by (auto simp: snapshot_visit_def split: option.splits sum.splits)
  ultimately have "snapshot_visit env root sel rel info n s = Go_on s'"
    using assms(2) skip by (cases "snapshot_visit env root sel rel info n s") (simp, blast, simp)
  with assms(1) show ?thesis by (rule snapshot_file)
qed

lemma snapshot_collects:
  "walk_node (snapshot_visit env root sel) rel info n s = Inr s' \<Longrightarrow> collected env root sel (visible sel rel n) s s'"
  "walk_listing (snapshot_visit env root sel) rel l s = Inr s' \<Longrightarrow> collected env root sel (visible_below sel rel l) s s'"
proof (induction n and l arbitrary: rel info s s' and rel s s')
  case (Directory e l)
  show ?case
  proof (cases "matches rel True (sel_exclude sel)")
    case True
    with Directory.prems show ?thesis
      by (intro collected_none) (auto simp: snapshot_visit_def ignore_path_def)
  next
    case False
    with Directory show ?thesis by (auto simp: snapshot_visit_def split: option.splits)
  qed
next
  case (Item name info n rest)
  then show ?case by (auto split: sum.splits intro!: collected_trans)
next
  case Done
  then show ?case by (intro collected_none) simp_all
qed (erule snapshot_file_walk [rotated], simp)+

text \<open>
  C10. What is uploaded. The staged files of a successful snapshot are, in the order of the
  walk, exactly the selected entries that are not excluded and not below an excluded
  directory; each one has the bytes of a regular file or of a link whose target lies in the
  work directory; the manifest lists exactly them with their lengths and checksums; and a
  configured limit on their number holds.
\<close>

theorem snapshot_holds_selection:
  assumes "Snapshot env sel = Inr (staging, staged, entries, ignored)" and "root_entries env = Directory e l"
    and "root_absolute env = Inr root"
  shows "map fst staged = filter (\<lambda>r. selected r sel) (map fst (visible_below sel [] l)) \<and>
    (\<forall>f\<in>set staged. staged_from root (visible_below sel [] l) f) \<and> entries = manifest_of env staged \<and>
    (0 < max_files sel \<longrightarrow> int (length staged) \<le> max_files sel)"
proof -
  obtain s where s: "walk_root (snapshot_visit env root sel) (root_entries env) = Inr s"
    "staged = ms_staged s" "entries = ms_entries s"
    using assms(1,3) by (auto simp: Snapshot_def split: option.splits sum.splits)
  then have "walk_listing (snapshot_visit env root sel) [] l empty_manifest = Inr s"
    using assms(2) by (simp add: walk_root_def split: option.splits)
  from snapshot_collects(2) [OF this] s show ?thesis
    by (auto simp: collected_def empty_manifest_def within_limits_def manifest_of_def)
qed

text \<open>A work directory with one input, a link into it, an excluded directory and a note that is not selected.\<close>

definition sample_upload :: upload_env where
  "sample_upload = \<lparr>sha256 = (\<lambda>c. ''h''), root_absolute = Inr ''/p/a'',
     root_entries = Directory None
       (Item ''.git'' None (Directory None (Item ''HEAD'' None (Regular 3 (Inr ''ref'')) Done))
       (Item ''a.inp'' None (Regular 2 (Inr ''xy''))
       (Item ''b.txt'' None (Regular 1 (Inr ''z'')) Done))),
     make_temp = Inr ''/tmp/s'', make_dirs = (\<lambda>r. None), create_file = (\<lambda>r. None)\<rparr>"

definition sample_selection :: selection where
  "sample_selection = \<lparr>sel_mode = ''entry'', sel_entry = ''a.inp'', sel_include = [], sel_exclude = [''.git/''],
     max_files = 2, max_total_bytes = 100\<rparr>"

lemma sample_upload_steady: "every_node steady None (root_entries sample_upload)" "staging_works sample_upload"
  by (simp_all add: sample_upload_def steady_def file_info_def staging_works_def)

lemma sample_rules:
  "matches ''.git'' True [''.git/'']" "\<not> matches ''a.inp'' False [''.git/'']" "\<not> matches ''b.txt'' False [''.git/'']"
  "selected ''a.inp'' sample_selection" "\<not> selected ''b.txt'' sample_selection"
proof -
  have "trim_space ''.git/'' = ''.git/''" by (rule trim_space_graph) (simp_all add: graph_char_def)
  then have p: "pattern_matches x d ''.git/'' \<longleftrightarrow> x = ''.git'' \<or> has_prefix x ''.git/'' \<or> ''.git'' \<in> set (split_on (CHR ''/'') x)" for x d
    by (simp add: pattern_matches_def Let_def trim_prefix_def trim_suffix_def has_suffix_def)
  show "matches ''.git'' True [''.git/'']" "\<not> matches ''a.inp'' False [''.git/'']" "\<not> matches ''b.txt'' False [''.git/'']"
    "selected ''a.inp'' sample_selection" "\<not> selected ''b.txt'' sample_selection"
    by (simp_all add: matches_def p selected_def sample_selection_def)
qed

lemma sample_build: "Build sample_upload sample_selection =
    Inr ([\<lparr>me_path = ''a.inp'', me_size = 2, me_sha256 = ''h''\<rparr>], [''.git'', ''b.txt''])"
proof -
  have "sel_exclude sample_selection = [''.git/'']" by (simp add: sample_selection_def)
  with sample_rules show ?thesis
    by (simp add: Build_def validateSelection_def walk_root_def sample_upload_def build_visit_def below_def
        file_info_def enforceLimits_def empty_manifest_def add_entry_def ignore_path_def)
      (simp add: sample_selection_def)
qed

theorem snapshot_holds_selection_witness:
  "\<exists>staging staged entries ignored. Snapshot sample_upload sample_selection = Inr (staging, staged, entries, ignored) \<and>
     map fst staged = [''a.inp'']"
proof -
  obtain staging staged where s: "Snapshot sample_upload sample_selection = Inr (staging, staged,
      [\<lparr>me_path = ''a.inp'', me_size = 2, me_sha256 = ''h''\<rparr>], [''.git'', ''b.txt''])"
    using dry_run_agrees [OF sample_upload_steady] sample_build by blast
  obtain l where l: "root_entries sample_upload = Directory None l" by (simp add: sample_upload_def)
  have r: "root_absolute sample_upload = Inr ''/p/a''" by (simp add: sample_upload_def)
  from snapshot_holds_selection [OF s l r] have "[\<lparr>me_path = ''a.inp'', me_size = 2, me_sha256 = ''h''\<rparr>] = manifest_of sample_upload staged"
    by simp
  then have "map fst staged = [''a.inp'']"
    by (cases staged) (auto simp: manifest_of_def split: prod.splits)
  with s show ?thesis by (intro exI conjI)
qed

end
