(* ===== verification/Timestamp_Parsing.thy ===== *)
theory Timestamp_Parsing
  imports Timestamps
begin

text \<open>
  Reading a timestamp back: \<open>time.Parse(time.RFC3339Nano, s)\<close> on the texts in UTC, which are
  the only ones the program writes. Any other text counts as not parsable. The day number
  is computed from the calendar rules and shown to invert the calendar of \<open>Timestamps\<close>.
\<close>

section \<open>Day numbers\<close>

definition days_before_year :: "nat \<Rightarrow> nat" where
  "days_before_year y = 365 * (y - 1) + (y - 1) div 4 + (y - 1) div 400 - (y - 1) div 100"

definition days_before_month :: "nat \<Rightarrow> nat \<Rightarrow> nat" where
  "days_before_month y m = sum_list (map (days_in_month y) [1..<m])"

fun day_number :: "nat \<times> nat \<times> nat \<Rightarrow> nat" where
  "day_number (y, m, d) = days_before_year y + days_before_month y m + (d - 1)"

fun day_ok :: "nat \<times> nat \<times> nat \<Rightarrow> bool" where
  "day_ok (y, m, d) \<longleftrightarrow> 1 \<le> y \<and> 1 \<le> m \<and> m \<le> 12 \<and> 1 \<le> d \<and> d \<le> days_in_month y m"

lemma days_in_month_pos: "Suc 0 \<le> days_in_month y m"
  by (simp add: days_in_month_def)

lemma day_ok_next: "day_ok x \<Longrightarrow> day_ok (next_day x)"
  by (cases x) (auto simp: days_in_month_pos)

lemma day_ok_civil: "day_ok (civil n)"
  by (induction n) (auto simp: days_in_month_def intro: day_ok_next simp del: next_day.simps)

lemma days_before_next_month: "1 \<le> m \<Longrightarrow> days_before_month y (Suc m) = days_before_month y m + days_in_month y m"
  by (simp add: days_before_month_def)

lemma days_before_next_year:
  assumes "1 \<le> y"
  shows "days_before_year (Suc y) = days_before_year y + (if is_leap y then 366 else 365)"
proof -
  obtain k where k: "y = Suc k" using assms by (cases y) auto
  have le: "k div 100 \<le> k div 4" by (simp add: div_le_mono2)
  have step: "Suc k div n = k div n + (if n dvd Suc k then 1 else 0)" for n
    by (simp add: div_Suc dvd_eq_mod_eq_0)
  have dvd: "100 dvd Suc k \<Longrightarrow> 4 dvd Suc k" "400 dvd Suc k \<Longrightarrow> 100 dvd Suc k"
    by (auto elim: dvd_trans [rotated])
  show ?thesis
    unfolding days_before_year_def is_leap_def k diff_Suc_1 step [of 4] step [of 100] step [of 400]
    using le dvd by (cases "4 dvd Suc k"; cases "100 dvd Suc k"; cases "400 dvd Suc k")
      (simp_all add: add.commute add.left_commute)
qed

lemma days_of_year: "days_before_month y 12 + 31 = (if is_leap y then 366 else 365)"
  by (simp add: days_before_month_def days_in_month_def upt_rec)

lemma day_number_next: "day_ok x \<Longrightarrow> day_number (next_day x) = Suc (day_number x)"
proof (cases x)
  case (fields y m d)
  assume "day_ok x"
  then have ok: "1 \<le> y" "1 \<le> m" "m \<le> 12" "1 \<le> d" "d \<le> days_in_month y m" by (simp_all add: fields)
  consider "d < days_in_month y m" | "d = days_in_month y m" "m < 12" | "d = days_in_month y m" "m = 12"
    using ok by linarith
  then show ?thesis
  proof cases
    case 1
    then show ?thesis using ok by (simp add: fields)
  next
    case 2
    then show ?thesis using ok days_before_next_month [of m y] by (simp add: fields)
  next
    case 3
    have "days_before_month (Suc y) 1 = 0" by (simp add: days_before_month_def)
    moreover have "d = 31" using 3 by (simp add: days_in_month_def)
    ultimately show ?thesis
      using 3 ok days_before_next_year [OF ok(1)] days_of_year [of y] by (simp add: fields days_in_month_def)
  qed
qed

lemma day_number_civil [simp]: "day_number (civil n) = n"
proof (induction n)
  case 0
  then show ?case by (simp add: days_before_year_def days_before_month_def)
next
  case (Suc n)
  then show ?case using day_number_next [OF day_ok_civil [of n]] by simp
qed

section \<open>Parsing\<close>

text \<open>The value of a field of \<open>w\<close> digits.\<close>

definition digit_field :: "nat \<Rightarrow> string \<Rightarrow> nat option" where
  "digit_field w s = (if length s = w \<and> list_all is_digit s then Some (digits_val s) else None)"

text \<open>The fraction after the seconds and the zone \<open>Z\<close>; digits beyond the ninth are dropped.\<close>

definition parse_fraction :: "string \<Rightarrow> nat option" where
  "parse_fraction s =
     (if s = ''Z'' then Some 0
      else if s \<noteq> [] \<and> hd s = CHR ''.'' \<and> last s = CHR ''Z'' \<and> 2 < length s \<and> list_all is_digit (butlast (tl s))
      then Some (digits_val (take 9 (butlast (tl s) @ replicate 9 (CHR ''0''))))
      else None)"

definition parse_time :: "string \<Rightarrow> time option" where
  "parse_time s =
     (if length s < 20 \<or> s ! 4 \<noteq> CHR ''-'' \<or> s ! 7 \<noteq> CHR ''-'' \<or> s ! 10 \<noteq> CHR ''T'' \<or>
         s ! 13 \<noteq> CHR '':'' \<or> s ! 16 \<noteq> CHR '':'' then None
      else (case (digit_field 4 (take 4 s), digit_field 2 (take 2 (drop 5 s)), digit_field 2 (take 2 (drop 8 s)),
                  digit_field 2 (take 2 (drop 11 s)), digit_field 2 (take 2 (drop 14 s)),
                  digit_field 2 (take 2 (drop 17 s)), parse_fraction (drop 19 s)) of
        (Some y, Some mo, Some d, Some h, Some mi, Some sec, Some ns) \<Rightarrow>
          if day_ok (y, mo, d) \<and> h < 24 \<and> mi < 60 \<and> sec < 60
          then Some ((day_number (y, mo, d) * 86400 + h * 3600 + mi * 60 + sec) * nano + ns)
          else None
      | _ \<Rightarrow> None))"

lemma digits_pad: "list_all is_digit (pad w n)"
  by (induction w arbitrary: n) simp_all

lemma digits_val_pad: "digits_val (pad w n) = n mod 10 ^ w"
proof (induction w arbitrary: n)
  case 0
  then show ?case by (simp add: digits_val_def)
next
  case (Suc w)
  have "n mod 10 ^ Suc w = 10 * (n div 10 mod 10 ^ w) + n mod 10"
    by (simp add: mod_mult2_eq)
  with Suc show ?case by (simp add: digits_val_snoc)
qed

lemma digit_field_pad: "n < 10 ^ w \<Longrightarrow> digit_field w (pad w n) = Some n"
  by (simp add: digit_field_def digits_pad digits_val_pad)

text \<open>Stripped zeros come back when the digits are filled up.\<close>

lemma strip_zeros_fill:
  "length s = n \<Longrightarrow> take n (rev (strip_zeros (rev s)) @ replicate n (CHR ''0'')) = s"
proof -
  assume n: "length s = n"
  obtain k where k: "rev s = replicate k (CHR ''0'') @ strip_zeros (rev s)" using strip_zeros_replicate by blast
  then have s: "s = rev (strip_zeros (rev s)) @ replicate k (CHR ''0'')"
    by (metis rev_append rev_replicate rev_rev_ident)
  then have "k \<le> n" using n by (metis le_add2 length_append length_replicate)
  then have "replicate n (CHR ''0'') = replicate k (CHR ''0'') @ replicate (n - k) (CHR ''0'')"
    by (simp flip: replicate_add)
  then have "rev (strip_zeros (rev s)) @ replicate n (CHR ''0'') = s @ replicate (n - k) (CHR ''0'')"
    using s by (metis append_assoc)
  then show ?thesis using n by simp
qed

lemma set_strip_zeros: "set (strip_zeros s) \<subseteq> set s"
  by (induction s) auto

lemma strip_zeros_empty: "strip_zeros s = [] \<longleftrightarrow> set s \<subseteq> {CHR ''0''}"
  by (induction s) auto

lemma zero_digits: "set s \<subseteq> {CHR ''0''} \<Longrightarrow> digits_val s = 0"
proof -
  assume "set s \<subseteq> {CHR ''0''}"
  then have "s = replicate (length s) (CHR ''0'')" by (induction s) auto
  moreover have "digits_val (replicate k (CHR ''0'')) = 0" for k
  proof (induction k)
    case (Suc k)
    then show ?case
      using digits_val_snoc [of "replicate k (CHR ''0'')" "CHR ''0''"]
      by (simp add: replicate_append_same digit_val_def)
  qed (simp add: digits_val_def)
  ultimately show ?thesis by metis
qed

lemma parse_frac_text: "ns < nano \<Longrightarrow> parse_fraction (frac_text ns @ ''Z'') = Some ns"
proof (cases "ns = 0")
  case True
  then show ?thesis by (simp add: frac_text_def parse_fraction_def)
next
  case False
  assume lt: "ns < nano"
  let ?d = "rev (strip_zeros (rev (pad 9 ns)))"
  have val: "digits_val (pad 9 ns) = ns" using lt by (simp add: digits_val_pad nano_def del: pad.simps)
  have "?d \<noteq> []"
  proof
    assume "?d = []"
    then have "set (pad 9 ns) \<subseteq> {CHR ''0''}" by (simp add: strip_zeros_empty del: pad.simps)
    with zero_digits val False show False by metis
  qed
  moreover have "list_all is_digit ?d"
    using digits_pad [of 9 ns] set_strip_zeros [of "rev (pad 9 ns)"] by (auto simp: list_all_iff simp del: pad.simps)
  moreover have "take 9 (?d @ replicate 9 (CHR ''0'')) = pad 9 ns"
    by (rule strip_zeros_fill) simp
  ultimately show ?thesis
    using False val by (simp add: frac_text_def parse_fraction_def butlast_append Suc_lessI del: pad.simps take_append)
qed

lemma civil_fields:
  assumes "civil n = (y, mo, d)"
  shows "1 \<le> y" "mo < 100" "d < 100" "day_ok (y, mo, d)" "day_number (y, mo, d) = n"
proof -
  have "days_in_month y mo \<le> 31" by (simp add: days_in_month_def)
  then show "1 \<le> y" "mo < 100" "d < 100" "day_ok (y, mo, d)" "day_number (y, mo, d) = n"
    using day_ok_civil [of n] day_number_civil [of n] assms by (auto simp del: day_number.simps)
qed

lemma clock_fields:
  fixes a :: nat
  shows "a < 86400 \<Longrightarrow> a div 3600 < 24" "a div 60 mod 60 < 60" "a mod 60 < 60"
    "a = a div 3600 * 3600 + a div 60 mod 60 * 60 + a mod 60"
proof -
  show "a < 86400 \<Longrightarrow> a div 3600 < 24" by (simp add: less_mult_imp_div_less)
  have "a div 60 div 60 = a div 3600" by (simp flip: div_mult2_eq)
  then show "a = a div 3600 * 3600 + a div 60 mod 60 * 60 + a mod 60"
    using div_mult_mod_eq [of a 60] div_mult_mod_eq [of "a div 60" 60] by linarith
qed simp_all

text \<open>
  Reading back what was written: every instant up to the year 9999 is recovered from its
  stored text.
\<close>

theorem time_roundtrip:
  assumes "year_of t \<le> 9999"
  shows "parse_time (fmt_time t) = Some t"
proof -
  define s where "s = t div nano"
  obtain y mo d where c: "civil (s div 86400) = (y, mo, d)" by (cases "civil (s div 86400)")
  note f = civil_fields [OF c]
  have y: "y \<le> 9999" using assms c by (simp add: year_of_def s_def)
  define h mi sec where "h = s mod 86400 div 3600" and "mi = s mod 86400 div 60 mod 60" and "sec = s mod 86400 mod 60"
  have b: "h < 24" "mi < 60" "sec < 60" "s mod 86400 = h * 3600 + mi * 60 + sec"
    unfolding h_def mi_def sec_def using clock_fields [of "s mod 86400"] by simp_all
  let ?z = "frac_text (t mod nano) @ ''Z''"
  have tx: "fmt_time t = pad 4 y @ CHR ''-'' # pad 2 mo @ CHR ''-'' # pad 2 d @ CHR ''T'' # pad 2 h @ CHR '':'' #
      pad 2 mi @ CHR '':'' # pad 2 sec @ ?z"
    by (simp add: fmt_time_def second_text_def clock_text_def c flip: s_def h_def mi_def sec_def del: pad.simps)
  have "t = s * nano + t mod nano" by (simp add: s_def)
  moreover have "s = s div 86400 * 86400 + h * 3600 + mi * 60 + sec"
    using b(4) div_mult_mod_eq [of s 86400] by linarith
  moreover have "parse_fraction ?z = Some (t mod nano)" by (rule parse_frac_text) (simp add: nano_def)
  moreover have "digit_field 4 (pad 4 y) = Some y" "digit_field 2 (pad 2 mo) = Some mo" "digit_field 2 (pad 2 d) = Some d"
    "digit_field 2 (pad 2 h) = Some h" "digit_field 2 (pad 2 mi) = Some mi" "digit_field 2 (pad 2 sec) = Some sec"
    using f y b by (auto intro!: digit_field_pad)
  ultimately show ?thesis
    using f(4,5) b(1-3) unfolding parse_time_def tx
    by (simp add: nth_append nth_Cons' del: pad.simps day_ok.simps day_number.simps)
qed

theorem time_roundtrip_witness: "parse_time (fmt_time (3 * nano)) = Some (3 * nano)"
  by (rule time_roundtrip) (simp add: nano_def year_of_def)

end
