(* ===== verification/Status_Refresh.thy ===== *)
theory Status_Refresh
  imports Submission Timestamp_Parsing "HOL-Library.Multiset"
begin

text \<open>
  Observing the scheduler (\<open>internal/app/app.go\<close>): what one status answer does to a task,
  the refresh of one task with the recovery of a missing scheduler id, the bulk refresh of
  a project, and the cancellation of a job. A panic of the status query is \<open>None\<close>.
\<close>

section \<open>One observation\<close>

text \<open>\<open>task.UpdatedAt\<close> and the update itself; the result of the update is ignored.\<close>

definition stale_marked :: "task \<Rightarrow> time \<Rightarrow> task" where
  "stale_marked t now =
     (let m1 = (if task_meta t ''scheduler_stale_since'' = []
                then (metadata t)(''scheduler_stale_since'' \<mapsto> fmt_time now) else metadata t);
          m2 = (if meta_get m1 ''scheduler_observation'' = []
                then m1(''scheduler_observation'' \<mapsto> ''cache'') else m1)
      in t\<lparr>metadata := m2, updated_at := now\<rparr>)"

definition markSchedulerStale :: "store \<Rightarrow> time \<Rightarrow> task \<Rightarrow> task \<times> store" where
  "markSchedulerStale db now t = (case UpdateTask db (stale_marked t now) of (_, t', db') \<Rightarrow> (t', db'))"

text \<open>A terminal state that was observed once is kept when the scheduler has forgotten the job.\<close>

definition kept_status :: "task \<Rightarrow> job_status \<Rightarrow> job_status" where
  "kept_status t st =
     (if terminalComputeState (compute_state t) \<and> \<not> terminalComputeState (compute_of_text (js_state st))
      then (let st1 = st\<lparr>js_state := compute_text (compute_state t)\<rparr>
        in if js_raw st = []
           then st1\<lparr>js_raw := scheduler_state t, js_reason := scheduler_reason t, js_elapsed := elapsed t,
                    js_exit := exit_code t, js_start := scheduler_start t, js_end := scheduler_end t\<rparr>
           else st1)
      else st)"

definition observed :: "task \<Rightarrow> time \<Rightarrow> job_status \<Rightarrow> task" where
  "observed t now st =
     t\<lparr>metadata := (metadata t)(''scheduler_observation'' \<mapsto> ''remote'',
           ''scheduler_observed_at'' \<mapsto> fmt_time now, ''scheduler_stale_since'' := None),
       compute_state := compute_of_text (js_state st), scheduler_state := js_raw st,
       scheduler_reason := js_reason st, elapsed := js_elapsed st, exit_code := js_exit st,
       scheduler_start := js_start st, scheduler_end := js_end st\<rparr>"

definition same_observation :: "task \<Rightarrow> task \<Rightarrow> bool" where
  "same_observation a b \<longleftrightarrow> compute_state a = compute_state b \<and> scheduler_state a = scheduler_state b \<and>
     scheduler_reason a = scheduler_reason b \<and> exit_code a = exit_code b \<and>
     scheduler_start a = scheduler_start b \<and> scheduler_end a = scheduler_end b"

definition recently_observed :: "task \<Rightarrow> time \<Rightarrow> bool" where
  "recently_observed t now = (case parse_time (task_meta t ''scheduler_observed_at'') of
     None \<Rightarrow> False | Some o' \<Rightarrow> now - o' < 5 * nano)"

definition observation_event :: "task \<Rightarrow> task \<Rightarrow> time \<Rightarrow> task_event" where
  "observation_event t t' now =
     taskEvent t' (if compute_state t \<noteq> compute_state t' \<or> scheduler_state t \<noteq> scheduler_state t'
                   then ''COMPUTE_STATE_CHANGED'' else ''SCHEDULER_STATUS_CHANGED'') ''status''
       [''previous_compute_state'' \<mapsto> compute_text (compute_state t),
        ''compute_state'' \<mapsto> compute_text (compute_state t'), ''scheduler_state'' \<mapsto> scheduler_state t',
        ''scheduler_reason'' \<mapsto> scheduler_reason t', ''elapsed'' \<mapsto> elapsed t', ''exit_code'' \<mapsto> exit_code t',
        ''scheduler_start'' \<mapsto> scheduler_start t', ''scheduler_end'' \<mapsto> scheduler_end t'] now"

text \<open>The error is returned together with the task as it is in memory.\<close>

definition applySchedulerStatus ::
    "store \<Rightarrow> time \<Rightarrow> task \<Rightarrow> job_status \<Rightarrow> (go_error option \<times> task) \<times> store" where
  "applySchedulerStatus db now t st =
     (let t1 = observed t now (kept_status t st)
      in if same_observation t t1
         then if recently_observed t now then ((None, t1), db)
              else (case UpdateTask db (t1\<lparr>updated_at := now\<rparr>) of (r, t2, db') \<Rightarrow> ((error_of r, t2), db'))
         else (let t2 = t1\<lparr>updated_at := now\<rparr>
           in case UpdateTaskWithEvent db now t2 (observation_event t t2 now) of
                (r, t3, db') \<Rightarrow> ((error_of r, t3), db')))"

section \<open>One task\<close>

text \<open>
  \<open>fault.As(err).WithTask("status", \<dots>)\<close>. \<open>None\<close> is the panic of the status query; what was
  written before it stays written.
\<close>

definition status_fault :: "task \<Rightarrow> go_error \<Rightarrow> go_error" where
  "status_fault t e = with_task ''status'' (compute_state t) (pull_state t) (fault_as e)"

definition query_status ::
    "'w outside \<Rightarrow> 'w \<Rightarrow> store \<Rightarrow> cluster \<Rightarrow> task \<Rightarrow> (go_error option \<times> task) option \<times> 'w \<times> store" where
  "query_status env w db c t =
     (case Status (exec_cmd env) w (cluster_host c) (scheduler_id t) of
        (None, w') \<Rightarrow> (None, w', db)
      | (Some (Inl e), w') \<Rightarrow> (case markSchedulerStale db (clock env w') t of
            (t', db') \<Rightarrow> (Some (Some (status_fault t' e), t'), w', db'))
      | (Some (Inr st), w') \<Rightarrow> (case applySchedulerStatus db (clock env w') t st of
            (r, db') \<Rightarrow> (Some r, w', db')))"

definition recovered_task :: "task \<Rightarrow> time \<Rightarrow> string \<Rightarrow> task" where
  "recovered_task t now i = t\<lparr>scheduler_id := i, compute_state := ComputeQueued, updated_at := now\<rparr>"

definition refreshTask ::
    "'w outside \<Rightarrow> 'w \<Rightarrow> store \<Rightarrow> task \<Rightarrow> (go_error option \<times> task) option \<times> 'w \<times> store" where
  "refreshTask env w db t =
     (case clusters env (cluster_name t) of
        None \<Rightarrow> (Some (Some (with_task ''status'' (compute_state t) (pull_state t) (fault_new ''CLUSTER_NOT_FOUND'' False)), t), w, db)
      | Some c \<Rightarrow>
          if scheduler_id t \<noteq> [] then query_status env w db c t
          else case recoverSchedulerID (exec_cmd env) w c t of
            (Inl e, w1) \<Rightarrow> (case markSchedulerStale db (clock env w1) t of
               (t', db') \<Rightarrow> (Some (Some (status_fault t' e), t'), w1, db'))
          | (Inr i, w1) \<Rightarrow>
              if i = [] then (Some (None, t), w1, db)
              else let now = clock env w1; t1 = recovered_task t now i
                in case UpdateTaskWithEvent db now t1 (taskEvent t1 ''SCHEDULER_ID_RECOVERED'' ''status''
                     [''scheduler_id'' \<mapsto> i] now) of
                  (Inl e, t2, db1) \<Rightarrow> (Some (Some e, t2), w1, db1)
                | (Inr _, t2, db1) \<Rightarrow> query_status env w1 db1 c t2)"

section \<open>All tasks of a project\<close>

record status_all_state =
  sa_resolved :: "string \<rightharpoonup> task"
  sa_failures :: "(string \<times> go_error) list"
  sa_batches :: "(string \<times> task list) list"

text \<open>The tasks of one cluster, in the order of the list; clusters in the order of their first task.\<close>

fun add_to_batch :: "string \<Rightarrow> task \<Rightarrow> (string \<times> task list) list \<Rightarrow> (string \<times> task list) list" where
  "add_to_batch k t [] = [(k, [t])]"
| "add_to_batch k t ((j, ts) # rest) =
     (if j = k then (j, ts @ [t]) # rest else (j, ts) # add_to_batch k t rest)"

definition keep_resolved :: "task \<Rightarrow> status_all_state \<Rightarrow> status_all_state" where
  "keep_resolved t s = s\<lparr>sa_resolved := (sa_resolved s)(task_id t \<mapsto> t)\<rparr>"

definition note_failure :: "string \<Rightarrow> go_error \<Rightarrow> status_all_state \<Rightarrow> status_all_state" where
  "note_failure i e s = s\<lparr>sa_failures := sa_failures s @ [(i, fault_as e)]\<rparr>"

text \<open>The first loop, for one task; \<open>None\<close> when the refresh of an uncertain task panics.\<close>

definition sort_task ::
    "'w outside \<Rightarrow> task \<Rightarrow> 'w \<times> store \<times> status_all_state \<Rightarrow> ('w \<times> store \<times> status_all_state) option" where
  "sort_task env t = (\<lambda>(w, db, s).
     if \<not> bulkRefreshableComputeState (compute_state t) then Some (w, db, keep_resolved t s)
     else if scheduler_id t = [] then
       (if compute_state t = ComputeSubmissionUncertain
        then (case refreshTask env w db t of
            (None, _) \<Rightarrow> None
          | (Some (Some e, _), w', db') \<Rightarrow> Some (w', db', note_failure (task_id t) e s)
          | (Some (None, u), w', db') \<Rightarrow> Some (w', db', s\<lparr>sa_resolved := (sa_resolved s)(task_id t \<mapsto> u)\<rparr>))
        else Some (w, db, keep_resolved t s))
     else if clusters env (cluster_name t) = None
       then Some (w, db, note_failure (task_id t) (fault_new ''CLUSTER_NOT_FOUND'' False) s)
       else Some (w, db, s\<lparr>sa_batches := add_to_batch (cluster_name t) t (sa_batches s)\<rparr>))"

fun fold_option :: "('a \<Rightarrow> 's \<Rightarrow> 's option) \<Rightarrow> 'a list \<Rightarrow> 's \<Rightarrow> 's option" where
  "fold_option f [] s = Some s"
| "fold_option f (x # xs) s = (case f x s of None \<Rightarrow> None | Some s' \<Rightarrow> fold_option f xs s')"

text \<open>One task of a batch, whose query has answered or failed.\<close>

definition batch_failed :: "'w outside \<Rightarrow> 'w \<Rightarrow> go_error \<Rightarrow> task \<Rightarrow> store \<times> status_all_state \<Rightarrow> store \<times> status_all_state" where
  "batch_failed env w e t = (\<lambda>(db, s). (snd (markSchedulerStale db (clock env w) t), note_failure (task_id t) e s))"

text \<open>
  \<open>statuses[id]\<close> of a map without the id is the zero status. After a failed write the task
  that is marked stale shares its metadata map with the one the observation was put into.
\<close>

definition zero_status :: job_status where
  "zero_status = \<lparr>js_state = [], js_raw = [], js_elapsed = [], js_exit = [], js_reason = [], js_start = [], js_end = []\<rparr>"

definition batch_applied ::
    "'w outside \<Rightarrow> 'w \<Rightarrow> (string \<rightharpoonup> job_status) \<Rightarrow> task \<Rightarrow> store \<times> status_all_state \<Rightarrow> store \<times> status_all_state" where
  "batch_applied env w sts t = (\<lambda>(db, s).
     case applySchedulerStatus db (clock env w) t
            (case sts (scheduler_id t) of Some st \<Rightarrow> st | None \<Rightarrow> zero_status) of
       ((None, t'), db') \<Rightarrow> (db', s\<lparr>sa_resolved := (sa_resolved s)(task_id t \<mapsto> t')\<rparr>)
     | ((Some e, t'), db') \<Rightarrow>
         (snd (markSchedulerStale db' (clock env w) (t\<lparr>metadata := metadata t'\<rparr>)), note_failure (task_id t) e s))"

definition refresh_batch ::
    "'w outside \<Rightarrow> string \<times> task list \<Rightarrow> 'w \<times> store \<times> status_all_state \<Rightarrow> 'w \<times> store \<times> status_all_state" where
  "refresh_batch env = (\<lambda>(k, ts) (w, db, s).
     case Statuses (exec_cmd env) w (case clusters env k of Some c \<Rightarrow> cluster_host c | None \<Rightarrow> [])
            (map scheduler_id ts) of
       (Inl e, w') \<Rightarrow> (case fold (batch_failed env w' e) ts (db, s) of (db', s') \<Rightarrow> (w', db', s'))
     | (Inr sts, w') \<Rightarrow> (case fold (batch_applied env w' sts) ts (db, s) of (db', s') \<Rightarrow> (w', db', s')))"

text \<open>
  \<open>StatusAll\<close>. \<open>arrange\<close> stands for the order in which Go ranges over the map of the
  clusters; the result lists the tasks and the failures.
\<close>

definition StatusAll ::
    "'w outside \<Rightarrow> ((string \<times> task list) list \<Rightarrow> (string \<times> task list) list) \<Rightarrow> 'w \<Rightarrow> store \<Rightarrow> string \<Rightarrow>
     (task list \<times> (string \<times> go_error) list \<times> 'w \<times> store) option" where
  "StatusAll env arrange w db pid =
     (let ts = ListTasks db pid
      in case fold_option (sort_task env) ts (w, db, \<lparr>sa_resolved = Map.empty, sa_failures = [], sa_batches = []\<rparr>) of
           None \<Rightarrow> None
         | Some (w1, db1, s1) \<Rightarrow>
             (case fold (refresh_batch env) (arrange (sa_batches s1)) (w1, db1, s1) of
                (w2, db2, s2) \<Rightarrow>
                  Some (List.map_filter (\<lambda>t. sa_resolved s2 (task_id t)) ts, sa_failures s2, w2, db2)))"

section \<open>Cancelling\<close>

text \<open>After \<open>ResolveTask\<close>; the last write of the metadata file is ignored when it fails.\<close>

definition Cancel ::
    "'w outside \<Rightarrow> 'w \<Rightarrow> store \<Rightarrow> task \<Rightarrow> (go_error option \<times> task) \<times> 'w \<times> store" where
  "Cancel env w db t =
     (if scheduler_id t = []
      then ((Some (with_task ''cancel'' (compute_state t) (pull_state t) (fault_new ''CANCEL_FAILED'' False)), t), w, db)
      else case clusters env (cluster_name t) of
        None \<Rightarrow> ((Some (fault_new ''CLUSTER_NOT_FOUND'' False), t), w, db)
      | Some c \<Rightarrow>
          (case AppendEvent db (clock env w) (taskEvent t ''CANCEL_REQUESTED'' ''cancel'' Map.empty (clock env w)) of
             (Inl e, db1) \<Rightarrow> ((Some e, t), w, db1)
           | (Inr _, db1) \<Rightarrow>
               (case Cancel_job (exec_cmd env) w (cluster_host c) (scheduler_id t) of
                  (Inl e, w1) \<Rightarrow> ((Some (with_task ''cancel'' (compute_state t) (pull_state t)
                      (fault_wrap ''CANCEL_FAILED'' [] True e)), t), w1, db1)
                | (Inr _, w1) \<Rightarrow>
                    let now = clock env w1;
                        t1 = t\<lparr>metadata := (metadata t)(''cancel_requested_at'' \<mapsto> fmt_time now), updated_at := now\<rparr>
                    in case UpdateTaskWithEvent db1 now t1 (taskEvent t1 ''CANCEL_ACCEPTED'' ''cancel'' Map.empty now) of
                         (Inl e, t2, db2) \<Rightarrow> ((Some e, t2), w1, db2)
                       | (Inr _, t2, db2) \<Rightarrow> ((None, t2), snd (writeMetadata env w1 c t2), db2))))"

section \<open>What an observation keeps\<close>

lemma compute_of_text_terminal:
  "terminalComputeState cs \<Longrightarrow> compute_of_text (compute_text cs) = cs"
  unfolding terminalComputeState_def
  by (elim disjE) (simp_all add: compute_of_text_def named_compute_states_def)

lemma kept_status_terminal:
  "terminalComputeState (compute_state t) \<Longrightarrow> terminalComputeState (compute_of_text (js_state (kept_status t st)))"
  by (simp add: kept_status_def Let_def compute_of_text_terminal)

lemma observed_fields [simp]:
  "same_snapshot (observed t now st) t" "pull_state (observed t now st) = pull_state t"
  "revision (observed t now st) = revision t" "task_id (observed t now st) = task_id t"
  "project_id (observed t now st) = project_id t" "scheduler_id (observed t now st) = scheduler_id t"
  "compute_state (observed t now st) = compute_of_text (js_state st)"
  by (simp_all add: observed_def same_snapshot_def)

lemma same_observation_upd [simp]:
  "same_observation t (u\<lparr>updated_at := n\<rparr>) = same_observation t u"
  "same_observation t (u\<lparr>revision := k\<rparr>) = same_observation t u"
  by (simp_all add: same_observation_def)

lemma same_snapshot_upd [simp]:
  "same_snapshot (u\<lparr>updated_at := n\<rparr>) t = same_snapshot u t"
  "same_snapshot (u\<lparr>revision := k\<rparr>) t = same_snapshot u t"
  by (simp_all add: same_snapshot_def)

lemma UpdateTask_synced:
  assumes "store_ok db" and "synced db t"
  shows "\<exists>db'. UpdateTask db t = (Inr (), t\<lparr>revision := revision t + 1\<rparr>, db') \<and> store_ok db' \<and>
    GetTask db' (task_id t) = Inr (stored (t\<lparr>revision := revision t + 1\<rparr>)) \<and> task_events db' = task_events db"
proof -
  from assms(2) obtain x where x: "find_row db (task_id t) = Some x" "revision x = revision t"
    and t: "1 \<le> revision t" "project_bound db (project_id t)" by (auto simp: synced_def)
  obtain db' where u: "UpdateTask db t = (Inr (), t\<lparr>revision := revision t + 1\<rparr>, db')"
    using UpdateTask_current [OF assms(1) x t] by blast
  have "updateTaskRecord db t None = Inr (revision t + 1, db')"
    using u task_commit_record by (simp add: task_commit_def)
  from updateTaskRecord_cases [OF this assms(1)] u show ?thesis
    by (simp add: GetTask_def stored_def)
qed



section \<open>Observing keeps the store well formed\<close>

lemma UpdateTask_ok: "UpdateTask db t = (r, t', db') \<Longrightarrow> store_ok db \<Longrightarrow> store_ok db'"
  unfolding UpdateTask_def using store_change_ok store_change.update by blast

lemma UpdateTaskWithEvent_ok: "UpdateTaskWithEvent db now t e = (r, t', db') \<Longrightarrow> store_ok db \<Longrightarrow> store_ok db'"
  unfolding UpdateTaskWithEvent_def using store_change_ok store_change.update by blast

lemma markSchedulerStale_ok: "markSchedulerStale db now t = (t', db') \<Longrightarrow> store_ok db \<Longrightarrow> store_ok db'"
  by (auto simp: markSchedulerStale_def split: prod.splits dest: UpdateTask_ok)

lemma applySchedulerStatus_ok: "applySchedulerStatus db now t st = (r, db') \<Longrightarrow> store_ok db \<Longrightarrow> store_ok db'"
  by (auto simp: applySchedulerStatus_def Let_def split: if_splits prod.splits
      dest: UpdateTask_ok UpdateTaskWithEvent_ok)

lemma query_status_ok: "query_status env w db c t = (r, w', db') \<Longrightarrow> store_ok db \<Longrightarrow> store_ok db'"
  by (auto simp: query_status_def split: prod.splits option.splits sum.splits
      dest: applySchedulerStatus_ok markSchedulerStale_ok)

lemma refreshTask_ok: "refreshTask env w db t = (r, w', db') \<Longrightarrow> store_ok db \<Longrightarrow> store_ok db'"
  by (auto simp: refreshTask_def Let_def split: prod.splits option.splits sum.splits if_splits
      dest: query_status_ok markSchedulerStale_ok UpdateTaskWithEvent_ok)

section \<open>Every task of the project is answered\<close>

lemma UpdateTask_id: "UpdateTask db t = (r, t', db') \<Longrightarrow> task_id t' = task_id t"
  unfolding UpdateTask_def by (erule updateTask_cases) simp_all

lemma UpdateTaskWithEvent_id: "UpdateTaskWithEvent db now t e = (r, t', db') \<Longrightarrow> task_id t' = task_id t"
  unfolding UpdateTaskWithEvent_def by (erule updateTask_cases) simp_all

lemma applySchedulerStatus_id:
  "applySchedulerStatus db now t st = ((e, t'), db') \<Longrightarrow> task_id t' = task_id t"
  by (auto simp: applySchedulerStatus_def Let_def split: if_splits prod.splits
      dest!: UpdateTask_id UpdateTaskWithEvent_id)

lemma query_status_id: "query_status env w db c t = (Some (None, u), w', db') \<Longrightarrow> task_id u = task_id t"
  by (auto simp: query_status_def split: prod.splits option.splits sum.splits dest: applySchedulerStatus_id)

lemma refreshTask_id: "refreshTask env w db t = (Some (None, u), w', db') \<Longrightarrow> task_id u = task_id t"
  by (auto simp: refreshTask_def Let_def recovered_task_def split: prod.splits option.splits sum.splits if_splits
      dest!: query_status_id UpdateTaskWithEvent_id)

text \<open>
  Of the ids \<open>I\<close> seen so far every one is resolved, has failed once, or waits in \<open>B\<close>, and
  only one of these.
\<close>

definition accounted :: "string set \<Rightarrow> (string \<rightharpoonup> task) \<Rightarrow> (string \<times> go_error) list \<Rightarrow> string list \<Rightarrow> bool" where
  "accounted I res fl B \<longleftrightarrow> distinct (map fst fl @ B) \<and> dom res \<inter> set (map fst fl @ B) = {} \<and>
     dom res \<union> set (map fst fl @ B) = I \<and> (\<forall>i u. res i = Some u \<longrightarrow> task_id u = i)"

lemma accounted_resolve: "accounted I res fl (i # B) \<Longrightarrow> task_id u = i \<Longrightarrow> accounted I (res(i \<mapsto> u)) fl B"
  by (auto simp: accounted_def)

lemma accounted_fail: "accounted I res fl (i # B) \<Longrightarrow> accounted I res (fl @ [(i, e)]) B"
  by (auto simp: accounted_def)

lemma accounted_wait: "accounted I res fl B \<Longrightarrow> i \<notin> I \<Longrightarrow> accounted (insert i I) res fl (i # B)"
  by (auto simp: accounted_def)

lemma accounted_perm: "accounted I res fl B \<Longrightarrow> mset B = mset B' \<Longrightarrow> accounted I res fl B'"
  unfolding accounted_def distinct_append by (metis mset_eq_imp_distinct_iff mset_eq_setD set_append)

definition waiting :: "(string \<times> task list) list \<Rightarrow> string list" where
  "waiting batches = concat (map (\<lambda>(k, ts). map task_id ts) batches)"

lemma waiting_simps [simp]: "waiting [] = []" "waiting ((k, ts) # rest) = map task_id ts @ waiting rest"
  by (simp_all add: waiting_def)

lemma waiting_add: "mset (waiting (add_to_batch k t rest)) = mset (task_id t # waiting rest)"
  by (induction k t rest rule: add_to_batch.induct) auto

lemma waiting_perm: "mset xs = mset ys \<Longrightarrow> mset (waiting xs) = mset (waiting ys)"
proof -
  have "mset (waiting zs) = sum_mset (image_mset (\<lambda>(k, ts). mset (map task_id ts)) (mset zs))" for zs
    by (induction zs) auto
  then show "mset xs = mset ys \<Longrightarrow> ?thesis" by simp
qed

lemma sort_task_accounted:
  assumes "sort_task env t (w, db, s) = Some (w', db', s')"
    and "accounted I (sa_resolved s) (sa_failures s) (waiting (sa_batches s))" and "task_id t \<notin> I"
  shows "accounted (insert (task_id t) I) (sa_resolved s') (sa_failures s') (waiting (sa_batches s'))"
proof -
  note w = accounted_wait [OF assms(2,3)]
  have a: "accounted (insert (task_id t) I) ((sa_resolved s)(task_id t \<mapsto> u)) (sa_failures s) (waiting (sa_batches s))"
    if "task_id u = task_id t" for u
    using accounted_resolve [OF w that] .
  have b: "accounted (insert (task_id t) I) (sa_resolved s) (sa_failures s) (waiting (add_to_batch k t (sa_batches s)))" for k
    using accounted_perm [OF w] waiting_add by metis
  show ?thesis
    using assms(1) a b accounted_fail [OF w]
    by (auto simp: sort_task_def keep_resolved_def note_failure_def split: if_splits option.splits prod.splits
        dest!: refreshTask_id)
qed

lemma sort_tasks_accounted:
  "fold_option (sort_task env) ts (w, db, s) = Some (w', db', s') \<Longrightarrow>
   accounted I (sa_resolved s) (sa_failures s) (waiting (sa_batches s)) \<Longrightarrow>
   distinct (map task_id ts) \<Longrightarrow> task_id ` set ts \<inter> I = {} \<Longrightarrow>
   accounted (task_id ` set ts \<union> I) (sa_resolved s') (sa_failures s') (waiting (sa_batches s'))"
proof (induction ts arbitrary: w db s I)
  case (Cons t ts)
  then obtain w1 db1 s1 where s1: "sort_task env t (w, db, s) = Some (w1, db1, s1)"
      "fold_option (sort_task env) ts (w1, db1, s1) = Some (w', db', s')"
    by (auto split: option.splits)
  have "accounted (insert (task_id t) I) (sa_resolved s1) (sa_failures s1) (waiting (sa_batches s1))"
    using sort_task_accounted [OF s1(1) Cons.prems(2)] Cons.prems(4) by simp
  from Cons.IH [OF s1(2) this] Cons.prems(3,4) show ?case by (auto simp: insert_commute)
qed simp

lemma batch_failed_accounted:
  "fold (batch_failed env w e) ts (db, s) = (db', s') \<Longrightarrow>
   accounted I (sa_resolved s) (sa_failures s) (map task_id ts @ B) \<Longrightarrow>
   accounted I (sa_resolved s') (sa_failures s') B"
proof (induction ts arbitrary: db s)
  case (Cons t ts)
  then show ?case
    using accounted_fail [of I "sa_resolved s" "sa_failures s" "task_id t" "map task_id ts @ B"]
    by (force simp: batch_failed_def note_failure_def)
qed simp

lemma batch_applied_accounted:
  "fold (batch_applied env w sts) ts (db, s) = (db', s') \<Longrightarrow>
   accounted I (sa_resolved s) (sa_failures s) (map task_id ts @ B) \<Longrightarrow>
   accounted I (sa_resolved s') (sa_failures s') B"
proof (induction ts arbitrary: db s)
  case (Cons t ts)
  let ?st = "case sts (scheduler_id t) of Some st \<Rightarrow> st | None \<Rightarrow> zero_status"
  obtain e t' d where a: "applySchedulerStatus db (clock env w) t ?st = ((e, t'), d)" by (metis prod.collapse)
  obtain d1 s1 where s1: "batch_applied env w sts t (db, s) = (d1, s1)" by fastforce
  have "accounted I (sa_resolved s1) (sa_failures s1) (map task_id ts @ B)"
    using s1 a applySchedulerStatus_id [OF a] Cons.prems(2) accounted_fail accounted_resolve
    by (auto simp: batch_applied_def note_failure_def split: option.splits)
  with Cons.IH Cons.prems(1) s1 show ?case by simp
qed simp

lemma refresh_batches_accounted:
  "fold (refresh_batch env) bts (w, db, s) = (w', db', s') \<Longrightarrow>
   accounted I (sa_resolved s) (sa_failures s) (waiting bts) \<Longrightarrow>
   accounted I (sa_resolved s') (sa_failures s') []"
proof (induction bts arbitrary: w db s)
  case (Cons b bts)
  obtain k ts where b: "b = (k, ts)" by fastforce
  obtain w1 d1 s1 where s1: "refresh_batch env b (w, db, s) = (w1, d1, s1)" by (metis prod_cases3)
  have "accounted I (sa_resolved s1) (sa_failures s1) (waiting bts)"
    using s1 Cons.prems(2) batch_failed_accounted batch_applied_accounted
    by (auto simp: refresh_batch_def b split: prod.splits sum.splits)
  with Cons.IH Cons.prems(1) s1 show ?case by simp
qed simp

lemma ListTasks_ids: "store_ok db \<Longrightarrow> distinct (map task_id (ListTasks db pid))"
proof -
  assume "store_ok db"
  then have "distinct (map task_id (filter (\<lambda>r. project_id r = pid) (tasks db)))"
    by (simp add: store_ok_def distinct_map_filter)
  moreover have "map task_id (ListTasks db pid) = map task_id (sort_desc created_key (filter (\<lambda>r. project_id r = pid) (tasks db)))"
    by (simp add: ListTasks_def comp_def)
  ultimately show ?thesis by simp
qed

text \<open>
  C37. The bulk refresh accounts for every task of the project: a task is either among the
  results, in the order of the list, or it has exactly one failure, whatever the clusters
  answer and in whatever order they are asked.
\<close>

theorem status_all_accounts:
  assumes "store_ok db" and "StatusAll env arrange w db pid = Some (ok, bad, w', db')"
    and "\<And>bts. mset (arrange bts) = mset bts"
  shows "map task_id ok = filter (\<lambda>i. i \<notin> fst ` set bad) (map task_id (ListTasks db pid)) \<and>
    distinct (map fst bad) \<and> fst ` set bad \<subseteq> task_id ` set (ListTasks db pid)"
proof -
  let ?ts = "ListTasks db pid"
  let ?s0 = "\<lparr>sa_resolved = Map.empty, sa_failures = [], sa_batches = []\<rparr>"
  obtain w1 db1 s1 w2 db2 s2 where
    one: "fold_option (sort_task env) ?ts (w, db, ?s0) = Some (w1, db1, s1)" and
    two: "fold (refresh_batch env) (arrange (sa_batches s1)) (w1, db1, s1) = (w2, db2, s2)" and
    ok: "ok = List.map_filter (\<lambda>t. sa_resolved s2 (task_id t)) ?ts" and bad: "bad = sa_failures s2"
    using assms(2) by (auto simp: StatusAll_def Let_def split: option.splits prod.splits)
  have "accounted {} (sa_resolved ?s0) (sa_failures ?s0) (waiting (sa_batches ?s0))"
    by (simp add: accounted_def)
  from sort_tasks_accounted [OF one this ListTasks_ids [OF assms(1)]]
  have "accounted (task_id ` set ?ts) (sa_resolved s1) (sa_failures s1) (waiting (sa_batches s1))" by simp
  from accounted_perm [OF this waiting_perm [OF assms(3) [symmetric]]]
  have "accounted (task_id ` set ?ts) (sa_resolved s1) (sa_failures s1) (waiting (arrange (sa_batches s1)))" .
  from refresh_batches_accounted [OF two this]
  have a: "distinct (map fst bad)" "dom (sa_resolved s2) \<inter> fst ` set bad = {}"
    "dom (sa_resolved s2) \<union> fst ` set bad = task_id ` set ?ts" "\<And>i u. sa_resolved s2 i = Some u \<Longrightarrow> task_id u = i"
    by (auto simp: accounted_def bad)
  have "map task_id (List.map_filter (\<lambda>t. sa_resolved s2 (task_id t)) ts) =
      filter (\<lambda>i. i \<notin> fst ` set bad) (map task_id ts)" if "set ts \<subseteq> set ?ts" for ts
    using that
  proof (induction ts)
    case (Cons t ts)
    then have "(\<exists>u. sa_resolved s2 (task_id t) = Some u \<and> task_id t \<notin> fst ` set bad) \<or>
        sa_resolved s2 (task_id t) = None \<and> task_id t \<in> fst ` set bad"
      using a(2,3) by (auto simp: dom_def)
    with Cons a(4) show ?case by (auto simp: List.map_filter_simps)
  qed (simp add: List.map_filter_simps)
  from this [OF subset_refl] a ok show ?thesis by auto
qed

theorem status_all_accounts_witness:
  "\<exists>ok bad db'. StatusAll sample_outside (\<lambda>bts. bts) () sample_created ''p'' = Some (ok, bad, (), db') \<and>
     map task_id ok = filter (\<lambda>i. i \<notin> fst ` set bad) [''t1'']"
proof -
  let ?t = "scanTask (encodeTask (first_revision sample_task))"
  have l: "ListTasks sample_created ''p'' = [?t]"
    by (simp add: ListTasks_def sample_created_def sort_desc_def sample_task_def first_revision_def)
  have "compute_state ?t = ComputeCreated" "scheduler_id ?t = []" "task_id ?t = ''t1''"
    by (simp_all add: sample_task_def first_revision_def)
  then have "StatusAll sample_outside (\<lambda>bts. bts) () sample_created ''p'' = Some ([?t], [], (), sample_created)"
    by (simp add: StatusAll_def l Let_def sort_task_def bulkRefreshableComputeState_def keep_resolved_def List.map_filter_simps)
  from status_all_accounts [OF sample_created_ok this] this l \<open>task_id ?t = ''t1''\<close> show ?thesis
    by auto
qed

end
