(* ===== verification/Batch_Submission.thy ===== *)
theory Batch_Submission
  imports Status_Refresh Submission_Outcomes
begin

text \<open>
  Batch submission (\<open>internal/app/batch.go\<close>) and the safety check of \<open>--force-new\<close>
  (\<open>internal/app/app.go\<close>). What the batch calls to prepare one source is the parameter
  \<open>prepared\<close>; the staging directory is part of the outside.
\<close>

definition MaxBatchTasks :: nat where
  "MaxBatchTasks = 100"

record batch_failure =
  bf_task :: string
  bf_source :: string
  bf_error :: go_error

record submit_many_result =
  sm_batch :: string
  sm_tasks :: "task list"
  sm_failures :: "batch_failure list"

section \<open>The check before a forced new run\<close>

definition blocks_force_new :: "compute_state \<Rightarrow> bool" where
  "blocks_force_new s \<longleftrightarrow> s = ComputeCreated \<or> s = ComputeSubmissionUncertain \<or> s = ComputeQueued \<or>
     s = ComputeRunning \<or> s = ComputeUnknown"

definition unsafe_fault :: "task \<Rightarrow> go_error option \<Rightarrow> go_error" where
  "unsafe_fault prior cause = with_task ''submit'' (compute_state prior) (pull_state prior)
     (case cause of None \<Rightarrow> fault_new ''SUBMISSION_SAFETY_UNCONFIRMED'' True
      | Some e \<Rightarrow> fault_wrap ''SUBMISSION_SAFETY_UNCONFIRMED'' [] True e)"

text \<open>\<open>None\<close> is the panic of a status query.\<close>

fun check_priors ::
    "'w outside \<Rightarrow> string \<Rightarrow> task list \<Rightarrow> 'w \<Rightarrow> store \<Rightarrow> (go_error option \<times> 'w \<times> store) option" where
  "check_priors env key [] w db = Some (None, w, db)"
| "check_priors env key (prior # rest) w db =
     (if submission_key_of prior \<noteq> key \<or> compute_state prior = ComputeSubmissionFailed
      then check_priors env key rest w db
      else case refreshTask env w db prior of
        (None, _) \<Rightarrow> None
      | (Some (Some e, _), w', db') \<Rightarrow> Some (Some (unsafe_fault prior (Some e)), w', db')
      | (Some (None, u), w', db') \<Rightarrow>
          if blocks_force_new (compute_state u) then Some (Some (unsafe_fault u None), w', db')
          else check_priors env key rest w' db')"

definition ensureForceNewSafe ::
    "'w outside \<Rightarrow> 'w \<Rightarrow> store \<Rightarrow> task \<Rightarrow> (go_error option \<times> 'w \<times> store) option" where
  "ensureForceNewSafe env w db candidate =
     check_priors env (submission_key_of candidate)
       (History db (project_id candidate) (source_path candidate)) w db"

fun all_force_new_safe ::
    "'w outside \<Rightarrow> task list \<Rightarrow> 'w \<Rightarrow> store \<Rightarrow> (go_error option \<times> 'w \<times> store) option" where
  "all_force_new_safe env [] w db = Some (None, w, db)"
| "all_force_new_safe env (t # ts) w db = (case ensureForceNewSafe env w db t of
     None \<Rightarrow> None
   | Some (Some e, w', db') \<Rightarrow> Some (Some e, w', db')
   | Some (None, w', db') \<Rightarrow> all_force_new_safe env ts w' db')"

section \<open>Admission\<close>

text \<open>
  The calls that prepare the tasks: the batch id, the project, the target and the staging
  directory (\<open>pr_begin\<close>, an error of one of them), \<open>prepare\<close> for one source, the selection, snapshot
  and include check of one task, its \<open>submissionKey\<close>, and the files put into the staging directory.
\<close>

record preparation =
  pr_begin :: "go_error option"
  pr_task :: "string \<Rightarrow> (go_error, task) result"
  pr_snapshot :: "task \<Rightarrow> (go_error, manifest_entry list) result"
  pr_key :: "task \<Rightarrow> (go_error, string) result"
  pr_stage :: "task \<Rightarrow> go_error option"

definition batch_task :: "string \<Rightarrow> nat \<Rightarrow> string \<Rightarrow> task \<Rightarrow> task" where
  "batch_task batch n key t = t\<lparr>metadata := (metadata t)(''submission_key'' \<mapsto> key, ''batch_id'' \<mapsto> batch,
     ''batch_index'' \<mapsto> itoa n), revision := 1\<rparr>"

definition frozen_task :: "preparation \<Rightarrow> string \<Rightarrow> nat \<Rightarrow> task \<Rightarrow> (go_error, task) result" where
  "frozen_task prepared batch n t = (case pr_snapshot prepared t of
     Inl e \<Rightarrow> Inl e
   | Inr m \<Rightarrow> let t1 = t\<lparr>input_manifest := m\<rparr> in (case pr_key prepared t1 of
       Inl e \<Rightarrow> Inl (fault_wrap ''TASK_CREATE_FAILED'' [] False e)
     | Inr key \<Rightarrow> let t2 = batch_task batch n key t1 in (case pr_stage prepared t2 of
         Some e \<Rightarrow> Inl e
       | None \<Rightarrow> Inr t2)))"

text \<open>The loop over the sources.\<close>

fun stage_sources ::
    "preparation \<Rightarrow> string \<Rightarrow> string list \<Rightarrow> task list \<Rightarrow> (go_error, task list) result" where
  "stage_sources prepared batch [] done_ts = Inr done_ts"
| "stage_sources prepared batch (src # rest) done_ts = (case pr_task prepared src of
     Inl e \<Rightarrow> Inl e
   | Inr t \<Rightarrow>
       if source_path t \<in> source_path ` set done_ts then Inl (fault_new ''DUPLICATE_SOURCE'' False)
       else case frozen_task prepared batch (length done_ts) t of
         Inl e \<Rightarrow> Inl e
       | Inr t' \<Rightarrow> stage_sources prepared batch rest (done_ts @ [t']))"

text \<open>The tasks found under the keys of the batch; an error of the lookup first.\<close>

fun find_existing :: "store \<Rightarrow> task list \<Rightarrow> (go_error, task option list) result" where
  "find_existing db [] = Inr []"
| "find_existing db (t # ts) =
     (case FindTaskBySubmissionKey db (project_id t) (source_path t) (submission_key_of t) of
        Inl e \<Rightarrow> Inl e
      | Inr x \<Rightarrow> (case find_existing db ts of Inl e \<Rightarrow> Inl e | Inr xs \<Rightarrow> Inr (x # xs)))"

datatype batch_admission =
    Refused go_error
  | Reused submit_many_result
  | Proceed

definition admit_existing :: "store \<Rightarrow> task list \<Rightarrow> batch_admission" where
  "admit_existing db ts = (case find_existing db ts of
     Inl e \<Rightarrow> Refused e
   | Inr xs \<Rightarrow>
       if (\<exists>x\<in>set xs. x \<noteq> None) \<and> (\<forall>x\<in>set xs. x \<noteq> None)
       then Reused \<lparr>sm_batch = task_meta (the (hd xs)) ''batch_id'', sm_tasks = map the xs, sm_failures = []\<rparr>
       else if \<exists>x\<in>set xs. x \<noteq> None then Refused (fault_new ''DUPLICATE_SUBMISSION'' False)
       else Proceed)"

section \<open>Remote submission and its results\<close>

definition marker_command :: "task list \<Rightarrow> string" where
  "marker_command ts = concat (map (\<lambda>t.
     ''if test -f '' @ Quote (path_join [remote_dir t, ''scheduler_id'']) @ ''; then printf '' @ [sq] @ task_id t @
     [bs] @ ''0'' @ [sq] @ ''; head -n1 -- '' @ Quote (path_join [remote_dir t, ''scheduler_id'']) @
     ''; printf '' @ [sq] @ [bs] @ ''0'' @ [sq] @ ''; fi; '') ts)"

fun marker_records :: "string list \<Rightarrow> (string \<rightharpoonup> string) \<Rightarrow> (string \<rightharpoonup> string)" where
  "marker_records (tid # value # rest) m =
     marker_records rest (if parse_uint64 (trim_space value) \<noteq> None then m(tid \<mapsto> trim_space value) else m)"
| "marker_records _ m = m"

definition batchSchedulerMarkers ::
    "'w runner \<Rightarrow> 'w \<Rightarrow> cluster \<Rightarrow> task list \<Rightarrow> (go_error, string \<rightharpoonup> string) result \<times> 'w" where
  "batchSchedulerMarkers exec w c ts = (case exec w (cluster_host c) (marker_command ts) [] of
     ((out, err, e), w') \<Rightarrow> (case e of
         Some x \<Rightarrow> (Inl (fault_wrap ''STATUS_FAILED'' (message ''cannot reconcile batch scheduler markers'' err) True x), w')
       | None \<Rightarrow> (Inr (marker_records (split_on nul out) Map.empty), w')))"

definition batch_jobs :: "task list \<Rightarrow> batch_job list" where
  "batch_jobs ts = map (\<lambda>t. \<lparr>bj_task = task_id t, bj_workdir = path_join [remote_dir t, ''work''],
     bj_partition = task_meta t ''partition''\<rparr>) ts"

text \<open>The answer of the submission, completed by the markers when the connection failed.\<close>

definition submit_jobs ::
    "'w runner \<Rightarrow> 'w \<Rightarrow> cluster \<Rightarrow> task list \<Rightarrow> (batch_submit_result \<times> go_error option) \<times> 'w" where
  "submit_jobs exec w c ts = (case SubmitMany exec w (cluster_host c) (batch_jobs ts) of
     ((r, None), w1) \<Rightarrow> ((r, None), w1)
   | ((r, Some e), w1) \<Rightarrow> (case batchSchedulerMarkers exec w1 c ts of
         (Inl _, w2) \<Rightarrow> ((r, Some e), w2)
       | (Inr m, w2) \<Rightarrow> ((r\<lparr>scheduler_ids := scheduler_ids r ++ m\<rparr>, Some e), w2)))"

definition add_failure :: "task \<Rightarrow> go_error \<Rightarrow> submit_many_result \<Rightarrow> submit_many_result" where
  "add_failure t e r = r\<lparr>sm_failures := sm_failures r @
     [\<lparr>bf_task = task_id t, bf_source = source_path t, bf_error = fault_as e\<rparr>]\<rparr>"

definition map_text :: "(string \<rightharpoonup> string) \<Rightarrow> string \<Rightarrow> string" where
  "map_text m k = (case m k of None \<Rightarrow> [] | Some v \<Rightarrow> v)"

text \<open>The last loop, for one task.\<close>

definition batch_outcome ::
    "time \<Rightarrow> batch_submit_result \<Rightarrow> go_error option \<Rightarrow> task \<Rightarrow> store \<times> submit_many_result \<Rightarrow> store \<times> submit_many_result" where
  "batch_outcome now sub err t = (\<lambda>(db, r).
     let i = map_text (scheduler_ids sub) (task_id t); msg = map_text (batch_failures sub) (task_id t)
     in if i \<noteq> [] then
          (let t1 = accepted_task t now i
           in case UpdateTaskWithEvent db now t1 (taskEvent t1 ''SCHEDULER_ACCEPTED'' ''submit''
                [''scheduler_id'' \<mapsto> i, ''batch_id'' \<mapsto> sm_batch r] now) of
                (Inl e, _, db') \<Rightarrow> (db', add_failure t e r)
              | (Inr _, t2, db') \<Rightarrow> (db', r\<lparr>sm_tasks := sm_tasks r @ [t2]\<rparr>))
        else if msg \<noteq> [] \<and> task_id t \<in> batch_rejected sub then
          (case failSubmission db now t ''SUBMIT_FAILED'' ''submit'' False (PlainError msg) of
             (e, t2, db') \<Rightarrow> (db', add_failure t2 e r))
        else
          (let cause = (if msg \<noteq> [] then PlainError msg
                        else case err of Some e \<Rightarrow> e | None \<Rightarrow> PlainError ''batch submit returned no result for task'')
           in case failSubmissionUncertain db now t ''submit'' cause of
                (e, t2, db') \<Rightarrow> (db', add_failure t2 e r)))"

definition batch_upload_failed ::
    "time \<Rightarrow> string \<Rightarrow> go_error \<Rightarrow> task \<Rightarrow> store \<times> submit_many_result \<Rightarrow> store \<times> submit_many_result" where
  "batch_upload_failed now code e t = (\<lambda>(db, r).
     case failSubmission db now t code ''snapshot'' True e of (x, t2, db') \<Rightarrow> (db', add_failure t2 x r))"

definition empty_many :: "string \<Rightarrow> submit_many_result" where
  "empty_many batch = \<lparr>sm_batch = batch, sm_tasks = [], sm_failures = []\<rparr>"

text \<open>From the created tasks on.\<close>

definition submit_batch ::
    "'w outside \<Rightarrow> cluster \<Rightarrow> string \<Rightarrow> string \<Rightarrow> 'w \<Rightarrow> store \<Rightarrow> task list \<Rightarrow> submit_many_result \<times> 'w \<times> store" where
  "submit_batch env c batch staging w db ts =
     (case push_files env w c staging (remote_root c) of
        (Some e, w1) \<Rightarrow> (case fold (batch_upload_failed (clock env w1) (transferFailure (upload_ctx env w1) e) e) ts
                           (db, empty_many batch) of (db', r) \<Rightarrow> (r, w1, db'))
      | (None, w1) \<Rightarrow> (case submit_jobs (exec_cmd env) w1 c ts of
          ((sub, err), w2) \<Rightarrow> (case fold (batch_outcome (clock env w2) sub err) ts (db, empty_many batch) of
             (db', r) \<Rightarrow> (r, w2, db'))))"

text \<open>\<open>App.SubmitMany\<close>; \<open>None\<close> is a panic of the safety check.\<close>

definition App_SubmitMany ::
    "'w outside \<Rightarrow> preparation \<Rightarrow> cluster \<Rightarrow> string \<Rightarrow> string \<Rightarrow> bool \<Rightarrow> project \<Rightarrow>
     'w \<Rightarrow> store \<Rightarrow> string list \<Rightarrow> ((go_error, submit_many_result) result \<times> 'w \<times> store) option" where
  "App_SubmitMany env prepared c batch staging force p w db0 sources =
     (if length sources < 2 then Some (Inl (fault_new ''INVALID_ARGUMENT'' False), w, db0)
      else if length sources > MaxBatchTasks then Some (Inl (fault_new ''BATCH_TOO_LARGE'' False), w, db0)
      else case pr_begin prepared of Some e \<Rightarrow> Some (Inl e, w, db0) | None \<Rightarrow>
      case stage_sources prepared batch sources [] of
        Inl e \<Rightarrow> Some (Inl e, w, db0)
      | Inr ts \<Rightarrow>
         (let db = BindProject db0 (clock env w) p
          in case (if force then Proceed else admit_existing db ts) of
               Refused e \<Rightarrow> Some (Inl e, w, db)
             | Reused r \<Rightarrow> Some (Inr r, w, db)
             | Proceed \<Rightarrow>
                 (case (if force then all_force_new_safe env ts w db else Some (None, w, db)) of
                    None \<Rightarrow> None
                  | Some (Some e, w1, db1) \<Rightarrow> Some (Inl e, w1, db1)
                  | Some (None, w1, db1) \<Rightarrow>
                      (case CreateTasksIdempotent db1 ts force of
                         (Inl e, _, db2) \<Rightarrow> Some (Inl e, w1, db2)
                       | (Inr (Some _), _, db2) \<Rightarrow> Some (Inl (fault_new ''DUPLICATE_SUBMISSION'' False), w1, db2)
                       | (Inr None, ts', db2) \<Rightarrow>
                           (case submit_batch env c batch staging w1 db2 ts' of (r, w2, db3) \<Rightarrow> Some (Inr r, w2, db3))))))"

section \<open>Loops over the tasks of a batch\<close>

text \<open>
  A loop that handles the tasks of a batch one after the other, each step writing only its
  own task and reporting into an accumulator that only grows.
\<close>

locale task_loop =
  fixes held :: "'x \<Rightarrow> task"
    and step :: "'x \<Rightarrow> store \<times> 's \<Rightarrow> store \<times> 's"
    and post :: "'x \<Rightarrow> task \<Rightarrow> 's \<Rightarrow> bool"
    and count :: "'s \<Rightarrow> nat"
  assumes step_row: "store_ok db \<Longrightarrow> synced db (held t) \<Longrightarrow> step t (db, s) = (db', s') \<Longrightarrow>
      store_ok db' \<and> store_extends db db' \<and> (\<forall>j. j \<noteq> task_id (held t) \<longrightarrow> find_row db' j = find_row db j) \<and>
      (\<exists>t'. GetTask db' (task_id (held t)) = Inr (stored t') \<and> same_snapshot t' (held t) \<and> post t t' s')"
    and post_grows: "step t (db, s) = (db', s') \<Longrightarrow> post u u' s \<Longrightarrow> post u u' s'"
    and step_counts: "step t (db, s) = (db', s') \<Longrightarrow> count s' = Suc (count s)"
begin

lemma fold_grows: "fold step ts (db, s) = (db', s') \<Longrightarrow> post u u' s \<Longrightarrow> post u u' s'"
proof (induction ts arbitrary: db s)
  case (Cons t ts)
  obtain d r where "step t (db, s) = (d, r)" by fastforce
  with Cons post_grows show ?case by simp
qed simp

lemma fold_counts: "fold step ts (db, s) = (db', s') \<Longrightarrow> count s' = count s + length ts"
proof (induction ts arbitrary: db s)
  case (Cons t ts)
  obtain d r where "step t (db, s) = (d, r)" by fastforce
  with Cons step_counts [OF this] show ?case by simp
qed simp

lemma synced_other:
  "synced db u \<Longrightarrow> store_extends db db' \<Longrightarrow> find_row db' (task_id u) = find_row db (task_id u) \<Longrightarrow> synced db' u"
  unfolding synced_def store_extends_def by (elim conjE) simp

lemma fold_rows:
  "fold step ts (db, s) = (db', s') \<Longrightarrow> store_ok db \<Longrightarrow> distinct (map (\<lambda>t. task_id (held t)) ts) \<Longrightarrow> \<forall>t\<in>set ts. synced db (held t) \<Longrightarrow>
   store_ok db' \<and> (\<forall>j. j \<notin> (\<lambda>t. task_id (held t)) ` set ts \<longrightarrow> find_row db' j = find_row db j) \<and>
   (\<forall>t\<in>set ts. \<exists>t'. GetTask db' (task_id (held t)) = Inr (stored t') \<and> same_snapshot t' (held t) \<and> post t t' s')"
proof (induction ts arbitrary: db s)
  case (Cons t ts)
  obtain d r where d: "step t (db, s) = (d, r)" by fastforce
  have rest: "fold step ts (d, r) = (db', s')" using Cons.prems(1) d by simp
  have "synced db (held t)" using Cons.prems(4) by simp
  from step_row [OF Cons.prems(2) this d] obtain t' where
    st: "store_ok d" "store_extends db d" "\<forall>j. j \<noteq> task_id (held t) \<longrightarrow> find_row d j = find_row db j"
      "GetTask d (task_id (held t)) = Inr (stored t')" "same_snapshot t' (held t)" "post t t' r" by blast
  have "synced d (held u)" if "u \<in> set ts" for u
  proof -
    have "task_id (held u) \<noteq> task_id (held t)" using Cons.prems(3) that by (auto simp: image_iff)
    then have "find_row d (task_id (held u)) = find_row db (task_id (held u))" using st(3) by blast
    with Cons.prems(4) that st(2) show ?thesis using synced_other [of db "held u" d] by simp
  qed
  then have "\<forall>u\<in>set ts. synced d (held u)" by blast
  from Cons.IH [OF rest st(1) _ this] Cons.prems(3) have ih: "store_ok db'"
    "\<forall>j. j \<notin> (\<lambda>t. task_id (held t)) ` set ts \<longrightarrow> find_row db' j = find_row d j"
    "\<forall>u\<in>set ts. \<exists>u'. GetTask db' (task_id (held u)) = Inr (stored u') \<and> same_snapshot u' (held u) \<and> post u u' s'" by auto
  have "GetTask db' (task_id (held t)) = Inr (stored t')"
    using ih(2) st(4) Cons.prems(3) by (simp add: GetTask_def)
  with ih st fold_grows [OF rest st(6)] show ?case by auto
qed simp

lemma fold_extends:
  "fold step ts (db, s) = (db', s') \<Longrightarrow> store_ok db \<Longrightarrow> distinct (map (\<lambda>t. task_id (held t)) ts) \<Longrightarrow>
   \<forall>t\<in>set ts. synced db (held t) \<Longrightarrow> store_extends db db'"
proof (induction ts arbitrary: db s)
  case (Cons t ts)
  obtain d r where d: "step t (db, s) = (d, r)" by fastforce
  have rest: "fold step ts (d, r) = (db', s')" using Cons.prems(1) d by simp
  have "synced db (held t)" using Cons.prems(4) by simp
  note st = step_row [OF Cons.prems(2) this d]
  have "synced d (held u)" if "u \<in> set ts" for u
  proof -
    have "task_id (held u) \<noteq> task_id (held t)" using Cons.prems(3) that by (auto simp: image_iff)
    then show ?thesis using st Cons.prems(4) that synced_other [of db "held u" d] by simp
  qed
  then have "store_extends d db'" using Cons.IH [OF rest] st Cons.prems(3) by simp
  then show ?case using st store_extends_trans by blast
qed simp

end

text \<open>What is reported about one task, given the answer of the cluster and who may have failed.\<close>

definition batch_post ::
    "(string \<rightharpoonup> string) \<Rightarrow> string set \<Rightarrow> task \<Rightarrow> task \<Rightarrow> submit_many_result \<Rightarrow> bool" where
  "batch_post ids refused t t' r \<longleftrightarrow>
     (t' \<in> set (sm_tasks r) \<and> compute_state t' = ComputeQueued \<and> ids (task_id t) = Some (scheduler_id t')) \<or>
     ((\<exists>f\<in>set (sm_failures r). bf_task f = task_id t) \<and>
      (compute_state t' = ComputeSubmissionFailed \<and> task_id t \<in> refused \<or>
       compute_state t' = ComputeSubmissionUncertain \<and> task_id t \<notin> refused))"

definition batch_count :: "submit_many_result \<Rightarrow> nat" where
  "batch_count r = length (sm_tasks r) + length (sm_failures r)"

lemma add_failure_simps [simp]:
  "sm_tasks (add_failure t e r) = sm_tasks r" "sm_batch (add_failure t e r) = sm_batch r"
  "sm_failures (add_failure t e r) = sm_failures r @ [\<lparr>bf_task = task_id t, bf_source = source_path t, bf_error = fault_as e\<rparr>]"
  by (simp_all add: add_failure_def)

lemma batch_post_failure: "batch_post ids refused u u' r \<Longrightarrow> batch_post ids refused u u' (add_failure t e r)"
  by (auto simp: batch_post_def)

lemma batch_post_task: "batch_post ids refused u u' r \<Longrightarrow> batch_post ids refused u u' (r\<lparr>sm_tasks := sm_tasks r @ [t]\<rparr>)"
  by (auto simp: batch_post_def)

text \<open>The two writers of a failure on a current task.\<close>

lemma failSubmission_row:
  assumes "store_ok db" and "synced db t" and "failSubmission db now t code stage rt cause = (x, t2, db')"
  shows "store_ok db' \<and> store_extends db db' \<and> (\<forall>j. j \<noteq> task_id t \<longrightarrow> find_row db' j = find_row db j) \<and>
    GetTask db' (task_id t) = Inr (stored t2) \<and> same_snapshot t2 t \<and> compute_state t2 = ComputeSubmissionFailed"
proof -
  let ?t1 = "failed_task t now ComputeSubmissionFailed code stage cause"
  let ?ev = "taskEvent ?t1 ''SUBMISSION_FAILED'' stage [''code'' \<mapsto> code, ''error'' \<mapsto> error_text cause] now"
  obtain d where u: "UpdateTaskWithEvent db now ?t1 ?ev = (Inr (), ?t1\<lparr>revision := revision ?t1 + 1\<rparr>, d)"
      "settled_as (compute_state ?t1) t db (?t1\<lparr>revision := revision ?t1 + 1\<rparr>) d"
    using update_settles [OF assms(1,2), of ?t1 ?ev now] by auto
  have "db' = d" "t2 = ?t1\<lparr>revision := revision ?t1 + 1\<rparr>"
    using assms(3) u(1) by (simp_all add: failSubmission_def Let_def)
  moreover have "store_extends db d" using u(1) assms(1) by (cases rule: UpdateTaskWithEvent_cases) simp_all
  ultimately show ?thesis using u(2) by (simp add: settled_as_def)
qed

lemma failSubmissionUncertain_row:
  assumes "store_ok db" and "synced db t" and "failSubmissionUncertain db now t stage cause = (x, t2, db')"
  shows "store_ok db' \<and> store_extends db db' \<and> (\<forall>j. j \<noteq> task_id t \<longrightarrow> find_row db' j = find_row db j) \<and>
    GetTask db' (task_id t) = Inr (stored t2) \<and> same_snapshot t2 t \<and> compute_state t2 = ComputeSubmissionUncertain"
proof -
  let ?t1 = "failed_task t now ComputeSubmissionUncertain ''SUBMISSION_UNCERTAIN'' stage cause"
  let ?ev = "taskEvent ?t1 ''SUBMISSION_UNCERTAIN'' stage
    [''code'' \<mapsto> ''SUBMISSION_UNCERTAIN'', ''error'' \<mapsto> error_text cause] now"
  obtain d where u: "UpdateTaskWithEvent db now ?t1 ?ev = (Inr (), ?t1\<lparr>revision := revision ?t1 + 1\<rparr>, d)"
      "settled_as (compute_state ?t1) t db (?t1\<lparr>revision := revision ?t1 + 1\<rparr>) d"
    using update_settles [OF assms(1,2), of ?t1 ?ev now] by auto
  have "db' = d" "t2 = ?t1\<lparr>revision := revision ?t1 + 1\<rparr>"
    using assms(3) u(1) by (simp_all add: failSubmissionUncertain_def Let_def)
  moreover have "store_extends db d" using u(1) assms(1) by (cases rule: UpdateTaskWithEvent_cases) simp_all
  ultimately show ?thesis using u(2) by (simp add: settled_as_def)
qed

lemma failSubmission_id:
  "failSubmission db now t code stage rt cause = (x, t2, db') \<Longrightarrow> task_id t2 = task_id t"
  by (auto simp: failSubmission_def Let_def split: prod.splits dest!: UpdateTaskWithEvent_id)

definition rejected_ids :: "batch_submit_result \<Rightarrow> string set" where
  "rejected_ids sub = {i. map_text (batch_failures sub) i \<noteq> [] \<and> i \<in> batch_rejected sub}"

interpretation outcomes:
  task_loop "\<lambda>t. t" "batch_outcome now sub err" "batch_post (scheduler_ids sub) (rejected_ids sub)" batch_count
  for now sub err
proof unfold_locales
  fix db t s db' s'
  assume ok: "store_ok db" and sy: "synced db t" and st: "batch_outcome now sub err t (db, s) = (db', s')"
  let ?i = "map_text (scheduler_ids sub) (task_id t)"
  let ?post = "batch_post (scheduler_ids sub) (rejected_ids sub)"
  show "store_ok db' \<and> store_extends db db' \<and> (\<forall>j. j \<noteq> task_id t \<longrightarrow> find_row db' j = find_row db j) \<and>
      (\<exists>t'. GetTask db' (task_id t) = Inr (stored t') \<and> same_snapshot t' t \<and> ?post t t' s')"
  proof (cases "?i = []")
    case False
    let ?t1 = "accepted_task t now ?i"
    let ?ev = "taskEvent ?t1 ''SCHEDULER_ACCEPTED'' ''submit'' [''scheduler_id'' \<mapsto> ?i, ''batch_id'' \<mapsto> sm_batch s] now"
    let ?t2 = "?t1\<lparr>revision := revision ?t1 + 1\<rparr>"
    obtain d where u: "UpdateTaskWithEvent db now ?t1 ?ev = (Inr (), ?t2, d)"
        "settled_as (compute_state ?t1) t db ?t2 d"
      using update_settles [OF ok sy, of ?t1 ?ev now] by auto
    then have e: "db' = d" "s' = s\<lparr>sm_tasks := sm_tasks s @ [?t2]\<rparr>"
      using st False by (simp_all add: batch_outcome_def Let_def)
    have "store_extends db d" using u(1) ok by (cases rule: UpdateTaskWithEvent_cases) simp_all
    moreover have "scheduler_ids sub (task_id t) = Some ?i"
      using False by (auto simp: map_text_def split: option.splits)
    ultimately show ?thesis
      using u(2) e by (auto simp: settled_as_def batch_post_def intro!: exI [of _ ?t2])
  next
    case i: True
    show ?thesis
    proof (cases "task_id t \<in> rejected_ids sub")
      case True
      obtain x t2 d where f: "failSubmission db now t ''SUBMIT_FAILED'' ''submit'' False
          (PlainError (map_text (batch_failures sub) (task_id t))) = (x, t2, d)" by (cases rule: prod_cases3)
      then have "db' = d" "s' = add_failure t2 x s"
        using st i True by (simp_all add: batch_outcome_def Let_def rejected_ids_def)
      then show ?thesis using failSubmission_row [OF ok sy f] True same_snapshot_id [of t2 t]
        by (auto simp: batch_post_def intro!: exI [of _ t2])
    next
      case False
      obtain cause x t2 d where f: "failSubmissionUncertain db now t ''submit'' cause = (x, t2, d)"
        and "db' = d" "s' = add_failure t2 x s"
        using st i False by (auto simp: batch_outcome_def Let_def rejected_ids_def split: prod.splits if_splits)
      then show ?thesis using failSubmissionUncertain_row [OF ok sy f] False same_snapshot_id [of t2 t]
        by (auto simp: batch_post_def intro!: exI [of _ t2])
    qed
  qed
next
  fix t db s db' s' u u'
  assume st: "batch_outcome now sub err t (db, s) = (db', s')"
  show "batch_post (scheduler_ids sub) (rejected_ids sub) u u' s \<Longrightarrow> batch_post (scheduler_ids sub) (rejected_ids sub) u u' s'"
    using st by (auto simp: batch_outcome_def Let_def batch_post_failure batch_post_task
        split: if_splits prod.splits sum.splits)
  show "batch_count s' = Suc (batch_count s)"
    using st by (auto simp: batch_outcome_def Let_def batch_count_def split: if_splits prod.splits sum.splits)
qed

interpretation uploads: task_loop "\<lambda>t. t" "batch_upload_failed now code e" "batch_post Map.empty UNIV" batch_count
  for now code e
proof unfold_locales
  fix db t s db' s'
  assume ok: "store_ok db" and sy: "synced db t" and st: "batch_upload_failed now code e t (db, s) = (db', s')"
  obtain x t2 d where f: "failSubmission db now t code ''snapshot'' True e = (x, t2, d)" by (cases rule: prod_cases3)
  then have "db' = d" "s' = add_failure t2 x s" using st by (simp_all add: batch_upload_failed_def)
  then show "store_ok db' \<and> store_extends db db' \<and> (\<forall>j. j \<noteq> task_id t \<longrightarrow> find_row db' j = find_row db j) \<and>
      (\<exists>t'. GetTask db' (task_id t) = Inr (stored t') \<and> same_snapshot t' t \<and> batch_post Map.empty UNIV t t' s')"
    using failSubmission_row [OF ok sy f] same_snapshot_id [of t2 t] by (auto simp: batch_post_def intro!: exI [of _ t2])
next
  fix t db s db' s' u u'
  assume st: "batch_upload_failed now code e t (db, s) = (db', s')"
  show "batch_post Map.empty UNIV u u' s \<Longrightarrow> batch_post Map.empty UNIV u u' s'"
    using st by (auto simp: batch_upload_failed_def batch_post_failure split: prod.splits)
  show "batch_count s' = Suc (batch_count s)"
    using st by (auto simp: batch_upload_failed_def batch_count_def split: prod.splits)
qed

section \<open>The whole batch\<close>

lemma check_priors_ok:
  "check_priors env key ps w db = Some (r, w', db') \<Longrightarrow> store_ok db \<Longrightarrow> store_ok db'"
  by (induction env key ps w db rule: check_priors.induct)
    (auto split: if_splits option.splits prod.splits dest: refreshTask_ok)

lemma all_force_new_safe_ok:
  "all_force_new_safe env ts w db = Some (r, w', db') \<Longrightarrow> store_ok db \<Longrightarrow> store_ok db'"
  by (induction env ts w db rule: all_force_new_safe.induct)
    (auto simp: ensureForceNewSafe_def split: option.splits prod.splits dest: check_priors_ok)

lemma frozen_task_fields:
  "frozen_task prepared batch n t = Inr t' \<Longrightarrow> source_path t' = source_path t \<and> revision t' = 1"
  by (auto simp: frozen_task_def batch_task_def Let_def split: sum.splits option.splits)

lemma stage_sources_shape:
  "stage_sources prepared batch srcs ts0 = Inr ts \<Longrightarrow> \<forall>t\<in>set ts0. revision t = 1 \<Longrightarrow>
   distinct (map source_path ts0) \<Longrightarrow>
   (\<forall>t\<in>set ts. revision t = 1) \<and> distinct (map source_path ts) \<and> length ts = length ts0 + length srcs"
proof (induction prepared batch srcs ts0 rule: stage_sources.induct)
  case (2 prepared batch src rest done_ts)
  from 2(2) obtain t t' where t: "pr_task prepared src = Inr t" "source_path t \<notin> source_path ` set done_ts"
    "frozen_task prepared batch (length done_ts) t = Inr t'"
    "stage_sources prepared batch rest (done_ts @ [t']) = Inr ts"
    by (simp split: sum.splits if_splits)
  note f = frozen_task_fields [OF t(3)]
  have "\<forall>x\<in>set (done_ts @ [t']). revision x = 1" "distinct (map source_path (done_ts @ [t']))"
    using 2(3,4) f t(2) by simp_all
  from 2(1) [OF t this] show ?case by simp
qed simp

lemma assign_keys_revision: "assign_keys_checked ts = (True, ts') \<Longrightarrow> ts' = map first_revision ts"
  by (induction ts arbitrary: ts') (auto split: if_splits prod.splits)

lemma created_batch:
  assumes "CreateTasksIdempotent db ts force = (Inr None, ts', db')" and "store_ok db"
    and "\<forall>t\<in>set ts. revision t = 1"
  shows "ts' = ts \<and> store_ok db' \<and> distinct (map task_id ts) \<and> (\<forall>t\<in>set ts. synced db' t)"
proof -
  have one: "map first_revision ts = ts"
    using assms(3) by (induction ts) (auto simp: first_revision_def)
  have "ts' = ts \<and> insert_all db ts = Inr db'"
  proof (cases "ts = []")
    case True
    then show ?thesis using assms(1) by (auto simp: CreateTasksIdempotent_def CreateTasks_def split: if_splits)
  next
    case False
    then show ?thesis using assms(1) one assign_keys_revision [of ts]
      by (auto simp: CreateTasksIdempotent_def CreateTasks_def Let_def
          split: if_splits sum.splits prod.splits bool.splits option.splits)
  qed
  then have e: "ts' = ts" "insert_all db ts = Inr db'" by simp_all
  have ok: "store_ok db'" using insert_all_ok [OF e(2) assms(2)] by simp
  have "synced db' t" if "t \<in> set ts" for t
  proof -
    have r: "find_row db' (task_id t) = Some (encodeTask t)" using insert_all_find [OF e(2) assms(2)] that by simp
    from find_row_tasks [OF this] ok have "project_bound db' (project_id (encodeTask t))"
      unfolding store_ok_def by blast
    with r assms(3) that show ?thesis by (simp add: synced_def)
  qed
  with e ok insert_all_distinct [OF e(2) assms(2)] show ?thesis by simp
qed

definition numeric_ids :: "(string \<rightharpoonup> string) \<Rightarrow> bool" where
  "numeric_ids m \<longleftrightarrow> (\<forall>k v. m k = Some v \<longrightarrow> is_uint64_text v)"

lemma numeric_ids_simps [simp]: "numeric_ids Map.empty" "numeric_ids m \<Longrightarrow> is_uint64_text v \<Longrightarrow> numeric_ids (m(k \<mapsto> v))"
  by (simp_all add: numeric_ids_def)

lemma numeric_ids_add: "numeric_ids m \<Longrightarrow> numeric_ids n \<Longrightarrow> numeric_ids (m ++ n)"
  by (auto simp: numeric_ids_def)

lemma batch_record_numeric: "numeric_ids (scheduler_ids r) \<Longrightarrow> numeric_ids (scheduler_ids (batch_record kind tid value r))"
  by (simp add: batch_record_def is_uint64_text_def)

lemma batch_records_numeric: "numeric_ids (scheduler_ids r) \<Longrightarrow> numeric_ids (scheduler_ids (batch_records rs r))"
  by (induction rs r rule: batch_records.induct) (simp_all add: batch_record_numeric)

lemma marker_records_numeric: "numeric_ids m \<Longrightarrow> numeric_ids (marker_records rs m)"
  by (induction rs m rule: marker_records.induct) (simp_all add: is_uint64_text_def)

lemma SubmitMany_numeric: "SubmitMany exec w h jobs = ((r, e), w') \<Longrightarrow> numeric_ids (scheduler_ids r)"
  using batch_records_numeric [of empty_batch]
  by (auto simp: SubmitMany_def empty_batch_def split: prod.splits option.splits if_splits)

lemma submit_jobs_numeric:
  assumes "submit_jobs exec w c ts = ((sub, err), w')"
  shows "numeric_ids (scheduler_ids sub)"
proof -
  obtain r e w1 where m: "SubmitMany exec w (cluster_host c) (batch_jobs ts) = ((r, e), w1)" by (metis prod.collapse)
  note n = SubmitMany_numeric [OF m]
  show ?thesis
  proof (cases e)
    case None
    then show ?thesis using assms m n by (simp add: submit_jobs_def)
  next
    case (Some x)
    obtain b w2 where b: "batchSchedulerMarkers exec w1 c ts = (b, w2)" by fastforce
    show ?thesis
    proof (cases b)
      case (Inl y)
      then show ?thesis using assms m n Some b by (simp add: submit_jobs_def)
    next
      case (Inr mm)
      then have "numeric_ids mm"
        using b by (auto simp: batchSchedulerMarkers_def marker_records_numeric split: prod.splits option.splits)
      then show ?thesis using assms m n Some b Inr numeric_ids_add by (auto simp: submit_jobs_def)
    qed
  qed
qed

text \<open>
  C32. The end of an admitted batch, whatever the transfer and the cluster answer. Every
  task is reported once, and the database agrees with the report: it is listed as queued
  under a decimal scheduler id, or it has a failure and is \<open>submission_failed\<close> or
  \<open>submission_uncertain\<close>; none is left \<open>created\<close>, and no execution snapshot changes. When the
  upload of a batch without \<open>--force-new\<close> succeeded, only a task that the remote script
  reported as refused by \<open>sbatch\<close> is \<open>submission_failed\<close>.
\<close>

theorem batch_tasks_settled:
  assumes "store_ok db0"
    and "App_SubmitMany env prepared c batch staging force p w db0 sources = Some (Inr r, w', db')"
    and "stage_sources prepared batch sources [] = Inr ts"
    and "force \<or> admit_existing (BindProject db0 (clock env w) p) ts = Proceed"
  shows "length (sm_tasks r) + length (sm_failures r) = length ts \<and>
    (\<forall>t\<in>set ts. \<exists>t'. GetTask db' (task_id t) = Inr (stored t') \<and> same_snapshot t' t \<and>
       (t' \<in> set (sm_tasks r) \<and> compute_state t' = ComputeQueued \<and> is_uint64_text (scheduler_id t') \<or>
        (\<exists>f\<in>set (sm_failures r). bf_task f = task_id t) \<and>
        (compute_state t' = ComputeSubmissionFailed \<or> compute_state t' = ComputeSubmissionUncertain))) \<and>
    (\<forall>w1 sub err w2. \<not> force \<longrightarrow> push_files env w c staging (remote_root c) = (None, w1) \<longrightarrow>
       submit_jobs (exec_cmd env) w1 c ts = ((sub, err), w2) \<longrightarrow>
       (\<forall>t\<in>set ts. \<forall>x. GetTask db' (task_id t) = Inr x \<and> compute_state x = ComputeSubmissionFailed \<longrightarrow>
          task_id t \<in> rejected_ids sub))"
proof -
  let ?db = "BindProject db0 (clock env w) p"
  have "store_ok ?db" using BindProject_ok assms(1) by blast
  obtain w1 db1 db2 ts' where
    safe: "(if force then all_force_new_safe env ts w ?db else Some (None, w, ?db)) = Some (None, w1, db1)" and
    cr: "CreateTasksIdempotent db1 ts force = (Inr None, ts', db2)" and
    sb: "submit_batch env c batch staging w1 db2 ts' = (r, w', db')"
    using assms(2-4) by (auto simp: App_SubmitMany_def Let_def split: if_splits option.splits prod.splits sum.splits
        batch_admission.splits)
  have ok1: "store_ok db1"
    using safe \<open>store_ok ?db\<close> all_force_new_safe_ok by (auto split: if_splits)
  have c: "ts' = ts" "store_ok db2" "distinct (map task_id ts)" "\<forall>t\<in>set ts. synced db2 t"
    using created_batch [OF cr ok1] stage_sources_shape [OF assms(3)] by auto
  have n0: "batch_count (empty_many batch) = 0" by (simp add: batch_count_def empty_many_def)
  show ?thesis
  proof (cases "push_files env w1 c staging (remote_root c)")
    case (Pair pe w2)
    show ?thesis
    proof (cases pe)
      case (Some e)
      then have f: "fold (batch_upload_failed (clock env w2) (transferFailure (upload_ctx env w2) e) e) ts
          (db2, empty_many batch) = (db', r)"
        using sb Pair c(1) by (auto simp: submit_batch_def split: prod.splits)
      from uploads.fold_rows [OF f c(2-4)] have "\<forall>t\<in>set ts. \<exists>t'. GetTask db' (task_id t) = Inr (stored t') \<and>
          same_snapshot t' t \<and> batch_post Map.empty UNIV t t' r" by blast
      then have rows: "\<forall>t\<in>set ts. \<exists>t'. GetTask db' (task_id t) = Inr (stored t') \<and> same_snapshot t' t \<and>
          (\<exists>f\<in>set (sm_failures r). bf_task f = task_id t) \<and> compute_state t' = ComputeSubmissionFailed"
        unfolding batch_post_def by fastforce
      have "\<not> force \<Longrightarrow> w1 = w" using safe by simp
      with Pair Some have "\<not> force \<Longrightarrow> push_files env w c staging (remote_root c) \<noteq> (None, w3)" for w3 by simp
      with uploads.fold_counts [OF f] n0 rows show ?thesis unfolding batch_count_def by fastforce
    next
      case None
      obtain sub err w3 where j: "submit_jobs (exec_cmd env) w2 c ts = ((sub, err), w3)" by (metis prod.collapse)
      then have f: "fold (batch_outcome (clock env w3) sub err) ts (db2, empty_many batch) = (db', r)"
        using sb Pair None c(1) by (auto simp: submit_batch_def split: prod.splits)
      note rows = outcomes.fold_rows [OF f c(2-4)]
      have "\<exists>t'. GetTask db' (task_id t) = Inr (stored t') \<and> same_snapshot t' t \<and>
       (t' \<in> set (sm_tasks r) \<and> compute_state t' = ComputeQueued \<and> is_uint64_text (scheduler_id t') \<or>
        (\<exists>f\<in>set (sm_failures r). bf_task f = task_id t) \<and>
        (compute_state t' = ComputeSubmissionFailed \<or> compute_state t' = ComputeSubmissionUncertain))"
        if t: "t \<in> set ts" for t
      proof -
        from rows t obtain t' where "GetTask db' (task_id t) = Inr (stored t')" "same_snapshot t' t"
          "batch_post (scheduler_ids sub) (rejected_ids sub) t t' r" by blast
        with submit_jobs_numeric [OF j] show ?thesis unfolding batch_post_def numeric_ids_def by blast
      qed
      moreover have "task_id t \<in> rejected_ids sub"
        if "t \<in> set ts" "GetTask db' (task_id t) = Inr x" "compute_state x = ComputeSubmissionFailed" for t x
      proof -
        from rows that(1) obtain t' where "GetTask db' (task_id t) = Inr (stored t')"
          "batch_post (scheduler_ids sub) (rejected_ids sub) t t' r" by blast
        with that(2,3) show ?thesis by (auto simp: batch_post_def)
      qed
      moreover have "sub' = sub" if "\<not> force" "push_files env w c staging (remote_root c) = (None, w4)"
        "submit_jobs (exec_cmd env) w4 c ts = ((sub', err'), w5)" for w4 sub' err' w5
        using that safe Pair None j by simp
      ultimately show ?thesis using outcomes.fold_counts [OF f] n0 by (fastforce simp: batch_count_def)
    qed
  qed
qed

text \<open>Two tasks of an empty store, as a batch is admitted.\<close>

definition sample_prepared :: preparation where
  "sample_prepared = \<lparr>pr_begin = None, pr_task = (\<lambda>src. Inr (sample_task\<lparr>task_id := src, source_path := src\<rparr>)),
     pr_snapshot = (\<lambda>t. Inr []), pr_key = (\<lambda>t. Inr ''k''), pr_stage = (\<lambda>t. None)\<rparr>"

definition sample_cluster :: cluster where
  "sample_cluster = \<lparr>cluster_host = ''h'', scheduler_kind = ''slurm'', remote_root = ''/r'', transfer_kind = ''sftp'', partitions = Map.empty\<rparr>"

abbreviation sample_batch :: "task list" where
  "sample_batch \<equiv> [batch_task ''b'' 0 ''k'' (sample_task\<lparr>task_id := ''x'', source_path := ''x'', input_manifest := []\<rparr>),
     batch_task ''b'' (Suc 0) ''k'' (sample_task\<lparr>task_id := ''y'', source_path := ''y'', input_manifest := []\<rparr>)]"

lemma sample_stage: "stage_sources sample_prepared ''b'' [''x'', ''y''] [] = Inr sample_batch"
  by (simp add: sample_prepared_def frozen_task_def) (simp add: batch_task_def)

lemma sample_begin: "pr_begin sample_prepared = None"
  by (simp add: sample_prepared_def)

lemma sample_admit: "admit_existing (BindProject sample_store now p) sample_batch = Proceed"
  by (simp add: admit_existing_def FindTaskBySubmissionKey_def find_active_def History_def source_rows_def
      sample_store_def empty_store_def BindProject_def sort_desc_def batch_task_def sample_task_def submission_key_of_def)

lemma sample_batch_created: "\<exists>db. CreateTasksIdempotent (BindProject sample_store now p) sample_batch False =
    (Inr None, map first_revision sample_batch, db)"
  by (simp add: CreateTasksIdempotent_def insert_created_def insertTask_def insertEvent_def created_event_def
      find_row_def sample_store_def BindProject_def empty_store_def find_active_def History_def source_rows_def
      sort_desc_def project_bound_def first_revision_def batch_task_def sample_task_def Let_def encodeTask_def submission_key_of_def)

lemma App_SubmitMany_proceeds:
  assumes "stage_sources prepared batch sources [] = Inr ts" and "pr_begin prepared = None"
    and "2 \<le> length sources" "length sources \<le> MaxBatchTasks"
    and "admit_existing (BindProject db0 (clock env w) p) ts = Proceed"
    and "CreateTasksIdempotent (BindProject db0 (clock env w) p) ts False = (Inr None, ts', db)"
    and "submit_batch env c batch staging w db ts' = (r, w', db')"
  shows "App_SubmitMany env prepared c batch staging False p w db0 sources = Some (Inr r, w', db')"
  using assms by (simp add: App_SubmitMany_def Let_def)

theorem batch_tasks_settled_witness:
  "\<exists>r db'. App_SubmitMany sample_outside sample_prepared sample_cluster ''b'' ''/s'' False
      \<lparr>proj_id = ''p'', proj_root = ''/p''\<rparr> () sample_store [''x'', ''y''] = Some (Inr r, (), db') \<and>
    length (sm_tasks r) + length (sm_failures r) = 2"
proof -
  let ?p = "\<lparr>proj_id = ''p'', proj_root = ''/p''\<rparr>"
  let ?db = "BindProject sample_store (clock sample_outside ()) ?p"
  obtain db where c: "CreateTasksIdempotent ?db sample_batch False = (Inr None, map first_revision sample_batch, db)"
    using sample_batch_created by blast
  obtain r u db' where sb: "submit_batch sample_outside sample_cluster ''b'' ''/s'' () db (map first_revision sample_batch) = (r, u, db')"
    by (rule prod_cases3)
  have a: "App_SubmitMany sample_outside sample_prepared sample_cluster ''b'' ''/s'' False ?p () sample_store [''x'', ''y''] =
      Some (Inr r, u, db')"
    by (rule App_SubmitMany_proceeds [OF sample_stage sample_begin _ _ sample_admit c sb]) (simp_all add: MaxBatchTasks_def)
  from batch_tasks_settled [OF _ a sample_stage] sample_admit have "length (sm_tasks r) + length (sm_failures r) = 2" by simp
  with a show ?thesis by (intro exI [of _ r] exI [of _ db']) simp
qed

section \<open>A batch that is executed again\<close>

lemma insert_all_tasks: "insert_all db ts = Inr db' \<Longrightarrow> tasks db' = tasks db @ map encodeTask ts"
  by (induction db ts rule: insert_all.induct) (auto split: sum.splits dest: insert_created_tasks)

lemma first_active_None:
  "first_active db ts = None \<Longrightarrow> t \<in> set ts \<Longrightarrow>
   find_active db (project_id t) (source_path t) (submission_key_of t) = None"
  by (induction ts) (auto split: option.splits)

lemma admitted_active:
  assumes "insert_all db ts = Inr db'" and "first_active db ts = None" and "distinct (map source_path ts)"
    and "t \<in> set ts" and "compute_state t \<noteq> ComputeSubmissionFailed"
  shows "find_active db' (project_id t) (source_path t) (submission_key_of t) = Some (stored t)"
proof -
  let ?f = "find_active db' (project_id t) (source_path t) (submission_key_of t)"
  have h: "x \<in> set (History db' p s) \<longleftrightarrow> x \<in> set (History db p s) \<or>
      (\<exists>u\<in>set ts. x = stored u \<and> project_id u = p \<and> source_path u = s)" for x p s
    by (auto simp: History_member insert_all_tasks [OF assms(1)] stored_def)
  have "submission_key_of (stored t) = submission_key_of t" by (simp add: stored_def)
  with h assms(4,5) have "?f \<noteq> None" unfolding find_active_None by (metis stored_fields(5))
  then obtain x where x: "?f = Some x" by blast
  from find_active_Some [OF x] have m: "x \<in> set (History db' (project_id t) (source_path t))"
    "submission_key_of x = submission_key_of t" "compute_state x \<noteq> ComputeSubmissionFailed" by auto
  have "x \<notin> set (History db (project_id t) (source_path t))"
    using first_active_None [OF assms(2,4)] m(2,3) unfolding find_active_None by blast
  with m(1) h obtain u where u: "u \<in> set ts" "x = stored u" "source_path u = source_path t" by blast
  with assms(3,4) have "u = t" using distinct_map_unique by metis
  with x u(2) show ?thesis by simp
qed

lemma find_existing_all:
  assumes "\<And>t. t \<in> set ts \<Longrightarrow> FindTaskBySubmissionKey db (project_id t) (source_path t) (submission_key_of t) = Inr (Some (f t))"
  shows "find_existing db ts = Inr (map (\<lambda>t. Some (f t)) ts)"
  using assms by (induction ts) simp_all

lemma find_active_bind [simp]: "find_active (BindProject db now p) i s k = find_active db i s k"
  by (simp add: find_active_def History_def source_rows_def BindProject_def)

text \<open>
  A batch that was admitted and then interrupted is not resumed. When the worker dies
  after \<open>CreateTasksIdempotent\<close> and the operation is executed again, the second
  \<open>SubmitMany\<close> answers with the admitted tasks, without a failure: nothing is uploaded,
  nothing is submitted, nothing is written, and the tasks are still \<open>created\<close>.
\<close>

theorem interrupted_batch_not_resumed:
  assumes "CreateTasksIdempotent db1 ts False = (Inr None, ts', db2)" and "store_ok db1"
    and "\<forall>t\<in>set ts. revision t = 1 \<and> compute_state t = ComputeCreated \<and> project_id t \<noteq> [] \<and>
           source_path t \<noteq> [] \<and> submission_key_of t \<noteq> []"
    and "stage_sources prepared batch sources [] = Inr us"
    and "list_all2 (\<lambda>t u. project_id u = project_id t \<and> source_path u = source_path t \<and>
           submission_key_of u = submission_key_of t) ts us"
    and "pr_begin prepared = None" and "2 \<le> length sources" and "length sources \<le> MaxBatchTasks"
  shows "App_SubmitMany env prepared c batch staging False p w db2 sources =
      Some (Inr \<lparr>sm_batch = task_meta (hd (map stored ts)) ''batch_id'', sm_tasks = map stored ts, sm_failures = []\<rparr>,
            w, BindProject db2 (clock env w) p) \<and>
    (\<forall>t\<in>set ts. GetTask db2 (task_id t) = Inr (stored t) \<and> compute_state (stored t) = ComputeCreated)"
proof -
  have len: "length us = length sources" "distinct (map source_path us)"
    using stage_sources_shape [OF assms(4)] by auto
  have "map source_path us = map source_path ts"
    using assms(5) by (induction rule: list_all2_induct) auto
  then have d: "distinct (map source_path ts)" using len by simp
  have ne: "ts \<noteq> []" "us \<noteq> []" using assms(5,7) len(1) by auto
  have one: "map first_revision ts = ts" using assms(3) by (induction ts) (auto simp: first_revision_def)
  from assms(1) ne(1) obtain as where as: "assign_keys_checked ts = (True, as)" "first_active db1 as = None" "insert_all db1 as = Inr db2"
    by (auto simp: CreateTasksIdempotent_def split: prod.splits bool.splits option.splits sum.splits)
  then have ins: "first_active db1 ts = None" "insert_all db1 ts = Inr db2"
    using assign_keys_revision [OF as(1)] one by simp_all
  let ?db = "BindProject db2 (clock env w) p"
  have act: "FindTaskBySubmissionKey ?db (project_id t) (source_path t) (submission_key_of t) = Inr (Some (stored t))"
    if "t \<in> set ts" for t
    using admitted_active [OF ins(2,1) d that] assms(3) that by (simp add: FindTaskBySubmissionKey_def)
  have "find_existing ?db us = find_existing ?db ts"
    using assms(5) by (induction rule: list_all2_induct) (simp_all cong: sum.case_cong option.case_cong)
  also have "\<dots> = Inr (map (\<lambda>t. Some (stored t)) ts)" by (rule find_existing_all) (rule act)
  finally have ex: "find_existing ?db us = Inr (map (\<lambda>t. Some (stored t)) ts)" .
  have "admit_existing ?db us = Reused \<lparr>sm_batch = task_meta (hd (map stored ts)) ''batch_id'',
      sm_tasks = map stored ts, sm_failures = []\<rparr>"
    using ne(1) by (cases ts) (auto simp: admit_existing_def ex)
  moreover have "GetTask db2 (task_id t) = Inr (stored t)" if "t \<in> set ts" for t
    using insert_all_find [OF ins(2) assms(2)] that by (simp add: GetTask_def stored_def)
  ultimately show ?thesis
    using assms(3,4,6-8) by (simp add: App_SubmitMany_def Let_def)
qed

theorem interrupted_batch_not_resumed_witness:
  "\<exists>db2. App_SubmitMany sample_outside sample_prepared sample_cluster ''b'' ''/s'' False
      \<lparr>proj_id = ''p'', proj_root = ''/p''\<rparr> () db2 [''x'', ''y''] =
    Some (Inr \<lparr>sm_batch = ''b'', sm_tasks = map stored sample_batch, sm_failures = []\<rparr>, (),
      BindProject db2 5 \<lparr>proj_id = ''p'', proj_root = ''/p''\<rparr>)"
proof -
  let ?p = "\<lparr>proj_id = ''p'', proj_root = ''/p''\<rparr>"
  obtain db2 where c: "CreateTasksIdempotent (BindProject sample_store 5 ?p) sample_batch False =
      (Inr None, map first_revision sample_batch, db2)"
    using sample_batch_created by blast
  have ok: "store_ok (BindProject sample_store 5 ?p)" using BindProject_ok by simp
  have "task_meta (hd (map stored sample_batch)) ''batch_id'' = ''b''"
    by (simp add: meta_stored batch_task_def dryRunKey_def)
  moreover have "\<forall>t\<in>set sample_batch. revision t = 1 \<and> compute_state t = ComputeCreated \<and> project_id t \<noteq> [] \<and>
      source_path t \<noteq> [] \<and> submission_key_of t \<noteq> []"
    by (simp add: batch_task_def sample_task_def submission_key_of_def)
  moreover have "clock sample_outside () = 5" by (simp add: sample_outside_def)
  ultimately show ?thesis
    using interrupted_batch_not_resumed [OF c ok _ sample_stage _ sample_begin _ _, where env = sample_outside and c = sample_cluster
        and staging = "''/s''" and p = ?p and w = "()"] by (simp add: MaxBatchTasks_def) blast
qed

end
