(* ===== verification/Preparation.thy ===== *)
theory Preparation
  imports Project_Sources Configuration Upload_Manifest Batch_Submission "HOL-Library.List_Lexorder" "HOL-Library.Char_ord"
begin

text \<open>
  From a source to a task (\<open>prepare\<close>, the include rules and the source contract of
  \<open>internal/app/app.go\<close>; \<open>internal/app/idempotency.go\<close>), and the submission that starts with it.
  The file system, the loaded configuration, the random part of a new id, the clock and the
  JSON encoding with its checksum are parameters. \<open>None\<close> is the panic of \<open>ParseByteSize\<close>.
\<close>

section \<open>The submission key\<close>

record fingerprint =
  fp_project :: string
  fp_source :: string
  fp_workdir :: string
  fp_entry :: "string option"
  fp_target :: string
  fp_cluster :: string
  fp_script :: string
  fp_partition :: string
  fp_params :: "string \<rightharpoonup> param_value"
  fp_manifest :: "manifest_entry list"

definition fingerprint_of :: "task \<Rightarrow> fingerprint" where
  "fingerprint_of t = \<lparr>fp_project = project_id t, fp_source = source_path t, fp_workdir = source_workdir t,
     fp_entry = source_entry t, fp_target = target_name t, fp_cluster = cluster_name t, fp_script = rendered_script t,
     fp_partition = task_meta t ''partition'', fp_params = resolved_params t,
     fp_manifest = sort_key me_path (input_manifest t)\<rparr>"

text \<open>\<open>digest\<close> is the checksum of the JSON form, in hexadecimal.\<close>

definition submissionKey :: "(fingerprint \<Rightarrow> (go_error, string) result) \<Rightarrow> task \<Rightarrow> (go_error, string) result" where
  "submissionKey digest t = (case digest (fingerprint_of t) of Inl e \<Rightarrow> Inl e | Inr h \<Rightarrow> Inr (''v1:'' @ h))"

section \<open>What is selected\<close>

definition include_error :: go_error where
  "include_error = fault_new ''INVALID_ARGUMENT'' False"

definition valid_include :: "string \<Rightarrow> bool" where
  "valid_include p \<longleftrightarrow> p \<noteq> [] \<and> \<not> has_prefix p ''/'' \<and> ''..'' \<notin> set (split_on (CHR ''/'') p) \<and>
     trim_suffix p ''/'' \<noteq> [] \<and> path_match (trim_suffix p ''/'') ''candidate'' \<noteq> None"

fun collect_includes :: "string list \<Rightarrow> string list \<Rightarrow> (go_error, string list) result" where
  "collect_includes acc [] = Inr acc"
| "collect_includes acc (raw # rest) =
     (let p = trim_space raw
      in if \<not> valid_include p then Inl include_error
         else collect_includes (if p \<in> set acc then acc else acc @ [p]) rest)"

definition resolveSubmitIncludes :: "target \<Rightarrow> string list \<Rightarrow> (go_error, string list) result" where
  "resolveSubmitIncludes t requested =
     (if requested \<noteq> [] \<and> push_mode t \<noteq> ''entry'' then Inl include_error
      else collect_includes [] (push_include t @ requested))"

definition validateRequestedIncludes :: "string list \<Rightarrow> manifest_entry list \<Rightarrow> go_error option" where
  "validateRequestedIncludes requested entries =
     (if list_all (\<lambda>p. list_ex (\<lambda>m. manifest_match (me_path m) [p]) entries) requested then None
      else Some (fault_new ''SOURCE_DEPENDENCY_NOT_FOUND'' False))"

definition uploadSelection ::
    "file_system \<Rightarrow> string \<Rightarrow> string \<Rightarrow> string option \<Rightarrow> target \<Rightarrow> string list \<Rightarrow> (go_error, selection) result option" where
  "uploadSelection fs root workdir entry t requested =
     (case (if push_max_size t = [] then Some (Inr 0) else ParseByteSize (push_max_size t)) of
        None \<Rightarrow> None
      | Some (Inl e) \<Rightarrow> Some (Inl (fault_wrap ''TARGET_INVALID'' [] False e))
      | Some (Inr limit) \<Rightarrow> (case resolveSubmitIncludes t requested of
          Inl e \<Rightarrow> Some (Inl e)
        | Inr includes \<Rightarrow> Some (Inr \<lparr>sel_mode = push_mode t, sel_entry = (case entry of None \<Rightarrow> [] | Some e \<Rightarrow> e),
            sel_include = includes,
            sel_exclude = ExcludePatterns (Some (path_rel root workdir)) (fs_ignore_file fs root) (push_exclude t),
            max_files = push_max_files t, max_total_bytes = limit\<rparr>)))"

text \<open>\<open>validateSourceContract\<close> and the single candidate it may suggest.\<close>

fun one_candidate :: "string list \<Rightarrow> string \<Rightarrow> (string \<times> bool) list \<Rightarrow> string" where
  "one_candidate patterns found [] = found"
| "one_candidate patterns found ((name, dir) # rest) =
     (if \<not> dir \<and> list_ex (\<lambda>p. path_match p name = Some True) patterns
      then (if found \<noteq> [] then [] else one_candidate patterns name rest)
      else one_candidate patterns found rest)"

definition singleSourceCandidate :: "file_system \<Rightarrow> string \<Rightarrow> string list \<Rightarrow> string" where
  "singleSourceCandidate fs workdir patterns =
     (if patterns = [] then [] else case fs_dir_names fs workdir of
        Inl e \<Rightarrow> [] | Inr names \<Rightarrow> one_candidate patterns [] names)"

definition validateSourceContract :: "source \<Rightarrow> target \<Rightarrow> go_error option" where
  "validateSourceContract src t =
     (if kind_of_source t = ''file'' \<and> src_entry src = None then Some (fault_new ''SOURCE_KIND_MISMATCH'' False)
      else if kind_of_source t = ''directory'' \<and> src_entry src \<noteq> None then Some (fault_new ''SOURCE_KIND_MISMATCH'' False)
      else case src_entry src of
        None \<Rightarrow> None
      | Some e \<Rightarrow>
          if source_patterns t = [] \<or> list_ex (\<lambda>p. path_match p e = Some True) (source_patterns t) then None
          else Some (fault_new ''SOURCE_PATTERN_MISMATCH'' False))"

section \<open>Preparing a task\<close>

record prepare_env =
  pe_files :: file_system
  pe_config :: config
  pe_float :: "string \<Rightarrow> string option"
  pe_id :: "(go_error, string) result"
  pe_now :: time
  pe_upload :: "string \<Rightarrow> upload_env"
  pe_digest :: "fingerprint \<Rightarrow> (go_error, string) result"
  pe_hash :: "target \<Rightarrow> string"
  pe_json :: "string list \<Rightarrow> string"

record preview =
  pv_source :: source
  pv_partition :: resolved_partition
  pv_origin :: string
  pv_includes :: "string list"
  pv_files :: "string list"
  pv_ignored :: "string list"
  pv_values :: template_data

record prepare_request =
  rq_cwd :: string
  rq_source :: string
  rq_target :: string
  rq_sets :: "string list"
  rq_includes :: "string list"
  rq_partition :: string
  rq_root_allowed :: bool

definition no_cluster :: cluster where
  "no_cluster = \<lparr>cluster_host = [], scheduler_kind = [], remote_root = [], transfer_kind = [], partitions = Map.empty\<rparr>"

definition target_cluster :: "prepare_env \<Rightarrow> target \<Rightarrow> cluster" where
  "target_cluster env t = (case cfg_clusters (pe_config env) (tg_cluster t) of Some c \<Rightarrow> c | None \<Rightarrow> no_cluster)"

definition put_unless_empty :: "string \<Rightarrow> string \<Rightarrow> (string \<rightharpoonup> string) \<Rightarrow> (string \<rightharpoonup> string)" where
  "put_unless_empty k v m = (if v = [] then m else m(k \<mapsto> v))"

definition task_metadata :: "prepare_env \<Rightarrow> target \<Rightarrow> resolved_partition \<Rightarrow> string \<Rightarrow> string list \<Rightarrow> (string \<rightharpoonup> string)" where
  "task_metadata env t p origin includes =
     (let m0 = [''recovery_format'' \<mapsto> ''1''];
          m1 = put_unless_empty ''software_version'' (software_version t)
                 (put_unless_empty ''software_name'' (software_name t) m0);
          m2 = (if rp_name p = [] then m1
                else let a = m1(''partition'' \<mapsto> rp_name p, ''partition_source'' \<mapsto> origin);
                         b = (if 0 < rp_cores p then a(''cores_per_node'' \<mapsto> int_text (rp_cores p)) else a)
                     in put_unless_empty ''memory_per_node'' (rp_memory p) b)
      in if includes = [] then m2 else m2(''submit_includes'' \<mapsto> pe_json env includes))"

fun render_logs :: "template_data \<Rightarrow> string list \<Rightarrow> (go_error, string list) result" where
  "render_logs d [] = Inr []"
| "render_logs d (l # ls) = (case RenderString l d of
     None \<Rightarrow> Inl (fault_wrap ''TARGET_INVALID'' [] False (PlainError ''template''))
   | Some s \<Rightarrow> (case render_logs d ls of Inl e \<Rightarrow> Inl e | Inr ss \<Rightarrow> Inr (s # ss)))"

text \<open>The manifest of a dry run; without one nothing is scanned.\<close>

definition scan_inputs ::
    "prepare_env \<Rightarrow> bool \<Rightarrow> string \<Rightarrow> selection \<Rightarrow> string list \<Rightarrow> (go_error, manifest_entry list \<times> string list) result" where
  "scan_inputs env scan workdir sel requested =
     (if \<not> scan then Inr ([], [])
      else case Build (pe_upload env workdir) sel of
        Inl e \<Rightarrow> Inl e
      | Inr (entries, ignored) \<Rightarrow> (case validateRequestedIncludes requested entries of
          Some e \<Rightarrow> Inl e | None \<Rightarrow> Inr (entries, ignored)))"

text \<open>\<open>if err != nil { return err }\<close>: go on with the value of a call, or return its error.\<close>

definition or_return :: "(go_error, 'a) result \<Rightarrow> ('a \<Rightarrow> (go_error, 'b) result option) \<Rightarrow> (go_error, 'b) result option" where
  "or_return r f = (case r of Inl e \<Rightarrow> Some (Inl e) | Inr x \<Rightarrow> f x)"

definition or_panic :: "(go_error, 'a) result option \<Rightarrow> ('a \<Rightarrow> (go_error, 'b) result option) \<Rightarrow> (go_error, 'b) result option" where
  "or_panic r f = (case r of None \<Rightarrow> None | Some x \<Rightarrow> or_return x f)"

lemma or_return_simps [simp]: "or_return (Inl e) f = Some (Inl e)" "or_return (Inr x) f = f x"
  by (simp_all add: or_return_def)

lemma or_panic_simps [simp]: "or_panic None f = None" "or_panic (Some r) f = or_return r f"
  by (simp_all add: or_panic_def)

lemma or_return_Inr: "or_return r f = Some (Inr y) \<longleftrightarrow> (\<exists>x. r = Inr x \<and> f x = Some (Inr y))"
  by (cases r) simp_all

lemma or_panic_Inr: "or_panic r f = Some (Inr y) \<longleftrightarrow> (\<exists>x. r = Some (Inr x) \<and> f x = Some (Inr y))"
  by (cases r) (auto simp: or_return_Inr)

definition fail_with :: "go_error option \<Rightarrow> (go_error, unit) result" where
  "fail_with e = (case e of None \<Rightarrow> Inr () | Some x \<Rightarrow> Inl x)"

lemma fail_with_Inr [simp]: "fail_with e = Inr () \<longleftrightarrow> e = None"
  by (cases e) (simp_all add: fail_with_def)

definition wrap_error :: "string \<Rightarrow> (go_error, 'a) result \<Rightarrow> (go_error, 'a) result" where
  "wrap_error code r = (case r of Inl e \<Rightarrow> Inl (fault_wrap code [] False e) | Inr x \<Rightarrow> Inr x)"

lemma wrap_error_Inr [simp]: "wrap_error code r = Inr x \<longleftrightarrow> r = Inr x"
  by (cases r) (simp_all add: wrap_error_def)

text \<open>The data of the templates, and the task, from the parts that have been resolved.\<close>

definition remote_of :: "prepare_env \<Rightarrow> target \<Rightarrow> string \<Rightarrow> string" where
  "remote_of env t i = path_join [remote_root (target_cluster env t), i]"

definition template_values ::
    "prepare_env \<Rightarrow> target \<Rightarrow> source \<Rightarrow> string \<Rightarrow> string \<Rightarrow> (string \<times> param_value) list \<Rightarrow> resolved_partition \<Rightarrow> template_data" where
  "template_values env t src workdir i vs part =
     (Values src i (path_join [remote_of env t i, ''work'']) (path_base workdir) vs)\<lparr>td_partition := part\<rparr>"

definition prepared_task ::
    "prepare_env \<Rightarrow> prepare_request \<Rightarrow> bool \<Rightarrow> project \<Rightarrow> source \<Rightarrow> target \<Rightarrow> string \<Rightarrow> (string \<times> param_value) list \<Rightarrow>
     resolved_partition \<Rightarrow> string \<Rightarrow> string \<Rightarrow> manifest_entry list \<Rightarrow> string list \<Rightarrow> string list \<Rightarrow> task" where
  "prepared_task env rq scan p src t i vs part origin script entries excludes logs =
     \<lparr>task_id = i, revision = 0, dry_run = scan, project_id = proj_id p,
      source_path = src_relative src, source_workdir = src_workdir src, source_entry = src_entry src,
      target_name = rq_target rq, cluster_name = tg_cluster t, remote_dir = remote_of env t i,
      scheduler_id = [], compute_state = ComputeCreated, pull_state = PullNotPulled,
      scheduler_state = [], scheduler_reason = [], elapsed = [], exit_code = [],
      scheduler_start = [], scheduler_end = [], resolved_params = map_of vs,
      rendered_script = script, target_hash = pe_hash env t, input_manifest = entries,
      pull_patterns = pull_default t, push_excludes = excludes, log_paths = logs,
      created_at = pe_now env, submitted_at = None, updated_at = pe_now env, pulled_at = None,
      metadata = task_metadata env t part origin (rq_includes rq)\<rparr>"

text \<open>From the resolved source on.\<close>

definition prepare_source ::
    "prepare_env \<Rightarrow> prepare_request \<Rightarrow> bool \<Rightarrow> project \<Rightarrow> source \<Rightarrow> string \<Rightarrow> target \<Rightarrow>
     (go_error, preview \<times> task \<times> string) result option" where
  "prepare_source env rq scan p src workdir t =
     or_return (fail_with (validateSourceContract src t)) (\<lambda>_.
     or_return (ResolvePartition (target_cluster env t) t (rq_partition rq)) (\<lambda>(part, origin).
     or_return (ResolveParams (pe_float env) t (rq_sets rq)) (\<lambda>vs.
     or_return (wrap_error ''TASK_CREATE_FAILED'' (pe_id env)) (\<lambda>i.
     or_return (Render (tg_script t) (template_values env t src workdir i vs part)) (\<lambda>script.
     or_panic (uploadSelection (pe_files env) (proj_root p) workdir (src_entry src) t (rq_includes rq)) (\<lambda>sel.
     or_return (scan_inputs env scan workdir sel (rq_includes rq)) (\<lambda>(entries, ignored).
     or_return (render_logs (template_values env t src workdir i vs part) (tg_logs t)) (\<lambda>logs.
       Some (Inr (\<lparr>pv_source = src, pv_partition = part, pv_origin = origin, pv_includes = sel_include sel,
            pv_files = map me_path entries, pv_ignored = ignored, pv_values = template_values env t src workdir i vs part\<rparr>,
          prepared_task env rq scan p src t i vs part origin script entries (sel_exclude sel) logs,
          workdir))))))))))"

definition prepare :: "prepare_env \<Rightarrow> prepare_request \<Rightarrow> bool \<Rightarrow> (go_error, preview \<times> task \<times> string) result option" where
  "prepare env rq scan =
     or_return (Discover (pe_files env) (rq_cwd rq)) (\<lambda>p.
     or_return (Resolve (pe_files env) p (resolveFrom (rq_cwd rq) (rq_source rq))) (\<lambda>(src, workdir).
       if \<not> rq_root_allowed rq \<and> sameDirectory (pe_files env) workdir (proj_root p)
       then Some (Inl (fault_new ''PROJECT_ROOT_UPLOAD_FORBIDDEN'' False))
       else case cfg_targets (pe_config env) (rq_target rq) of
         None \<Rightarrow> Some (Inl (fault_new ''TARGET_NOT_FOUND'' False))
       | Some t \<Rightarrow> prepare_source env rq scan p src workdir t))"

section \<open>Submitting a prepared task\<close>

text \<open>The key of a snapshot: the selection, the snapshot, the include check and the submission key.\<close>

definition snapshot_task ::
    "prepare_env \<Rightarrow> prepare_request \<Rightarrow> project \<Rightarrow> target \<Rightarrow> string \<Rightarrow> task \<Rightarrow>
     (go_error, string \<times> manifest_entry list) result option" where
  "snapshot_task env rq p t workdir u =
     or_panic (uploadSelection (pe_files env) (proj_root p) workdir (source_entry u) t (rq_includes rq)) (\<lambda>sel.
     or_return (Snapshot (pe_upload env workdir) sel) (\<lambda>(dir, staged, entries, ignored).
     or_return (fail_with (validateRequestedIncludes (rq_includes rq) entries)) (\<lambda>_.
       Some (Inr (dir, entries)))))"

definition keyed_task :: "prepare_env \<Rightarrow> manifest_entry list \<Rightarrow> task \<Rightarrow> (go_error, task) result" where
  "keyed_task env entries u = (let u1 = u\<lparr>input_manifest := entries\<rparr>
     in case submissionKey (pe_digest env) u1 of
          Inl e \<Rightarrow> Inl (fault_wrap ''TASK_CREATE_FAILED'' [] False e)
        | Inr key \<Rightarrow> Inr (u1\<lparr>metadata := (metadata u1)(''submission_key'' \<mapsto> key)\<rparr>))"

text \<open>\<open>App.Submit\<close>; the target that is looked up again exists, because \<open>prepare\<close> has found it.\<close>

definition App_Submit ::
    "'w outside \<Rightarrow> prepare_env \<Rightarrow> prepare_request \<Rightarrow> bool \<Rightarrow> 'w \<Rightarrow> store \<Rightarrow> (submit_answer \<times> 'w \<times> store) option" where
  "App_Submit out env rq force w db = (case prepare env rq False of
     None \<Rightarrow> None
   | Some (Inl e) \<Rightarrow> Some (Inl e, w, db)
   | Some (Inr (pv, u, workdir)) \<Rightarrow> (case Discover (pe_files env) (rq_cwd rq) of
       Inl e \<Rightarrow> Some (Inl e, w, db)
     | Inr p \<Rightarrow>
         (let db1 = BindProject db (clock out w) p
          in case cfg_targets (pe_config env) (rq_target rq) of
               None \<Rightarrow> Some (Inl (fault_new ''TARGET_NOT_FOUND'' False), w, db1)
             | Some t \<Rightarrow> (case snapshot_task env rq p t workdir u of
                 None \<Rightarrow> None
               | Some (Inl e) \<Rightarrow> Some (Inl e, w, db1)
               | Some (Inr (dir, entries)) \<Rightarrow> (case keyed_task env entries u of
                   Inl e \<Rightarrow> Some (Inl e, w, db1)
                 | Inr u1 \<Rightarrow>
                     (case (if force then ensureForceNewSafe out w db1 u1 else Some (None, w, db1)) of
                        None \<Rightarrow> None
                      | Some (Some e, w1, db2) \<Rightarrow> Some (Inl e, w1, db2)
                      | Some (None, w1, db2) \<Rightarrow> Some (submit_created out w1 db2 u1 force dir)))))))"

section \<open>Successful preparations\<close>

lemma prepare_source_parts:
  assumes "prepare_source env rq scan p src workdir t = Some (Inr (pv, u, wd))"
  obtains part origin vs i script sel entries ignored logs where
    "validateSourceContract src t = None"
    "ResolvePartition (target_cluster env t) t (rq_partition rq) = Inr (part, origin)"
    "ResolveParams (pe_float env) t (rq_sets rq) = Inr vs" "pe_id env = Inr i"
    "Render (tg_script t) (template_values env t src workdir i vs part) = Inr script"
    "uploadSelection (pe_files env) (proj_root p) workdir (src_entry src) t (rq_includes rq) = Some (Inr sel)"
    "scan_inputs env scan workdir sel (rq_includes rq) = Inr (entries, ignored)"
    "render_logs (template_values env t src workdir i vs part) (tg_logs t) = Inr logs"
    "wd = workdir" "pv_files pv = map me_path entries"
    "u = prepared_task env rq scan p src t i vs part origin script entries (sel_exclude sel) logs"
  using assms unfolding prepare_source_def
  by (auto simp: or_return_Inr or_panic_Inr)

lemma prepared_task_fields:
  "input_manifest (prepared_task env rq scan p src t i vs part origin script entries ex logs) = entries"
  "source_entry (prepared_task env rq scan p src t i vs part origin script entries ex logs) = src_entry src"
  "rendered_script (prepared_task env rq scan p src t i vs part origin script entries ex logs) = script"
  "task_id (prepared_task env rq scan p src t i vs part origin script entries ex logs) = i"
  by (simp_all add: prepared_task_def)

lemma prepare_source_dir: "prepare_source env rq scan p src workdir t = Some (Inr (pv, u, wd)) \<Longrightarrow> wd = workdir"
  by (erule prepare_source_parts)

lemma prepare_parts:
  assumes "prepare env rq scan = Some (Inr (pv, u, wd))"
  obtains p src t where "Discover (pe_files env) (rq_cwd rq) = Inr p"
    "Resolve (pe_files env) p (resolveFrom (rq_cwd rq) (rq_source rq)) = Inr (src, wd)"
    "rq_root_allowed rq \<or> \<not> sameDirectory (pe_files env) wd (proj_root p)"
    "cfg_targets (pe_config env) (rq_target rq) = Some t"
    "prepare_source env rq scan p src wd t = Some (Inr (pv, u, wd))"
proof -
  from assms obtain p src workdir t where a: "Discover (pe_files env) (rq_cwd rq) = Inr p"
    "Resolve (pe_files env) p (resolveFrom (rq_cwd rq) (rq_source rq)) = Inr (src, workdir)"
    "rq_root_allowed rq \<or> \<not> sameDirectory (pe_files env) workdir (proj_root p)"
    "cfg_targets (pe_config env) (rq_target rq) = Some t"
    "prepare_source env rq scan p src workdir t = Some (Inr (pv, u, wd))"
    by (auto simp: prepare_def or_return_Inr split: if_splits option.splits)
  from prepare_source_dir [OF a(5)] that a show thesis by blast
qed

section \<open>The dry run and the submission\<close>

lemma prepare_source_rescan:
  assumes "prepare_source env rq True p src workdir t = Some (Inr (pv, u, wd))"
  shows "\<exists>pv0. prepare_source env rq False p src workdir t =
    Some (Inr (pv0, u\<lparr>dry_run := False, input_manifest := []\<rparr>, workdir))"
  using assms by (rule prepare_source_parts)
    (auto simp: prepare_source_def scan_inputs_def fail_with_def wrap_error_def prepared_task_def)

lemma fingerprint_rescan [simp]:
  "fingerprint_of (u\<lparr>dry_run := b, input_manifest := m\<rparr>) = fingerprint_of (u\<lparr>input_manifest := m\<rparr>)"
  "fingerprint_of (u\<lparr>input_manifest := input_manifest u\<rparr>) = fingerprint_of u"
  by (simp_all add: fingerprint_of_def)


text \<open>A project with one source file, and the loaded target of the configuration.\<close>

definition sample_prepare :: prepare_env where
  "sample_prepare = \<lparr>pe_files = sample_files,
     pe_config = \<lparr>cfg_clusters = [''c'' \<mapsto> \<lparr>cluster_host = ''h'', scheduler_kind = ''slurm'', remote_root = ''/r'',
       transfer_kind = ''auto'', partitions = [''cpu'' \<mapsto> \<lparr>cores_per_node = 64, memory_per_node = []\<rparr>]\<rparr>],
       cfg_targets = [''t'' \<mapsto> sample_target]\<rparr>,
     pe_float = (\<lambda>s. None), pe_id = Inr ''jr_1'', pe_now = 7,
     pe_upload = (\<lambda>d. sample_upload\<lparr>root_entries := Directory None (Item ''in.dat'' None (Regular 2 (Inr ''xy'')) Done)\<rparr>),
     pe_digest = (\<lambda>f. Inr ''00''), pe_hash = (\<lambda>t. ''h''), pe_json = (\<lambda>l. ''[]'')\<rparr>"

definition sample_request :: prepare_request where
  "sample_request = \<lparr>rq_cwd = ''/p/a'', rq_source = ''in.dat'', rq_target = ''t'', rq_sets = [], rq_includes = [],
     rq_partition = [], rq_root_allowed = False\<rparr>"

lemma sample_exclude: "\<not> matches ''in.dat'' False [''.joyrun/'', ''.git/'']"
proof -
  have "trim_space ''.joyrun/'' = ''.joyrun/''" "trim_space ''.git/'' = ''.git/''"
    by (rule trim_space_graph; simp add: graph_char_def)+
  then show ?thesis
    by (simp add: matches_def pattern_matches_def Let_def trim_prefix_def trim_suffix_def has_suffix_def)
qed

abbreviation sample_sel :: selection where
  "sample_sel \<equiv> \<lparr>sel_mode = ''entry'', sel_entry = ''in.dat'', sel_include = [],
     sel_exclude = [''.joyrun/'', ''.git/''], max_files = 20, max_total_bytes = 2147483648\<rparr>"

lemma sample_upload_selection: "uploadSelection sample_files ''/p'' ''/p/a'' (Some ''in.dat'') sample_target [] = Some (Inr sample_sel)"
  by (simp add: uploadSelection_def sample_target_def two_gib resolveSubmitIncludes_def ExcludePatterns_def
      projectIgnorePatterns_def sample_files_def)

definition sample_with :: "string \<Rightarrow> time \<Rightarrow> prepare_env" where
  "sample_with i now = sample_prepare\<lparr>pe_id := Inr i, pe_now := now\<rparr>"

lemma sample_with_first: "sample_prepare = sample_with ''jr_1'' 7"
  by (simp add: sample_with_def sample_prepare_def)

abbreviation sample_source :: source where
  "sample_source \<equiv> \<lparr>src_project = ''pj'', src_relative = ''a/in.dat'', src_workdir = ''a'', src_entry = Some ''in.dat'',
     src_kind = ''file''\<rparr>"

abbreviation sample_partition :: resolved_partition where
  "sample_partition \<equiv> \<lparr>rp_name = ''cpu'', rp_cores = 64, rp_memory = []\<rparr>"

lemma sample_scan: "scan_inputs (sample_with i now) scan ''/p/a'' sample_sel [] =
    Inr (if scan then [\<lparr>me_path = ''in.dat'', me_size = 2, me_sha256 = ''h''\<rparr>] else [], [])"
  using sample_exclude
  by (simp add: scan_inputs_def sample_with_def sample_prepare_def Build_def validateSelection_def walk_root_def
      build_visit_def below_def file_info_def enforceLimits_def empty_manifest_def add_entry_def sample_upload_def
      selected_def validateRequestedIncludes_def)

lemma sample_render:
  assumes "i = ''jr_1'' \<or> i = ''jr_2''"
  shows "\<exists>out. Render (tg_script sample_target) (template_values (sample_with i now) sample_target sample_source
    ''/p/a'' i [(''n'', IntParam 4)] part) = Inr out"
  using assms
  by (elim disjE) (simp_all add: Render_def sample_target_def sample_template shellData_def template_values_def Values_def
      hasLineBreak_def field_text_def path_ext_def last_index_def remote_of_def target_cluster_def sample_with_def
      sample_prepare_def path_join_def path_clean_def path_elems_def path_base_def Let_def)

lemma sample_prepared:
  assumes "i = ''jr_1'' \<or> i = ''jr_2''"
  shows "\<exists>pv u. prepare (sample_with i now) sample_request scan = Some (Inr (pv, u, ''/p/a''))"
proof -
  obtain out where out: "Render (tg_script sample_target) (template_values (sample_with i now) sample_target sample_source
    ''/p/a'' i [(''n'', IntParam 4)] sample_partition) = Inr out"
    using sample_render [OF assms] by blast
  have f: "pe_files (sample_with i now) = sample_files" "pe_id (sample_with i now) = Inr i"
    "cfg_targets (pe_config (sample_with i now)) ''t'' = Some sample_target" by (simp_all add: sample_with_def sample_prepare_def)
  have rq: "rq_cwd sample_request = ''/p/a''" "resolveFrom ''/p/a'' (rq_source sample_request) = ''/p/a/in.dat''"
    "rq_target sample_request = ''t''" "rq_sets sample_request = []" "rq_includes sample_request = []" "rq_partition sample_request = []"
    by (simp_all add: sample_request_def resolveFrom_def path_is_abs_def path_join_def path_clean_def path_elems_def)
  have "\<not> sameDirectory sample_files ''/p/a'' ''/p''" by (simp add: sameDirectory_def sample_files_def)
  moreover have "ResolvePartition (target_cluster (sample_with i now) sample_target) sample_target [] =
      Inr (sample_partition, ''target_default'')"
    by (simp add: ResolvePartition_def sample_target_def target_cluster_def sample_with_def sample_prepare_def)
  moreover have "ResolveParams (pe_float (sample_with i now)) sample_target [] = Inr [(''n'', IntParam 4)]"
    by (simp add: ResolveParams_def sample_target_def convert_def parse_int64_def all_digits_def is_digit_def
        digits_val_def digit_val_def)
  moreover have "render_logs d (tg_logs sample_target) = Inr []" for d by (simp add: sample_target_def)
  moreover have "validateSourceContract sample_source sample_target = None"
    by (simp add: validateSourceContract_def sample_target_def)
  ultimately show ?thesis
    using out sample_upload_selection sample_scan
    by (simp add: prepare_def f rq sample_discover sample_resolve prepare_source_def fail_with_def wrap_error_def)
qed


section \<open>Preparing the same request again\<close>

lemma work_dir_text:
  assumes "path_is_abs r"
  shows "\<exists>q. \<forall>i. plain_elem i \<longrightarrow> path_join [path_join [r, i], ''work''] = q @ i @ ''/work''"
proof -
  have w: "plain_elem ''work''" by (simp add: plain_elem_def)
  let ?q = "CHR ''/'' # (if path_elems r = [] then [] else join_with ''/'' (path_elems r) @ ''/'')"
  have "path_join [path_join [r, i], ''work''] = ?q @ i @ ''/work''" if "plain_elem i" for i
    using path_join_child [OF assms that] path_join_child(1) [OF path_join_child(2) [OF assms that] w]
    by (simp add: abs_path_def join_with_snoc join_with_two)
  then show ?thesis by blast
qed

lemma replace_char_id: "c \<notin> set s \<Longrightarrow> replace_char c r s = s"
  by (induction s) auto

text \<open>Outputs of equal pieces are equal; pieces of equal length differ when one of them does.\<close>

lemma nodes_text_same: "\<forall>n\<in>set ns. node_text d n = node_text e n \<Longrightarrow> nodes_text d ns = nodes_text e ns"
  by (induction ns) (auto split: option.splits)

lemma nodes_text_differ:
  assumes "nodes_text d ns = Some out" and "nodes_text e ns = Some out"
    and "\<forall>n\<in>set ns. \<forall>x y. node_text d n = Some x \<longrightarrow> node_text e n = Some y \<longrightarrow> length x = length y" and "n \<in> set ns"
  shows "node_text d n = node_text e n"
  using assms
proof (induction ns arbitrary: out)
  case (Cons m ns)
  from Cons.prems(1,2) obtain x y a b where "node_text d m = Some x" "nodes_text d ns = Some a" "out = x @ a"
    "node_text e m = Some y" "nodes_text e ns = Some b" "out = y @ b" by (auto split: option.splits)
  moreover from this Cons.prems(3) have "length x = length y" by simp
  ultimately have "x = y" "a = b" by auto
  with \<open>node_text d m = Some x\<close> \<open>node_text e m = Some y\<close> \<open>nodes_text d ns = Some a\<close> \<open>nodes_text e ns = Some b\<close> Cons
  show ?case by auto
qed simp

text \<open>The fields of a script that name the task itself.\<close>

definition names_task :: "template_node list \<Rightarrow> bool" where
  "names_task ns \<longleftrightarrow> FieldNode [''TaskID''] \<in> set ns \<or> FieldNode [''WorkDir''] \<in> set ns"

definition with_identity :: "template_data \<Rightarrow> string \<Rightarrow> string \<Rightarrow> template_data" where
  "with_identity d i w = d\<lparr>td_task := i, td_workdir := w\<rparr>"

lemma field_text_identity:
  "f \<noteq> [''TaskID''] \<Longrightarrow> f \<noteq> [''WorkDir''] \<Longrightarrow> field_text (with_identity d i w) f = field_text d f"
  "field_text (with_identity d i w) [''TaskID''] = Some i" "field_text (with_identity d i w) [''WorkDir''] = Some w"
  by (simp_all add: field_text_def with_identity_def split: list.split)

lemma shellData_identity:
  "shellData d = Inr s \<Longrightarrow> shellData (with_identity d i w) = Inr s' \<Longrightarrow>
   s' = with_identity s (shellQuote i) (shellQuote w)"
  by (auto simp: shellData_def with_identity_def split: if_splits)

lemma shellData_task: "shellData d = Inr s \<Longrightarrow> s = with_identity s (shellQuote (td_task d)) (shellQuote (td_workdir d))"
  by (auto simp: shellData_def with_identity_def split: if_splits)

lemma length_shellQuote_part: "sq \<notin> set i \<Longrightarrow> length (shellQuote (q @ i @ r)) = length (shellQuote (q @ r)) + length i"
  by (simp add: shellQuote_def replace_char_def) (simp add: replace_char_id [unfolded replace_char_def])

text \<open>Two renderings that differ in the id of the task and in its work directory only.\<close>

lemma renderings_agree:
  assumes "Render script d = Inr a" and "Render script (with_identity d j w') = Inr b" and "parse_nodes script = Some ns"
    and "length (shellQuote (td_task d)) = length (shellQuote j)" and "td_task d \<noteq> j"
    and "length (shellQuote (td_workdir d)) = length (shellQuote w')" and "td_workdir d \<noteq> w'"
  shows "b = a \<longleftrightarrow> \<not> names_task ns"
proof -
  from assms(1-3) obtain s s' where s: "shellData d = Inr s" "shellData (with_identity d j w') = Inr s'"
    "nodes_text s ns = Some a" "nodes_text s' ns = Some b"
    by (auto simp: Render_def split: sum.splits option.splits)
  note s' = shellData_identity [OF s(1,2)]
  note st = shellData_task [OF s(1)]
  have same: "node_text s n = node_text s' n" if "n \<noteq> FieldNode [''TaskID'']" "n \<noteq> FieldNode [''WorkDir'']" for n
    using that s' field_text_identity(1) by (cases n) auto
  have ids: "node_text s (FieldNode [''TaskID'']) = Some (shellQuote (td_task d))" "node_text s' (FieldNode [''TaskID'']) = Some (shellQuote j)"
    "node_text s (FieldNode [''WorkDir'']) = Some (shellQuote (td_workdir d))" "node_text s' (FieldNode [''WorkDir'']) = Some (shellQuote w')"
    using s' st field_text_identity(2,3) by (metis node_text.simps(2))+
  have lengths: "length x = length y" if "node_text s n = Some x" "node_text s' n = Some y" for n x y
    using that same [of n] ids assms(4,6)
    by (cases "n = FieldNode [''TaskID'']"; cases "n = FieldNode [''WorkDir'']") auto
  have neq: "node_text s (FieldNode [''TaskID'']) \<noteq> node_text s' (FieldNode [''TaskID''])"
    "node_text s (FieldNode [''WorkDir'']) \<noteq> node_text s' (FieldNode [''WorkDir''])"
    unfolding ids using template_quote.quote_injective assms(5,7) by blast+
  show ?thesis
  proof
    assume "b = a"
    with s(4) have b: "nodes_text s' ns = Some a" by simp
    have eq: "node_text s n = node_text s' n" if "n \<in> set ns" for n
      by (rule nodes_text_differ [OF s(3) b _ that]) (use lengths in blast)
    show "\<not> names_task ns" using neq eq unfolding names_task_def by blast
  next
    assume "\<not> names_task ns"
    then have "\<forall>n\<in>set ns. node_text s n = node_text s' n" using same unfolding names_task_def by metis
    from nodes_text_same [OF this] s(3,4) show "b = a" by simp
  qed
qed

text \<open>
  When a retry addresses the same submission. Prepared again later, with a new id of the
  same length, an unchanged request has the same fingerprint in everything but the script;
  and the scripts, and so the fingerprints, are the same exactly when the script of the target
  names neither the id nor the work directory of the task.
\<close>

theorem retry_fingerprint:
  assumes "prepare env rq False = Some (Inr (pv, u, workdir))" and "pe_id env = Inr i"
    and "prepare (env\<lparr>pe_id := Inr j, pe_now := now\<rparr>) rq False = Some (Inr (pv', u', workdir'))"
    and "cfg_targets (pe_config env) (rq_target rq) = Some t" and "parse_nodes (tg_script t) = Some ns"
    and "path_is_abs (remote_root (target_cluster env t))"
    and "plain_elem i" and "plain_elem j" and "sq \<notin> set i" and "sq \<notin> set j" and "length i = length j" and "i \<noteq> j"
  shows "fingerprint_of u' = (fingerprint_of u)\<lparr>fp_script := rendered_script u'\<rparr> \<and>
    (fingerprint_of u' = fingerprint_of u \<longleftrightarrow> \<not> names_task ns)"
proof -
  let ?env = "env\<lparr>pe_id := Inr j, pe_now := now\<rparr>"
  from assms(1) obtain p src t1 where a1: "Discover (pe_files env) (rq_cwd rq) = Inr p"
    "Resolve (pe_files env) p (resolveFrom (rq_cwd rq) (rq_source rq)) = Inr (src, workdir)"
    "cfg_targets (pe_config env) (rq_target rq) = Some t1"
    "prepare_source env rq False p src workdir t1 = Some (Inr (pv, u, workdir))" by (rule prepare_parts)
  from assms(3) obtain p2 src2 t2 where a2: "Discover (pe_files ?env) (rq_cwd rq) = Inr p2"
    "Resolve (pe_files ?env) p2 (resolveFrom (rq_cwd rq) (rq_source rq)) = Inr (src2, workdir')"
    "cfg_targets (pe_config ?env) (rq_target rq) = Some t2"
    "prepare_source ?env rq False p2 src2 workdir' t2 = Some (Inr (pv', u', workdir'))" by (rule prepare_parts)
  have e: "t1 = t" "t2 = t" "p2 = p" "src2 = src" "workdir' = workdir"
    using a1(1-3) a2(1-3) assms(4) by simp_all
  note a = a1(4) [unfolded e] and b = a2(4) [unfolded e]
  have c: "target_cluster ?env t = target_cluster env t" by (simp add: target_cluster_def)
  from a obtain part origin vs i1 script sel entries ignored logs where u:
    "ResolvePartition (target_cluster env t) t (rq_partition rq) = Inr (part, origin)"
    "ResolveParams (pe_float env) t (rq_sets rq) = Inr vs" "pe_id env = Inr i1"
    "Render (tg_script t) (template_values env t src workdir i1 vs part) = Inr script"
    "scan_inputs env False workdir sel (rq_includes rq) = Inr (entries, ignored)"
    "u = prepared_task env rq False p src t i1 vs part origin script entries (sel_exclude sel) logs"
    by (rule prepare_source_parts) (rule that)
  from b obtain part' origin' vs' i2 script' sel' entries' ignored' logs' where u':
    "ResolvePartition (target_cluster ?env t) t (rq_partition rq) = Inr (part', origin')"
    "ResolveParams (pe_float ?env) t (rq_sets rq) = Inr vs'" "pe_id ?env = Inr i2"
    "Render (tg_script t) (template_values ?env t src workdir i2 vs' part') = Inr script'"
    "scan_inputs ?env False workdir sel' (rq_includes rq) = Inr (entries', ignored')"
    "u' = prepared_task ?env rq False p src t i2 vs' part' origin' script' entries' (sel_exclude sel') logs'"
    by (rule prepare_source_parts) (rule that)
  have "i1 = i" using u(3) assms(2) by simp
  moreover have "i2 = j" using u'(3) by simp
  moreover have "part' = part" "origin' = origin" using u(1) u'(1) unfolding c by simp_all
  moreover have "vs' = vs" using u(2) u'(2) by simp
  moreover have "entries = []" using u(5) by (simp add: scan_inputs_def)
  moreover have "entries' = []" using u'(5) by (simp add: scan_inputs_def)
  ultimately have e2: "i1 = i" "i2 = j" "part' = part" "origin' = origin" "vs' = vs" "entries = []" "entries' = []" .
  note u = u [unfolded e2] and u' = u' [unfolded e2]
  obtain q where q: "\<And>i. plain_elem i \<Longrightarrow> path_join [remote_of env t i, ''work''] = q @ i @ ''/work''"
    using work_dir_text [OF assms(6)] by (auto simp: remote_of_def)
  have "template_values ?env t src workdir j vs part =
      with_identity (template_values env t src workdir i vs part) j (path_join [remote_of env t j, ''work''])"
    by (simp add: template_values_def with_identity_def Values_def remote_of_def c Let_def)
  note r' = u'(4) [unfolded this]
  let ?d = "template_values env t src workdir i vs part"
  have td: "td_task ?d = i" "td_workdir ?d = path_join [remote_of env t i, ''work'']"
    by (simp_all add: template_values_def Values_def Let_def)
  have "script' = script \<longleftrightarrow> \<not> names_task ns"
  proof (rule renderings_agree [OF u(4) r' assms(5)])
    have "length (shellQuote i) = length (shellQuote j)"
      using length_shellQuote_part [OF assms(9), of "[]" "[]"] length_shellQuote_part [OF assms(10), of "[]" "[]"] assms(11) by simp
    then show "length (shellQuote (td_task ?d)) = length (shellQuote j)" "td_task ?d \<noteq> j"
      using assms(12) unfolding td by simp_all
    show "length (shellQuote (td_workdir ?d)) = length (shellQuote (path_join [remote_of env t j, ''work'']))"
      unfolding td q [OF assms(7)] q [OF assms(8)]
        length_shellQuote_part [OF assms(9)] length_shellQuote_part [OF assms(10)] assms(11) by (rule refl)
    show "td_workdir ?d \<noteq> path_join [remote_of env t j, ''work'']"
      unfolding td q [OF assms(7)] q [OF assms(8)] using assms(12) by simp
  qed
  moreover have "fingerprint_of u' = (fingerprint_of u)\<lparr>fp_script := script'\<rparr>"
    by (simp add: u(6) u'(6) fingerprint_of_def prepared_task_def task_metadata_def Let_def)
  ultimately show ?thesis by (auto simp: u(6) u'(6) prepared_task_fields fingerprint_of_def)
qed

theorem retry_fingerprint_witness:
  "\<exists>pv u pv' u'. prepare sample_prepare sample_request False = Some (Inr (pv, u, ''/p/a'')) \<and>
     prepare (sample_prepare\<lparr>pe_id := Inr ''jr_2'', pe_now := 9\<rparr>) sample_request False = Some (Inr (pv', u', ''/p/a'')) \<and>
     fingerprint_of u' = fingerprint_of u"
proof -
  obtain pv u where a: "prepare sample_prepare sample_request False = Some (Inr (pv, u, ''/p/a''))"
    using sample_prepared [of "''jr_1''" 7 False] by (auto simp: sample_with_first)
  obtain pv' u' where b: "prepare (sample_prepare\<lparr>pe_id := Inr ''jr_2'', pe_now := 9\<rparr>) sample_request False =
      Some (Inr (pv', u', ''/p/a''))"
    using sample_prepared [of "''jr_2''" 9 False] by (auto simp: sample_with_def)
  have i: "pe_id sample_prepare = Inr ''jr_1''"
    and t: "cfg_targets (pe_config sample_prepare) (rq_target sample_request) = Some sample_target"
    and r: "path_is_abs (remote_root (target_cluster sample_prepare sample_target))"
    by (simp_all add: sample_prepare_def sample_request_def target_cluster_def sample_target_def path_is_abs_def)
  have ns: "parse_nodes (tg_script sample_target) = Some [TextNode ''run '', FieldNode [''Input'']]"
    by (simp add: sample_target_def sample_template)
  have "\<not> names_task [TextNode ''run '', FieldNode [''Input'']]" by (simp add: names_task_def)
  moreover have "plain_elem ''jr_1''" "plain_elem ''jr_2''" "sq \<notin> set ''jr_1''" "sq \<notin> set ''jr_2''" "length ''jr_1'' = length ''jr_2''"
    "''jr_1'' \<noteq> ''jr_2''" by (simp_all add: plain_elem_def)
  ultimately have "fingerprint_of u' = fingerprint_of u"
    using retry_fingerprint [OF a i b t ns r] by blast
  with a b show ?thesis by blast
qed

end
