(* ===== verification/Task_Lookup.thy ===== *)
theory Task_Lookup
  imports Project_Sources Status_Refresh
begin

text \<open>
  Naming a task (\<open>ResolveTask\<close> of \<open>internal/app/app.go\<close>) and the operations that only read:
  list, inspect, trace, history and the status of one task.
\<close>

text \<open>The project of the current directory, which is registered on the way.\<close>

definition bound_project ::
    "file_system \<Rightarrow> time \<Rightarrow> store \<Rightarrow> string \<Rightarrow> (go_error, project) result \<times> store" where
  "bound_project fs now db cwd = (case Discover fs cwd of
     Inl e \<Rightarrow> (Inl e, db) | Inr p \<Rightarrow> (Inr p, BindProject db now p))"

definition find_task ::
    "file_system \<Rightarrow> store \<Rightarrow> project \<Rightarrow> string \<Rightarrow> string \<Rightarrow> (go_error, task) result" where
  "find_task fs db p cwd identifier =
     (if has_prefix identifier ''jr_'' then (case GetTask db identifier of
          Inl e \<Rightarrow> Inl e
        | Inr t \<Rightarrow> if project_id t \<noteq> proj_id p then Inl (fault_new ''TASK_PROJECT_MISMATCH'' False) else Inr t)
      else (case Resolve fs p (resolveFrom cwd identifier) of
          Inl e \<Rightarrow> Inl e
        | Inr (src, dir) \<Rightarrow> LatestTask db (proj_id p) (src_relative src)))"

definition ResolveTask ::
    "file_system \<Rightarrow> time \<Rightarrow> store \<Rightarrow> string \<Rightarrow> string \<Rightarrow> (go_error, task \<times> project) result \<times> store" where
  "ResolveTask fs now db cwd identifier = (case bound_project fs now db cwd of
     (Inl e, db') \<Rightarrow> (Inl e, db')
   | (Inr p, db') \<Rightarrow> (case find_task fs db' p cwd identifier of
       Inl e \<Rightarrow> (Inl e, db') | Inr t \<Rightarrow> (Inr (t, p), db')))"

definition App_List :: "file_system \<Rightarrow> time \<Rightarrow> store \<Rightarrow> string \<Rightarrow> (go_error, task list) result \<times> store" where
  "App_List fs now db cwd = (case bound_project fs now db cwd of
     (Inl e, db') \<Rightarrow> (Inl e, db') | (Inr p, db') \<Rightarrow> (Inr (ListTasks db' (proj_id p)), db'))"

definition Inspect :: "file_system \<Rightarrow> time \<Rightarrow> store \<Rightarrow> string \<Rightarrow> string \<Rightarrow> (go_error, task) result \<times> store" where
  "Inspect fs now db cwd identifier = (case ResolveTask fs now db cwd identifier of
     (Inl e, db') \<Rightarrow> (Inl e, db') | (Inr (t, p), db') \<Rightarrow> (Inr t, db'))"

definition Trace ::
    "file_system \<Rightarrow> time \<Rightarrow> store \<Rightarrow> string \<Rightarrow> string \<Rightarrow> (go_error, task \<times> task_event list) result \<times> store" where
  "Trace fs now db cwd identifier = (case ResolveTask fs now db cwd identifier of
     (Inl e, db') \<Rightarrow> (Inl e, db')
   | (Inr (t, p), db') \<Rightarrow> (case Events db' (task_id t) of
       Inl e \<Rightarrow> (Inl e, db') | Inr es \<Rightarrow> (Inr (t, es), db')))"

definition App_History ::
    "file_system \<Rightarrow> time \<Rightarrow> store \<Rightarrow> string \<Rightarrow> string \<Rightarrow> (go_error, task list) result \<times> store" where
  "App_History fs now db cwd path = (case bound_project fs now db cwd of
     (Inl e, db') \<Rightarrow> (Inl e, db')
   | (Inr p, db') \<Rightarrow> (case Resolve fs p (resolveFrom cwd path) of
       Inl e \<Rightarrow> (Inl e, db') | Inr (src, dir) \<Rightarrow> (Inr (History db' (proj_id p) (src_relative src)), db')))"

text \<open>\<open>Status\<close>; \<open>None\<close> is the panic of the query.\<close>

definition App_Status ::
    "'w outside \<Rightarrow> file_system \<Rightarrow> 'w \<Rightarrow> store \<Rightarrow> string \<Rightarrow> string \<Rightarrow>
     (go_error option \<times> task) option \<times> 'w \<times> store" where
  "App_Status env fs w db cwd identifier = (case ResolveTask fs (clock env w) db cwd identifier of
     (Inl e, db') \<Rightarrow> (Some (Some e, no_task), w, db')
   | (Inr (t, p), db') \<Rightarrow> refreshTask env w db' t)"

section \<open>What a lookup finds\<close>

lemma GetTask_id: "GetTask db i = Inr t \<Longrightarrow> task_id t = i"
  by (auto simp: GetTask_def find_row_def scanTask_def dest!: find_Some_mem split: option.splits)

lemma BindProject_tasks [simp]: "tasks (BindProject db now p) = tasks db"
  by (simp add: BindProject_def)

lemma BindProject_keeps [simp]:
  "task_events (BindProject db now p) = task_events db" "project_bound (BindProject db now p) (proj_id p)"
proof -
  let ?u = "update_where (\<lambda>r. pr_id r = proj_id p) (\<lambda>r. r\<lparr>pr_path := proj_root p, pr_updated := now\<rparr>) (projects db)"
  have pb: "project_bound d i \<longleftrightarrow> i \<in> set (map pr_id (projects d))" for d :: store and i
    unfolding project_bound_def by force
  have m: "map pr_id ?u = map pr_id (projects db)" by (rule map_update_where) simp
  show "project_bound (BindProject db now p) (proj_id p)"
  proof (cases "project_bound db (proj_id p)")
    case True
    then have "projects (BindProject db now p) = ?u" by (simp add: BindProject_def)
    with True show ?thesis unfolding pb m by (simp only: m)
  next
    case False
    then show ?thesis by (simp add: BindProject_def project_bound_def)
  qed
  show "task_events (BindProject db now p) = task_events db" by (simp add: BindProject_def)
qed

text \<open>A resolved task is a row of the project; resolving changes no task and no event.\<close>

lemma ResolveTask_row:
  assumes "ResolveTask fs now db cwd identifier = (Inr (t, p), db')"
  shows "\<exists>r\<in>set (tasks db). t = scanTask r \<and> project_id t = proj_id p"
    and "tasks db' = tasks db" "task_events db' = task_events db" "project_bound db' (proj_id p)"
proof -
  obtain q where q: "Discover fs cwd = Inr q" "db' = BindProject db now q" "p = q" "find_task fs db' q cwd identifier = Inr t"
  proof (cases "Discover fs cwd")
    case (Inl e)
    with assms show ?thesis by (simp add: ResolveTask_def bound_project_def)
  next
    case (Inr q)
    note d = Inr
    show ?thesis
    proof (cases "find_task fs (BindProject db now q) q cwd identifier")
      case (Inl e)
      with assms d show ?thesis by (simp add: ResolveTask_def bound_project_def)
    next
      case (Inr u)
      with assms d show ?thesis by (intro that [of q]) (auto simp: ResolveTask_def bound_project_def)
    qed
  qed
  show "tasks db' = tasks db" "task_events db' = task_events db" "project_bound db' (proj_id p)"
    using q by simp_all
  show "\<exists>r\<in>set (tasks db). t = scanTask r \<and> project_id t = proj_id p"
  proof (cases "has_prefix identifier ''jr_''")
    case True
    with q have "GetTask db' identifier = Inr t" "project_id t = proj_id p"
      by (auto simp: find_task_def split: sum.splits if_splits)
    with q show ?thesis by (auto simp: GetTask_def find_row_def dest!: find_Some_mem split: option.splits)
  next
    case False
    with q obtain path where "LatestTask db' (proj_id p) path = Inr t"
      by (auto simp: find_task_def split: sum.splits)
    then obtain r rest where r: "source_rows db' (proj_id p) path = r # rest" "t = scanTask r"
      by (auto simp: LatestTask_def split: list.splits)
    then have "r \<in> set (source_rows db' (proj_id p) path)" by simp
    then have "r \<in> set (tasks db)" "project_id r = proj_id p" using q(2) by (simp_all add: source_rows_def)
    with r(2) show ?thesis by (intro bexI [of _ r]) (simp_all add: scanTask_def)
  qed
qed

end
