(* ===== verification/Local_Files.thy ===== *)
theory Local_Files
  imports Project_Sources
begin

text \<open>
  \<open>internal/localfs\<close>: which remote paths may be written below a local directory, the check of
  the directories on the way, and the installation of one downloaded file. \<open>lstat\<close> of an
  absolute path is a parameter, as are the failures of the single file operations.
\<close>

section \<open>Relative paths of results\<close>

text \<open>\<open>utf8.ValidString\<close>, on the byte values.\<close>

definition utf8_tail :: "nat \<Rightarrow> bool" where
  "utf8_tail b \<longleftrightarrow> 128 \<le> b \<and> b < 192"

fun utf8_bytes :: "nat list \<Rightarrow> bool" where
  "utf8_bytes [] \<longleftrightarrow> True"
| "utf8_bytes (a # s) \<longleftrightarrow>
     (if a < 128 then utf8_bytes s
      else if 194 \<le> a \<and> a < 224 then (case s of b # s' \<Rightarrow> utf8_tail b \<and> utf8_bytes s' | [] \<Rightarrow> False)
      else if 224 \<le> a \<and> a < 240 then (case s of b # c # s' \<Rightarrow>
          (if a = 224 then 160 \<le> b \<and> b < 192 else if a = 237 then 128 \<le> b \<and> b < 160 else utf8_tail b) \<and>
          utf8_tail c \<and> utf8_bytes s' | _ \<Rightarrow> False)
      else if 240 \<le> a \<and> a < 245 then (case s of b # c # d # s' \<Rightarrow>
          (if a = 240 then 144 \<le> b \<and> b < 192 else if a = 244 then 128 \<le> b \<and> b < 144 else utf8_tail b) \<and>
          utf8_tail c \<and> utf8_tail d \<and> utf8_bytes s' | _ \<Rightarrow> False)
      else False)"

definition utf8_valid :: "string \<Rightarrow> bool" where
  "utf8_valid s \<longleftrightarrow> utf8_bytes (map of_char s)"

definition windowsReservedName :: "string \<Rightarrow> bool" where
  "windowsReservedName name \<longleftrightarrow> name \<in> {''CON'', ''PRN'', ''AUX'', ''NUL''} \<or>
     length name = 4 \<and> (has_prefix name ''COM'' \<or> has_prefix name ''LPT'') \<and>
       CHR ''1'' \<le> name ! 3 \<and> name ! 3 \<le> CHR ''9''"

text \<open>
  The runes that Windows forbids are all single bytes, so the scan by runes is a scan by
  bytes; and no other rune than the letters themselves has an upper case in a reserved name.
\<close>

definition windows_char :: "char \<Rightarrow> bool" where
  "windows_char c \<longleftrightarrow> CHR '' '' \<le> c \<and> c \<notin> set ''<>:?*|'' \<union> {dq, bs}"

definition windows_component :: "string \<Rightarrow> bool" where
  "windows_component e \<longleftrightarrow> e \<noteq> [] \<and> \<not> has_suffix e ''.'' \<and> \<not> has_suffix e '' '' \<and> list_all windows_char e \<and>
     \<not> windowsReservedName (to_upper (hd (split_n (CHR ''.'') 2 e)))"

definition validateWindowsPath :: "string \<Rightarrow> bool" where
  "validateWindowsPath p \<longleftrightarrow> list_all windows_component (split_on (CHR ''/'') p)"

definition unsupported_path :: go_error where
  "unsupported_path = fault_new ''LOCAL_PATH_UNSUPPORTED'' False"

text \<open>\<open>lower\<close> is \<open>strings.ToLower\<close>, \<open>None\<close> on a system other than Windows.\<close>

definition safe_pull_path :: "string \<Rightarrow> bool" where
  "safe_pull_path f \<longleftrightarrow> \<not> (f = [] \<or> \<not> utf8_valid f \<or> nul \<in> set f \<or> path_is_abs f \<or> path_clean f = ''.'' \<or>
     path_clean f = ''..'' \<or> has_prefix (path_clean f) ''../'' \<or> path_clean f \<noteq> f)"

fun check_pull_paths :: "(string \<Rightarrow> string) option \<Rightarrow> (string \<rightharpoonup> string) \<Rightarrow> string list \<Rightarrow> go_error option" where
  "check_pull_paths windows seen [] = None"
| "check_pull_paths windows seen (f # fs) =
     (if \<not> safe_pull_path f then Some unsupported_path
      else if windows \<noteq> None \<and> \<not> validateWindowsPath f then Some unsupported_path
      else let key = (case windows of None \<Rightarrow> f | Some lower \<Rightarrow> lower f)
        in case seen key of
             Some previous \<Rightarrow> if previous \<noteq> f then Some (fault_new ''LOCAL_PATH_COLLISION'' False)
               else check_pull_paths windows (seen(key \<mapsto> f)) fs
           | None \<Rightarrow> check_pull_paths windows (seen(key \<mapsto> f)) fs)"

definition validatePullPaths :: "(string \<Rightarrow> string) option \<Rightarrow> string list \<Rightarrow> go_error option" where
  "validatePullPaths windows files = check_pull_paths windows Map.empty files"

section \<open>The destination\<close>

datatype lstat_answer = Missing | Unreadable | Symlink | Real_directory | Other_file

definition bad_destination :: "lstat_answer \<Rightarrow> bool" where
  "bad_destination a \<longleftrightarrow> a = Unreadable \<or> a = Symlink \<or> a = Other_file"

text \<open>The directories above one file: the walk stops where nothing exists yet.\<close>

fun check_parents :: "(string \<Rightarrow> lstat_answer) \<Rightarrow> string \<Rightarrow> string list \<Rightarrow> go_error option" where
  "check_parents lstat current [] = None"
| "check_parents lstat current (e # es) =
     (let next = path_join [current, e]
      in if lstat next = Missing then None
         else if bad_destination (lstat next) then Some unsupported_path
         else check_parents lstat next es)"

fun check_files :: "(string \<Rightarrow> lstat_answer) \<Rightarrow> string \<Rightarrow> string list \<Rightarrow> go_error option" where
  "check_files lstat absolute [] = None"
| "check_files lstat absolute (f # fs) = (case check_parents lstat absolute (butlast (split_on (CHR ''/'') f)) of
     Some e \<Rightarrow> Some e | None \<Rightarrow> check_files lstat absolute fs)"

definition ValidatePullDestination ::
    "(string \<Rightarrow> string) option \<Rightarrow> string \<Rightarrow> (string \<Rightarrow> lstat_answer) \<Rightarrow> string \<Rightarrow> string list \<Rightarrow> go_error option" where
  "ValidatePullDestination windows wd lstat root files =
     (case validatePullPaths windows files of
        Some e \<Rightarrow> Some e
      | None \<Rightarrow> if bad_destination (lstat (path_abs wd root)) then Some unsupported_path
          else check_files lstat (path_abs wd root) files)"

section \<open>Installing a file\<close>

text \<open>
  What the operations of \<open>InstallStagedFile\<close> answer, in their order; the replacement of the
  destination may have happened when it reports an error. Temporary files have fresh names.
\<close>

record install_run =
  ir_open :: "go_error option"
  ir_stat :: "go_error option"
  ir_mkdir :: "go_error option"
  ir_create :: "go_error option"
  ir_copy :: "go_error option"
  ir_sync :: "go_error option"
  ir_chmod :: "go_error option"
  ir_close :: "go_error option"
  ir_replace :: "(go_error \<times> bool) option"

fun first_error :: "go_error option list \<Rightarrow> go_error option" where
  "first_error [] = None"
| "first_error (None # es) = first_error es"
| "first_error (Some e # es) = Some e"

type_synonym files = "string \<rightharpoonup> string"

definition InstallStagedFile :: "install_run \<Rightarrow> string \<Rightarrow> string \<Rightarrow> files \<Rightarrow> go_error option \<times> files" where
  "InstallStagedFile r content destination fs =
     (case first_error [ir_open r, ir_stat r, ir_mkdir r, ir_create r, ir_copy r, ir_sync r, ir_chmod r, ir_close r] of
        Some e \<Rightarrow> (Some (fault_wrap ''LOCAL_INSTALL_FAILED'' [] False e), fs)
      | None \<Rightarrow> (case ir_replace r of
          Some (e, moved) \<Rightarrow> (Some (fault_wrap ''LOCAL_INSTALL_FAILED'' [] False e),
            if moved then fs(destination \<mapsto> content) else fs)
        | None \<Rightarrow> (None, fs(destination \<mapsto> content))))"

lemma install_cases:
  "InstallStagedFile r content destination fs = (x, fs') \<Longrightarrow>
   (fs' = fs(destination \<mapsto> content) \<or> fs' = fs \<and> x \<noteq> None)"
  by (auto simp: InstallStagedFile_def split: option.splits prod.splits if_splits)

section \<open>What an accepted list of results may write\<close>

lemma safe_pull_path_iff: "safe_pull_path f \<longleftrightarrow> plain_path f \<and> utf8_valid f \<and> nul \<notin> set f"
proof (cases "path_clean f = f")
  case True
  show ?thesis unfolding safe_pull_path_def plain_path_iff True by blast
next
  case False
  then show ?thesis unfolding safe_pull_path_def plain_path_iff by blast
qed

definition local_key :: "(string \<Rightarrow> string) option \<Rightarrow> string \<Rightarrow> string" where
  "local_key windows f = (case windows of None \<Rightarrow> f | Some lower \<Rightarrow> lower f)"

definition representable :: "(string \<Rightarrow> string) option \<Rightarrow> string \<Rightarrow> bool" where
  "representable windows f \<longleftrightarrow> plain_path f \<and> utf8_valid f \<and> nul \<notin> set f \<and>
     (windows \<noteq> None \<longrightarrow> validateWindowsPath f)"

lemma check_pull_paths_iff:
  assumes "\<And>k g. seen k = Some g \<Longrightarrow> k = local_key windows g"
  shows "check_pull_paths windows seen fs = None \<longleftrightarrow>
    (\<forall>f\<in>set fs. representable windows f) \<and>
    (\<forall>f\<in>set fs. \<forall>g\<in>set fs \<union> ran seen. local_key windows f = local_key windows g \<longrightarrow> f = g)"
  using assms
proof (induction fs arbitrary: seen)
  case Nil
  then show ?case by simp
next
  case (Cons f fs)
  let ?k = "local_key windows f" let ?seen = "seen(?k \<mapsto> f)"
  have inv: "k = local_key windows g" if "?seen k = Some g" for k g
    using that Cons.prems by (cases "k = ?k") auto
  have step: "check_pull_paths windows seen (f # fs) = None \<longleftrightarrow>
      representable windows f \<and> (\<forall>g. seen ?k = Some g \<longrightarrow> g = f) \<and> check_pull_paths windows ?seen fs = None"
    by (auto simp: representable_def safe_pull_path_iff local_key_def Let_def split: option.splits)
  have clash: "(\<forall>g. seen ?k = Some g \<longrightarrow> g = f) \<longleftrightarrow> (\<forall>g\<in>ran seen. ?k = local_key windows g \<longrightarrow> f = g)"
    using Cons.prems by (fastforce simp: ran_def)
  have ran: "ran ?seen = insert f {g. \<exists>k. k \<noteq> ?k \<and> seen k = Some g}" by (auto simp: ran_def)
  have same: "g = f \<or> (\<exists>k. k \<noteq> ?k \<and> seen k = Some g)" if "g \<in> ran seen" "\<forall>g. seen ?k = Some g \<longrightarrow> g = f" for g
  proof -
    from that(1) obtain k where k: "seen k = Some g" by (auto simp: ran_def)
    with that(2) show ?thesis by (cases "k = ?k") auto
  qed
  show ?case
  proof
    assume "check_pull_paths windows seen (f # fs) = None"
    then have a: "representable windows f" "\<forall>g. seen ?k = Some g \<longrightarrow> g = f" "check_pull_paths windows ?seen fs = None"
      unfolding step by blast+
    from Cons.IH [OF inv] a(3) have b: "\<forall>g\<in>set fs. representable windows g"
      "\<forall>g\<in>set fs. \<forall>h\<in>set fs \<union> ran ?seen. local_key windows g = local_key windows h \<longrightarrow> g = h" by blast+
    have c: "g = h" if "g \<in> set fs" "h \<in> ran seen" "local_key windows g = local_key windows h" for g h
      using b(2) that same [OF that(2) a(2)] unfolding ran by blast
    have f: "f \<in> set fs \<union> ran ?seen" unfolding ran by blast
    have d1: "f = h" if "h \<in> set fs" "?k = local_key windows h" for h
      using b(2) [rule_format, OF that(1) f] that(2) by simp
    have d2: "f = h" if "h \<in> ran seen" "?k = local_key windows h" for h
      using a(2) clash that by blast
    show "(\<forall>g\<in>set (f # fs). representable windows g) \<and> (\<forall>g\<in>set (f # fs). \<forall>h\<in>set (f # fs) \<union> ran seen.
        local_key windows g = local_key windows h \<longrightarrow> g = h)"
    proof (intro conjI ballI impI)
      show "representable windows g" if "g \<in> set (f # fs)" for g using that a(1) b(1) by auto
      fix g h assume g: "g \<in> set (f # fs)" and h: "h \<in> set (f # fs) \<union> ran seen"
        and k: "local_key windows g = local_key windows h"
      show "g = h"
      proof (cases "g = f")
        case True
        with h k show ?thesis using d1 [of h] d2 [of h] by auto
      next
        case False
        then have "g \<in> set fs" using g by simp
        with h k show ?thesis using b(2) c [of g h] d1 [of g] by auto
      qed
    qed
  next
    assume a: "(\<forall>g\<in>set (f # fs). representable windows g) \<and> (\<forall>g\<in>set (f # fs). \<forall>h\<in>set (f # fs) \<union> ran seen.
        local_key windows g = local_key windows h \<longrightarrow> g = h)"
    have "check_pull_paths windows ?seen fs = None"
    proof (intro iffD2 [OF Cons.IH [OF inv]] conjI ballI impI)
      show "representable windows g" if "g \<in> set fs" for g using that a by simp
      fix g h assume gh: "g \<in> set fs" "h \<in> set fs \<union> ran ?seen" "local_key windows g = local_key windows h"
      then have "h \<in> set (f # fs) \<union> ran seen" unfolding ran by (auto simp: ran_def)
      with a gh show "g = h" by (meson list.set_intros(2))
    qed
    with a clash show "check_pull_paths windows seen (f # fs) = None" unfolding step by simp
  qed
qed

lemma validatePullPaths_iff:
  "validatePullPaths windows files = None \<longleftrightarrow>
    (\<forall>f\<in>set files. representable windows f) \<and> inj_on (local_key windows) (set files)"
  using check_pull_paths_iff [of Map.empty windows files]
  by (simp add: validatePullPaths_def inj_on_def)

text \<open>The directory after \<open>k\<close> elements below \<open>d\<close>.\<close>

definition directory_at :: "string \<Rightarrow> string list \<Rightarrow> nat \<Rightarrow> string" where
  "directory_at d es k = abs_path (path_elems d @ take k es)"

lemma directory_at_Cons: "directory_at d (e # es) (Suc k) = abs_path (path_elems d @ e # take k es)"
  by (simp add: directory_at_def)

lemma check_parents_None:
  assumes "path_is_abs d" and "\<forall>e\<in>set es. plain_elem e" and "check_parents lstat d es = None"
    and "k < length es" and "\<forall>j<k. lstat (directory_at d es (Suc j)) \<noteq> Missing"
  shows "\<not> bad_destination (lstat (directory_at d es (Suc k)))"
  using assms
proof (induction es arbitrary: d k)
  case Nil
  then show ?case by simp
next
  case (Cons e es)
  let ?n = "path_join [d, e]"
  have e: "plain_elem e" using Cons.prems(2) by simp
  note j = path_join_child [OF Cons.prems(1) e]
  have n: "?n = directory_at d (e # es) (Suc 0)" by (simp add: directory_at_def j(1))
  have below: "directory_at ?n es i = directory_at d (e # es) (Suc i)" for i
    by (simp add: directory_at_def j(3))
  show ?case
  proof (cases k)
    case 0
    then show ?thesis using Cons.prems(3) n by (auto simp: Let_def bad_destination_def split: if_splits)
  next
    case (Suc k')
    then have "lstat ?n \<noteq> Missing" using Cons.prems(5) n by auto
    then have "check_parents lstat ?n es = None" using Cons.prems(3) by (auto simp: Let_def split: if_splits)
    with Cons.prems Suc have "\<not> bad_destination (lstat (directory_at ?n es (Suc k')))"
      by (intro Cons.IH) (auto simp: below j(2))
    with Suc show ?thesis by (simp add: below)
  qed
qed

lemma check_files_None:
  "check_files lstat d fs = None \<longleftrightarrow> (\<forall>f\<in>set fs. check_parents lstat d (butlast (split_on (CHR ''/'') f)) = None)"
  by (induction fs) (auto split: option.splits)

lemma path_abs_is_abs: "path_is_abs wd \<Longrightarrow> path_is_abs (path_abs wd p)"
  by (auto simp: path_abs_def path_join_def path_clean_def path_is_abs_def has_prefix_iff)

lemma plain_butlast: "plain_path f \<Longrightarrow> \<forall>e\<in>set (butlast (split_on (CHR ''/'') f)). plain_elem e"
  by (meson in_set_butlastD plain_path_def)

text \<open>
  C18. Pulled files stay in their destination. When the check accepts a list of remote paths,
  every one of them is a sequence of plain names, its local path is the destination followed
  by these names, the destination and every directory on the way that exists is a real
  directory and no symbolic link, and two different remote files never have the same local
  name, also where names differ by case only.
\<close>

theorem pull_destination_contained:
  assumes "ValidatePullDestination windows wd lstat root files = None" and "path_is_abs wd"
  shows "(\<forall>f\<in>set files. representable windows f \<and>
      path_elems (path_join [path_abs wd root, f]) = path_elems (path_abs wd root) @ split_on (CHR ''/'') f \<and>
      (\<forall>k. Suc k < length (split_on (CHR ''/'') f) \<longrightarrow>
        (\<forall>j<k. lstat (directory_at (path_abs wd root) (split_on (CHR ''/'') f) (Suc j)) \<noteq> Missing) \<longrightarrow>
        lstat (directory_at (path_abs wd root) (split_on (CHR ''/'') f) (Suc k)) \<in> {Missing, Real_directory})) \<and>
    lstat (path_abs wd root) \<in> {Missing, Real_directory} \<and> inj_on (local_key windows) (set files)"
proof -
  let ?d = "path_abs wd root"
  have d: "path_is_abs ?d" using assms(2) by (rule path_abs_is_abs)
  have good: "a \<in> {Missing, Real_directory}" if "\<not> bad_destination a" for a
    using that by (cases a) (auto simp: bad_destination_def)
  from assms(1) have v: "validatePullPaths windows files = None" "\<not> bad_destination (lstat ?d)"
    "check_files lstat ?d files = None"
    by (auto simp: ValidatePullDestination_def split: option.splits if_splits)
  have each: "representable windows f \<and> path_elems (path_join [?d, f]) = path_elems ?d @ split_on (CHR ''/'') f \<and>
      (\<forall>k. Suc k < length (split_on (CHR ''/'') f) \<longrightarrow>
        (\<forall>j<k. lstat (directory_at ?d (split_on (CHR ''/'') f) (Suc j)) \<noteq> Missing) \<longrightarrow>
        lstat (directory_at ?d (split_on (CHR ''/'') f) (Suc k)) \<in> {Missing, Real_directory})"
    if "f \<in> set files" for f
  proof -
    let ?es = "split_on (CHR ''/'') f"
    have r: "representable windows f" using v(1) that by (simp add: validatePullPaths_iff)
    then have p: "plain_path f" by (simp add: representable_def)
    have at: "directory_at ?d (butlast ?es) (Suc i) = directory_at ?d ?es (Suc i)" if "Suc i < length ?es" for i
      using that by (simp add: directory_at_def take_butlast)
    have "lstat (directory_at ?d ?es (Suc k)) \<in> {Missing, Real_directory}"
      if k: "Suc k < length ?es" "\<forall>j<k. lstat (directory_at ?d ?es (Suc j)) \<noteq> Missing" for k
    proof -
      have "check_parents lstat ?d (butlast ?es) = None" using v(3) \<open>f \<in> set files\<close> by (simp add: check_files_None)
      from check_parents_None [OF d plain_butlast [OF p] this, of k] k at
      show ?thesis by (intro good) simp
    qed
    with r path_join_plain(3) [OF d p] show ?thesis by blast
  qed
  show ?thesis
    using each good [OF v(2)] v(1) by (simp add: validatePullPaths_iff)
qed

definition sample_lstat :: "string \<Rightarrow> lstat_answer" where
  "sample_lstat p = (if p = ''/p'' \<or> p = ''/p/a'' \<or> p = ''/p/a/out'' then Real_directory
     else if p = ''/p/a/link'' then Symlink else Missing)"

lemma pull_destination_contained_witness:
  "representable None ''out/x.log'' \<and> sample_lstat ''/p/a'' \<in> {Missing, Real_directory} \<and>
   ValidatePullDestination None ''/p'' sample_lstat ''a'' [''link/x.log''] \<noteq> None"
proof -
  have a: "path_abs ''/p'' ''a'' = ''/p/a''" by code_simp
  have "ValidatePullDestination None ''/p'' sample_lstat ''a'' [''out/x.log''] = None" by code_simp
  from pull_destination_contained [OF this] have
    "representable None ''out/x.log'' \<and> sample_lstat (path_abs ''/p'' ''a'') \<in> {Missing, Real_directory}"
    by (simp add: path_is_abs_def)
  moreover have "ValidatePullDestination None ''/p'' sample_lstat ''a'' [''link/x.log''] \<noteq> None" by code_simp
  ultimately show ?thesis unfolding a by blast
qed

end
