(* ===== verification/Pull_Results.thy ===== *)
theory Pull_Results
  imports Task_Lookup Local_Files Upload_Manifest Submission_Outcomes
begin

text \<open>
  Fetching the results of one task (\<open>Pull\<close>, \<open>RemoteFiles\<close> and \<open>listRemoteFiles\<close> of
  \<open>internal/app/app.go\<close>). The local disk is an explicit map from paths to contents; the
  transfer, which fills the staging directory, and the single file operations are parameters.
\<close>

section \<open>The remote listing\<close>

record remote_file =
  rf_path :: string
  rf_size :: int
  rf_input :: bool

definition bad_listing :: go_error where
  "bad_listing = fault_new ''REMOTE_LIST_FAILED'' True"

definition listed_file :: "string \<Rightarrow> int \<Rightarrow> remote_file" where
  "listed_file name n = \<lparr>rf_path = name, rf_size = n, rf_input = False\<rparr>"

text \<open>The loop over the records of \<open>find -printf '%P\0%s\0'\<close>.\<close>

fun listing_records :: "string list \<Rightarrow> (go_error, remote_file list) result" where
  "listing_records [] = Inr []"
| "listing_records (name # rest) =
     (if name = [] then listing_records rest
      else case rest of
        [] \<Rightarrow> Inr [listed_file name 0]
      | raw # rest' \<Rightarrow>
          if raw = [] then map_sum id (Cons (listed_file name 0)) (listing_records (raw # rest'))
          else (case parse_int64 raw of
              None \<Rightarrow> Inl bad_listing
            | Some n \<Rightarrow> if n < 0 then Inl bad_listing
                else map_sum id (Cons (listed_file name n)) (listing_records rest')))"

definition list_command :: "string \<Rightarrow> string" where
  "list_command workDir = ''cd '' @ Quote workDir @ '' && find . -type f -printf '' @ [sq] @ ''%P'' @ [bs] @ ''0%s'' @ [bs] @ ''0'' @ [sq]"

definition listRemoteFiles ::
    "'w runner \<Rightarrow> 'w \<Rightarrow> cluster \<Rightarrow> string \<Rightarrow> (go_error, remote_file list) result \<times> 'w" where
  "listRemoteFiles exec w c workDir = (case exec w (cluster_host c) (list_command workDir) [] of
     ((stdout, stderr, Some e), w') \<Rightarrow> (Inl (fault_wrap ''REMOTE_LIST_FAILED'' [] True e), w')
   | ((stdout, stderr, None), w') \<Rightarrow> (map_sum id (sort_key rf_path) (listing_records (split_on nul stdout)), w'))"

section \<open>The selection\<close>

record pull_options =
  po_all :: bool
  po_include :: "string list"
  po_overwrite_inputs :: bool
  po_live :: bool
  po_dry_run :: bool

definition is_input :: "task \<Rightarrow> string \<Rightarrow> bool" where
  "is_input t f \<longleftrightarrow> f \<in> me_path ` set (input_manifest t)"

definition pull_wanted :: "pull_options \<Rightarrow> task \<Rightarrow> string \<Rightarrow> bool" where
  "pull_wanted opts t f \<longleftrightarrow> f \<noteq> [] \<and> f \<noteq> ''joyrun-job.sh'' \<and>
     (po_all opts \<or> manifest_match f (if po_include opts \<noteq> [] then po_include opts else pull_patterns t)) \<and>
     \<not> (is_input t f \<and> \<not> po_overwrite_inputs opts)"

definition pull_selection :: "pull_options \<Rightarrow> task \<Rightarrow> remote_file list \<Rightarrow> remote_file list" where
  "pull_selection opts t listing = filter (\<lambda>f. pull_wanted opts t (rf_path f)) listing"

definition pull_files :: "remote_file list \<Rightarrow> string list" where
  "pull_files sel = sort (map rf_path sel)"

text \<open>\<open>remoteSizes\<close>: the last entry of a path.\<close>

definition pull_sizes :: "remote_file list \<Rightarrow> string \<rightharpoonup> int" where
  "pull_sizes sel = map_of (rev (map (\<lambda>f. (rf_path f, rf_size f)) sel))"

definition total_size :: "remote_file list \<Rightarrow> int" where
  "total_size sel = sum_list (map rf_size sel)"

section \<open>The local side\<close>

record 'w pull_side =
  ps_windows :: "(string \<Rightarrow> string) option"
  ps_wd :: string
  ps_lstat :: "'w \<Rightarrow> string \<Rightarrow> lstat_answer"
  ps_mkdir :: "'w \<Rightarrow> string \<Rightarrow> go_error option"
  ps_transfer :: "'w \<Rightarrow> cluster \<Rightarrow> string \<Rightarrow> string \<Rightarrow> string list \<Rightarrow> files \<Rightarrow> go_error option \<times> 'w \<times> files"
  ps_stat :: "'w \<Rightarrow> string \<Rightarrow> go_error option"
  ps_install :: "'w \<Rightarrow> string \<Rightarrow> install_run"
  ps_removed :: "'w \<Rightarrow> string \<Rightarrow> bool"
  ps_ctx :: "'w \<Rightarrow> ctx_status"

definition remove_all :: "'w pull_side \<Rightarrow> 'w \<Rightarrow> string \<Rightarrow> files \<Rightarrow> files" where
  "remove_all side w dir fs = (\<lambda>p. if path_under dir p \<and> ps_removed side w p then None else fs p)"

text \<open>
  The loop over the selected files: verify the staged file, then install it. The stage of a
  failure and its cause end the loop.
\<close>

fun install_files ::
    "'w pull_side \<Rightarrow> 'w \<Rightarrow> string \<Rightarrow> string \<Rightarrow> (string \<rightharpoonup> int) \<Rightarrow> string list \<Rightarrow> files \<Rightarrow>
     (string \<times> go_error) option \<times> files" where
  "install_files side w staging dest sizes [] fs = (None, fs)"
| "install_files side w staging dest sizes (f # rest) fs =
     (let source = path_join [staging, f]; target = path_join [dest, f]
      in case ps_stat side w source of
           Some e \<Rightarrow> (Some (''verify'', e), fs)
         | None \<Rightarrow> (case fs source of
             None \<Rightarrow> (Some (''verify'', PlainError ''no such file''), fs)
           | Some content \<Rightarrow>
               if sizes f \<noteq> Some (int (length content))
               then (Some (''verify'', PlainError ''size mismatch''), fs)
               else (case InstallStagedFile (ps_install side w target) content target fs of
                   (Some e, fs') \<Rightarrow> (Some (''install'', e), fs')
                 | (None, fs') \<Rightarrow> install_files side w staging dest sizes rest fs')))"

section \<open>Writing down a pull\<close>

definition pull_fault_code :: "ctx_status \<Rightarrow> go_error \<Rightarrow> string" where
  "pull_fault_code ctx cause =
     (if ctx = DeadlineExceeded \<or> fault_code cause = ''PULL_TIMEOUT'' then ''PULL_TIMEOUT''
      else if ctx = Canceled then ''PULL_CANCELLED'' else ''PULL_FAILED'')"

definition failed_pull :: "task \<Rightarrow> time \<Rightarrow> string \<Rightarrow> string \<Rightarrow> go_error \<Rightarrow> task" where
  "failed_pull t now code stage cause =
     t\<lparr>pull_state := PullFailed, updated_at := now,
       metadata := (metadata t)(''error_code'' \<mapsto> code, ''error'' \<mapsto> error_text cause, ''error_stage'' \<mapsto> stage)\<rparr>"

definition failPull ::
    "store \<Rightarrow> time \<Rightarrow> ctx_status \<Rightarrow> task \<Rightarrow> string \<Rightarrow> go_error \<Rightarrow> go_error \<times> task \<times> store" where
  "failPull db now ctx t stage cause =
     (let code = pull_fault_code ctx cause; t1 = failed_pull t now code stage cause
      in case UpdateTaskWithEvent db now t1 (taskEvent t1 ''PULL_FAILED'' ''pull''
           [''code'' \<mapsto> code, ''stage'' \<mapsto> stage, ''error'' \<mapsto> error_text cause] now) of
         (_, t2, db') \<Rightarrow> (with_task ''pull'' (compute_state t2) (pull_state t2) (fault_wrap code [] True cause), t2, db'))"

definition started_pull :: "task \<Rightarrow> time \<Rightarrow> task" where
  "started_pull t now = t\<lparr>pull_state := PullInProgress, updated_at := now\<rparr>"

definition completed_pull :: "task \<Rightarrow> time \<Rightarrow> task" where
  "completed_pull t now = t\<lparr>pulled_at := Some now, updated_at := now,
     pull_state := (if terminalComputeState (compute_state t) then PullSucceeded else PullPartial)\<rparr>"

record pull_result =
  pr_pulled :: task
  pr_files :: "string list"
  pr_destination :: string
  pr_bytes :: int
  pr_dry :: bool

definition pull_fault :: "task \<Rightarrow> go_error \<Rightarrow> go_error" where
  "pull_fault t e = with_task ''pull'' (compute_state t) (pull_state t) (fault_as e)"

section \<open>One pull\<close>

text \<open>The transfer into the staging directory, the installation, and the completion.\<close>

definition pull_staging :: "string \<Rightarrow> task \<Rightarrow> string" where
  "pull_staging dest t = path_join [path_dir dest, ''.joyrun-pull-'' @ task_id t]"

definition fetch_files ::
    "'w outside \<Rightarrow> 'w pull_side \<Rightarrow> 'w \<Rightarrow> store \<Rightarrow> files \<Rightarrow> task \<Rightarrow> cluster \<Rightarrow> string \<Rightarrow> string \<Rightarrow> remote_file list \<Rightarrow>
     (go_error, pull_result) result \<times> 'w \<times> store \<times> files" where
  "fetch_files env side w db fs t c workDir dest sel =
     (let staging = pull_staging dest t; fl = pull_files sel
      in case ps_mkdir side w staging of
           Some e \<Rightarrow> (case failPull db (clock env w) (ps_ctx side w) t ''staging'' e of (x, t', db') \<Rightarrow> (Inl x, w, db', fs))
         | None \<Rightarrow> (case ps_transfer side w c workDir staging fl fs of
             (Some e, w1, fs1) \<Rightarrow>
               (case failPull db (clock env w1) (ps_ctx side w1) t ''transfer'' e of (x, t', db') \<Rightarrow> (Inl x, w1, db', fs1))
           | (None, w1, fs1) \<Rightarrow> (case install_files side w1 staging dest (pull_sizes sel) fl fs1 of
               (Some (stage, e), fs2) \<Rightarrow>
                 (case failPull db (clock env w1) (ps_ctx side w1) t stage e of (x, t', db') \<Rightarrow> (Inl x, w1, db', fs2))
             | (None, fs2) \<Rightarrow>
                 let fs3 = remove_all side w1 staging fs2; now = clock env w1; t1 = completed_pull t now
                 in case UpdateTaskWithEvent db now t1 (taskEvent t1 ''PULL_COMPLETED'' ''pull'' [''files'' \<mapsto> itoa (length fl)] now) of
                      (Inl e, t2, db') \<Rightarrow> (Inl e, w1, db', fs3)
                    | (Inr _, t2, db') \<Rightarrow> (Inr \<lparr>pr_pulled = t2, pr_files = fl, pr_destination = dest,
                        pr_bytes = total_size sel, pr_dry = False\<rparr>, w1, db', fs3))))"

definition pull_task ::
    "'w outside \<Rightarrow> 'w pull_side \<Rightarrow> 'w \<Rightarrow> store \<Rightarrow> files \<Rightarrow> task \<Rightarrow> project \<Rightarrow> pull_options \<Rightarrow>
     (go_error, pull_result) result \<times> 'w \<times> store \<times> files" where
  "pull_task env side w db fs t p opts = (case clusters env (cluster_name t) of
     None \<Rightarrow> (Inl (fault_new ''CLUSTER_NOT_FOUND'' False), w, db, fs)
   | Some c \<Rightarrow>
       let workDir = path_join [remote_dir t, ''work'']
       in case listRemoteFiles (exec_cmd env) w c workDir of
         (Inl e, w1) \<Rightarrow>
           if po_dry_run opts then (Inl (pull_fault t e), w1, db, fs)
           else (case failPull db (clock env w1) (ps_ctx side w1) t ''list'' e of (x, t', db') \<Rightarrow> (Inl x, w1, db', fs))
       | (Inr listing, w1) \<Rightarrow>
           let sel = pull_selection opts t listing; fl = pull_files sel;
               dest = path_join [proj_root p, source_workdir t]
           in if fl = [] then (Inl (pull_fault t (fault_new ''NO_FILES_MATCHED'' False)), w1, db, fs)
              else (case ValidatePullDestination (ps_windows side) (ps_wd side) (ps_lstat side w1) dest fl of
                  Some e \<Rightarrow> (Inl (pull_fault t e), w1, db, fs)
                | None \<Rightarrow>
                    if po_dry_run opts
                    then (Inr \<lparr>pr_pulled = t, pr_files = fl, pr_destination = dest, pr_bytes = total_size sel, pr_dry = True\<rparr>, w1, db, fs)
                    else let now = clock env w1; t1 = started_pull t now
                      in case UpdateTaskWithEvent db now t1 (taskEvent t1 ''PULL_STARTED'' ''pull'' [''destination'' \<mapsto> dest] now) of
                           (Inl e, t2, db1) \<Rightarrow> (Inl e, w1, db1, fs)
                         | (Inr _, t2, db1) \<Rightarrow> fetch_files env side w1 db1 fs t2 c workDir dest sel))"

text \<open>\<open>Pull\<close>: the task is named, and observed first unless it is terminal or the pull is live.\<close>

definition job_not_completed :: "task \<Rightarrow> go_error" where
  "job_not_completed t = with_task ''pull'' (compute_state t) (pull_state t) (fault_new ''JOB_NOT_COMPLETED'' False)"

definition App_Pull ::
    "'w outside \<Rightarrow> 'w pull_side \<Rightarrow> file_system \<Rightarrow> 'w \<Rightarrow> store \<Rightarrow> files \<Rightarrow> string \<Rightarrow> string \<Rightarrow> pull_options \<Rightarrow>
     ((go_error, pull_result) result \<times> 'w \<times> store \<times> files) option" where
  "App_Pull env side fsys w db fs cwd identifier opts = (case ResolveTask fsys (clock env w) db cwd identifier of
     (Inl e, db1) \<Rightarrow> Some (Inl e, w, db1, fs)
   | (Inr (t, p), db1) \<Rightarrow>
       if \<not> po_live opts \<and> \<not> terminalComputeState (compute_state t)
       then (case App_Status env fsys w db1 cwd (task_id t) of
           (None, _) \<Rightarrow> None
         | (Some (Some e, _), w2, db2) \<Rightarrow> Some (Inl e, w2, db2, fs)
         | (Some (None, t2), w2, db2) \<Rightarrow>
             if \<not> terminalComputeState (compute_state t2) then Some (Inl (job_not_completed t2), w2, db2, fs)
             else Some (pull_task env side w2 db2 fs t2 p opts))
       else Some (pull_task env side w db1 fs t p opts))"

text \<open>\<open>RemoteFiles\<close>.\<close>

definition files_fault :: "task \<Rightarrow> go_error \<Rightarrow> go_error" where
  "files_fault t e = with_task ''files'' (compute_state t) (pull_state t) (fault_as e)"

definition RemoteFiles ::
    "'w outside \<Rightarrow> file_system \<Rightarrow> 'w \<Rightarrow> store \<Rightarrow> string \<Rightarrow> string \<Rightarrow> (go_error, remote_file list) result \<times> 'w \<times> store" where
  "RemoteFiles env fsys w db cwd identifier = (case ResolveTask fsys (clock env w) db cwd identifier of
     (Inl e, db1) \<Rightarrow> (Inl e, w, db1)
   | (Inr (t, p), db1) \<Rightarrow> (case clusters env (cluster_name t) of
       None \<Rightarrow> (Inl (files_fault t (fault_new ''CLUSTER_NOT_FOUND'' False)), w, db1)
     | Some c \<Rightarrow> (case listRemoteFiles (exec_cmd env) w c (path_join [remote_dir t, ''work'']) of
         (Inl e, w1) \<Rightarrow> (Inl (files_fault t e), w1, db1)
       | (Inr listing, w1) \<Rightarrow> (Inr (map (\<lambda>f. f\<lparr>rf_input := is_input t (rf_path f)\<rparr>)
            (filter (\<lambda>f. rf_path f \<noteq> ''joyrun-job.sh'') listing)), w1, db1))))"

section \<open>What a pull leaves in the store\<close>

definition pulled_as :: "pull_state \<Rightarrow> task \<Rightarrow> store \<Rightarrow> task \<Rightarrow> store \<Rightarrow> bool" where
  "pulled_as ps t db t' db' \<longleftrightarrow> store_ok db' \<and> synced db' t' \<and> same_snapshot t' t \<and>
     compute_state t' = compute_state t \<and> scheduler_id t' = scheduler_id t \<and> pull_state t' = ps \<and>
     GetTask db' (task_id t) = Inr (stored t') \<and> (\<forall>j. j \<noteq> task_id t \<longrightarrow> find_row db' j = find_row db j)"

lemma pulled_as_store: "pulled_as ps t db t' db' \<Longrightarrow> store_ok db' \<and> synced db' t' \<and> task_id t' = task_id t"
  by (auto simp: pulled_as_def dest: same_snapshot_id)

lemma pulled_as_trans:
  "pulled_as ps t db t1 db1 \<Longrightarrow> pulled_as ps' t1 db1 t2 db2 \<Longrightarrow> pulled_as ps' t db t2 db2"
  unfolding pulled_as_def using same_snapshot_trans same_snapshot_id by metis

text \<open>A write that changes the pull state of a task held at its stored revision succeeds.\<close>

lemma pull_write:
  assumes "store_ok db" and "synced db t" and "same_snapshot t1 t" and "revision t1 = revision t"
    and "compute_state t1 = compute_state t" and "scheduler_id t1 = scheduler_id t"
  obtains db' where "UpdateTaskWithEvent db now t1 (taskEvent t1 ty st d now) = (Inr (), t1\<lparr>revision := revision t1 + 1\<rparr>, db')"
    and "pulled_as (pull_state t1) t db (t1\<lparr>revision := revision t1 + 1\<rparr>) db'"
proof -
  have "ev_task (taskEvent t1 ty st d now) = task_id t" using assms(3) by (simp add: same_snapshot_id)
  from update_settles [OF assms(1-4) this, of now] assms(5,6) that show ?thesis
    by (auto simp: settled_as_def pulled_as_def)
qed

lemma failed_pull_fields [simp]:
  "same_snapshot (failed_pull t n c st x) t" "revision (failed_pull t n c st x) = revision t"
  "compute_state (failed_pull t n c st x) = compute_state t" "scheduler_id (failed_pull t n c st x) = scheduler_id t"
  "pull_state (failed_pull t n c st x) = PullFailed" "task_meta (failed_pull t n c st x) ''error_code'' = c"
  by (simp_all add: failed_pull_def same_snapshot_def)

lemma started_pull_fields [simp]:
  "same_snapshot (started_pull t n) t" "revision (started_pull t n) = revision t"
  "compute_state (started_pull t n) = compute_state t" "scheduler_id (started_pull t n) = scheduler_id t"
  "pull_state (started_pull t n) = PullInProgress"
  by (simp_all add: started_pull_def same_snapshot_def)

lemma completed_pull_fields [simp]:
  "same_snapshot (completed_pull t n) t" "revision (completed_pull t n) = revision t"
  "compute_state (completed_pull t n) = compute_state t" "scheduler_id (completed_pull t n) = scheduler_id t"
  "pull_state (completed_pull t n) = (if terminalComputeState (compute_state t) then PullSucceeded else PullPartial)"
  by (simp_all add: completed_pull_def same_snapshot_def)

lemma failPull_stored:
  assumes "store_ok db" and "synced db t"
  obtains x t' db' where "failPull db now ctx t stage cause = (x, t', db')" and "pulled_as PullFailed t db t' db'"
    and "fault_code x = task_meta t' ''error_code''" and "fault_code x = pull_fault_code ctx cause"
proof -
  let ?c = "pull_fault_code ctx cause" let ?t1 = "failed_pull t now ?c stage cause"
  obtain db' where "UpdateTaskWithEvent db now ?t1 (taskEvent ?t1 ''PULL_FAILED'' ''pull''
        [''code'' \<mapsto> ?c, ''stage'' \<mapsto> stage, ''error'' \<mapsto> error_text cause] now) =
      (Inr (), ?t1\<lparr>revision := revision ?t1 + 1\<rparr>, db')" "pulled_as PullFailed t db (?t1\<lparr>revision := revision ?t1 + 1\<rparr>) db'"
    by (rule pull_write [OF assms, of ?t1]) simp_all
  then show ?thesis by (intro that) (auto simp: failPull_def Let_def)
qed

section \<open>What a pull leaves on the disk\<close>

definition pull_targets :: "string \<Rightarrow> string list \<Rightarrow> string set" where
  "pull_targets dest fl = (\<lambda>f. path_join [dest, f]) ` set fl"

definition installed :: "string \<Rightarrow> (string \<rightharpoonup> int) \<Rightarrow> string list \<Rightarrow> files \<Rightarrow> bool" where
  "installed dest sizes fl fs \<longleftrightarrow> (\<forall>f\<in>set fl. \<exists>content. fs (path_join [dest, f]) = Some content \<and>
     sizes f = Some (int (length content)))"

text \<open>The first file of the loop: the loop ends here, or the file is installed and the loop goes on.\<close>

lemma install_files_Cons:
  assumes "install_files side w staging dest sizes (f # fl) fs = (r, fs')"
  obtains "r \<noteq> None" and "fs' = fs"
  | c x fs1 where "InstallStagedFile (ps_install side w (path_join [dest, f])) c (path_join [dest, f]) fs = (x, fs1)"
      and "sizes f = Some (int (length c))" and "fs (path_join [staging, f]) = Some c"
      and "x \<noteq> None \<and> r \<noteq> None \<and> fs' = fs1 \<or> x = None \<and> install_files side w staging dest sizes fl fs1 = (r, fs')"
proof (cases "ps_stat side w (path_join [staging, f])")
  case (Some e)
  with assms show ?thesis by (intro that(1)) (auto simp: Let_def)
next
  case None
  note a = None
  show ?thesis
  proof (cases "fs (path_join [staging, f])")
    case None
    with a assms show ?thesis by (intro that(1)) (auto simp: Let_def)
  next
    case (Some c)
    show ?thesis
    proof (cases "sizes f = Some (int (length c))")
      case False
      with a Some assms show ?thesis by (intro that(1)) (auto simp: Let_def)
    next
      case True
      obtain x fs1 where i: "InstallStagedFile (ps_install side w (path_join [dest, f])) c (path_join [dest, f]) fs = (x, fs1)"
        by (rule prod.exhaust)
      with a Some True assms show ?thesis
        by (intro that(2) [OF i True]) (auto simp: Let_def split: option.splits)
    qed
  qed
qed

lemma install_files_targets:
  "install_files side w staging dest sizes fl fs = (r, fs') \<Longrightarrow> q \<notin> pull_targets dest fl \<Longrightarrow> fs' q = fs q"
proof (induction fl arbitrary: fs)
  case Nil
  then show ?case by simp
next
  case (Cons f fl)
  have q: "q \<noteq> path_join [dest, f]" "q \<notin> pull_targets dest fl" using Cons.prems(2) by (auto simp: pull_targets_def)
  from Cons.prems(1) show ?case
  proof (cases rule: install_files_Cons)
    case (2 c x fs1)
    have "fs1 q = fs q" using install_cases [OF 2(1)] q(1) by auto
    with 2(4) Cons.IH [OF _ q(2), of fs1] show ?thesis by auto
  qed simp
qed

lemma install_files_installed:
  assumes "install_files side w staging dest sizes fl fs = (None, fs')" and "inj_on (\<lambda>f. path_join [dest, f]) (set fl)"
  shows "installed dest sizes fl fs'"
  using assms
proof (induction fl arbitrary: fs)
  case Nil
  then show ?case by (simp add: installed_def)
next
  case (Cons f fl)
  let ?t = "path_join [dest, f]"
  from Cons.prems(1) obtain c fs1 where c: "sizes f = Some (int (length c))"
    "InstallStagedFile (ps_install side w ?t) c ?t fs = (None, fs1)"
    "install_files side w staging dest sizes fl fs1 = (None, fs')"
  proof (cases rule: install_files_Cons)
    case (2 c x fs1)
    from 2(4) have n: "x = None" "install_files side w staging dest sizes fl fs1 = (None, fs')" by blast+
    show ?thesis by (rule that [OF 2(2) 2(1) [unfolded n(1)] n(2)])
  qed (simp only: not_None_eq, blast)
  have i: "installed dest sizes fl fs'"
    using c(3) by (rule Cons.IH) (rule inj_on_subset [OF Cons.prems(2)], rule set_subset_Cons)
  have t: "fs1 ?t = Some c" using install_cases [OF c(2)] by (metis fun_upd_same)
  have "\<exists>content. fs' ?t = Some content \<and> sizes f = Some (int (length content))"
  proof (cases "f \<in> set fl")
    case True
    with i show ?thesis by (simp add: installed_def)
  next
    case False
    have "?t \<in> (\<lambda>f. path_join [dest, f]) ` set fl \<longleftrightarrow> f \<in> set fl"
      by (rule inj_on_image_mem_iff [OF Cons.prems(2)]) (simp, rule set_subset_Cons)
    with False have "?t \<notin> pull_targets dest fl" unfolding pull_targets_def by (rule contrapos_nn [OF _ iffD1])
    from install_files_targets [OF c(3) this] t have "fs' ?t = Some c" by (rule trans)
    with c(1) show ?thesis by blast
  qed
  with i show ?case by (simp add: installed_def)
qed

lemma path_join_inj:
  assumes "path_is_abs dest" and "\<forall>f\<in>F. plain_path f"
  shows "inj_on (\<lambda>f. path_join [dest, f]) F"
proof (rule inj_onI)
  fix f g assume f: "f \<in> F" "g \<in> F" "path_join [dest, f] = path_join [dest, g]"
  then have "path_elems dest @ split_on (CHR ''/'') f = path_elems dest @ split_on (CHR ''/'') g"
    using path_join_plain(3) [OF assms(1)] assms(2) by metis
  then have "split_on (CHR ''/'') f = split_on (CHR ''/'') g" by (rule iffD1 [OF same_append_eq])
  then have "join_with [CHR ''/''] (split_on (CHR ''/'') f) = join_with [CHR ''/''] (split_on (CHR ''/'') g)" by (rule arg_cong)
  then show "f = g" unfolding join_split .
qed

section \<open>The interface of a transfer\<close>

text \<open>Every write of a transfer lands below the local directory it is given.\<close>

locale result_transfer =
  fixes transfer :: "'w \<Rightarrow> cluster \<Rightarrow> string \<Rightarrow> string \<Rightarrow> string list \<Rightarrow> files \<Rightarrow> go_error option \<times> 'w \<times> files"
  assumes stays_below: "transfer w c rdir ldir fl fs = (x, w', fs') \<Longrightarrow> path_is_abs ldir \<Longrightarrow>
      \<forall>f\<in>set fl. plain_path f \<Longrightarrow> \<not> path_under ldir q \<Longrightarrow> fs' q = fs q"

definition pull_end :: "task \<Rightarrow> (go_error, pull_result) result \<Rightarrow> pull_state" where
  "pull_end t r = (case r of Inl _ \<Rightarrow> PullFailed
     | Inr _ \<Rightarrow> if terminalComputeState (compute_state t) then PullSucceeded else PullPartial)"

definition pull_reported :: "string \<Rightarrow> string \<Rightarrow> remote_file list \<Rightarrow> task \<Rightarrow> (go_error, pull_result) result \<Rightarrow> files \<Rightarrow> bool" where
  "pull_reported staging dest sel t' r fs' \<longleftrightarrow> (case r of
     Inl x \<Rightarrow> fault_code x = task_meta t' ''error_code''
   | Inr res \<Rightarrow> pr_pulled res = t' \<and> pr_files res = pull_files sel \<and> pr_destination res = dest \<and>
       (\<forall>f\<in>set (pull_files sel). \<not> path_under staging (path_join [dest, f]) \<longrightarrow>
          (\<exists>content. fs' (path_join [dest, f]) = Some content \<and> pull_sizes sel f = Some (int (length content)))))"

context result_transfer
begin

lemma fetch_outcomes:
  assumes "ps_transfer side = transfer" and "store_ok db" and "synced db t"
    and "path_is_abs dest" and "path_is_abs (path_dir dest)" and "\<forall>f\<in>set (pull_files sel). plain_path f"
    and "plain_elem (''.joyrun-pull-'' @ task_id t)"
    and "fetch_files env side w db fs t c workDir dest sel = (r, w', db', fs')"
  shows "(\<exists>t'. pulled_as (pull_end t r) t db t' db' \<and> pull_reported (pull_staging dest t) dest sel t' r fs') \<and>
    (\<forall>q. \<not> path_under (pull_staging dest t) q \<longrightarrow> q \<notin> pull_targets dest (pull_files sel) \<longrightarrow> fs' q = fs q)"
proof -
  let ?st = "pull_staging dest t" let ?fl = "pull_files sel"
  have st: "path_is_abs ?st" unfolding pull_staging_def by (rule path_join_child(2) [OF assms(5,7)])
  have failed: ?thesis
    if "(case failPull db (clock env v) (ps_ctx side v) t stage e of (x, t', db') \<Rightarrow> (Inl x, v, db', g)) = (r, w', db', fs')"
      and "\<forall>q. \<not> path_under ?st q \<longrightarrow> q \<notin> pull_targets dest ?fl \<longrightarrow> g q = fs q" for v stage e g
  proof -
    obtain x t' d where f: "failPull db (clock env v) (ps_ctx side v) t stage e = (x, t', d)"
      "pulled_as PullFailed t db t' d" "fault_code x = task_meta t' ''error_code''"
      by (rule failPull_stored [OF assms(2,3)])
    with that show ?thesis by (auto simp: pull_end_def pull_reported_def)
  qed
  show ?thesis
  proof (cases "ps_mkdir side w ?st")
    case (Some e)
    with assms(8) show ?thesis by (intro failed [where v = w and stage = "''staging''" and e = e and g = fs]) (simp_all add: fetch_files_def Let_def)
  next
    case None
    note m = None
    obtain x w1 fs1 where x: "ps_transfer side w c workDir ?st ?fl fs = (x, w1, fs1)" by (rule prod_cases3)
    have below: "\<forall>q. \<not> path_under ?st q \<longrightarrow> fs1 q = fs q"
      using stays_below [OF x [unfolded assms(1)] st assms(6)] by blast
    show ?thesis
    proof (cases x)
      case (Some e)
      with assms(8) m x below show ?thesis
        by (intro failed [where v = w1 and stage = "''transfer''" and e = e and g = fs1]) (simp_all add: fetch_files_def Let_def)
    next
      case None
      obtain y fs2 where y: "install_files side w1 ?st dest (pull_sizes sel) ?fl fs1 = (y, fs2)" by (rule prod.exhaust)
      have keep: "\<forall>q. \<not> path_under ?st q \<longrightarrow> q \<notin> pull_targets dest ?fl \<longrightarrow> fs2 q = fs q"
        using install_files_targets [OF y] below by metis
      show ?thesis
      proof (cases y)
        case (Some z)
        obtain stage e where "z = (stage, e)" by (rule prod.exhaust)
        with Some assms(8) m x None y keep show ?thesis
          by (intro failed [where v = w1 and stage = stage and e = e and g = fs2]) (simp_all add: fetch_files_def Let_def)
      next
        case n: None
        let ?now = "clock env w1" let ?t1 = "completed_pull t ?now" let ?fs3 = "remove_all side w1 ?st fs2"
        obtain d where d: "UpdateTaskWithEvent db ?now ?t1 (taskEvent ?t1 ''PULL_COMPLETED'' ''pull'' [''files'' \<mapsto> itoa (length ?fl)] ?now) =
            (Inr (), ?t1\<lparr>revision := revision ?t1 + 1\<rparr>, d)"
          "pulled_as (pull_state ?t1) t db (?t1\<lparr>revision := revision ?t1 + 1\<rparr>) d"
          by (rule pull_write [OF assms(2,3), of ?t1]) simp_all
        from assms(8) m x None y n d(1) have r: "r = Inr \<lparr>pr_pulled = ?t1\<lparr>revision := revision ?t1 + 1\<rparr>, pr_files = ?fl,
            pr_destination = dest, pr_bytes = total_size sel, pr_dry = False\<rparr>" "db' = d" "fs' = ?fs3"
          by (auto simp: fetch_files_def Let_def)
        have "installed dest (pull_sizes sel) ?fl fs2"
          using y [unfolded n] path_join_inj [OF assms(4,6)] by (rule install_files_installed)
        then have "pull_reported ?st dest sel (?t1\<lparr>revision := revision ?t1 + 1\<rparr>) r fs'"
          unfolding r by (simp add: pull_reported_def installed_def remove_all_def)
        moreover have "pulled_as (pull_end t r) t db (?t1\<lparr>revision := revision ?t1 + 1\<rparr>) db'"
          using d(2) by (simp add: r pull_end_def)
        moreover have "\<forall>q. \<not> path_under ?st q \<longrightarrow> q \<notin> pull_targets dest ?fl \<longrightarrow> fs' q = fs q"
          using keep by (simp add: r(3) remove_all_def)
        ultimately show ?thesis by blast
      qed
    qed
  qed
qed

end

section \<open>One pull, on every branch\<close>

lemma path_join_abs: "path_is_abs r \<Longrightarrow> path_is_abs (path_join [r, x])"
  by (cases r) (auto simp: path_is_abs_def path_join_def path_clean_def)

lemma path_dir_is_abs:
  assumes "path_is_abs p"
  shows "path_is_abs (path_dir p)"
proof -
  obtain s where p: "p = CHR ''/'' # s" using assms by (cases p) (auto simp: path_is_abs_def)
  then obtain i where "last_index (CHR ''/'') p = Some i" by (simp add: last_index_def)
  with p show ?thesis by (simp add: path_dir_def path_is_abs_def path_clean_def)
qed

lemma pull_files_mem: "f \<in> set (pull_files (pull_selection opts t listing)) \<longleftrightarrow>
    pull_wanted opts t f \<and> (\<exists>x\<in>set listing. rf_path x = f)"
  by (auto simp: pull_files_def pull_selection_def)

lemma pull_sizes_listed:
  assumes "pull_sizes (pull_selection opts t listing) f = Some n"
  shows "\<exists>x\<in>set listing. rf_path x = f \<and> rf_size x = n"
proof -
  have "(f, n) \<in> set (rev (map (\<lambda>f. (rf_path f, rf_size f)) (pull_selection opts t listing)))"
    using assms unfolding pull_sizes_def by (rule map_of_SomeD)
  then show ?thesis by (auto simp: pull_selection_def)
qed

definition pull_destination :: "project \<Rightarrow> task \<Rightarrow> string" where
  "pull_destination p t = path_join [proj_root p, source_workdir t]"

text \<open>
  C7. One pull, on every branch. A pull that reports success has stored the task as pulled
  (only partially, while the job is not terminal), and every file it names was wanted by the
  options, was listed on the cluster, and lies in the destination with the listed size. A
  pull that fails has left the store alone or has recorded exactly the failure it reports. In
  both cases the compute state and the execution snapshot of the task and every other task
  are untouched, nothing is written outside of the staging directory but wanted files of the
  destination, and no input of the task is overwritten unless that was asked for.
\<close>

theorem pull_outcomes:
  assumes "result_transfer (ps_transfer side)" and "store_ok db" and "synced db t" and "\<not> po_dry_run opts"
    and "path_is_abs (proj_root p)" and "CHR ''/'' \<notin> set (task_id t)"
    and "pull_task env side w db fs t p opts = (r, w', db', fs')"
  shows "(case r of
      Inl x \<Rightarrow> db' = db \<or> (\<exists>t'. pulled_as PullFailed t db t' db' \<and> fault_code x = task_meta t' ''error_code'')
    | Inr res \<Rightarrow> pulled_as (if terminalComputeState (compute_state t) then PullSucceeded else PullPartial) t db (pr_pulled res) db' \<and>
        (\<exists>c listing w1. clusters env (cluster_name t) = Some c \<and>
          listRemoteFiles (exec_cmd env) w c (path_join [remote_dir t, ''work'']) = (Inr listing, w1) \<and>
          (\<forall>f\<in>set (pr_files res). pull_wanted opts t f \<and> plain_path f \<and>
            (\<not> path_under (pull_staging (pull_destination p t) t) (path_join [pull_destination p t, f]) \<longrightarrow>
              (\<exists>content. fs' (path_join [pull_destination p t, f]) = Some content \<and>
                (\<exists>x\<in>set listing. rf_path x = f \<and> rf_size x = int (length content))))))) \<and>
    (\<forall>q. fs' q \<noteq> fs q \<longrightarrow> path_under (pull_staging (pull_destination p t) t) q \<or>
      (\<exists>f. pull_wanted opts t f \<and> plain_path f \<and> q = path_join [pull_destination p t, f])) \<and>
    (\<forall>f. is_input t f \<longrightarrow> \<not> po_overwrite_inputs opts \<longrightarrow> plain_path f \<longrightarrow>
      \<not> path_under (pull_staging (pull_destination p t) t) (path_join [pull_destination p t, f]) \<longrightarrow>
      fs' (path_join [pull_destination p t, f]) = fs (path_join [pull_destination p t, f]))"
    (is "?report r \<and> (\<forall>q. fs' q \<noteq> fs q \<longrightarrow> ?place q) \<and> ?inputs")
proof -
  let ?d = "pull_destination p t" let ?st = "pull_staging ?d t"
  have d: "path_is_abs ?d" unfolding pull_destination_def by (rule path_join_abs [OF assms(5)])
  have inputs: ?inputs if a: "\<forall>q. fs' q \<noteq> fs q \<longrightarrow> ?place q"
  proof (intro allI impI, rule ccontr)
    fix f assume f: "is_input t f" "\<not> po_overwrite_inputs opts" "plain_path f" "\<not> path_under ?st (path_join [?d, f])"
      "fs' (path_join [?d, f]) \<noteq> fs (path_join [?d, f])"
    with a obtain g where g: "pull_wanted opts t g" "plain_path g" "path_join [?d, f] = path_join [?d, g]" by blast
    have "f = g" by (rule inj_onD [OF path_join_inj [OF d, of "{f, g}"] g(3)]) (auto simp: f(3) g(2))
    with f(1,2) g(1) show False by (simp add: pull_wanted_def)
  qed
  have still: ?thesis if "fs' = fs" and "?report r"
    using that inputs by simp
  show ?thesis
  proof (cases "clusters env (cluster_name t)")
    case None
    with assms(7) show ?thesis by (intro still) (auto simp: pull_task_def)
  next
    case (Some c)
    note c = Some
    let ?wd = "path_join [remote_dir t, ''work'']"
    obtain l w1 where l: "listRemoteFiles (exec_cmd env) w c ?wd = (l, w1)" by (rule prod.exhaust)
    show ?thesis
    proof (cases l)
      case (Inl e)
      obtain x t' db1 where f: "failPull db (clock env w1) (ps_ctx side w1) t ''list'' e = (x, t', db1)"
        "pulled_as PullFailed t db t' db1" "fault_code x = task_meta t' ''error_code''"
        by (rule failPull_stored [OF assms(2,3)])
      with assms(4,7) c l Inl show ?thesis by (intro still) (auto simp: pull_task_def Let_def)
    next
      case (Inr listing)
      let ?sel = "pull_selection opts t listing" let ?fl = "pull_files ?sel"
      show ?thesis
      proof (cases "?fl = [] \<or> ValidatePullDestination (ps_windows side) (ps_wd side) (ps_lstat side w1) ?d ?fl \<noteq> None")
        case True
        with assms(4,7) c l Inr have "fs' = fs \<and> db' = db \<and> (\<exists>x. r = Inl x)"
          by (auto simp: pull_task_def Let_def pull_destination_def split: if_splits)
        then show ?thesis by (intro still) auto
      next
        case False
        then have v: "?fl \<noteq> []" "ValidatePullDestination (ps_windows side) (ps_wd side) (ps_lstat side w1) ?d ?fl = None" by auto
        then have plain: "\<forall>f\<in>set ?fl. plain_path f"
          by (auto simp: ValidatePullDestination_def validatePullPaths_iff representable_def split: option.splits)
        let ?now = "clock env w1" let ?t1 = "started_pull t ?now" let ?t2 = "?t1\<lparr>revision := revision ?t1 + 1\<rparr>"
        obtain db1 where u: "UpdateTaskWithEvent db ?now ?t1 (taskEvent ?t1 ''PULL_STARTED'' ''pull'' [''destination'' \<mapsto> ?d] ?now) = (Inr (), ?t2, db1)"
          "pulled_as (pull_state ?t1) t db ?t2 db1"
          by (rule pull_write [OF assms(2,3), of ?t1]) simp_all
        have id: "task_id ?t2 = task_id t" and cs: "compute_state ?t2 = compute_state t"
          by (simp_all add: started_pull_def)
        then have st: "pull_staging ?d ?t2 = ?st" by (simp add: pull_staging_def)
        from assms(4,7) c l Inr v u(1) have f: "fetch_files env side w1 db1 fs ?t2 c ?wd ?d ?sel = (r, w', db', fs')"
          by (simp add: pull_task_def Let_def pull_destination_def)
        have e: "plain_elem (''.joyrun-pull-'' @ task_id ?t2)" using assms(6) unfolding id by (simp add: plain_elem_def)
        have s: "store_ok db1" "synced db1 ?t2" using pulled_as_store [OF u(2)] by simp_all
        from result_transfer.fetch_outcomes [OF assms(1) refl s d path_dir_is_abs [OF d] plain e f, unfolded st]
        obtain t' where t': "pulled_as (pull_end ?t2 r) ?t2 db1 t' db'" "pull_reported ?st ?d ?sel t' r fs'"
          and place: "\<forall>q. \<not> path_under ?st q \<longrightarrow> q \<notin> pull_targets ?d ?fl \<longrightarrow> fs' q = fs q" by blast
        have "pull_end ?t2 r = pull_end t r" unfolding pull_end_def cs ..
        with pulled_as_trans [OF u(2) t'(1)] have stored: "pulled_as (pull_end t r) t db t' db'" by simp
        have target: "\<exists>f. pull_wanted opts t f \<and> plain_path f \<and> q = path_join [?d, f]" if q: "q \<in> pull_targets ?d ?fl" for q
        proof -
          from q obtain f where "f \<in> set ?fl" "q = path_join [?d, f]" by (auto simp: pull_targets_def)
          with plain show ?thesis by (intro exI [of _ f]) (simp add: pull_files_mem)
        qed
        have places: "\<forall>q. fs' q \<noteq> fs q \<longrightarrow> ?place q" using place target by metis
        have "?report r"
        proof (cases r)
          case (Inl x)
          with stored t'(2) show ?thesis by (auto simp: pull_end_def pull_reported_def)
        next
          case (Inr res)
          with t'(2) have res: "pr_pulled res = t'" "pr_files res = ?fl" and files: "\<forall>f\<in>set ?fl. \<not> path_under ?st (path_join [?d, f]) \<longrightarrow>
              (\<exists>content. fs' (path_join [?d, f]) = Some content \<and> pull_sizes ?sel f = Some (int (length content)))"
            by (simp_all add: pull_reported_def)
          have "\<forall>f\<in>set ?fl. pull_wanted opts t f \<and> plain_path f \<and> (\<not> path_under ?st (path_join [?d, f]) \<longrightarrow>
              (\<exists>content. fs' (path_join [?d, f]) = Some content \<and> (\<exists>x\<in>set listing. rf_path x = f \<and> rf_size x = int (length content))))"
            using files plain pull_sizes_listed by (metis pull_files_mem)
          with Inr stored res c l \<open>l = Inr listing\<close> show ?thesis by (auto simp: pull_end_def)
        qed
        with places inputs show ?thesis by blast
      qed
    qed
  qed
qed

end
