(* ===== verification/File_Transfer.thy ===== *)
theory File_Transfer
  imports Upload_Manifest Local_Files Submission
begin

text \<open>
  \<open>internal/transfer\<close>: the choice of the backend and its fallback (\<open>manager.go\<close>), the arguments
  of \<open>rsync\<close> (\<open>rsync.go\<close>), and the SFTP backend (\<open>sftp.go\<close>) with its resumable uploads and
  downloads. A file store is a map from paths to contents. What the single operations of the
  SFTP client and of the local disk answer is a record; an operation that reports an error
  may have happened or not.
\<close>

section \<open>One upload\<close>

text \<open>
  The fallible operations of \<open>uploadFile\<close>, in their order: open and examine the local file,
  examine and remove the partial file, seek, open the partial file, send (with the number of
  bytes that arrived before an error), change the mode, close, rename, and the fallback for
  servers without the extension. \<open>Fallback\<close> is a status of the server for which
  \<open>extensionFallbackAllowed\<close> holds: nothing was renamed. After any other error the file may
  have been renamed. An error of \<open>Chmod\<close> comes with \<open>extensionFallbackAllowed\<close> of it.
\<close>

datatype rename_answer = Renamed | Fallback go_error | Broken go_error bool

record upload_run =
  up_open :: "go_error option"
  up_stat :: "go_error option"
  up_part_seen :: bool
  up_part_removed :: bool
  up_seek :: "go_error option"
  up_create :: "go_error option"
  up_send :: "(go_error \<times> nat) option"
  up_chmod :: "(go_error \<times> bool) option"
  up_close :: "go_error option"
  up_posix_rename :: rename_answer
  up_target_seen :: bool
  up_target_remove :: "(go_error \<times> bool) option"
  up_rename :: "(go_error \<times> bool) option"

definition part_name :: "string \<Rightarrow> string" where
  "part_name p = p @ ''.joyrun-part''"

definition rename_file :: "string \<Rightarrow> string \<Rightarrow> files \<Rightarrow> files" where
  "rename_file p q fs = (fs(q := fs p))(p := None)"

definition hard_error :: "(go_error \<times> bool) option \<Rightarrow> go_error option" where
  "hard_error r = (case r of Some (e, fallback) \<Rightarrow> if fallback then None else Some e | None \<Rightarrow> None)"

text \<open>The bytes of the partial file that an upload keeps: none when it is longer than the source.\<close>

definition kept_part :: "upload_run \<Rightarrow> string \<Rightarrow> string option \<Rightarrow> string" where
  "kept_part r content part = (case part of
     Some q \<Rightarrow> if up_part_seen r \<and> length q \<le> length content then q else []
   | None \<Rightarrow> [])"

text \<open>The plain rename of the fallback, after the removal of an existing target.\<close>

definition replace_by_rename :: "upload_run \<Rightarrow> string \<Rightarrow> files \<Rightarrow> go_error option \<times> files" where
  "replace_by_rename r p fs =
     (let seen = up_target_seen r \<and> fs p \<noteq> None;
          removed = (if seen then up_target_remove r else None);
          fs1 = (case removed of
              Some (e, gone) \<Rightarrow> if gone then fs(p := None) else fs
            | None \<Rightarrow> if seen then fs(p := None) else fs)
      in case removed of
           Some (e, gone) \<Rightarrow> (Some e, fs1)
         | None \<Rightarrow> (case up_rename r of
             Some (e, moved) \<Rightarrow> (Some e, if moved then rename_file (part_name p) p fs1 else fs1)
           | None \<Rightarrow> (None, rename_file (part_name p) p fs1)))"

definition uploadFile :: "upload_run \<Rightarrow> string \<Rightarrow> string \<Rightarrow> files \<Rightarrow> go_error option \<times> files" where
  "uploadFile r content p fs =
     (case first_error [up_open r, up_stat r] of
        Some e \<Rightarrow> (Some e, fs)
      | None \<Rightarrow>
         let part = part_name p;
             oversized = (case fs part of Some q \<Rightarrow> up_part_seen r \<and> length content < length q | None \<Rightarrow> False);
             fs1 = (if oversized \<and> up_part_removed r then fs(part := None) else fs);
             kept = kept_part r content (fs part)
         in case first_error [up_seek r, up_create r] of
              Some e \<Rightarrow> (Some e, fs1)
            | None \<Rightarrow>
               let rest = drop (length kept) content;
                   sent = (case up_send r of Some (e, n) \<Rightarrow> take n rest | None \<Rightarrow> rest);
                   fs2 = fs1(part \<mapsto> kept @ sent)
               in case first_error [map_option fst (up_send r), hard_error (up_chmod r), up_close r] of
                    Some e \<Rightarrow> (Some e, fs2)
                  | None \<Rightarrow> (case up_posix_rename r of
                      Renamed \<Rightarrow> (None, rename_file part p fs2)
                    | Fallback e \<Rightarrow> replace_by_rename r p fs2
                    | Broken e moved \<Rightarrow> (Some e, if moved then rename_file part p fs2 else fs2)))"

section \<open>The upload of a directory\<close>

text \<open>The operations of \<open>push\<close>, by the relative path they are about.\<close>

record push_run =
  pu_session :: "go_error option"
  pu_root :: "go_error option"
  pu_cancelled :: "string \<Rightarrow> go_error option"
  pu_mkdir :: "string \<Rightarrow> go_error option"
  pu_file :: "string \<Rightarrow> upload_run"
  pu_mode :: "string \<Rightarrow> (go_error \<times> bool) option"
  pu_close :: "go_error option"

definition unsupported_staged :: go_error where
  "unsupported_staged = PlainError ''unsupported staged file''"

definition push_file :: "push_run \<Rightarrow> string \<Rightarrow> string \<Rightarrow> (go_error, string) result \<Rightarrow> files \<Rightarrow> go_error option \<times> files" where
  "push_file run dir rel bytes fs = (case bytes of
     Inl e \<Rightarrow> (Some (WrappedError [] e), fs)
   | Inr content \<Rightarrow> (case uploadFile (pu_file run rel) content (path_join [dir, rel]) fs of
       (r, fs') \<Rightarrow> (map_option (WrappedError []) r, fs')))"

text \<open>The walk: the error that stops it, the directories that were made, and the remote files.\<close>

fun push_node :: "push_run \<Rightarrow> string \<Rightarrow> string list \<Rightarrow> string \<Rightarrow> go_error option \<Rightarrow> node \<Rightarrow> string list \<times> files \<Rightarrow>
    go_error option \<times> string list \<times> files"
and push_listing :: "push_run \<Rightarrow> string \<Rightarrow> string list \<Rightarrow> string \<Rightarrow> listing \<Rightarrow> string list \<times> files \<Rightarrow>
    go_error option \<times> string list \<times> files" where
  "push_node run dir excl rel info (Directory err l) (ds, fs) =
     (if pu_cancelled run rel \<noteq> None then (pu_cancelled run rel, ds, fs)
      else if manifest_excluded rel True excl then (None, ds, fs)
      else if info \<noteq> None then (info, ds, fs)
      else (case pu_mkdir run rel of
          Some e \<Rightarrow> (Some (WrappedError [] e), ds, fs)
        | None \<Rightarrow> if err \<noteq> None then (err, ds @ [rel], fs) else push_listing run dir excl rel l (ds @ [rel], fs)))"
| "push_node run dir excl rel info n (ds, fs) =
     (if pu_cancelled run rel \<noteq> None then (pu_cancelled run rel, ds, fs)
      else if manifest_excluded rel False excl then (None, ds, fs)
      else if info \<noteq> None then (info, ds, fs)
      else (case n of
          Regular sz bytes \<Rightarrow> (case push_file run dir rel bytes fs of (r, fs') \<Rightarrow> (r, ds, fs'))
        | _ \<Rightarrow> (Some unsupported_staged, ds, fs)))"
| "push_listing run dir excl rel Done s = (None, s)"
| "push_listing run dir excl rel (Item name info n rest) s =
     (case push_node run dir excl (below rel name) info n s of
        (Some e, s') \<Rightarrow> (Some e, s')
      | (None, s') \<Rightarrow> push_listing run dir excl rel rest s')"

definition upload_error :: "go_error \<Rightarrow> go_error" where
  "upload_error e = fault_wrap ''UPLOAD_FAILED'' [] True e"

definition walk_upload :: "push_run \<Rightarrow> node \<Rightarrow> string \<Rightarrow> string list \<Rightarrow> files \<Rightarrow> go_error option \<times> string list \<times> files" where
  "walk_upload run tree dir excl fs = (if pu_cancelled run [] \<noteq> None then (pu_cancelled run [], [], fs)
     else case tree of
       Directory None l \<Rightarrow> push_listing run dir excl [] l ([], fs)
     | Directory (Some e) l \<Rightarrow> (Some e, [], fs)
     | _ \<Rightarrow> (None, [], fs))"

definition sftp_push :: "push_run \<Rightarrow> node \<Rightarrow> string \<Rightarrow> string list \<Rightarrow> files \<Rightarrow> go_error option \<times> files" where
  "sftp_push run tree dir excl fs =
     (if pu_root run \<noteq> None then (map_option upload_error (pu_root run), fs)
      else case walk_upload run tree dir excl fs of
        (Some e, ds, fs') \<Rightarrow> (Some (upload_error e), fs')
      | (None, ds, fs') \<Rightarrow> (map_option upload_error (first_error (map (\<lambda>d. hard_error (pu_mode run d)) (rev ds))), fs'))"

definition SFTP_Push :: "push_run \<Rightarrow> node \<Rightarrow> string \<Rightarrow> string list \<Rightarrow> files \<Rightarrow> go_error option \<times> files" where
  "SFTP_Push run tree dir excl fs =
     (if pu_session run \<noteq> None then (pu_session run, fs)
      else case sftp_push run tree dir excl fs of
        (Some e, fs') \<Rightarrow> (Some e, fs')
      | (None, fs') \<Rightarrow> (map_option upload_error (pu_close run), fs'))"

section \<open>An interrupted upload is resumed exactly\<close>

text \<open>A partial file that an upload would continue is the beginning of the file.\<close>

definition part_fits :: "string \<Rightarrow> string \<Rightarrow> files \<Rightarrow> bool" where
  "part_fits p content fs \<longleftrightarrow> (\<forall>q. fs (part_name p) = Some q \<longrightarrow> length q \<le> length content \<longrightarrow>
     q = take (length q) content)"

definition uploaded :: "string \<Rightarrow> string \<Rightarrow> files \<Rightarrow> bool" where
  "uploaded p content fs \<longleftrightarrow> fs p = Some content \<and> fs (part_name p) = None"

lemma part_name_neq [simp]: "part_name p \<noteq> p" "p \<noteq> part_name p"
  by (simp_all add: part_name_def)

lemma kept_part_prefix: "part_fits p content fs \<Longrightarrow> kept_part r content (fs (part_name p)) = take (length (kept_part r content (fs (part_name p)))) content"
  by (auto simp: kept_part_def part_fits_def split: option.splits)

lemma part_fits_take: "part_fits p content (fs(part_name p \<mapsto> take n content))"
  by (auto simp: part_fits_def min_def)

lemma part_fits_gone: "fs (part_name p) = None \<Longrightarrow> part_fits p content fs"
  by (simp add: part_fits_def)

text \<open>What one run does to the files, whatever fails in it.\<close>

definition upload_effect :: "string \<Rightarrow> string \<Rightarrow> go_error option \<Rightarrow> files \<Rightarrow> files \<Rightarrow> bool" where
  "upload_effect p content x fs fs' \<longleftrightarrow> part_fits p content fs' \<and> (x = None \<longrightarrow> uploaded p content fs') \<and>
     (\<forall>q. q \<noteq> p \<longrightarrow> q \<noteq> part_name p \<longrightarrow> fs' q = fs q)"

lemma rename_effect:
  assumes "fs (part_name p) = Some content"
  shows "upload_effect p content x fs (rename_file (part_name p) p fs)"
  using assms by (auto simp: upload_effect_def rename_file_def uploaded_def part_fits_gone)

lemma replace_effect:
  assumes "fs (part_name p) = Some content" and "replace_by_rename r p fs = (x, fs')"
  shows "upload_effect p content x fs fs'"
proof -
  have f: "part_fits p content g" if "g (part_name p) = Some content" for g
    using that by (simp add: part_fits_def)
  show ?thesis
    using assms by (auto simp: replace_by_rename_def Let_def upload_effect_def rename_file_def uploaded_def
        part_fits_gone f split: option.splits prod.splits if_splits)
qed

lemma posix_effect:
  assumes "fs (part_name p) = Some content"
    and "(case up_posix_rename r of Renamed \<Rightarrow> (None, rename_file (part_name p) p fs)
      | Fallback e \<Rightarrow> replace_by_rename r p fs
      | Broken e moved \<Rightarrow> (Some e, if moved then rename_file (part_name p) p fs else fs)) = (x, fs')"
  shows "upload_effect p content x fs fs'"
proof (cases "up_posix_rename r")
  case Renamed
  with assms rename_effect [where fs = fs, OF assms(1)] show ?thesis by auto
next
  case (Fallback e)
  with assms replace_effect [where fs = fs, OF assms(1)] show ?thesis by simp
next
  case (Broken e moved)
  have "upload_effect p content (Some e) fs fs" using assms(1) by (simp add: upload_effect_def part_fits_def)
  with Broken assms rename_effect [where fs = fs, OF assms(1)] show ?thesis by (cases moved) auto
qed

lemma uploadFile_effect:
  assumes "part_fits p content fs" and "uploadFile r content p fs = (x, fs')"
  shows "upload_effect p content x fs fs'"
proof -
  let ?part = "part_name p"
  let ?fs1 = "if (case fs ?part of Some q \<Rightarrow> up_part_seen r \<and> length content < length q | None \<Rightarrow> False) \<and> up_part_removed r
    then fs(?part := None) else fs"
  let ?kept = "kept_part r content (fs ?part)"
  let ?sent = "case up_send r of Some (e, n) \<Rightarrow> take n (drop (length ?kept) content) | None \<Rightarrow> drop (length ?kept) content"
  let ?fs2 = "?fs1(?part \<mapsto> ?kept @ ?sent)"
  have early: "upload_effect p content (Some e) fs fs" "upload_effect p content (Some e) fs ?fs1" for e
    using assms(1) by (auto simp: upload_effect_def part_fits_gone)
  have kept: "?kept = take (length ?kept) content" by (rule kept_part_prefix [OF assms(1)])
  have "?kept @ take n (drop (length ?kept) content) = take (length ?kept + n) content" for n
    using kept by (metis take_add)
  then obtain m where "?kept @ ?sent = take m content"
    using kept by (cases "up_send r") (auto, metis append_take_drop_id take_all_iff le_refl)
  then have partial: "upload_effect p content (Some e) fs ?fs2" for e
    by (simp add: upload_effect_def part_fits_take)
  have full: "?fs2 ?part = Some content" if "up_send r = None"
    using kept that by simp (metis append_take_drop_id)
  have rest: "upload_effect p content x fs g" if "upload_effect p content x ?fs2 g" for g
    using that by (auto simp: upload_effect_def)
  show ?thesis
  proof (cases "first_error [up_open r, up_stat r]")
    case (Some e)
    with assms(2) have "x = Some e" "fs' = fs" by (simp_all add: uploadFile_def)
    then show ?thesis using early(1) by simp
  next
    case None
    note a = None
    show ?thesis
    proof (cases "first_error [up_seek r, up_create r]")
      case (Some e)
      with assms(2) a have "x = Some e" "fs' = ?fs1" unfolding uploadFile_def Let_def by simp_all
      then show ?thesis using early(2) by simp
    next
      case None
      note b = None
      show ?thesis
      proof (cases "first_error [map_option fst (up_send r), hard_error (up_chmod r), up_close r]")
        case (Some e)
        with assms(2) a b have "x = Some e" "fs' = ?fs2" unfolding uploadFile_def Let_def by simp_all
        then show ?thesis using partial by simp
      next
        case None
        then have "up_send r = None" by (cases "up_send r") simp_all
        then have c: "?fs2 ?part = Some content" by (rule full)
        from assms(2) a b None have
          d: "(case up_posix_rename r of Renamed \<Rightarrow> (None, rename_file ?part p ?fs2)
            | Fallback e \<Rightarrow> replace_by_rename r p ?fs2
            | Broken e moved \<Rightarrow> (Some e, if moved then rename_file ?part p ?fs2 else ?fs2)) = (x, fs')"
          unfolding uploadFile_def Let_def by simp
        from posix_effect [where fs = ?fs2, OF c d] show ?thesis by (rule rest)
      qed
    qed
  qed
qed

text \<open>The files of a staging directory that a push with these excludes covers, in the order of the walk.\<close>

fun staged_files :: "string list \<Rightarrow> string \<Rightarrow> node \<Rightarrow> (string \<times> string) list"
and staged_below :: "string list \<Rightarrow> string \<Rightarrow> listing \<Rightarrow> (string \<times> string) list" where
  "staged_files excl rel (Directory e l) = (if manifest_excluded rel True excl then [] else staged_below excl rel l)"
| "staged_files excl rel (Regular sz (Inr content)) = (if manifest_excluded rel False excl then [] else [(rel, content)])"
| "staged_files excl rel n = []"
| "staged_below excl rel Done = []"
| "staged_below excl rel (Item name info n rest) = staged_files excl (below rel name) n @ staged_below excl rel rest"

definition remote_names :: "string \<Rightarrow> (string \<times> string) list \<Rightarrow> string list" where
  "remote_names dir fl = concat (map (\<lambda>(rel, c). [path_join [dir, rel], part_name (path_join [dir, rel])]) fl)"

definition parts_fit :: "string \<Rightarrow> (string \<times> string) list \<Rightarrow> files \<Rightarrow> bool" where
  "parts_fit dir fl fs \<longleftrightarrow> (\<forall>(rel, c)\<in>set fl. part_fits (path_join [dir, rel]) c fs)"

definition all_uploaded :: "string \<Rightarrow> (string \<times> string) list \<Rightarrow> files \<Rightarrow> bool" where
  "all_uploaded dir fl fs \<longleftrightarrow> (\<forall>(rel, c)\<in>set fl. uploaded (path_join [dir, rel]) c fs)"

definition tree_effect :: "string \<Rightarrow> (string \<times> string) list \<Rightarrow> go_error option \<Rightarrow> files \<Rightarrow> files \<Rightarrow> bool" where
  "tree_effect dir fl x fs fs' \<longleftrightarrow> parts_fit dir fl fs' \<and> (x = None \<longrightarrow> all_uploaded dir fl fs') \<and>
     (\<forall>q. q \<notin> set (remote_names dir fl) \<longrightarrow> fs' q = fs q)"

lemma remote_names_append [simp]: "remote_names dir (a @ b) = remote_names dir a @ remote_names dir b"
  by (simp add: remote_names_def)

lemma parts_fit_append [simp]: "parts_fit dir (a @ b) fs \<longleftrightarrow> parts_fit dir a fs \<and> parts_fit dir b fs"
  by (auto simp: parts_fit_def)

lemma all_uploaded_append [simp]: "all_uploaded dir (a @ b) fs \<longleftrightarrow> all_uploaded dir a fs \<and> all_uploaded dir b fs"
  by (auto simp: all_uploaded_def)

lemma untouched:
  assumes "\<forall>q\<in>set (remote_names dir fl). fs' q = fs q"
  shows "parts_fit dir fl fs' \<longleftrightarrow> parts_fit dir fl fs" and "all_uploaded dir fl fs' \<longleftrightarrow> all_uploaded dir fl fs"
proof -
  have "fs' (path_join [dir, rel]) = fs (path_join [dir, rel]) \<and>
      fs' (part_name (path_join [dir, rel])) = fs (part_name (path_join [dir, rel]))" if "(rel, c) \<in> set fl" for rel c
    using assms that by (force simp: remote_names_def)
  then show "parts_fit dir fl fs' \<longleftrightarrow> parts_fit dir fl fs" "all_uploaded dir fl fs' \<longleftrightarrow> all_uploaded dir fl fs"
    by (fastforce simp: parts_fit_def all_uploaded_def part_fits_def uploaded_def)+
qed

lemma tree_effect_stop: "parts_fit dir fl fs \<Longrightarrow> fl = [] \<or> x \<noteq> None \<Longrightarrow> tree_effect dir fl x fs fs"
  by (auto simp: tree_effect_def all_uploaded_def)

lemma tree_effect_halt: "Some y = x \<Longrightarrow> parts_fit dir fl fs \<Longrightarrow> tree_effect dir fl x fs fs"
  by (rule tree_effect_stop) auto

lemma tree_effect_more:
  assumes "tree_effect dir a (Some e) fs fs'" and "parts_fit dir b fs" and "distinct (remote_names dir (a @ b))"
  shows "tree_effect dir (a @ b) (Some e) fs fs'"
proof -
  have "\<forall>q\<in>set (remote_names dir b). fs' q = fs q" using assms(1,3) by (auto simp: tree_effect_def)
  with untouched(1) [OF this] assms(1,2) show ?thesis by (auto simp: tree_effect_def)
qed

lemma tree_effect_trans:
  assumes "tree_effect dir a None fs fs1" and "parts_fit dir b fs1 \<Longrightarrow> tree_effect dir b x fs1 fs2"
    and "parts_fit dir b fs" and d: "distinct (remote_names dir (a @ b))"
  shows "tree_effect dir (a @ b) x fs fs2"
proof -
  have "\<forall>q\<in>set (remote_names dir b). fs1 q = fs q" using assms(1) d by (auto simp: tree_effect_def)
  from untouched(1) [OF this] assms(3) have "parts_fit dir b fs1" by blast
  then have b: "tree_effect dir b x fs1 fs2" by (rule assms(2))
  then have "\<forall>q\<in>set (remote_names dir a). fs2 q = fs1 q" using d by (auto simp: tree_effect_def)
  note a = untouched [OF this]
  show ?thesis using assms(1) a b by (auto simp: tree_effect_def)
qed

lemma push_file_effect:
  assumes "push_file run dir rel (Inr content) fs = (x, fs')" and "parts_fit dir [(rel, content)] fs"
  shows "tree_effect dir [(rel, content)] x fs fs'"
proof -
  let ?p = "path_join [dir, rel]"
  obtain y where y: "uploadFile (pu_file run rel) content ?p fs = (y, fs')" "x = map_option (WrappedError []) y"
    using assms(1) by (auto simp: push_file_def split: prod.splits)
  from uploadFile_effect [OF _ y(1)] assms(2) have "upload_effect ?p content y fs fs'"
    by (simp add: parts_fit_def)
  with y(2) show ?thesis
    by (auto simp: tree_effect_def upload_effect_def parts_fit_def all_uploaded_def remote_names_def)
qed

lemma push_effect:
  "push_node run dir excl rel info n (ds, fs) = (x, ds', fs') \<Longrightarrow> parts_fit dir (staged_files excl rel n) fs \<Longrightarrow>
     distinct (remote_names dir (staged_files excl rel n)) \<Longrightarrow> tree_effect dir (staged_files excl rel n) x fs fs'"
  "push_listing run dir excl rel l (ds, fs) = (x, ds', fs') \<Longrightarrow> parts_fit dir (staged_below excl rel l) fs \<Longrightarrow>
     distinct (remote_names dir (staged_below excl rel l)) \<Longrightarrow> tree_effect dir (staged_below excl rel l) x fs fs'"
proof (induction n and l arbitrary: rel info ds fs x ds' fs' and rel ds fs x ds' fs')
  case (Regular sz bytes)
  show ?case
  proof (cases bytes)
    case (Inl e)
    with Regular show ?thesis
      by (auto simp: push_file_def split: if_splits intro: tree_effect_stop tree_effect_halt)
  next
    case (Inr content)
    with Regular show ?thesis
      by (auto split: if_splits prod.splits intro: tree_effect_stop tree_effect_halt push_file_effect)
  qed
next
  case (Directory e l)
  then show ?case by (auto split: if_splits option.splits intro: tree_effect_stop tree_effect_halt)
next
  case (Item name info n rest)
  obtain y ds1 fs1 where n: "push_node run dir excl (below rel name) info n (ds, fs) = (y, ds1, fs1)"
    by (rule prod_cases3)
  from Item.prems have "parts_fit dir (staged_files excl (below rel name) n) fs" "parts_fit dir (staged_below excl rel rest) fs"
    "distinct (remote_names dir (staged_files excl (below rel name) n))" "distinct (remote_names dir (staged_below excl rel rest))"
    by simp_all
  note i = this
  from Item.IH(1) [OF n i(1,3)] have e: "tree_effect dir (staged_files excl (below rel name) n) y fs fs1" .
  show ?case
  proof (cases y)
    case (Some e')
    with Item.prems n e i show ?thesis by (auto intro: tree_effect_more)
  next
    case None
    with Item.prems(1) n have r: "push_listing run dir excl rel rest (ds1, fs1) = (x, ds', fs')" by simp
    from e None have e0: "tree_effect dir (staged_files excl (below rel name) n) None fs fs1" by simp
    show ?thesis unfolding staged_below.simps
    proof (rule tree_effect_trans [OF e0])
      show "tree_effect dir (staged_below excl rel rest) x fs1 fs'" if "parts_fit dir (staged_below excl rel rest) fs1"
        using r that i(4) by (rule Item.IH(2))
    qed (use i Item.prems(3) in simp_all)
  qed
qed (auto split: if_splits intro: tree_effect_stop tree_effect_halt)

definition staged_root :: "string list \<Rightarrow> node \<Rightarrow> (string \<times> string) list" where
  "staged_root excl tree = (case tree of Directory e l \<Rightarrow> staged_below excl [] l | _ \<Rightarrow> [])"

lemma walk_upload_effect:
  assumes "walk_upload run tree dir excl fs = (x, ds, fs')" and "parts_fit dir (staged_root excl tree) fs"
    and "distinct (remote_names dir (staged_root excl tree))"
  shows "tree_effect dir (staged_root excl tree) x fs fs'"
proof (cases "pu_cancelled run [] = None \<and> (\<exists>l. tree = Directory None l)")
  case True
  then obtain l where l: "tree = Directory None l" by blast
  with True assms(1) have "push_listing run dir excl [] l ([], fs) = (x, ds, fs')" by (simp add: walk_upload_def)
  from push_effect(2) [OF this] assms(2,3) show ?thesis by (simp add: l staged_root_def)
next
  case False
  with assms(1,2) show ?thesis
    by (auto simp: walk_upload_def staged_root_def split: if_splits node.splits option.splits
        intro: tree_effect_stop tree_effect_halt)
qed

lemma tree_effect_error: "tree_effect dir fl z fs fs' \<Longrightarrow> (y = None \<Longrightarrow> z = None) \<Longrightarrow> tree_effect dir fl y fs fs'"
  by (auto simp: tree_effect_def)

lemma SFTP_Push_effect:
  assumes "SFTP_Push run tree dir excl fs = (x, fs')" and "parts_fit dir (staged_root excl tree) fs"
    and "distinct (remote_names dir (staged_root excl tree))"
  shows "tree_effect dir (staged_root excl tree) x fs fs'"
proof -
  obtain y ds fs1 where w: "walk_upload run tree dir excl fs = (y, ds, fs1)" by (rule prod_cases3)
  from walk_upload_effect [OF this assms(2,3)] have e: "tree_effect dir (staged_root excl tree) y fs fs1" .
  have "(x \<noteq> None \<and> fs' = fs) \<or> (fs' = fs1 \<and> (x = None \<longrightarrow> y = None))"
  proof (cases "pu_session run")
    case None
    with assms(1) w show ?thesis
      by (cases "pu_root run") (auto simp: SFTP_Push_def sftp_push_def split: option.splits)
  next
    case (Some z)
    with assms(1) show ?thesis by (auto simp: SFTP_Push_def)
  qed
  then show ?thesis
  proof
    assume "x \<noteq> None \<and> fs' = fs"
    with assms(2) show ?thesis by (auto intro: tree_effect_stop)
  next
    assume "fs' = fs1 \<and> (x = None \<longrightarrow> y = None)"
    with e show ?thesis by (auto intro: tree_effect_error)
  qed
qed

text \<open>Attempt after attempt on one staging directory, with the result of the last one.\<close>

definition push_attempts :: "node \<Rightarrow> string \<Rightarrow> string list \<Rightarrow> push_run list \<Rightarrow> files \<Rightarrow> go_error option \<times> files" where
  "push_attempts tree dir excl runs fs = foldl (\<lambda>(x, fs) run. SFTP_Push run tree dir excl fs) (None, fs) runs"

lemma attempts_effect:
  assumes "distinct (remote_names dir (staged_root excl tree))" and "parts_fit dir (staged_root excl tree) fs" and "runs \<noteq> []"
  shows "tree_effect dir (staged_root excl tree) (fst (push_attempts tree dir excl runs fs)) fs
    (snd (push_attempts tree dir excl runs fs))"
  using assms(3)
proof (induction runs rule: rev_induct)
  case Nil
  then show ?case by simp
next
  case (snoc run runs)
  let ?fl = "staged_root excl tree"
  obtain y fs1 where p: "push_attempts tree dir excl runs fs = (y, fs1)" by (rule prod.exhaust)
  obtain x fs2 where q: "SFTP_Push run tree dir excl fs1 = (x, fs2)" by (rule prod.exhaust)
  from p q have r: "push_attempts tree dir excl (runs @ [run]) fs = (x, fs2)" by (simp add: push_attempts_def)
  have f: "parts_fit dir ?fl fs1 \<and> (\<forall>q. q \<notin> set (remote_names dir ?fl) \<longrightarrow> fs1 q = fs q)"
    using snoc.IH p assms(2) by (cases "runs = []") (auto simp: push_attempts_def tree_effect_def)
  from SFTP_Push_effect [OF q _ assms(1)] f show ?case unfolding r by (auto simp: tree_effect_def)
qed

text \<open>
  C16. Interrupted uploads are resumed exactly. However the attempts before it were
  interrupted (a connection that ended in the middle of a file, a rename whose answer was
  lost), when the last attempt to push a staging directory by SFTP reports success then every
  file of it is on the cluster with exactly its bytes and no partial file is left; and no
  attempt changes any other file.
\<close>

theorem uploads_resume:
  assumes "push_attempts tree dir excl runs fs = (x, fs')" and "runs \<noteq> []"
    and "distinct (remote_names dir (staged_root excl tree))" and "parts_fit dir (staged_root excl tree) fs"
  shows "(x = None \<longrightarrow> (\<forall>(rel, content)\<in>set (staged_root excl tree).
      fs' (path_join [dir, rel]) = Some content \<and> fs' (part_name (path_join [dir, rel])) = None)) \<and>
    (\<forall>q. q \<notin> set (remote_names dir (staged_root excl tree)) \<longrightarrow> fs' q = fs q)"
  using attempts_effect [OF assms(3,4,2)] assms(1)
  by (auto simp: tree_effect_def all_uploaded_def uploaded_def)

text \<open>A first attempt that sends one byte of the second file, and a second one that works.\<close>

definition smooth_upload :: upload_run where
  "smooth_upload = \<lparr>up_open = None, up_stat = None, up_part_seen = True, up_part_removed = True, up_seek = None,
     up_create = None, up_send = None, up_chmod = None, up_close = None, up_posix_rename = Renamed,
     up_target_seen = True, up_target_remove = None, up_rename = None\<rparr>"

definition smooth_push :: push_run where
  "smooth_push = \<lparr>pu_session = None, pu_root = None, pu_cancelled = (\<lambda>r. None), pu_mkdir = (\<lambda>r. None),
     pu_file = (\<lambda>r. smooth_upload), pu_mode = (\<lambda>r. None), pu_close = None\<rparr>"

definition broken_push :: push_run where
  "broken_push = smooth_push\<lparr>pu_file := (\<lambda>r. if r = ''b'' then
     smooth_upload\<lparr>up_send := Some (PlainError ''connection lost'', 1)\<rparr> else smooth_upload)\<rparr>"

definition sample_staging :: node where
  "sample_staging = Directory None (Item ''a'' None (Regular 2 (Inr ''xy'')) (Item ''b'' None (Regular 3 (Inr ''uvw'')) Done))"

lemma sample_staging_files: "staged_root [] sample_staging = [(''a'', ''xy''), (''b'', ''uvw'')]"
  by code_simp

lemma uploads_resume_witness:
  "fst (push_attempts sample_staging ''/r'' [] [broken_push] Map.empty) \<noteq> None \<and>
   snd (push_attempts sample_staging ''/r'' [] [broken_push] Map.empty) ''/r/b.joyrun-part'' = Some ''u'' \<and>
   snd (push_attempts sample_staging ''/r'' [] [broken_push, smooth_push] Map.empty) ''/r/b'' = Some ''uvw''"
proof -
  let ?p = "push_attempts sample_staging ''/r'' [] [broken_push, smooth_push] Map.empty"
  have n: "remote_names ''/r'' [(''a'', ''xy''), (''b'', ''uvw'')] = [''/r/a'', ''/r/a.joyrun-part'', ''/r/b'', ''/r/b.joyrun-part'']"
    by code_simp
  have "distinct (remote_names ''/r'' (staged_root [] sample_staging))" unfolding sample_staging_files n by simp
  moreover have "parts_fit ''/r'' (staged_root [] sample_staging) Map.empty" by (simp add: parts_fit_def part_fits_def)
  ultimately have "fst ?p = None \<longrightarrow> snd ?p (path_join [''/r'', ''b'']) = Some ''uvw''"
    using uploads_resume [of sample_staging "''/r''" "[]" "[broken_push, smooth_push]" Map.empty "fst ?p" "snd ?p"]
    by (simp add: sample_staging_files)
  moreover have "fst ?p = None" by code_simp
  moreover have "path_join [''/r'', ''b''] = ''/r/b''" by code_simp
  moreover have "fst (push_attempts sample_staging ''/r'' [] [broken_push] Map.empty) \<noteq> None" by code_simp
  moreover have "snd (push_attempts sample_staging ''/r'' [] [broken_push] Map.empty) ''/r/b.joyrun-part'' = Some ''u''" by code_simp
  ultimately show ?thesis by simp
qed

section \<open>One download\<close>

text \<open>
  The fallible operations of \<open>downloadFile\<close>, in their order. \<open>dl_cleaned\<close> is whether the partial
  file is removed after an error: it is not when the process is killed instead.
\<close>

record download_run =
  dl_open :: "go_error option"
  dl_stat :: "go_error option"
  dl_regular :: bool
  dl_mkdir :: "go_error option"
  dl_create :: "go_error option"
  dl_part_seen :: bool
  dl_reopen :: "go_error option"
  dl_seek :: "go_error option"
  dl_copy :: "(go_error \<times> nat) option"
  dl_sync :: "go_error option"
  dl_chmod :: "go_error option"
  dl_close :: "go_error option"
  dl_replace :: "(go_error \<times> bool) option"
  dl_cleaned :: bool

definition local_part :: "string \<Rightarrow> string" where
  "local_part p = path_join [path_dir p, CHR ''.'' # path_base p @ ''.joyrun-part'']"

definition abandon :: "download_run \<Rightarrow> string \<Rightarrow> go_error \<Rightarrow> files \<Rightarrow> go_error option \<times> files" where
  "abandon r p e fs = (Some e, if dl_cleaned r then fs(local_part p := None) else fs)"

definition downloadFile :: "download_run \<Rightarrow> nat \<Rightarrow> string \<Rightarrow> string \<Rightarrow> files \<Rightarrow> go_error option \<times> files" where
  "downloadFile r sz content p fs =
     (if first_error [dl_open r, dl_stat r] \<noteq> None then (first_error [dl_open r, dl_stat r], fs)
      else if \<not> dl_regular r then (Some (PlainError ''remote path is not a regular file''), fs)
      else if first_error [dl_mkdir r, dl_create r] \<noteq> None then (first_error [dl_mkdir r, dl_create r], fs)
      else let part = local_part p;
               existing = (case fs part of None \<Rightarrow> [] | Some q \<Rightarrow> q);
               oversized = (dl_part_seen r \<and> sz < length existing);
               kept = (if oversized then [] else existing);
               offset = (if dl_part_seen r then length kept else 0);
               rest = drop offset content;
               got = (case dl_copy r of None \<Rightarrow> rest | Some (e, n) \<Rightarrow> take n rest)
           in case (if oversized then dl_reopen r else if dl_part_seen r then dl_seek r else None) of
                Some e \<Rightarrow> abandon r p e (fs(part := (if oversized then None else Some existing)))
              | None \<Rightarrow> (case first_error [map_option fst (dl_copy r), dl_sync r, dl_chmod r, dl_close r] of
                  Some e \<Rightarrow> abandon r p e (fs(part \<mapsto> kept @ got))
                | None \<Rightarrow> (case dl_replace r of
                    Some (e, moved) \<Rightarrow> abandon r p e
                      (if moved then fs(p \<mapsto> kept @ got, part := None) else fs(part \<mapsto> kept @ got))
                  | None \<Rightarrow> (None, fs(p \<mapsto> kept @ got, part := None)))))"

section \<open>Downloads of a list of files\<close>

definition cleanRelative :: "string \<Rightarrow> (go_error, string) result" where
  "cleanRelative v =
     (if v = [] \<or> nul \<in> set v then Inl (PlainError ''invalid relative path'')
      else if path_clean v = ''.'' \<or> path_is_abs (path_clean v) \<or> path_clean v = ''..'' \<or> has_prefix (path_clean v) ''../''
      then Inl (PlainError ''path escapes the task directory'')
      else Inr (path_clean v))"

record pull_run =
  pl_session :: "go_error option"
  pl_mkdir :: "go_error option"
  pl_cancelled :: "string \<Rightarrow> go_error option"
  pl_file :: "string \<Rightarrow> download_run"
  pl_close :: "go_error option"

text \<open>\<open>remote\<close>: the size that \<open>Stat\<close> reports and the bytes of a remote path.\<close>

fun sftp_pull :: "pull_run \<Rightarrow> (string \<Rightarrow> nat \<times> string) \<Rightarrow> string \<Rightarrow> string \<Rightarrow> string list \<Rightarrow> files \<Rightarrow> go_error option \<times> files" where
  "sftp_pull run remote rdir ldir [] fs = (None, fs)"
| "sftp_pull run remote rdir ldir (f # rest) fs =
     (case pl_cancelled run f of
        Some e \<Rightarrow> (Some (fault_wrap ''PULL_FAILED'' [] True e), fs)
      | None \<Rightarrow> (case cleanRelative f of
          Inl e \<Rightarrow> (Some (fault_wrap ''PULL_FAILED'' [] False e), fs)
        | Inr rel \<Rightarrow> (case remote (path_join [rdir, rel]) of (sz, content) \<Rightarrow>
            (case downloadFile (pl_file run rel) sz content (path_join [ldir, rel]) fs of
               (Some e, fs') \<Rightarrow> (Some (fault_wrap ''PULL_FAILED'' [] True e), fs')
             | (None, fs') \<Rightarrow> sftp_pull run remote rdir ldir rest fs'))))"

definition SFTP_Pull :: "pull_run \<Rightarrow> (string \<Rightarrow> nat \<times> string) \<Rightarrow> string \<Rightarrow> string \<Rightarrow> string list \<Rightarrow> files \<Rightarrow> go_error option \<times> files" where
  "SFTP_Pull run remote rdir ldir fl fs =
     (if fl = [] then (None, fs)
      else if pl_session run \<noteq> None then (pl_session run, fs)
      else case (case pl_mkdir run of
             Some e \<Rightarrow> (Some (fault_wrap ''PULL_FAILED'' [] False e), fs)
           | None \<Rightarrow> sftp_pull run remote rdir ldir fl fs) of
        (Some e, fs') \<Rightarrow> (Some e, fs')
      | (None, fs') \<Rightarrow> (map_option (fault_wrap ''PULL_FAILED'' [] True) (pl_close run), fs'))"

text \<open>Every name that is downloaded lies below the staging directory.\<close>

lemma cleanRelative_plain:
  assumes "cleanRelative v = Inr rel"
  shows "rel = path_clean v \<and> \<not> path_is_abs v"
proof -
  have "path_is_abs (path_clean v)" if "path_is_abs v" using that
    by (simp add: path_is_abs_def path_clean_def)
  with assms show ?thesis by (auto simp: cleanRelative_def split: if_splits)
qed

text \<open>
  What a download leaves. A download that reports success has installed the bytes that an
  earlier attempt left in the partial file, followed by the rest of the remote file, and has
  changed no other file. Its size is the expected one in any case, so the size says nothing
  about the content: that is the remote file's exactly when the partial file was a beginning
  of it.
\<close>

theorem download_content:
  assumes "downloadFile r (length content) content p fs = (None, fs')" and "dl_part_seen r" and "local_part p \<noteq> p"
    and "q = (case fs (local_part p) of Some q \<Rightarrow> if length q \<le> length content then q else [] | None \<Rightarrow> [])"
  shows "fs' p = Some (q @ drop (length q) content) \<and> length (q @ drop (length q) content) = length content \<and>
    (fs' p = Some content \<longleftrightarrow> q = take (length q) content) \<and> fs' (local_part p) = None \<and>
    (\<forall>x. x \<noteq> p \<longrightarrow> x \<noteq> local_part p \<longrightarrow> fs' x = fs x)"
proof -
  have q: "length q \<le> length content" using assms(4) by (auto split: option.splits)
  have "dl_copy r = None" using assms(1)
    by (auto simp: downloadFile_def Let_def abandon_def split: if_splits option.splits prod.splits)
  with assms have f: "fs' = fs(p \<mapsto> q @ drop (length q) content, local_part p := None)"
    by (auto simp: downloadFile_def Let_def abandon_def not_less split: if_splits option.splits prod.splits)
  have e: "q @ drop (length q) content = content \<longleftrightarrow> q = take (length q) content"
    by (metis append_eq_conv_conj append_take_drop_id)
  show ?thesis using f e q assms(3) by auto
qed

definition smooth_download :: download_run where
  "smooth_download = \<lparr>dl_open = None, dl_stat = None, dl_regular = True, dl_mkdir = None, dl_create = None,
     dl_part_seen = True, dl_reopen = None, dl_seek = None, dl_copy = None, dl_sync = None, dl_chmod = None,
     dl_close = None, dl_replace = None, dl_cleaned = True\<rparr>"

text \<open>A restart file that was rewritten while the process that downloaded it was dead.\<close>

lemma download_content_witness:
  "snd (downloadFile smooth_download 6 ''new222'' ''/s/r'' [''/s/.r.joyrun-part'' \<mapsto> ''old1'']) ''/s/r'' = Some ''old122''"
proof -
  let ?fs = "[''/s/.r.joyrun-part'' \<mapsto> ''old1''] :: files"
  let ?d = "downloadFile smooth_download (length ''new222'') ''new222'' ''/s/r'' ?fs"
  have p: "local_part ''/s/r'' = ''/s/.r.joyrun-part''" by code_simp
  have "fst ?d = None" by code_simp
  then have a: "?d = (None, snd ?d)" by (cases ?d) simp
  have b: "dl_part_seen smooth_download" by (simp add: smooth_download_def)
  have c: "local_part ''/s/r'' \<noteq> ''/s/r''" unfolding p by simp
  have d: "''old1'' = (case ?fs (local_part ''/s/r'') of Some q \<Rightarrow> if length q \<le> length ''new222'' then q else [] | None \<Rightarrow> [])"
    unfolding p by simp
  have n: "length ''new222'' = 6" by simp
  from download_content [OF a b c d, THEN conjunct1] show ?thesis unfolding n by simp
qed

end
