(* ===== verification/Pull_Transfer.thy ===== *)
theory Pull_Transfer
  imports Pull_Results File_Transfer
begin

text \<open>
  The SFTP backend as the transfer of a pull: it writes below the staging directory only, so
  that what \<open>Pull_Results\<close> shows of any such transfer holds of it.
\<close>

section \<open>The directory and the last element of a path\<close>

lemma last_index_append: "c \<notin> set b \<Longrightarrow> last_index c (a @ c # b) = Some (length a)"
  by (simp add: last_index_def takeWhile_append)

lemma abs_path_snoc: "\<exists>a. abs_path (es @ [e]) = a @ CHR ''/'' # e \<and> (es = [] \<longrightarrow> a = []) \<and> (es \<noteq> [] \<longrightarrow> a = abs_path es)"
  by (simp add: abs_path_def join_with_snoc)

lemma path_dir_elems:
  assumes "\<forall>x\<in>set (es @ [e]). plain_elem x"
  shows "path_elems (path_dir (abs_path (es @ [e]))) = es" and "path_base (abs_path (es @ [e])) = e"
proof -
  obtain a where a: "abs_path (es @ [e]) = a @ CHR ''/'' # e" "es = [] \<longrightarrow> a = []" "es \<noteq> [] \<longrightarrow> a = abs_path es"
    using abs_path_snoc by metis
  have e: "CHR ''/'' \<notin> set e" "e \<noteq> []" using assms by (auto simp: plain_elem_def)
  have "path_dir (abs_path (es @ [e])) = path_clean (a @ [CHR ''/''])"
    unfolding a(1) by (simp add: path_dir_def last_index_append [OF e(1)])
  also have "\<dots> = abs_path es"
  proof (cases "es = []")
    case True
    with a(2) show ?thesis by (simp add: path_clean_def path_elems_def abs_path_def)
  next
    case False
    with a(3) have "a = abs_path es" by simp
    then obtain s where s: "a = CHR ''/'' # s" "s = join_with ''/'' es" by (simp add: abs_path_def)
    then have "path_elems (a @ [CHR ''/'']) = path_elems a"
      by (simp add: path_elems_def split_on_append_sep clean_elems_append)
    also have "\<dots> = es" using assms path_elems_abs [of es] by (simp add: s)
    finally show ?thesis by (simp add: path_clean_def abs_path_def s)
  qed
  finally have d: "path_dir (abs_path (es @ [e])) = abs_path es" .
  show "path_elems (path_dir (abs_path (es @ [e]))) = es"
    unfolding d using assms path_elems_abs [of es] by (simp add: abs_path_def)
  have "dropWhile (\<lambda>c. c = CHR ''/'') (rev (abs_path (es @ [e]))) = rev (abs_path (es @ [e]))"
  proof -
    obtain c w where r: "rev e = c # w" using e(2) by (cases "rev e") auto
    then have "c \<in> set e" by (metis list.set_intros(1) set_rev)
    with e(1) have "c \<noteq> CHR ''/''" by blast
    then show ?thesis unfolding a(1) rev_append rev.simps r by simp
  qed
  moreover have "abs_path (es @ [e]) \<noteq> []" by (simp add: abs_path_def)
  ultimately show "path_base (abs_path (es @ [e])) = e"
    by (simp add: path_base_def Let_def a(1) split_on_append_sep split_on_id e)
qed

section \<open>Where a download writes\<close>

lemma download_places:
  assumes "downloadFile r sz content p fs = (x, fs')" and "q \<noteq> p" and "q \<noteq> local_part p"
  shows "fs' q = fs q"
proof -
  have ab: "snd (abandon r p e g) q = g q" for e g using assms(3) by (simp add: abandon_def)
  have "snd (downloadFile r sz content p fs) q = fs q"
    unfolding downloadFile_def Let_def
    using assms(2,3) by (simp add: ab split: option.split prod.split)
  with assms(1) show ?thesis by simp
qed

lemma local_part_under:
  assumes "path_is_abs d" and "plain_path f"
  shows "path_under d (path_join [d, f])" and "path_under d (local_part (path_join [d, f]))"
proof -
  let ?es = "split_on (CHR ''/'') f"
  let ?b = "path_elems d @ butlast ?es"
  note j = path_join_plain [OF assms]
  show "path_under d (path_join [d, f])" by (simp add: path_under_def j(3))
  have es: "\<forall>e\<in>set ?es. plain_elem e" "?es \<noteq> []" using assms(2) by (simp_all add: plain_path_def)
  then have l: "path_elems d @ ?es = ?b @ [last ?es]" by simp
  have pl: "\<forall>x\<in>set (?b @ [last ?es]). plain_elem x"
    unfolding l [symmetric] using path_elems_plain [OF assms(1)] es(1) by auto
  note dir = path_dir_elems [OF pl]
  have pd: "path_elems (path_dir (path_join [d, f])) = ?b" unfolding j(1) l by (rule dir(1))
  have ab: "path_is_abs (path_dir (path_join [d, f]))" by (rule path_dir_is_abs [OF j(2)])
  let ?n = "CHR ''.'' # last ?es @ ''.joyrun-part''"
  have "CHR ''/'' \<notin> set (last ?es)" using es by (simp add: plain_elem_def)
  then have n: "plain_elem ?n" by (simp add: plain_elem_def)
  have base: "path_base (path_join [d, f]) = last ?es" unfolding j(1) l by (rule dir(2))
  have "local_part (path_join [d, f]) = path_join [path_dir (path_join [d, f]), ?n]"
    unfolding local_part_def base ..
  then have "path_elems (local_part (path_join [d, f])) = ?b @ [?n]"
    using path_join_child(3) [OF ab n] pd by simp
  then show "path_under d (local_part (path_join [d, f]))" by (simp add: path_under_def)
qed

lemma sftp_pull_below:
  assumes "path_is_abs ldir" and "\<forall>f\<in>set fl. plain_path f" and "\<not> path_under ldir q"
  shows "sftp_pull run remote rdir ldir fl fs = (x, fs') \<Longrightarrow> fs' q = fs q"
  using assms(2)
proof (induction fl arbitrary: fs)
  case Nil
  then show ?case by simp
next
  case (Cons f fl)
  have f: "plain_path f" using Cons.prems(2) by simp
  have out: "q \<noteq> path_join [ldir, f]" "q \<noteq> local_part (path_join [ldir, f])"
    using local_part_under [OF assms(1) f] assms(3) by auto
  have rel: "rel = f" if "cleanRelative f = Inr rel" for rel
    using cleanRelative_plain [OF that] plain_path_elems(3) [OF f] by simp
  show ?case
  proof (cases "pl_cancelled run f = None \<and> (\<exists>rel. cleanRelative f = Inr rel)")
    case False
    with Cons.prems(1) show ?thesis by (cases "cleanRelative f") (auto split: option.splits)
  next
    case True
    then have c: "cleanRelative f = Inr f" using rel by blast
    obtain sz content where r: "remote (path_join [rdir, f]) = (sz, content)" by (rule prod.exhaust)
    obtain y fs1 where y: "downloadFile (pl_file run f) sz content (path_join [ldir, f]) fs = (y, fs1)" by (rule prod.exhaust)
    have "fs1 q = fs q" by (rule download_places [OF y out])
    with True Cons.prems c r y Cons.IH [of fs1] show ?thesis by (cases y) auto
  qed
qed

definition sftp_transfer ::
    "('w \<Rightarrow> pull_run) \<Rightarrow> ('w \<Rightarrow> string \<Rightarrow> nat \<times> string) \<Rightarrow> 'w \<Rightarrow> cluster \<Rightarrow> string \<Rightarrow> string \<Rightarrow> string list \<Rightarrow> files \<Rightarrow>
     go_error option \<times> 'w \<times> files" where
  "sftp_transfer run remote w c rdir ldir fl fs =
     (case SFTP_Pull (run w) (remote w) rdir ldir fl fs of (x, fs') \<Rightarrow> (x, w, fs'))"

interpretation sftp: result_transfer "sftp_transfer run remote" for run remote
proof unfold_locales
  fix w w' c rdir ldir fl fs x fs' q
  assume t: "sftp_transfer run remote w c rdir ldir fl fs = (x, w', fs')"
    and a: "path_is_abs ldir" "\<forall>f\<in>set fl. plain_path f" "\<not> path_under ldir q"
  obtain y fs1 where y: "sftp_pull (run w) (remote w) rdir ldir fl fs = (y, fs1)" by (rule prod.exhaust)
  have "fs1 q = fs q" by (rule sftp_pull_below [OF a y])
  with t y show "fs' q = fs q"
    by (auto simp: sftp_transfer_def SFTP_Pull_def split: if_splits option.splits)
qed

section \<open>A concrete pull\<close>

definition smooth_pull :: pull_run where
  "smooth_pull = \<lparr>pl_session = None, pl_mkdir = None, pl_cancelled = (\<lambda>f. None), pl_file = (\<lambda>f. smooth_download), pl_close = None\<rparr>"

definition smooth_install :: install_run where
  "smooth_install = \<lparr>ir_open = None, ir_stat = None, ir_mkdir = None, ir_create = None, ir_copy = None,
     ir_sync = None, ir_chmod = None, ir_close = None, ir_replace = None\<rparr>"

definition sample_side :: "unit pull_side" where
  "sample_side = \<lparr>ps_windows = None, ps_wd = ''/'', ps_lstat = (\<lambda>w p. Missing), ps_mkdir = (\<lambda>w p. None),
     ps_transfer = sftp_transfer (\<lambda>w. smooth_pull) (\<lambda>w p. (3, ''xyz'')), ps_stat = (\<lambda>w p. None),
     ps_install = (\<lambda>w p. smooth_install), ps_removed = (\<lambda>w p. True), ps_ctx = (\<lambda>w. Live)\<rparr>"

definition sample_pull_outside :: "unit outside" where
  "sample_pull_outside = sample_outside\<lparr>clusters := [''c'' \<mapsto> no_cluster\<lparr>cluster_host := ''h''\<rparr>],
     exec_cmd := echo_runner (''out/o.log'' @ [nul] @ ''3'' @ [nul] @ ''joyrun-job.sh'' @ [nul] @ ''9'' @ [nul])\<rparr>"

definition everything :: pull_options where
  "everything = \<lparr>po_all = True, po_include = [], po_overwrite_inputs = False, po_live = True, po_dry_run = False\<rparr>"

lemma pull_outcomes_witness:
  fixes t :: task and p :: project
  defines "t \<equiv> scanTask (encodeTask (first_revision sample_task))" and "p \<equiv> \<lparr>proj_id = ''p'', proj_root = ''/q''\<rparr>"
  shows "\<exists>r w' db' fs'. pull_task sample_pull_outside sample_side () sample_created Map.empty t p everything = (r, w', db', fs') \<and>
    (\<forall>q. fs' q \<noteq> None \<longrightarrow> path_under (pull_staging (pull_destination p t) t) q \<or>
      (\<exists>f. pull_wanted everything t f \<and> plain_path f \<and> q = path_join [pull_destination p t, f])) \<and>
    pull_wanted everything t ''out/o.log'' \<and> \<not> pull_wanted everything t ''joyrun-job.sh''"
proof -
  let ?c = "pull_task sample_pull_outside sample_side () sample_created Map.empty t p everything"
  obtain r w' db' fs' where e: "?c = (r, w', db', fs')" by (rule prod_cases4)
  have "result_transfer (ps_transfer sample_side)"
    unfolding sample_side_def by (simp add: sftp.result_transfer_axioms)
  moreover have "synced sample_created t" unfolding t_def by (rule sample_synced)
  moreover have "\<not> po_dry_run everything" by (simp add: everything_def)
  moreover have "path_is_abs (proj_root p)" by (simp add: p_def path_is_abs_def)
  moreover have "CHR ''/'' \<notin> set (task_id t)" by (simp add: t_def first_revision_def sample_task_def)
  ultimately have "\<forall>q. fs' q \<noteq> Map.empty q \<longrightarrow> path_under (pull_staging (pull_destination p t) t) q \<or>
      (\<exists>f. pull_wanted everything t f \<and> plain_path f \<and> q = path_join [pull_destination p t, f])"
    by (intro pull_outcomes [OF _ sample_created_ok _ _ _ _ e, THEN conjunct2, THEN conjunct1])
  moreover have "pull_wanted everything t ''out/o.log''" "\<not> pull_wanted everything t ''joyrun-job.sh''"
    by (simp_all add: pull_wanted_def everything_def t_def is_input_def first_revision_def sample_task_def)
  ultimately show ?thesis using e by blast
qed

end
