(* ===== verification/Batch_Pull.thy ===== *)
theory Batch_Pull
  imports Batch_Submission Pull_Transfer
begin

text \<open>
  Pulling the results of many tasks at once (\<open>PullMany\<close>, \<open>refreshTaskBatch\<close> and
  \<open>listRemoteFilesBatch\<close> of \<open>internal/app/batch.go\<close>): one listing and one transfer per
  cluster, then each task on its own. The order in which Go ranges over a map of clusters is
  a parameter, and so is the number that \<open>os.MkdirTemp\<close> draws.
\<close>

record pull_item =
  pi_task :: string
  pi_source :: string
  pi_files :: "string list"
  pi_destination :: string
  pi_bytes :: int
  pi_state :: pull_state

record pull_many_result =
  pm_pull :: string
  pm_source_batch :: string
  pm_tasks :: "pull_item list"
  pm_failures :: "batch_failure list"
  pm_dry :: bool

definition no_pulls :: pull_many_result where
  "no_pulls = \<lparr>pm_pull = [], pm_source_batch = [], pm_tasks = [], pm_failures = [], pm_dry = False\<rparr>"

section \<open>Grouping by cluster\<close>

fun group_add :: "string \<Rightarrow> 'a \<Rightarrow> (string \<times> 'a list) list \<Rightarrow> (string \<times> 'a list) list" where
  "group_add k x [] = [(k, [x])]"
| "group_add k x ((j, xs) # rest) = (if j = k then (j, xs @ [x]) # rest else (j, xs) # group_add k x rest)"

definition group_by :: "('a \<Rightarrow> string) \<Rightarrow> 'a list \<Rightarrow> (string \<times> 'a list) list" where
  "group_by key xs = fold (\<lambda>x. group_add (key x) x) xs []"

text \<open>Ranging over the map in the order that \<open>arrange\<close> gives its keys.\<close>

definition visit_groups :: "(string list \<Rightarrow> string list) \<Rightarrow> (string \<times> 'a list) list \<Rightarrow> (string \<times> 'a list) list" where
  "visit_groups arrange gs = concat (map (\<lambda>k. filter (\<lambda>g. fst g = k) gs) (arrange (map fst gs)))"

section \<open>The selection of the tasks\<close>

text \<open>
  \<open>sort.SliceStable\<close> as the insertion sort it is for up to twenty elements; its merges of
  longer slices agree with it for a comparison that is a weak order. The prefix is reversed.
\<close>

fun sift :: "('a \<Rightarrow> 'a \<Rightarrow> bool) \<Rightarrow> 'a \<Rightarrow> 'a list \<Rightarrow> 'a list" where
  "sift before x [] = [x]"
| "sift before x (y # ys) = (if before x y then y # sift before x ys else x # y # ys)"

definition slice_stable :: "('a \<Rightarrow> 'a \<Rightarrow> bool) \<Rightarrow> 'a list \<Rightarrow> 'a list" where
  "slice_stable before xs = rev (fold (sift before) xs [])"

definition batch_before :: "task \<Rightarrow> task \<Rightarrow> bool" where
  "batch_before a b = (case (parse_int64 (task_meta a ''batch_index''), parse_int64 (task_meta b ''batch_index'')) of
     (Some i, Some j) \<Rightarrow> if i \<noteq> j then i < j else created_at a < created_at b
   | _ \<Rightarrow> created_at a < created_at b)"

definition batch_members :: "store \<Rightarrow> string \<Rightarrow> string \<Rightarrow> task list" where
  "batch_members db pid batch =
     slice_stable batch_before (filter (\<lambda>t. task_meta t ''batch_id'' = batch) (ListTasks db pid))"

fun named_tasks ::
    "file_system \<Rightarrow> time \<Rightarrow> string \<Rightarrow> string list \<Rightarrow> task list \<Rightarrow> store \<Rightarrow> (go_error, task list) result \<times> store" where
  "named_tasks fsys now cwd [] ts db = (Inr ts, db)"
| "named_tasks fsys now cwd (i # is) ts db = (case ResolveTask fsys now db cwd i of
     (Inl e, db') \<Rightarrow> (Inl e, db')
   | (Inr (t, p), db') \<Rightarrow>
       named_tasks fsys now cwd is (if task_id t \<in> task_id ` set ts then ts else ts @ [t]) db')"

section \<open>Observing the tasks\<close>

text \<open>
  The first loop of \<open>refreshTaskBatch\<close>: tasks without a scheduler id, one by one. \<open>None\<close> is
  the panic of the query of one task.
\<close>

definition needs_query :: "task \<Rightarrow> bool" where
  "needs_query t \<longleftrightarrow> \<not> terminalComputeState (compute_state t) \<and> scheduler_id t \<noteq> []"

fun refresh_early ::
    "'w outside \<Rightarrow> task list \<Rightarrow> 'w \<Rightarrow> store \<Rightarrow> ((go_error, task list) result \<times> 'w \<times> store) option" where
  "refresh_early env [] w db = Some (Inr [], w, db)"
| "refresh_early env (t # ts) w db =
     (if terminalComputeState (compute_state t) \<or> scheduler_id t \<noteq> []
      then map_option (apfst (map_sum id (Cons t))) (refresh_early env ts w db)
      else case refreshTask env w db t of
        (None, _) \<Rightarrow> None
      | (Some (Some e, _), w1, db1) \<Rightarrow> Some (Inl e, w1, db1)
      | (Some (None, u), w1, db1) \<Rightarrow> map_option (apfst (map_sum id (Cons u))) (refresh_early env ts w1 db1))"

fun apply_statuses ::
    "time \<Rightarrow> (string \<rightharpoonup> job_status) \<Rightarrow> nat list \<Rightarrow> task list \<Rightarrow> store \<Rightarrow> (go_error, task list) result \<times> store" where
  "apply_statuses now sts [] ts db = (Inr ts, db)"
| "apply_statuses now sts (i # is) ts db =
     (case applySchedulerStatus db now (ts ! i)
            (case sts (scheduler_id (ts ! i)) of Some st \<Rightarrow> st | None \<Rightarrow> zero_status) of
        ((Some e, _), db') \<Rightarrow> (Inl e, db')
      | ((None, u), db') \<Rightarrow> apply_statuses now sts is (ts[i := u]) db')"

fun refresh_groups ::
    "'w outside \<Rightarrow> (string \<times> nat list) list \<Rightarrow> task list \<Rightarrow> 'w \<Rightarrow> store \<Rightarrow> (go_error, task list) result \<times> 'w \<times> store" where
  "refresh_groups env [] ts w db = (Inr ts, w, db)"
| "refresh_groups env ((k, is) # gs) ts w db = (case clusters env k of
     None \<Rightarrow> (Inl (fault_new ''CLUSTER_NOT_FOUND'' False), w, db)
   | Some c \<Rightarrow> (case Statuses (exec_cmd env) w (cluster_host c) (map (\<lambda>i. scheduler_id (ts ! i)) is) of
       (Inl e, w1) \<Rightarrow> (Inl e, w1, db)
     | (Inr sts, w1) \<Rightarrow> (case apply_statuses (clock env w1) sts is ts db of
         (Inl e, db1) \<Rightarrow> (Inl e, w1, db1)
       | (Inr ts1, db1) \<Rightarrow> refresh_groups env gs ts1 w1 db1)))"

definition refreshTaskBatch ::
    "'w outside \<Rightarrow> (string list \<Rightarrow> string list) \<Rightarrow> 'w \<Rightarrow> store \<Rightarrow> task list \<Rightarrow>
     ((go_error, task list) result \<times> 'w \<times> store) option" where
  "refreshTaskBatch env arrange w db ts = (case refresh_early env ts w db of
     None \<Rightarrow> None
   | Some (Inl e, w1, db1) \<Rightarrow> Some (Inl e, w1, db1)
   | Some (Inr ts1, w1, db1) \<Rightarrow>
       Some (refresh_groups env (visit_groups arrange
         (group_by (\<lambda>i. cluster_name (ts ! i)) (filter (\<lambda>i. needs_query (ts ! i)) [0..<length ts]))) ts1 w1 db1))"

section \<open>The listings\<close>

definition batch_list_command :: "task list \<Rightarrow> string" where
  "batch_list_command ts = concat (map (\<lambda>t. ''(cd '' @ Quote (path_join [remote_dir t, ''work'']) @
     '' && find . -type f -printf '' @
     Quote (task_id t @ [bs] @ ''0%P'' @ [bs] @ ''0%s'' @ [bs] @ ''0'') @ '') || exit 1; '') ts)"

fun batch_listing ::
    "string list \<Rightarrow> (string \<Rightarrow> remote_file list) \<Rightarrow> (go_error, string \<Rightarrow> remote_file list) result" where
  "batch_listing (i # name # raw # rest) m = (case parse_int64 raw of
     None \<Rightarrow> Inl bad_listing
   | Some n \<Rightarrow> if n < 0 then Inl bad_listing else batch_listing rest (m(i := m i @ [listed_file name n])))"
| "batch_listing _ m = Inr m"

fun list_groups ::
    "'w outside \<Rightarrow> (string \<times> task list) list \<Rightarrow> (string \<Rightarrow> remote_file list) \<Rightarrow> 'w \<Rightarrow>
     (go_error, string \<Rightarrow> remote_file list) result \<times> 'w" where
  "list_groups env [] m w = (Inr m, w)"
| "list_groups env ((k, ts) # gs) m w = (case clusters env k of
     None \<Rightarrow> (Inl (fault_new ''CLUSTER_NOT_FOUND'' False), w)
   | Some c \<Rightarrow> (case exec_cmd env w (cluster_host c) (batch_list_command ts) [] of
       ((stdout, stderr, Some e), w1) \<Rightarrow> (Inl (fault_wrap ''REMOTE_LIST_FAILED'' [] True e), w1)
     | ((stdout, stderr, None), w1) \<Rightarrow> (case batch_listing (split_on nul stdout) m of
         Inl e \<Rightarrow> (Inl e, w1) | Inr m1 \<Rightarrow> list_groups env gs m1 w1)))"

definition listRemoteFilesBatch ::
    "'w outside \<Rightarrow> (string list \<Rightarrow> string list) \<Rightarrow> 'w \<Rightarrow> task list \<Rightarrow>
     (go_error, string \<Rightarrow> remote_file list) result \<times> 'w" where
  "listRemoteFilesBatch env arrange w ts = list_groups env (visit_groups arrange (group_by cluster_name ts)) (\<lambda>_. []) w"

section \<open>The plans\<close>

record batch_pull_plan =
  bp_task :: task
  bp_cluster :: cluster
  bp_files :: "string list"
  bp_remote :: "string list"
  bp_destination :: string
  bp_bytes :: int

definition batch_wanted :: "pull_options \<Rightarrow> task \<Rightarrow> string \<Rightarrow> bool" where
  "batch_wanted opts t f \<longleftrightarrow> f \<noteq> ''joyrun-job.sh'' \<and>
     (po_all opts \<or> manifest_match f (if po_include opts \<noteq> [] then po_include opts else pull_patterns t)) \<and>
     \<not> (is_input t f \<and> \<not> po_overwrite_inputs opts)"

definition place_key :: "(string \<Rightarrow> string) option \<Rightarrow> string \<Rightarrow> string \<Rightarrow> string" where
  "place_key windows dest f = local_key windows (path_clean (path_join [dest, f]))"

text \<open>The places of the wanted files, with the map of all places and the task of each.\<close>

fun claim_places ::
    "(string \<Rightarrow> string) option \<Rightarrow> string \<Rightarrow> string \<Rightarrow> string list \<Rightarrow> (string \<rightharpoonup> string) \<Rightarrow>
     (go_error, string \<rightharpoonup> string) result" where
  "claim_places windows i dest [] places = Inr places"
| "claim_places windows i dest (f # fl) places =
     (let key = place_key windows dest f
      in if places key \<noteq> None \<and> places key \<noteq> Some i then Inl (fault_new ''BATCH_LOCAL_CONFLICT'' False)
         else claim_places windows i dest fl (places(key \<mapsto> i)))"

definition plan_of :: "project \<Rightarrow> task \<Rightarrow> cluster \<Rightarrow> remote_file list \<Rightarrow> batch_pull_plan" where
  "plan_of p t c sel = \<lparr>bp_task = t, bp_cluster = c, bp_files = map rf_path sel,
     bp_remote = map (\<lambda>f. path_join [path_base (remote_dir t), ''work'', rf_path f]) sel,
     bp_destination = pull_destination p t, bp_bytes = total_size sel\<rparr>"

fun make_plans ::
    "'w outside \<Rightarrow> 'w pull_side \<Rightarrow> 'w \<Rightarrow> project \<Rightarrow> pull_options \<Rightarrow> (string \<Rightarrow> remote_file list) \<Rightarrow> task list \<Rightarrow>
     (string \<rightharpoonup> string) \<Rightarrow> (go_error, batch_pull_plan list) result" where
  "make_plans env side w p opts listings [] places = Inr []"
| "make_plans env side w p opts listings (t # ts) places = (case clusters env (cluster_name t) of
     None \<Rightarrow> Inl (fault_new ''CLUSTER_NOT_FOUND'' False)
   | Some c \<Rightarrow>
       let sel = filter (\<lambda>f. batch_wanted opts t (rf_path f)) (listings (task_id t)); plan = plan_of p t c sel
       in case claim_places (ps_windows side) (task_id t) (bp_destination plan) (bp_files plan) places of
            Inl e \<Rightarrow> Inl e
          | Inr places' \<Rightarrow>
              if bp_files plan = [] then Inl (fault_new ''NO_FILES_MATCHED'' False)
              else (case ValidatePullDestination (ps_windows side) (ps_wd side) (ps_lstat side w) (bp_destination plan) (bp_files plan) of
                  Some e \<Rightarrow> Inl e
                | None \<Rightarrow> map_sum id (Cons plan) (make_plans env side w p opts listings ts places')))"

section \<open>One cluster\<close>

definition pull_item_of :: "task \<Rightarrow> batch_pull_plan \<Rightarrow> pull_item" where
  "pull_item_of t plan = \<lparr>pi_task = task_id t, pi_source = source_path t, pi_files = bp_files plan,
     pi_destination = bp_destination plan, pi_bytes = bp_bytes plan, pi_state = pull_state t\<rparr>"

definition pull_failure :: "task \<Rightarrow> go_error \<Rightarrow> pull_many_result \<Rightarrow> pull_many_result" where
  "pull_failure t e r = r\<lparr>pm_failures := pm_failures r @
     [\<lparr>bf_task = task_id t, bf_source = source_path t, bf_error = fault_as e\<rparr>]\<rparr>"

definition batch_staging :: "string \<Rightarrow> nat \<Rightarrow> string" where
  "batch_staging root n = path_join [root, ''.joyrun-batch-pull-'' @ itoa n]"

definition batch_started :: "string \<Rightarrow> task \<Rightarrow> time \<Rightarrow> task_event" where
  "batch_started pull_id t now = taskEvent t ''PULL_STARTED'' ''pull'' [''pull_id'' \<mapsto> pull_id] now"

text \<open>The transfer has failed: one failure for one task.\<close>

definition transfer_failed ::
    "time \<Rightarrow> ctx_status \<Rightarrow> go_error \<Rightarrow> batch_pull_plan \<Rightarrow> store \<times> files \<times> pull_many_result \<Rightarrow> store \<times> files \<times> pull_many_result" where
  "transfer_failed now ctx e plan = (\<lambda>(db, fs, r).
     case failPull db now ctx (bp_task plan) ''transfer'' e of (x, t, db') \<Rightarrow> (db', fs, pull_failure t x r))"

text \<open>The transfer has succeeded: the files of one task are installed one after the other.\<close>

fun install_plan ::
    "'w pull_side \<Rightarrow> 'w \<Rightarrow> string \<Rightarrow> string \<Rightarrow> (string \<times> string) list \<Rightarrow> files \<Rightarrow> go_error option \<times> files" where
  "install_plan side w staging dest [] fs = (None, fs)"
| "install_plan side w staging dest ((remote, f) # rest) fs =
     (let target = path_join [dest, f]; run = ps_install side w target
      in case (case fs (path_join [staging, remote]) of
            None \<Rightarrow> InstallStagedFile (run\<lparr>ir_open := Some (PlainError ''no such file'')\<rparr>) [] target fs
          | Some content \<Rightarrow> InstallStagedFile run content target fs) of
           (Some e, fs') \<Rightarrow> (Some e, fs')
         | (None, fs') \<Rightarrow> install_plan side w staging dest rest fs')"

definition finish_plan ::
    "'w outside \<Rightarrow> 'w pull_side \<Rightarrow> 'w \<Rightarrow> string \<Rightarrow> string \<Rightarrow> batch_pull_plan \<Rightarrow>
     store \<times> files \<times> pull_many_result \<Rightarrow> store \<times> files \<times> pull_many_result" where
  "finish_plan env side w staging pull_id plan = (\<lambda>(db, fs, r).
     let t = bp_task plan; now = clock env w
     in case install_plan side w staging (bp_destination plan) (zip (bp_remote plan) (bp_files plan)) fs of
          (Some e, fs') \<Rightarrow> (case failPull db now (ps_ctx side w) t ''install'' e of
              (x, t', db') \<Rightarrow> (db', fs', pull_failure t' x r))
        | (None, fs') \<Rightarrow>
            (let t1 = completed_pull t now
             in case UpdateTaskWithEvent db now t1 (taskEvent t1 ''PULL_COMPLETED'' ''pull''
                    [''files'' \<mapsto> itoa (length (bp_files plan)), ''pull_id'' \<mapsto> pull_id] now) of
                  (Inl e, t2, db') \<Rightarrow> (db', fs', pull_failure t2 e r)
                | (Inr _, t2, db') \<Rightarrow> (db', fs', r\<lparr>pm_tasks := pm_tasks r @ [pull_item_of t2 plan]\<rparr>)))"

type_synonym 'w batch_state = "'w \<times> store \<times> files \<times> pull_many_result"

definition pull_group ::
    "'w outside \<Rightarrow> 'w pull_side \<Rightarrow> ('w \<Rightarrow> (go_error, nat) result) \<Rightarrow> string \<Rightarrow> string \<Rightarrow> batch_pull_plan list \<Rightarrow>
     'w batch_state \<Rightarrow> go_error option \<times> 'w batch_state" where
  "pull_group env side temp root pull_id plans = (\<lambda>(w, db, fs, r). case temp w of
     Inl e \<Rightarrow> (Some e, w, db, fs, r)
   | Inr n \<Rightarrow>
       let staging = batch_staging root n; now = clock env w;
           started = map (\<lambda>plan. started_pull (bp_task plan) now) plans
       in case UpdateTasksWithEvents db now started (map (\<lambda>t. batch_started pull_id t now) started) of
            (Inl e, _, db1) \<Rightarrow> (Some e, w, db1, remove_all side w staging fs, r)
          | (Inr _, held, db1) \<Rightarrow>
              let plans' = map2 (\<lambda>plan t. plan\<lparr>bp_task := t\<rparr>) plans held
              in case ps_transfer side w (bp_cluster (hd plans)) (remote_root (bp_cluster (hd plans))) staging
                        (concat (map bp_remote plans)) fs of
                   (Some e, w1, fs1) \<Rightarrow>
                     (case fold (transfer_failed (clock env w1) (ps_ctx side w1) e) plans'
                             (db1, remove_all side w1 staging fs1, r) of
                        (db2, fs2, r2) \<Rightarrow> (None, w1, db2, fs2, r2))
                 | (None, w1, fs1) \<Rightarrow>
                     (case fold (finish_plan env side w1 staging pull_id) plans' (db1, fs1, r) of
                        (db2, fs2, r2) \<Rightarrow> (None, w1, db2, remove_all side w1 staging fs2, r2)))"

fun pull_groups ::
    "'w outside \<Rightarrow> 'w pull_side \<Rightarrow> ('w \<Rightarrow> (go_error, nat) result) \<Rightarrow> string \<Rightarrow> string \<Rightarrow>
     (string \<times> batch_pull_plan list) list \<Rightarrow> 'w batch_state \<Rightarrow> go_error option \<times> 'w batch_state" where
  "pull_groups env side temp root pull_id [] s = (None, s)"
| "pull_groups env side temp root pull_id ((k, plans) # gs) s =
     (case pull_group env side temp root pull_id plans s of
        (Some e, s') \<Rightarrow> (Some e, s') | (None, s') \<Rightarrow> pull_groups env side temp root pull_id gs s')"

section \<open>The whole pull\<close>

text \<open>The index a task has in the selection; a missing id would read as zero.\<close>

definition task_order :: "task list \<Rightarrow> string \<Rightarrow> nat" where
  "task_order ts i = (if i \<in> task_id ` set ts then length ts - Suc (length (takeWhile (\<lambda>t. task_id t \<noteq> i) (rev ts))) else 0)"

definition sorted_result :: "task list \<Rightarrow> pull_many_result \<Rightarrow> pull_many_result" where
  "sorted_result ts r = r\<lparr>pm_tasks := sort_key (\<lambda>x. task_order ts (pi_task x)) (pm_tasks r),
     pm_failures := sort_key (\<lambda>x. task_order ts (bf_task x)) (pm_failures r)\<rparr>"

text \<open>From the listing on.\<close>

definition pull_selected ::
    "'w outside \<Rightarrow> 'w pull_side \<Rightarrow> ('w \<Rightarrow> (go_error, nat) result) \<Rightarrow> (string list \<Rightarrow> string list) \<Rightarrow> string \<Rightarrow> string \<Rightarrow>
     project \<Rightarrow> pull_options \<Rightarrow> task list \<Rightarrow> 'w \<Rightarrow> store \<Rightarrow> files \<Rightarrow>
     (pull_many_result \<times> go_error option) \<times> 'w \<times> store \<times> files" where
  "pull_selected env side temp arrange pull_id batch p opts ts w db fs =
     (case listRemoteFilesBatch env arrange w ts of
        (Inl e, w1) \<Rightarrow> ((no_pulls, Some e), w1, db, fs)
      | (Inr listings, w1) \<Rightarrow> (case make_plans env side w1 p opts listings ts Map.empty of
          Inl e \<Rightarrow> ((no_pulls, Some e), w1, db, fs)
        | Inr plans \<Rightarrow>
            let r = no_pulls\<lparr>pm_pull := pull_id, pm_source_batch := batch, pm_dry := po_dry_run opts\<rparr>
            in if po_dry_run opts
               then ((r\<lparr>pm_tasks := map (\<lambda>plan. pull_item_of (bp_task plan) plan) plans\<rparr>, None), w1, db, fs)
               else (case pull_groups env side temp (proj_root p) pull_id
                       (visit_groups arrange (group_by (\<lambda>plan. cluster_name (bp_task plan)) plans)) (w1, db, fs, r) of
                   (Some e, w2, db2, fs2, r2) \<Rightarrow> ((r2, Some e), w2, db2, fs2)
                 | (None, w2, db2, fs2, r2) \<Rightarrow> ((sorted_result ts r2, None), w2, db2, fs2))))"

definition select_tasks ::
    "file_system \<Rightarrow> time \<Rightarrow> string \<Rightarrow> string \<Rightarrow> string list \<Rightarrow> project \<Rightarrow> store \<Rightarrow> (go_error, task list) result \<times> store" where
  "select_tasks fsys now cwd batch identifiers p db =
     (if batch \<noteq> [] then (Inr (batch_members db (proj_id p) batch), db)
      else named_tasks fsys now cwd identifiers [] db)"

text \<open>\<open>PullMany\<close>; \<open>None\<close> is the panic of the query of one task. \<open>pull_id\<close> is the new identity.\<close>

definition PullMany ::
    "'w outside \<Rightarrow> 'w pull_side \<Rightarrow> file_system \<Rightarrow> ('w \<Rightarrow> (go_error, nat) result) \<Rightarrow> (string list \<Rightarrow> string list) \<Rightarrow>
     (go_error, string) result \<Rightarrow> string \<Rightarrow> string list \<Rightarrow> string \<Rightarrow> pull_options \<Rightarrow> 'w \<Rightarrow> store \<Rightarrow> files \<Rightarrow>
     ((pull_many_result \<times> go_error option) \<times> 'w \<times> store \<times> files) option" where
  "PullMany env side fsys temp arrange identity cwd identifiers batch opts w db fs = (case identity of
     Inl e \<Rightarrow> Some ((no_pulls, Some e), w, db, fs)
   | Inr pull_id \<Rightarrow> (case bound_project fsys (clock env w) db cwd of
       (Inl e, db1) \<Rightarrow> Some ((no_pulls, Some e), w, db1, fs)
     | (Inr p, db1) \<Rightarrow> (case select_tasks fsys (clock env w) cwd batch identifiers p db1 of
         (Inl e, db2) \<Rightarrow> Some ((no_pulls, Some e), w, db2, fs)
       | (Inr ts, db2) \<Rightarrow>
           if ts = [] then Some ((no_pulls, Some (fault_new ''NO_TASKS_MATCHED'' False)), w, db2, fs)
           else if MaxBatchTasks < length ts
           then Some ((no_pulls, Some (fault_new ''BATCH_TOO_LARGE'' False)), w, db2, fs)
           else if po_live opts then Some (pull_selected env side temp arrange pull_id batch p opts ts w db2 fs)
           else (case refreshTaskBatch env arrange w db2 ts of
               None \<Rightarrow> None
             | Some (Inl e, w1, db3) \<Rightarrow> Some ((no_pulls, Some e), w1, db3, fs)
             | Some (Inr ts1, w1, db3) \<Rightarrow>
                 if list_all (\<lambda>t. terminalComputeState (compute_state t)) ts1
                 then Some (pull_selected env side temp arrange pull_id batch p opts ts1 w1 db3 fs)
                 else Some ((no_pulls, Some (fault_new ''JOB_NOT_COMPLETED'' False)), w1, db3, fs)))))"

end
