(* ===== verification/Batch_Pull_Outcomes.thy ===== *)
theory Batch_Pull_Outcomes
  imports Batch_Pull
begin

text \<open>
  What a batch pull leaves behind: in the store, in its report, and on the disk. The plans
  are shown to be disjoint, each loop over the tasks of a cluster to handle every one of
  them, and the clusters to be visited once each, in any order.
\<close>

section \<open>Groups\<close>

lemma group_add_members:
  "mset (concat (map snd (group_add k x gs))) = add_mset x (mset (concat (map snd gs)))"
  by (induction k x gs rule: group_add.induct) auto

lemma group_add_keys: "set (map fst (group_add k x gs)) = insert k (set (map fst gs))"
  by (induction k x gs rule: group_add.induct) auto

lemma group_add_distinct: "distinct (map fst gs) \<Longrightarrow> distinct (map fst (group_add k x gs))"
proof (induction k x gs rule: group_add.induct)
  case (2 k x j xs rest)
  then show ?case using group_add_keys [of k x rest] by auto
qed simp

lemma fold_groups:
  "distinct (map fst gs) \<Longrightarrow> distinct (map fst (fold (\<lambda>x. group_add (key x) x) xs gs)) \<and>
   mset (concat (map snd (fold (\<lambda>x. group_add (key x) x) xs gs))) = mset (concat (map snd gs)) + mset xs"
proof (induction xs arbitrary: gs)
  case (Cons x xs)
  from Cons.IH [OF group_add_distinct [OF Cons.prems, of "key x" x]] show ?case
    unfolding group_add_members by simp
qed simp

lemma group_by_members:
  "distinct (map fst (group_by key xs))" "mset (concat (map snd (group_by key xs))) = mset xs"
  using fold_groups [of "[]" key xs] by (simp_all add: group_by_def)

lemma filter_key: "distinct (map fst gs) \<Longrightarrow> g \<in> set gs \<Longrightarrow> filter (\<lambda>h. fst h = fst g) gs = [g]"
proof (induction gs)
  case (Cons h gs)
  show ?case
  proof (cases "g = h")
    case True
    then have "filter (\<lambda>x. fst x = fst g) gs = []" using Cons.prems(1) by (auto simp: filter_empty_conv image_iff)
    with True show ?thesis by simp
  next
    case False
    with Cons show ?thesis by (auto simp: image_iff)
  qed
qed simp

lemma visit_members:
  assumes "distinct (map fst gs)" and "\<And>ks. mset (arrange ks) = mset ks"
  shows "mset (visit_groups arrange gs) = mset gs"
proof -
  let ?h = "\<lambda>k. filter (\<lambda>g. fst g = k) gs"
  have "mset (concat (map ?h ks)) = mset (concat (map ?h ks'))" if "mset ks = mset ks'" for ks ks'
    using that by (simp add: mset_concat flip: sum_mset_sum_list mset_map) (metis image_mset.compositionality mset_map)
  then have "mset (visit_groups arrange gs) = mset (concat (map ?h (map fst gs)))"
    unfolding visit_groups_def using assms(2) by blast
  also have "map ?h (map fst gs) = map (\<lambda>g. [g]) gs"
    using filter_key [OF assms(1)] by simp
  finally show ?thesis by simp
qed

lemma visit_plans:
  assumes "\<And>ks. mset (arrange ks) = mset ks"
  shows "mset (concat (map snd (visit_groups arrange (group_by key xs)))) = mset xs"
proof -
  have "mset (map snd (visit_groups arrange (group_by key xs))) = mset (map snd (group_by key xs))"
    using visit_members [OF group_by_members(1) assms] by (metis mset_map)
  then have "mset (concat (map snd (visit_groups arrange (group_by key xs)))) = mset (concat (map snd (group_by key xs)))"
    by (metis mset_concat mset_map sum_mset_sum_list)
  then show ?thesis by (simp only: group_by_members(2))
qed

section \<open>The plans\<close>

lemma map_le_Some: "m \<subseteq>\<^sub>m n \<Longrightarrow> m k = Some v \<Longrightarrow> n k = Some v"
  by (auto simp: map_le_def dom_def)

lemma claim_places_result:
  "claim_places windows i dest fl places = Inr places' \<Longrightarrow>
   places \<subseteq>\<^sub>m places' \<and> (\<forall>f\<in>set fl. places' (place_key windows dest f) = Some i)"
proof (induction fl arbitrary: places)
  case Nil
  then show ?case by simp
next
  case (Cons f fl)
  let ?k = "place_key windows dest f"
  from Cons.prems have free: "places ?k = None \<or> places ?k = Some i"
    and rest: "claim_places windows i dest fl (places(?k \<mapsto> i)) = Inr places'"
    by (auto simp: Let_def split: if_splits)
  note ih = Cons.IH [OF rest]
  have "places' ?k = Some i" using map_le_Some [OF conjunct1 [OF ih], of ?k i] by simp
  moreover have "places \<subseteq>\<^sub>m places'"
    using conjunct1 [OF ih] free by (auto simp: map_le_def dom_def split: if_splits)
  ultimately show ?case using ih by simp
qed

text \<open>What a plan is made of.\<close>

definition good_plan :: "project \<Rightarrow> pull_options \<Rightarrow> (string \<Rightarrow> remote_file list) \<Rightarrow> batch_pull_plan \<Rightarrow> bool" where
  "good_plan p opts listings pl \<longleftrightarrow> bp_destination pl = pull_destination p (bp_task pl) \<and> bp_files pl \<noteq> [] \<and>
     bp_remote pl = map (\<lambda>f. path_join [path_base (remote_dir (bp_task pl)), ''work'', f]) (bp_files pl) \<and>
     (\<forall>f\<in>set (bp_files pl). plain_path f \<and> batch_wanted opts (bp_task pl) f \<and>
        f \<in> rf_path ` set (listings (task_id (bp_task pl))))"

text \<open>Every place of a plan is claimed by its task alone.\<close>

definition places_claimed :: "(string \<Rightarrow> string) option \<Rightarrow> (string \<rightharpoonup> string) \<Rightarrow> batch_pull_plan \<Rightarrow> bool" where
  "places_claimed windows places pl \<longleftrightarrow> (\<forall>f\<in>set (bp_files pl).
     places (place_key windows (bp_destination pl) f) = Some (task_id (bp_task pl)))"

lemma make_plans_Cons:
  assumes "make_plans env side w p opts listings (t # ts) places = Inr plans"
  obtains c sel places' rest where "plans = plan_of p t c sel # rest"
    and "sel = filter (\<lambda>f. batch_wanted opts t (rf_path f)) (listings (task_id t))"
    and "claim_places (ps_windows side) (task_id t) (pull_destination p t) (map rf_path sel) places = Inr places'"
    and "map rf_path sel \<noteq> []"
    and "ValidatePullDestination (ps_windows side) (ps_wd side) (ps_lstat side w) (pull_destination p t) (map rf_path sel) = None"
    and "make_plans env side w p opts listings ts places' = Inr rest"
proof (cases "clusters env (cluster_name t)")
  case None
  with assms show ?thesis by simp
next
  case (Some c)
  let ?sel = "filter (\<lambda>f. batch_wanted opts t (rf_path f)) (listings (task_id t))"
  show ?thesis
  proof (cases "claim_places (ps_windows side) (task_id t) (pull_destination p t) (map rf_path ?sel) places")
    case (Inl e)
    with assms Some show ?thesis by (simp add: Let_def plan_of_def)
  next
    case (Inr places')
    let ?d = "pull_destination p t"
    have shape: "bp_destination (plan_of p t c ?sel) = ?d" "bp_files (plan_of p t c ?sel) = map rf_path ?sel"
      by (simp_all add: plan_of_def)
    have all: "map rf_path ?sel \<noteq> []"
      "ValidatePullDestination (ps_windows side) (ps_wd side) (ps_lstat side w) ?d (map rf_path ?sel) = None"
      and "map_sum id (Cons (plan_of p t c ?sel)) (make_plans env side w p opts listings ts places') = Inr plans"
      using assms Some Inr by (auto simp: Let_def shape simp del: map_filter_map_filter map_is_Nil_conv split: if_splits option.splits)
    then obtain rest where "plans = plan_of p t c ?sel # rest" "make_plans env side w p opts listings ts places' = Inr rest"
      by (cases "make_plans env side w p opts listings ts places'") auto
    then show ?thesis by (rule that [OF _ refl Inr all])
  qed
qed

lemma make_plans_result:
  "make_plans env side w p opts listings ts places = Inr plans \<Longrightarrow>
   map bp_task plans = ts \<and> (\<forall>pl\<in>set plans. good_plan p opts listings pl) \<and>
   (\<exists>places'. places \<subseteq>\<^sub>m places' \<and> (\<forall>pl\<in>set plans. places_claimed (ps_windows side) places' pl))"
proof (induction ts arbitrary: places plans)
  case Nil
  then show ?case by (auto intro: exI [of _ places])
next
  case (Cons t ts)
  from Cons.prems show ?case
  proof (cases rule: make_plans_Cons)
    case (1 c sel places1 rest)
    note c = claim_places_result [OF 1(3)]
    from Cons.IH [OF 1(6)] obtain places' where ih: "map bp_task rest = ts" "\<forall>pl\<in>set rest. good_plan p opts listings pl"
      "places1 \<subseteq>\<^sub>m places'" "\<forall>pl\<in>set rest. places_claimed (ps_windows side) places' pl" by blast
    have "places_claimed (ps_windows side) places' (plan_of p t c sel)"
      using c map_le_Some [OF ih(3)] by (simp add: places_claimed_def plan_of_def)
    moreover have "good_plan p opts listings (plan_of p t c sel)"
      using 1(2,4,5)
      by (auto simp: good_plan_def plan_of_def ValidatePullDestination_def validatePullPaths_iff representable_def
          split: option.splits)
    moreover have "places \<subseteq>\<^sub>m places'" using c ih(3) map_le_trans by blast
    ultimately show ?thesis using ih 1(1) by (auto simp: plan_of_def)
  qed
qed

text \<open>So no two tasks of a batch write the same local path.\<close>

definition plan_targets :: "batch_pull_plan \<Rightarrow> string set" where
  "plan_targets pl = pull_targets (bp_destination pl) (bp_files pl)"

lemma claimed_disjoint:
  assumes "places_claimed windows places a" and "places_claimed windows places b" and "task_id (bp_task a) \<noteq> task_id (bp_task b)"
  shows "plan_targets a \<inter> plan_targets b = {}"
proof (rule ccontr)
  assume "plan_targets a \<inter> plan_targets b \<noteq> {}"
  then obtain f g where f: "f \<in> set (bp_files a)" "g \<in> set (bp_files b)"
    "path_join [bp_destination a, f] = path_join [bp_destination b, g]"
    by (auto simp: plan_targets_def pull_targets_def)
  then have "place_key windows (bp_destination a) f = place_key windows (bp_destination b) g"
    by (simp only: place_key_def)
  with f(1,2) assms show False unfolding places_claimed_def by (metis option.inject)
qed


section \<open>Installing the files of a task\<close>

lemma install_plan_Cons:
  assumes "install_plan side w staging dest ((remote, f) # rest) fs = (r, fs')"
  obtains run c x fs1 where "InstallStagedFile run c (path_join [dest, f]) fs = (x, fs1)"
    and "x \<noteq> None \<and> r = x \<and> fs' = fs1 \<or> x = None \<and> install_plan side w staging dest rest fs1 = (r, fs')"
proof -
  let ?t = "path_join [dest, f]"
  let ?run = "ps_install side w ?t"
  obtain run c where i: "(case fs (path_join [staging, remote]) of
        None \<Rightarrow> InstallStagedFile (?run\<lparr>ir_open := Some (PlainError ''no such file'')\<rparr>) [] ?t fs
      | Some content \<Rightarrow> InstallStagedFile ?run content ?t fs) = InstallStagedFile run c ?t fs"
    by (cases "fs (path_join [staging, remote])") auto
  obtain x fs1 where x: "InstallStagedFile run c ?t fs = (x, fs1)" by (rule prod.exhaust)
  show ?thesis
    by (rule that [OF x], cases x) (use assms in \<open>auto simp: Let_def i x\<close>)
qed

lemma install_plan_places:
  "install_plan side w staging dest prs fs = (r, fs') \<Longrightarrow>
   (q \<notin> pull_targets dest (map snd prs) \<longrightarrow> fs' q = fs q) \<and> (fs q \<noteq> None \<longrightarrow> fs' q \<noteq> None)"
proof (induction prs arbitrary: fs)
  case (Cons x prs)
  obtain remote f where x: "x = (remote, f)" by (cases x)
  from Cons.prems [unfolded x] show ?case
  proof (cases rule: install_plan_Cons)
    case (1 run c y fs1)
    have one: "(q \<noteq> path_join [dest, f] \<longrightarrow> fs1 q = fs q) \<and> (fs q \<noteq> None \<longrightarrow> fs1 q \<noteq> None)"
      using install_cases [OF 1(1)] by auto
    have rest: "x = None \<Longrightarrow> install_plan side w staging dest prs fs1 = (r, fs') \<Longrightarrow>
        (q \<notin> pull_targets dest (map snd prs) \<longrightarrow> fs' q = fs1 q) \<and> (fs1 q \<noteq> None \<longrightarrow> fs' q \<noteq> None)" for x :: "go_error option"
      by (rule Cons.IH)
    have sub: "q \<notin> pull_targets dest (map snd (x # prs)) \<Longrightarrow>
        q \<noteq> path_join [dest, f] \<and> q \<notin> pull_targets dest (map snd prs)"
      by (simp add: x pull_targets_def)
    from 1(2) one rest [OF refl] sub show ?thesis by (elim disjE conjE) (simp, metis)
  qed
qed simp

lemma install_plan_installed:
  "install_plan side w staging dest prs fs = (None, fs') \<Longrightarrow> f \<in> set (map snd prs) \<Longrightarrow> fs' (path_join [dest, f]) \<noteq> None"
proof (induction prs arbitrary: fs)
  case (Cons x prs)
  obtain remote g where x: "x = (remote, g)" by (cases x)
  from Cons.prems(1) [unfolded x] show ?case
  proof (cases rule: install_plan_Cons)
    case (1 run c y fs1)
    then have n: "InstallStagedFile run c (path_join [dest, g]) fs = (None, fs1)"
      "install_plan side w staging dest prs fs1 = (None, fs')" by auto
    have "fs1 = fs(path_join [dest, g] \<mapsto> c)" using install_cases [OF n(1)] by blast
    then have "fs1 (path_join [dest, g]) \<noteq> None" by simp
    then have "fs' (path_join [dest, g]) \<noteq> None" using install_plan_places [OF n(2)] by blast
    with Cons.IH [OF n(2)] Cons.prems(2) x show ?thesis by auto
  qed
qed simp

section \<open>What is reported of one task\<close>

text \<open>A place that no staging directory of a batch pull in \<open>root\<close> covers.\<close>

definition unstaged :: "string \<Rightarrow> string \<Rightarrow> bool" where
  "unstaged root q \<longleftrightarrow> (\<forall>n. \<not> path_under (batch_staging root n) q)"

definition pull_reported_as ::
    "string \<Rightarrow> batch_pull_plan \<Rightarrow> task \<Rightarrow> files \<times> pull_many_result \<Rightarrow> bool" where
  "pull_reported_as root pl t' = (\<lambda>(fs, r).
     compute_state t' = compute_state (bp_task pl) \<and>
     (pull_state t' = (if terminalComputeState (compute_state t') then PullSucceeded else PullPartial) \<and>
        pull_item_of t' pl \<in> set (pm_tasks r) \<and>
        (\<forall>q\<in>plan_targets pl. unstaged root q \<longrightarrow> fs q \<noteq> None) \<or>
      pull_state t' = PullFailed \<and>
        (\<exists>x\<in>set (pm_failures r). bf_task x = task_id (bp_task pl) \<and> fault_code (bf_error x) = task_meta t' ''error_code'')))"

definition pull_count :: "files \<times> pull_many_result \<Rightarrow> nat" where
  "pull_count = (\<lambda>(fs, r). length (pm_tasks r) + length (pm_failures r))"

lemma pull_reported_grows:
  assumes "pull_reported_as root pl t' (fs, r)"
    and "\<And>q. unstaged root q \<Longrightarrow> fs q \<noteq> None \<Longrightarrow> fs' q \<noteq> None"
    and "set (pm_tasks r) \<subseteq> set (pm_tasks r')" and "set (pm_failures r) \<subseteq> set (pm_failures r')"
  shows "pull_reported_as root pl t' (fs', r')"
  using assms unfolding pull_reported_as_def prod.case by blast

lemma pull_failure_simps [simp]:
  "pm_tasks (pull_failure t e r) = pm_tasks r"
  "pm_failures (pull_failure t e r) = pm_failures r @ [\<lparr>bf_task = task_id t, bf_source = source_path t, bf_error = fault_as e\<rparr>]"
  by (simp_all add: pull_failure_def)

lemma pull_count_simps [simp]:
  "pull_count (fs, pull_failure t e r) = Suc (pull_count (fs', r))"
  "pull_count (fs, r\<lparr>pm_tasks := pm_tasks r @ [i]\<rparr>) = Suc (pull_count (fs', r))"
  by (simp_all add: pull_count_def)

lemma UpdateTaskWithEvent_extends:
  "UpdateTaskWithEvent db now t e = (r, t', db') \<Longrightarrow> store_ok db \<Longrightarrow> store_extends db db'"
  by (cases rule: UpdateTaskWithEvent_cases) simp_all

text \<open>A failure written for the task of a plan.\<close>

lemma failPull_row:
  assumes "store_ok db" and "synced db t" and "failPull db now ctx t stage e = (x, t', db')"
  shows "store_ok db'" and "store_extends db db'" and "\<forall>j. j \<noteq> task_id t \<longrightarrow> find_row db' j = find_row db j"
    and "GetTask db' (task_id t) = Inr (stored t')" and "same_snapshot t' t" and "compute_state t' = compute_state t"
    and "pull_state t' = PullFailed" and "fault_code x = task_meta t' ''error_code''"
proof -
  obtain y u d where f: "failPull db now ctx t stage e = (y, u, d)" "pulled_as PullFailed t db u d"
    "fault_code y = task_meta u ''error_code''" by (rule failPull_stored [OF assms(1,2)])
  then have e: "y = x" "u = t'" "d = db'" using assms(3) by simp_all
  show "store_ok db'" "\<forall>j. j \<noteq> task_id t \<longrightarrow> find_row db' j = find_row db j"
    "GetTask db' (task_id t) = Inr (stored t')" "same_snapshot t' t" "compute_state t' = compute_state t"
    "pull_state t' = PullFailed" "fault_code x = task_meta t' ''error_code''"
    using f(2,3) by (simp_all add: e pulled_as_def)
  show "store_extends db db'"
    using assms(1,3) UpdateTaskWithEvent_extends by (auto simp: failPull_def Let_def split: prod.splits)
qed

lemma failPull_reported:
  assumes "store_ok db" and "synced db (bp_task pl)" and "failPull db now ctx (bp_task pl) stage e = (x, t', db')"
    and "task_id t'' = task_id (bp_task pl)"
  shows "store_ok db' \<and> store_extends db db' \<and>
    (\<forall>j. j \<noteq> task_id (bp_task pl) \<longrightarrow> find_row db' j = find_row db j) \<and>
    (\<exists>t'. GetTask db' (task_id (bp_task pl)) = Inr (stored t') \<and> same_snapshot t' (bp_task pl) \<and>
      pull_reported_as root pl t' (fs, pull_failure t'' x r))"
proof -
  note f = failPull_row [OF assms(1-3)]
  have "pull_reported_as root pl t' (fs, pull_failure t'' x r)"
    using f(6-8) assms(4) by (simp add: pull_reported_as_def)
  with f show ?thesis by blast
qed

lemma failPull_id: "failPull db now ctx t stage e = (x, t', db') \<Longrightarrow> task_id t' = task_id t"
  by (auto simp: failPull_def Let_def failed_pull_def split: prod.splits dest!: UpdateTaskWithEvent_id)

section \<open>The loops over the tasks of a cluster\<close>

interpretation failed_transfers: task_loop bp_task "transfer_failed now ctx e" "pull_reported_as root" pull_count
  for now ctx e root
proof unfold_locales
  fix db pl s db' s'
  assume ok: "store_ok db" "synced db (bp_task pl)" and st: "transfer_failed now ctx e pl (db, s) = (db', s')"
  obtain fs r where s: "s = (fs, r)" by (rule prod.exhaust)
  obtain x t' d where f: "failPull db now ctx (bp_task pl) ''transfer'' e = (x, t', d)" by (rule prod_cases3)
  then have "db' = d" "s' = (fs, pull_failure t' x r)" using st s by (simp_all add: transfer_failed_def)
  with failPull_reported [OF ok f failPull_id [OF f]]
  show "store_ok db' \<and> store_extends db db' \<and> (\<forall>j. j \<noteq> task_id (bp_task pl) \<longrightarrow> find_row db' j = find_row db j) \<and>
      (\<exists>t'. GetTask db' (task_id (bp_task pl)) = Inr (stored t') \<and> same_snapshot t' (bp_task pl) \<and> pull_reported_as root pl t' s')"
    by simp
next
  fix pl db s db' s' u u'
  assume st: "transfer_failed now ctx e pl (db, s) = (db', s')"
  obtain fs r where s: "s = (fs, r)" by (rule prod.exhaust)
  from st s obtain x t' where s': "s' = (fs, pull_failure t' x r)"
    by (auto simp: transfer_failed_def split: prod.splits)
  show "pull_reported_as root u u' s'" if "pull_reported_as root u u' s"
    using that unfolding s s' by (rule pull_reported_grows) auto
  show "pull_count s' = Suc (pull_count s)" unfolding s s' by simp
qed

lemma finish_plan_cases:
  assumes "finish_plan env side w staging pull_id pl (db, fs, r) = (db', fs', r')"
  obtains (failed) e x t' where "install_plan side w staging (bp_destination pl) (zip (bp_remote pl) (bp_files pl)) fs = (Some e, fs')"
      and "failPull db (clock env w) (ps_ctx side w) (bp_task pl) ''install'' e = (x, t', db')" and "r' = pull_failure t' x r"
    | (stored) y t' d where "install_plan side w staging (bp_destination pl) (zip (bp_remote pl) (bp_files pl)) fs = (None, fs')"
      and "UpdateTaskWithEvent db (clock env w) (completed_pull (bp_task pl) (clock env w))
        (taskEvent (completed_pull (bp_task pl) (clock env w)) ''PULL_COMPLETED'' ''pull'' d (clock env w)) = (y, t', db')"
      and "(\<exists>e. y = Inl e \<and> r' = pull_failure t' e r) \<or> y = Inr () \<and> r' = r\<lparr>pm_tasks := pm_tasks r @ [pull_item_of t' pl]\<rparr>"
proof -
  obtain z fs1 where z: "install_plan side w staging (bp_destination pl) (zip (bp_remote pl) (bp_files pl)) fs = (z, fs1)"
    by (rule prod.exhaust)
  show ?thesis
  proof (cases z)
    case (Some e)
    obtain x t' d where "failPull db (clock env w) (ps_ctx side w) (bp_task pl) ''install'' e = (x, t', d)" by (rule prod_cases3)
    with assms z Some show ?thesis by (intro that(1)) (auto simp: finish_plan_def Let_def)
  next
    case None
    let ?now = "clock env w" let ?t1 = "completed_pull (bp_task pl) ?now"
    let ?d = "[''files'' \<mapsto> itoa (length (bp_files pl)), ''pull_id'' \<mapsto> pull_id]"
    obtain y t' d where y: "UpdateTaskWithEvent db ?now ?t1 (taskEvent ?t1 ''PULL_COMPLETED'' ''pull'' ?d ?now) = (y, t', d)"
      by (rule prod_cases3)
    with assms z None show ?thesis
      by (intro that(2) [of ?d y t']) (cases y; simp add: finish_plan_def Let_def)+
  qed
qed


lemma zip_targets: "length (bp_remote pl) = length (bp_files pl) \<Longrightarrow> map snd (zip (bp_remote pl) (bp_files pl)) = bp_files pl"
  by simp

lemma finish_plan_grows:
  assumes "finish_plan env side w staging pull_id pl (db, fs, r) = (db', fs', r')"
  shows "fs q \<noteq> None \<Longrightarrow> fs' q \<noteq> None" and "set (pm_tasks r) \<subseteq> set (pm_tasks r')"
    and "set (pm_failures r) \<subseteq> set (pm_failures r')" and "pull_count (fs', r') = Suc (pull_count (fs, r))"
    and "q \<notin> plan_targets pl \<Longrightarrow> fs' q = fs q"
proof -
  have sub: "pull_targets (bp_destination pl) (map snd (zip (bp_remote pl) (bp_files pl))) \<subseteq> plan_targets pl"
    by (auto simp: plan_targets_def pull_targets_def dest: set_zip_rightD)
  have a: "(fs q \<noteq> None \<longrightarrow> fs' q \<noteq> None) \<and> set (pm_tasks r) \<subseteq> set (pm_tasks r') \<and> set (pm_failures r) \<subseteq> set (pm_failures r') \<and>
      pull_count (fs', r') = Suc (pull_count (fs, r)) \<and> (q \<notin> plan_targets pl \<longrightarrow> fs' q = fs q)"
    using assms
  proof (cases rule: finish_plan_cases)
    case (failed e x t')
    note pl = install_plan_places [OF failed(1), of q]
    show ?thesis using pl sub unfolding failed(3) by auto
  next
    case (stored y t' d)
    note pl = install_plan_places [OF stored(1), of q]
    show ?thesis using pl sub stored(3) by auto
  qed
  then show "fs q \<noteq> None \<Longrightarrow> fs' q \<noteq> None" "set (pm_tasks r) \<subseteq> set (pm_tasks r')"
    "set (pm_failures r) \<subseteq> set (pm_failures r')" "pull_count (fs', r') = Suc (pull_count (fs, r))"
    "q \<notin> plan_targets pl \<Longrightarrow> fs' q = fs q" by blast+
qed

text \<open>A plan names as many remote files as local ones.\<close>

definition paired :: "batch_pull_plan \<Rightarrow> bool" where
  "paired pl \<longleftrightarrow> length (bp_remote pl) = length (bp_files pl)"

lemma finish_plan_row:
  assumes "store_ok db" and "synced db (bp_task pl)" and "paired pl"
    and "finish_plan env side w staging pull_id pl (db, fs, r) = (db', fs', r')"
  shows "store_ok db' \<and> store_extends db db' \<and> (\<forall>j. j \<noteq> task_id (bp_task pl) \<longrightarrow> find_row db' j = find_row db j) \<and>
    (\<exists>t'. GetTask db' (task_id (bp_task pl)) = Inr (stored t') \<and> same_snapshot t' (bp_task pl) \<and>
      pull_reported_as root pl t' (fs', r'))"
  using assms(4)
proof (cases rule: finish_plan_cases)
  case (failed e x t')
  show ?thesis using failPull_reported [OF assms(1,2) failed(2) failPull_id [OF failed(2)]] unfolding failed(3) .
next
  case (stored y t' d)
  let ?now = "clock env w" let ?t1 = "completed_pull (bp_task pl) ?now" let ?t2 = "?t1\<lparr>revision := revision ?t1 + 1\<rparr>"
  obtain d1 where u: "UpdateTaskWithEvent db ?now ?t1 (taskEvent ?t1 ''PULL_COMPLETED'' ''pull'' d ?now) = (Inr (), ?t2, d1)"
    "pulled_as (pull_state ?t1) (bp_task pl) db ?t2 d1"
    by (rule pull_write [OF assms(1,2), of ?t1]) simp_all
  then have e: "y = Inr ()" "t' = ?t2" "d1 = db'" using stored(2) by simp_all
  then have r': "r' = r\<lparr>pm_tasks := pm_tasks r @ [pull_item_of t' pl]\<rparr>" using stored(3) by simp
  have names: "map snd (zip (bp_remote pl) (bp_files pl)) = bp_files pl"
    using assms(3) by (simp add: zip_targets paired_def)
  have installed: "\<forall>q\<in>plan_targets pl. fs' q \<noteq> None"
    using install_plan_installed [OF stored(1)] unfolding names plan_targets_def pull_targets_def by blast
  have p: "store_ok db'" "\<forall>j. j \<noteq> task_id (bp_task pl) \<longrightarrow> find_row db' j = find_row db j"
    "GetTask db' (task_id (bp_task pl)) = Inr (stored t')" "same_snapshot t' (bp_task pl)"
    "compute_state t' = compute_state (bp_task pl)" "pull_state t' = pull_state ?t1"
    using u(2) unfolding e(2,3) pulled_as_def by blast+
  have "pull_state t' = (if terminalComputeState (compute_state t') then PullSucceeded else PullPartial)"
    using p(5,6) by simp
  then have "pull_reported_as root pl t' (fs', r')"
    using p(5) installed by (simp add: pull_reported_as_def r')
  moreover have "store_extends db db'" using UpdateTaskWithEvent_extends [OF stored(2) assms(1)] .
  ultimately show ?thesis using p by blast
qed

text \<open>
  The loop needs every plan to be paired, so the law of the interface is stated for the
  plans as they are made.
\<close>

definition pair_files :: "batch_pull_plan \<Rightarrow> batch_pull_plan" where
  "pair_files pl = (if paired pl then pl else pl\<lparr>bp_remote := bp_files pl\<rparr>)"

interpretation finished: task_loop bp_task "\<lambda>pl. finish_plan env side w staging pull_id (pair_files pl)"
    "\<lambda>pl. pull_reported_as root (pair_files pl)" pull_count
  for env side w staging pull_id root
proof unfold_locales
  fix db pl s db' s'
  assume ok: "store_ok db" "synced db (bp_task pl)"
    and st: "finish_plan env side w staging pull_id (pair_files pl) (db, s) = (db', s')"
  obtain fs r where s: "s = (fs, r)" by (rule prod.exhaust)
  obtain fs' r' where s': "s' = (fs', r')" by (rule prod.exhaust)
  have pl: "paired (pair_files pl)" "bp_task (pair_files pl) = bp_task pl" by (simp_all add: pair_files_def paired_def)
  show "store_ok db' \<and> store_extends db db' \<and> (\<forall>j. j \<noteq> task_id (bp_task pl) \<longrightarrow> find_row db' j = find_row db j) \<and>
      (\<exists>t'. GetTask db' (task_id (bp_task pl)) = Inr (stored t') \<and> same_snapshot t' (bp_task pl) \<and>
        pull_reported_as root (pair_files pl) t' s')"
    using finish_plan_row [OF ok(1) _ pl(1) st [unfolded s s']] ok(2) unfolding s' pl(2) by blast
next
  fix pl db s db' s' u u'
  assume st: "finish_plan env side w staging pull_id (pair_files pl) (db, s) = (db', s')"
  obtain fs r where s: "s = (fs, r)" by (rule prod.exhaust)
  obtain fs' r' where s': "s' = (fs', r')" by (rule prod.exhaust)
  note g = finish_plan_grows [OF st [unfolded s s']]
  show "pull_reported_as root (pair_files u) u' s'" if "pull_reported_as root (pair_files u) u' s"
    using that unfolding s s' by (rule pull_reported_grows) (use g in blast)+
  show "pull_count s' = Suc (pull_count s)" using g(4) unfolding s s' .
qed

lemma finish_fold:
  assumes "\<forall>pl\<in>set plans. paired pl"
  shows "fold (finish_plan env side w staging pull_id) plans s =
    fold (\<lambda>pl. finish_plan env side w staging pull_id (pair_files pl)) plans s"
  by (rule fold_cong) (use assms in \<open>simp_all add: pair_files_def\<close>)

lemma finish_fold_places:
  "fold (finish_plan env side w staging pull_id) plans (db, fs, r) = (db', fs', r') \<Longrightarrow>
   \<forall>pl\<in>set plans. q \<notin> plan_targets pl \<Longrightarrow> fs' q = fs q"
proof (induction plans arbitrary: db fs r)
  case (Cons pl plans)
  obtain d f x where one: "finish_plan env side w staging pull_id pl (db, fs, r) = (d, f, x)" by (rule prod_cases3)
  with Cons.prems(1) have "fold (finish_plan env side w staging pull_id) plans (d, f, x) = (db', fs', r')" by simp
  from Cons.IH [OF this] Cons.prems(2) finish_plan_grows(5) [OF one, of q] show ?case by simp
qed simp

lemma finish_fold_grows:
  "fold (finish_plan env side w staging pull_id) plans (db, fs, r) = (db', fs', r') \<Longrightarrow>
   (\<forall>q. fs q \<noteq> None \<longrightarrow> fs' q \<noteq> None) \<and> set (pm_tasks r) \<subseteq> set (pm_tasks r') \<and> set (pm_failures r) \<subseteq> set (pm_failures r')"
proof (induction plans arbitrary: db fs r)
  case (Cons pl plans)
  obtain d f x where one: "finish_plan env side w staging pull_id pl (db, fs, r) = (d, f, x)" by (rule prod_cases3)
  with Cons.prems(1) have "fold (finish_plan env side w staging pull_id) plans (d, f, x) = (db', fs', r')" by simp
  from Cons.IH [OF this] finish_plan_grows(1-3) [OF one] show ?case by blast
qed simp

lemma failed_fold_places:
  "fold (transfer_failed now ctx e) plans (db, fs, r) = (db', fs', r') \<Longrightarrow> fs' = fs"
proof (induction plans arbitrary: db r)
  case (Cons pl plans)
  obtain y t d where "failPull db now ctx (bp_task pl) ''transfer'' e = (y, t, d)" by (rule prod_cases3)
  then have "transfer_failed now ctx e pl (db, fs, r) = (d, fs, pull_failure t y r)" by (simp add: transfer_failed_def)
  with Cons show ?case by simp
qed simp


section \<open>One cluster\<close>

text \<open>What a step over some plans of a batch does to everything else.\<close>

definition plans_settled ::
    "string \<Rightarrow> batch_pull_plan list \<Rightarrow> store \<Rightarrow> files \<Rightarrow> pull_many_result \<Rightarrow> store \<Rightarrow> files \<Rightarrow> pull_many_result \<Rightarrow> bool" where
  "plans_settled root plans db fs r db' fs' r' \<longleftrightarrow>
     store_ok db' \<and> store_extends db db' \<and>
     (\<forall>j. j \<notin> (\<lambda>pl. task_id (bp_task pl)) ` set plans \<longrightarrow> find_row db' j = find_row db j) \<and>
     (\<forall>pl\<in>set plans. \<exists>t'. GetTask db' (task_id (bp_task pl)) = Inr (stored t') \<and>
        same_snapshot t' (bp_task pl) \<and> pull_reported_as root pl t' (fs', r')) \<and>
     (\<forall>u u'. pull_reported_as root u u' (fs, r) \<longrightarrow> pull_reported_as root u u' (fs', r')) \<and>
     pull_count (fs', r') = pull_count (fs, r) + length plans \<and>
     (\<forall>q. unstaged root q \<longrightarrow> (\<forall>pl\<in>set plans. q \<notin> plan_targets pl) \<longrightarrow> fs' q = fs q)"

lemma pull_reported_upd:
  assumes "pull_reported_as root (pl\<lparr>bp_task := u\<rparr>) t' s" and "task_id u = task_id (bp_task pl)"
    and "compute_state u = compute_state (bp_task pl)"
  shows "pull_reported_as root pl t' s"
  using assms by (cases s) (auto simp: pull_reported_as_def pull_item_of_def plan_targets_def)

lemma remove_all_unstaged: "unstaged root q \<Longrightarrow> remove_all side w (batch_staging root n) fs q = fs q"
  by (simp add: remove_all_def unstaged_def)

definition held_plan :: "time \<Rightarrow> batch_pull_plan \<Rightarrow> batch_pull_plan" where
  "held_plan now pl = pl\<lparr>bp_task := (started_pull (bp_task pl) now)\<lparr>revision := revision (bp_task pl) + 1\<rparr>\<rparr>"

lemma held_plan_simps [simp]:
  "task_id (bp_task (held_plan now pl)) = task_id (bp_task pl)"
  "compute_state (bp_task (held_plan now pl)) = compute_state (bp_task pl)"
  "plan_targets (held_plan now pl) = plan_targets pl" "bp_remote (held_plan now pl) = bp_remote pl"
  "bp_files (held_plan now pl) = bp_files pl" "paired (held_plan now pl) = paired pl"
  by (simp_all add: held_plan_def started_pull_def plan_targets_def paired_def)

lemma held_plan_snapshot: "same_snapshot (bp_task (held_plan now pl)) (bp_task pl)"
  by (simp add: held_plan_def started_pull_def same_snapshot_def)

text \<open>The transaction that starts the pulls of a cluster.\<close>

lemma start_plans:
  fixes plans :: "batch_pull_plan list" and now :: time
  defines "started \<equiv> map (\<lambda>plan. started_pull (bp_task plan) now) plans"
  assumes "store_ok db" and "\<forall>pl\<in>set plans. synced db (bp_task pl)"
    and "distinct (map (\<lambda>pl. task_id (bp_task pl)) plans)"
    and "UpdateTasksWithEvents db now started es = (Inr (), held, db1)"
  shows "map2 (\<lambda>plan t. plan\<lparr>bp_task := t\<rparr>) plans held = map (held_plan now) plans"
    and "store_ok db1" and "store_extends db db1"
    and "\<forall>pl\<in>set plans. synced db1 (bp_task (held_plan now pl))"
    and "\<forall>j. j \<notin> (\<lambda>pl. task_id (bp_task pl)) ` set plans \<longrightarrow> find_row db1 j = find_row db j"
proof -
  have ids: "map task_id started = map (\<lambda>pl. task_id (bp_task pl)) plans"
    by (simp add: started_def started_pull_def)
  note c = UpdateTasksWithEvents_committed [OF assms(2) _ assms(5), unfolded ids, OF assms(4)]
  have held: "held = map (\<lambda>pl. bp_task (held_plan now pl)) plans"
    unfolding c(1) started_def by (simp add: held_plan_def started_pull_def)
  show "map2 (\<lambda>plan t. plan\<lparr>bp_task := t\<rparr>) plans held = map (held_plan now) plans"
    unfolding held by (induction plans) (simp_all add: held_plan_def)
  show "store_ok db1" "store_extends db db1" by (rule c(2), rule c(3))
  show "\<forall>pl\<in>set plans. synced db1 (bp_task (held_plan now pl))"
  proof
    fix pl assume pl: "pl \<in> set plans"
    let ?u = "started_pull (bp_task pl) now" let ?h = "bp_task (held_plan now pl)"
    have h: "?u\<lparr>revision := revision ?u + 1\<rparr> = ?h" by (simp add: held_plan_def started_pull_def)
    have "?u \<in> set started" using pl by (simp add: started_def)
    with c(5) have "find_row db1 (task_id ?u) = Some (encodeTask ?h)" unfolding h [symmetric] by blast
    moreover have "synced db (bp_task pl)" using pl assms(3) by blast
    moreover have "task_id ?u = task_id ?h" "project_id ?h = project_id (bp_task pl)" "revision ?h = revision (bp_task pl) + 1"
      by (simp_all add: held_plan_def started_pull_def)
    ultimately show "synced db1 ?h" using c(3) by (auto simp: synced_def store_extends_def)
  qed
  have set_ids: "task_id ` set started = (\<lambda>pl. task_id (bp_task pl)) ` set plans"
    by (metis ids set_map)
  show "\<forall>j. j \<notin> (\<lambda>pl. task_id (bp_task pl)) ` set plans \<longrightarrow> find_row db1 j = find_row db j"
    using c(6) unfolding set_ids by blast
qed


lemma fold_held:
  assumes "distinct (map (\<lambda>pl. task_id (bp_task pl)) plans)"
  shows "distinct (map (\<lambda>pl. task_id (bp_task pl)) (map (held_plan now) plans))"
  using assms by (simp add: comp_def)

text \<open>Settled plans of the started tasks are settled plans of the tasks.\<close>

lemma settled_from_held:
  assumes "store_extends db db1"
    and "\<forall>j. j \<notin> (\<lambda>pl. task_id (bp_task pl)) ` set plans \<longrightarrow> find_row db1 j = find_row db j"
    and "\<forall>u u'. pull_reported_as root u u' (fs, r) \<longrightarrow> pull_reported_as root u u' (fs1, r)"
    and "pull_count (fs1, r) = pull_count (fs, r)" and "\<forall>q. unstaged root q \<longrightarrow> fs1 q = fs q"
    and "plans_settled root (map (held_plan now) plans) db1 fs1 r db' fs' r'"
  shows "plans_settled root plans db fs r db' fs' r'"
proof -
  let ?ids = "(\<lambda>pl. task_id (bp_task pl)) ` set plans"
  have ids: "(\<lambda>pl. task_id (bp_task pl)) ` set (map (held_plan now) plans) = ?ids" by (simp add: image_image)
  note s = assms(6) [unfolded plans_settled_def ids]
  have rep: "\<exists>t'. GetTask db' (task_id (bp_task pl)) = Inr (stored t') \<and> same_snapshot t' (bp_task pl) \<and>
      pull_reported_as root pl t' (fs', r')" if "pl \<in> set plans" for pl
  proof -
    have "held_plan now pl \<in> set (map (held_plan now) plans)" using that by simp
    with s obtain t' where t': "GetTask db' (task_id (bp_task pl)) = Inr (stored t')"
      "same_snapshot t' (bp_task (held_plan now pl))" "pull_reported_as root (held_plan now pl) t' (fs', r')"
      unfolding held_plan_simps by (metis held_plan_simps(1))
    have "pull_reported_as root pl t' (fs', r')"
      by (rule pull_reported_upd [OF t'(3) [unfolded held_plan_def]]) (simp_all add: started_pull_def)
    moreover have "same_snapshot t' (bp_task pl)" using t'(2) held_plan_snapshot same_snapshot_trans by blast
    ultimately show ?thesis using t'(1) by blast
  qed
  have "store_ok db'" "store_extends db db'" using s assms(1) store_extends_trans by blast+
  moreover have "\<forall>j. j \<notin> ?ids \<longrightarrow> find_row db' j = find_row db j" using s assms(2) by simp
  moreover have "\<forall>u u'. pull_reported_as root u u' (fs, r) \<longrightarrow> pull_reported_as root u u' (fs', r')" using s assms(3) by blast
  moreover have "pull_count (fs', r') = pull_count (fs, r) + length plans" using s assms(4) by simp
  moreover have "\<forall>q. unstaged root q \<longrightarrow> (\<forall>pl\<in>set plans. q \<notin> plan_targets pl) \<longrightarrow> fs' q = fs q" using s assms(5) by simp
  ultimately show ?thesis unfolding plans_settled_def using rep by blast
qed

lemma reported_same_files:
  "\<forall>q. unstaged root q \<longrightarrow> fs' q = fs q \<Longrightarrow> pull_reported_as root u u' (fs, r) \<Longrightarrow> pull_reported_as root u u' (fs', r)"
  by (erule pull_reported_grows) auto

lemma settled_same_files:
  assumes "plans_settled root plans db fs r db' fs' r'" and "\<forall>q. unstaged root q \<longrightarrow> fs'' q = fs' q"
  shows "plans_settled root plans db fs r db' fs'' r'"
proof -
  have "pull_count (fs'', r') = pull_count (fs', r')" by (simp add: pull_count_def)
  then show ?thesis
    using assms reported_same_files [OF assms(2)] unfolding plans_settled_def by (metis (no_types, lifting))
qed

lemma plans_settledI:
  assumes "store_ok db' \<and> (\<forall>j. j \<notin> (\<lambda>pl. task_id (bp_task pl)) ` set plans \<longrightarrow> find_row db' j = find_row db j) \<and>
      (\<forall>pl\<in>set plans. \<exists>t'. GetTask db' (task_id (bp_task pl)) = Inr (stored t') \<and>
        same_snapshot t' (bp_task pl) \<and> pull_reported_as root (f pl) t' (fs', r'))"
    and "\<forall>pl\<in>set plans. f pl = pl" and "store_extends db db'"
    and "\<And>u u'. pull_reported_as root u u' (fs, r) \<Longrightarrow> pull_reported_as root u u' (fs', r')"
    and "pull_count (fs', r') = pull_count (fs, r) + length plans"
    and "\<And>q. \<forall>pl\<in>set plans. q \<notin> plan_targets pl \<Longrightarrow> fs' q = fs q"
  shows "plans_settled root plans db fs r db' fs' r'"
proof -
  have "\<forall>pl\<in>set plans. \<exists>t'. GetTask db' (task_id (bp_task pl)) = Inr (stored t') \<and>
      same_snapshot t' (bp_task pl) \<and> pull_reported_as root pl t' (fs', r')"
    using conjunct2 [OF conjunct2 [OF assms(1)]] assms(2) by metis
  then show ?thesis using assms(1,3,4,5,6) unfolding plans_settled_def by blast
qed

lemma failed_settled:
  assumes "store_ok db" and "distinct (map (\<lambda>pl. task_id (bp_task pl)) plans)" and "\<forall>pl\<in>set plans. synced db (bp_task pl)"
    and "fold (transfer_failed now ctx e) plans (db, fs, r) = (db', fs', r')"
  shows "plans_settled root plans db fs r db' fs' r'"
  by (rule plans_settledI [where f = "\<lambda>pl. pl", OF failed_transfers.fold_rows [OF assms(4,1,2,3)]])
    (use failed_transfers.fold_counts [OF assms(4)] failed_transfers.fold_grows [OF assms(4)]
       failed_transfers.fold_extends [OF assms(4,1,2,3)] failed_fold_places [OF assms(4)] in simp_all)

lemma finished_settled:
  assumes "store_ok db" and "distinct (map (\<lambda>pl. task_id (bp_task pl)) plans)" and "\<forall>pl\<in>set plans. synced db (bp_task pl)"
    and "\<forall>pl\<in>set plans. paired pl"
    and "fold (finish_plan env side w staging pull_id) plans (db, fs, r) = (db', fs', r')"
  shows "plans_settled root plans db fs r db' fs' r'"
proof -
  note f = assms(5) [unfolded finish_fold [OF assms(4)]]
  have "pull_reported_as root u u' (fs', r')" if "pull_reported_as root u u' (fs, r)" for u u'
    by (rule pull_reported_grows [OF that]) (use finish_fold_grows [OF assms(5)] in simp_all)
  note grow = this
  show ?thesis
  proof (rule plans_settledI [where f = pair_files, OF finished.fold_rows [OF f assms(1-3)]])
    show "\<forall>pl\<in>set plans. pair_files pl = pl" using assms(4) by (simp add: pair_files_def)
    show "store_extends db db'" by (rule finished.fold_extends [OF f assms(1-3)])
    show "pull_count (fs', r') = pull_count (fs, r) + length plans" by (rule finished.fold_counts [OF f])
    show "\<And>q. \<forall>pl\<in>set plans. q \<notin> plan_targets pl \<Longrightarrow> fs' q = fs q" by (rule finish_fold_places [OF assms(5)])
  qed (rule grow)
qed


lemma batch_staging_abs:
  assumes "path_is_abs root"
  shows "path_is_abs (batch_staging root n)"
proof -
  have "CHR ''/'' \<notin> set (itoa n)" using itoa_digits [of n] by (auto simp: all_digits_def list_all_iff dest!: bspec) (simp add: is_digit_def)
  then have "plain_elem (''.joyrun-batch-pull-'' @ itoa n)" by (simp add: plain_elem_def)
  from path_join_child(2) [OF assms this] show ?thesis by (simp add: batch_staging_def)
qed

lemma pull_group_settled:
  assumes "result_transfer (ps_transfer side)" and "path_is_abs root" and "store_ok db"
    and "distinct (map (\<lambda>pl. task_id (bp_task pl)) plans)" and "\<forall>pl\<in>set plans. synced db (bp_task pl)"
    and "\<forall>pl\<in>set plans. paired pl" and "\<forall>f\<in>set (concat (map bp_remote plans)). plain_path f"
    and "pull_group env side temp root pull_id plans (w, db, fs, r) = (None, w', db', fs', r')"
  shows "plans_settled root plans db fs r db' fs' r'"
proof (cases "temp w")
  case (Inl e)
  with assms(8) show ?thesis by (simp add: pull_group_def)
next
  case (Inr n)
  let ?st = "batch_staging root n" let ?now = "clock env w"
  let ?started = "map (\<lambda>plan. started_pull (bp_task plan) ?now) plans"
  let ?es = "map (\<lambda>t. batch_started pull_id t ?now) ?started" let ?held = "map (held_plan ?now) plans"
  obtain y held db1 where u: "UpdateTasksWithEvents db ?now ?started ?es = (y, held, db1)" by (rule prod_cases3)
  then obtain v where "y = Inr v" using assms(8) Inr
    by (cases y) (auto simp: pull_group_def Let_def)
  with u have u': "UpdateTasksWithEvents db ?now ?started ?es = (Inr (), held, db1)" by simp
  note s = start_plans [OF assms(3,5,4) u']
  obtain x w1 fs1 where x: "ps_transfer side w (bp_cluster (hd plans)) (remote_root (bp_cluster (hd plans))) ?st
      (concat (map bp_remote plans)) fs = (x, w1, fs1)" by (rule prod_cases3)
  have below: "\<forall>q. unstaged root q \<longrightarrow> fs1 q = fs q"
    using result_transfer.stays_below [OF assms(1) x batch_staging_abs [OF assms(2)] assms(7)]
    by (auto simp: unstaged_def)
  have held_ok: "distinct (map (\<lambda>pl. task_id (bp_task pl)) ?held)" "\<forall>pl\<in>set ?held. synced db1 (bp_task pl)"
    "\<forall>pl\<in>set ?held. paired pl" using fold_held [OF assms(4)] s(4) assms(6) by auto
  have wrap: "plans_settled root plans db fs r d f r2"
    if "plans_settled root ?held db1 fs2 r d f r2" and "\<forall>q. unstaged root q \<longrightarrow> fs2 q = fs q" for d f r2 fs2
    by (rule settled_from_held [OF s(3,5) _ _ that(2,1)])
      (use reported_same_files [OF that(2)] in \<open>simp_all add: pull_count_def\<close>)
  show ?thesis
  proof (cases x)
    case (Some e)
    let ?fs1 = "remove_all side w1 ?st fs1"
    obtain d f r2 where f: "fold (transfer_failed (clock env w1) (ps_ctx side w1) e) ?held (db1, ?fs1, r) = (d, f, r2)"
      by (rule prod_cases3)
    have e: "db' = d" "fs' = f" "r' = r2"
      using assms(8) Inr u' x Some f s(1) by (auto simp: pull_group_def Let_def)
    have "\<forall>q. unstaged root q \<longrightarrow> ?fs1 q = fs q" using below by (simp add: remove_all_unstaged)
    from wrap [OF failed_settled [OF s(2) held_ok(1,2) f] this] show ?thesis unfolding e .
  next
    case None
    obtain d f r2 where f: "fold (finish_plan env side w1 ?st pull_id) ?held (db1, fs1, r) = (d, f, r2)"
      by (rule prod_cases3)
    have e: "db' = d" "fs' = remove_all side w1 ?st f" "r' = r2"
      using assms(8) Inr u' x None f s(1) by (auto simp: pull_group_def Let_def)
    have "\<forall>q. unstaged root q \<longrightarrow> remove_all side w1 ?st f q = f q" by (simp add: remove_all_unstaged)
    from settled_same_files [OF wrap [OF finished_settled [OF s(2) held_ok f] below] this] show ?thesis unfolding e .
  qed
qed

section \<open>All clusters\<close>

lemma synced_kept:
  assumes "synced db t" and "store_extends db db'" and "find_row db' (task_id t) = find_row db (task_id t)"
  shows "synced db' t"
  using assms unfolding synced_def store_extends_def by (elim conjE) simp

lemma apart_members:
  "distinct (map f (us @ vs)) \<Longrightarrow> x \<in> set us \<Longrightarrow> f x \<notin> f ` set vs"
  "distinct (map f (us @ vs)) \<Longrightarrow> x \<in> set vs \<Longrightarrow> f x \<notin> f ` set us"
  by (auto simp: image_iff)

lemma settled_append:
  assumes "plans_settled root us db fs r db1 fs1 r1" and "plans_settled root vs db1 fs1 r1 db2 fs2 r2"
    and "distinct (map (\<lambda>pl. task_id (bp_task pl)) (us @ vs))"
  shows "plans_settled root (us @ vs) db fs r db2 fs2 r2"
proof -
  let ?id = "\<lambda>pl. task_id (bp_task pl)"
  note a = assms(1) [unfolded plans_settled_def] and b = assms(2) [unfolded plans_settled_def]
  have rep: "\<exists>t'. GetTask db2 (?id pl) = Inr (stored t') \<and> same_snapshot t' (bp_task pl) \<and> pull_reported_as root pl t' (fs2, r2)"
    if "pl \<in> set (us @ vs)" for pl
  proof (cases "pl \<in> set vs")
    case True
    with b show ?thesis by blast
  next
    case False
    with that have pl: "pl \<in> set us" by simp
    then have "?id pl \<notin> ?id ` set vs" by (rule apart_members(1) [OF assms(3)])
    then have "find_row db2 (?id pl) = find_row db1 (?id pl)" using b by blast
    then have "GetTask db2 (?id pl) = GetTask db1 (?id pl)" by (simp add: GetTask_def)
    with a b pl show ?thesis by metis
  qed
  have "store_ok db2" "store_extends db db2" using a b store_extends_trans by blast+
  moreover have "\<forall>j. j \<notin> ?id ` set (us @ vs) \<longrightarrow> find_row db2 j = find_row db j" using a b by (simp add: image_Un)
  moreover have "\<forall>u u'. pull_reported_as root u u' (fs, r) \<longrightarrow> pull_reported_as root u u' (fs2, r2)" using a b by blast
  moreover have "pull_count (fs2, r2) = pull_count (fs, r) + length (us @ vs)" using a b by simp
  moreover have "\<forall>q. unstaged root q \<longrightarrow> (\<forall>pl\<in>set (us @ vs). q \<notin> plan_targets pl) \<longrightarrow> fs2 q = fs q" using a b by simp
  ultimately show ?thesis unfolding plans_settled_def using rep by blast
qed

lemma pull_groups_settled:
  assumes "result_transfer (ps_transfer side)" and "path_is_abs root"
  shows "pull_groups env side temp root pull_id gs (w, db, fs, r) = (None, w', db', fs', r') \<Longrightarrow> store_ok db \<Longrightarrow>
    distinct (map (\<lambda>pl. task_id (bp_task pl)) (concat (map snd gs))) \<Longrightarrow>
    \<forall>pl\<in>set (concat (map snd gs)). synced db (bp_task pl) \<and> paired pl \<and> (\<forall>f\<in>set (bp_remote pl). plain_path f) \<Longrightarrow>
    plans_settled root (concat (map snd gs)) db fs r db' fs' r'"
proof (induction gs arbitrary: w db fs r)
  case Nil
  then show ?case by (simp add: plans_settled_def)
next
  case (Cons g gs)
  obtain k plans where g: "g = (k, plans)" by (rule prod.exhaust)
  obtain x w1 db1 fs1 r1 where one: "pull_group env side temp root pull_id plans (w, db, fs, r) = (x, w1, db1, fs1, r1)"
    by (rule prod_cases5)
  have x: "x = None" and rest: "pull_groups env side temp root pull_id gs (w1, db1, fs1, r1) = (None, w', db', fs', r')"
    using Cons.prems(1) one g by (cases x; simp)+
  have dist: "distinct (map (\<lambda>pl. task_id (bp_task pl)) plans)"
    "distinct (map (\<lambda>pl. task_id (bp_task pl)) (plans @ concat (map snd gs)))"
    "distinct (map (\<lambda>pl. task_id (bp_task pl)) (concat (map snd gs)))"
    using Cons.prems(3) by (simp_all add: g)
  have here: "\<forall>pl\<in>set plans. synced db (bp_task pl)" "\<forall>pl\<in>set plans. paired pl"
    "\<forall>f\<in>set (concat (map bp_remote plans)). plain_path f" using Cons.prems(4) by (auto simp: g)
  note s = pull_group_settled [OF assms Cons.prems(2) dist(1) here one [unfolded x]]
  have later: "\<forall>pl\<in>set (concat (map snd gs)). synced db1 (bp_task pl) \<and> paired pl \<and> (\<forall>f\<in>set (bp_remote pl). plain_path f)"
  proof
    fix pl assume pl: "pl \<in> set (concat (map snd gs))"
    then have "task_id (bp_task pl) \<notin> (\<lambda>pl. task_id (bp_task pl)) ` set plans"
      by (rule apart_members(2) [OF dist(2)])
    then have row: "find_row db1 (task_id (bp_task pl)) = find_row db (task_id (bp_task pl))"
      using s unfolding plans_settled_def by blast
    have "store_extends db db1" using s unfolding plans_settled_def by blast
    moreover have "pl \<in> set (concat (map snd (g # gs)))" using pl by simp
    with Cons.prems(4) have "synced db (bp_task pl) \<and> paired pl \<and> (\<forall>f\<in>set (bp_remote pl). plain_path f)" by blast
    ultimately show "synced db1 (bp_task pl) \<and> paired pl \<and> (\<forall>f\<in>set (bp_remote pl). plain_path f)"
      using synced_kept [OF _ _ row] by blast
  qed
  have "store_ok db1" using s unfolding plans_settled_def by blast
  from settled_append [OF s Cons.IH [OF rest this dist(3) later] dist(2)] show ?case by (simp add: g)
qed


lemma batch_remote_plain:
  assumes "plain_elem a" and "plain_path f"
  shows "plain_path (path_join [a, ''work'', f])"
proof -
  let ?p = "a @ CHR ''/'' # ''work'' @ CHR ''/'' # f"
  have a: "a \<noteq> []" "CHR ''/'' \<notin> set a" using assms(1) by (simp_all add: plain_elem_def)
  have s: "split_on (CHR ''/'') ?p = a # ''work'' # split_on (CHR ''/'') f"
    using split_on_append [OF a(2), of "''work'' @ CHR ''/'' # f"] split_on_append [of "CHR ''/''" "''work''" f] by simp
  have "plain_elem ''work''" by (simp add: plain_elem_def)
  with assms have p: "plain_path ?p" unfolding plain_path_def s by simp
  have "path_join [a, ''work'', f] = path_clean ?p"
    using a(1) plain_path_elems(4) [OF assms(2)] by (simp add: path_join_def)
  with plain_path_elems(3) [OF p] p show ?thesis by simp
qed

lemma sorted_result_sets:
  "set (pm_tasks (sorted_result ts r)) = set (pm_tasks r)" "set (pm_failures (sorted_result ts r)) = set (pm_failures r)"
  "length (pm_tasks (sorted_result ts r)) = length (pm_tasks r)" "length (pm_failures (sorted_result ts r)) = length (pm_failures r)"
  by (simp_all add: sorted_result_def)

section \<open>The batch pull\<close>

text \<open>
  C8. The end of a batch pull that was not abandoned, whatever the clusters, the transfer and
  the disk answer, and in whatever order the clusters are visited. Every task is reported
  exactly once and the store agrees: it is listed as pulled, its stored pull state says so
  (partially, while its job is not terminal) and every file of its plan lies in its
  destination; or it has a failure, and its stored task has that failure. No other task
  changes, no compute state and no execution snapshot does. Outside of the staging
  directories only the local path of a wanted file is written, and no two tasks of the batch
  share one.
\<close>

theorem batch_pull_outcomes:
  assumes "result_transfer (ps_transfer side)" and "store_ok db" and "\<forall>t\<in>set ts. synced db t"
    and "distinct (map task_id ts)" and "\<not> po_dry_run opts" and "path_is_abs (proj_root p)"
    and "\<forall>t\<in>set ts. plain_elem (path_base (remote_dir t))" and "\<And>ks. mset (arrange ks) = mset ks"
    and "pull_selected env side temp arrange pull_id batch p opts ts w db fs = ((r, None), w', db', fs')"
  shows "\<exists>plans. map bp_task plans = ts \<and> length (pm_tasks r) + length (pm_failures r) = length ts \<and>
    (\<forall>pl\<in>set plans. bp_destination pl = pull_destination p (bp_task pl) \<and>
       (\<forall>f\<in>set (bp_files pl). plain_path f \<and> batch_wanted opts (bp_task pl) f) \<and>
       (\<exists>t'. GetTask db' (task_id (bp_task pl)) = Inr (stored t') \<and> same_snapshot t' (bp_task pl) \<and>
          pull_reported_as (proj_root p) pl t' (fs', r))) \<and>
    (\<forall>j. j \<notin> task_id ` set ts \<longrightarrow> find_row db' j = find_row db j) \<and>
    (\<forall>q. unstaged (proj_root p) q \<longrightarrow> fs' q \<noteq> fs q \<longrightarrow> (\<exists>pl\<in>set plans. q \<in> plan_targets pl)) \<and>
    (\<forall>a\<in>set plans. \<forall>b\<in>set plans. task_id (bp_task a) \<noteq> task_id (bp_task b) \<longrightarrow> plan_targets a \<inter> plan_targets b = {})"
proof -
  obtain l w1 where l: "listRemoteFilesBatch env arrange w ts = (l, w1)" by (rule prod.exhaust)
  obtain listings where li: "l = Inr listings" using assms(9) l by (cases l) (simp_all add: pull_selected_def)
  obtain plans where pl: "make_plans env side w1 p opts listings ts Map.empty = Inr plans"
    using assms(9) l li by (cases "make_plans env side w1 p opts listings ts Map.empty") (simp_all add: pull_selected_def)
  let ?gs = "visit_groups arrange (group_by (\<lambda>plan. cluster_name (bp_task plan)) plans)"
  let ?r0 = "no_pulls\<lparr>pm_pull := pull_id, pm_source_batch := batch, pm_dry := False\<rparr>"
  obtain x w2 db2 fs2 r2 where g: "pull_groups env side temp (proj_root p) pull_id ?gs (w1, db, fs, ?r0) = (x, w2, db2, fs2, r2)"
    by (rule prod_cases5)
  have x: "x = None" and out: "r = sorted_result ts r2" "db' = db2" "fs' = fs2"
    using assms(5,9) l li pl g by (cases x; simp add: pull_selected_def Let_def)+
  from make_plans_result [OF pl] obtain places where p: "map bp_task plans = ts" "\<forall>a\<in>set plans. good_plan p opts listings a"
    "\<forall>a\<in>set plans. places_claimed (ps_windows side) places a" by blast
  have members: "mset (concat (map snd ?gs)) = mset plans" by (rule visit_plans [OF assms(8)])
  then have sets: "set (concat (map snd ?gs)) = set plans" by (rule mset_eq_setD)
  have ids: "map (\<lambda>pl. task_id (bp_task pl)) plans = map task_id ts" by (simp flip: p(1))
  have "mset (map (\<lambda>pl. task_id (bp_task pl)) (concat (map snd ?gs))) = mset (map task_id ts)"
    unfolding ids [symmetric] mset_map members ..
  then have dist: "distinct (map (\<lambda>pl. task_id (bp_task pl)) (concat (map snd ?gs)))"
    using assms(4) mset_eq_imp_distinct_iff by blast
  have tasks: "bp_task a \<in> set ts" if "a \<in> set plans" for a using that p(1) by auto
  have here: "\<forall>a\<in>set (concat (map snd ?gs)). synced db (bp_task a) \<and> paired a \<and> (\<forall>f\<in>set (bp_remote a). plain_path f)"
    unfolding sets
  proof
    fix a assume a: "a \<in> set plans"
    with p(2) have good: "good_plan p opts listings a" by blast
    have "plain_path f" if "f \<in> set (bp_remote a)" for f
      using that good batch_remote_plain assms(7) tasks [OF a] by (auto simp: good_plan_def)
    with good assms(3) tasks [OF a] show "synced db (bp_task a) \<and> paired a \<and> (\<forall>f\<in>set (bp_remote a). plain_path f)"
      by (simp add: good_plan_def paired_def)
  qed
  note s = pull_groups_settled [OF assms(1,6) g [unfolded x] assms(2) dist here, unfolded plans_settled_def sets]
  have "length (concat (map snd ?gs)) = length ts"
    using members p(1) by (metis length_map size_mset)
  then have count: "length (pm_tasks r) + length (pm_failures r) = length ts"
    using s by (simp add: out(1) sorted_result_sets pull_count_def no_pulls_def)
  have rep: "\<exists>t'. GetTask db' (task_id (bp_task a)) = Inr (stored t') \<and> same_snapshot t' (bp_task a) \<and>
      pull_reported_as (proj_root p) a t' (fs', r)" if "a \<in> set plans" for a
  proof -
    from s that obtain t' where t': "GetTask db2 (task_id (bp_task a)) = Inr (stored t')" "same_snapshot t' (bp_task a)"
      "pull_reported_as (proj_root p) a t' (fs2, r2)" by blast
    have "pull_reported_as (proj_root p) a t' (fs2, r)"
      by (rule pull_reported_grows [OF t'(3)]) (simp_all add: out(1) sorted_result_sets)
    with t'(1,2) show ?thesis unfolding out(2,3) by blast
  qed
  have good: "bp_destination a = pull_destination p (bp_task a) \<and> (\<forall>f\<in>set (bp_files a). plain_path f \<and> batch_wanted opts (bp_task a) f)"
    if "a \<in> set plans" for a using that p(2) by (auto simp: good_plan_def)
  have "(\<lambda>pl. task_id (bp_task pl)) ` set plans = task_id ` set ts" by (metis ids set_map)
  then have others: "\<forall>j. j \<notin> task_id ` set ts \<longrightarrow> find_row db' j = find_row db j" using s unfolding out(2) by simp
  have places: "\<forall>q. unstaged (proj_root p) q \<longrightarrow> fs' q \<noteq> fs q \<longrightarrow> (\<exists>pl\<in>set plans. q \<in> plan_targets pl)"
    using s unfolding out(3) by blast
  have apart: "\<forall>a\<in>set plans. \<forall>b\<in>set plans. task_id (bp_task a) \<noteq> task_id (bp_task b) \<longrightarrow> plan_targets a \<inter> plan_targets b = {}"
    using p(3) claimed_disjoint by blast
  show ?thesis using p(1) count good rep others places apart by (intro exI [of _ plans]) blast
qed


section \<open>A concrete batch\<close>

definition sample_batch_output :: string where
  "sample_batch_output = ''t1'' @ [nul] @ ''out/o.log'' @ [nul] @ ''3'' @ [nul]"

definition sample_batch_outside :: "unit outside" where
  "sample_batch_outside = sample_pull_outside\<lparr>exec_cmd := echo_runner sample_batch_output\<rparr>"

definition sample_pulled :: task where
  "sample_pulled = scanTask (encodeTask (first_revision sample_task))"

definition sample_project :: project where
  "sample_project = \<lparr>proj_id = ''p'', proj_root = ''/q''\<rparr>"

definition sample_listings :: "string \<Rightarrow> remote_file list" where
  "sample_listings = (\<lambda>_. [])(''t1'' := [listed_file ''out/o.log'' 3])"

lemma sample_pulled_fields:
  "task_id sample_pulled = ''t1''" "cluster_name sample_pulled = ''c''" "remote_dir sample_pulled = ''/r/t1''"
  "source_workdir sample_pulled = ''/p/a''"
  by (simp_all add: sample_pulled_def first_revision_def sample_task_def scanTask_def encodeTask_def)

lemma sample_batch_records: "split_on nul sample_batch_output = [''t1'', ''out/o.log'', ''3'', []]"
  by code_simp

lemma sample_batch_listing: "batch_listing [''t1'', ''out/o.log'', ''3'', []] (\<lambda>_. []) = Inr sample_listings"
proof -
  have "parse_int64 ''3'' = Some 3"
    by (simp add: parse_int64_def all_digits_def is_digit_def digits_val_def digit_val_def)
  then show ?thesis by (simp add: sample_listings_def)
qed

lemma sample_batch_env:
  "exec_cmd sample_batch_outside = echo_runner sample_batch_output"
  "clusters sample_batch_outside ''c'' = Some (no_cluster\<lparr>cluster_host := ''h''\<rparr>)"
  by (simp_all add: sample_batch_outside_def sample_pull_outside_def)

lemma sample_listing:
  "listRemoteFilesBatch sample_batch_outside id () [sample_pulled] = (Inr sample_listings, ())"
proof -
  have "visit_groups id (group_by cluster_name [sample_pulled]) = [(''c'', [sample_pulled])]"
    by (simp add: visit_groups_def group_by_def sample_pulled_fields)
  then show ?thesis
    by (simp only: listRemoteFilesBatch_def list_groups.simps sample_batch_env option.case echo_runner prod.case
        sample_batch_records sample_batch_listing sum.case)
qed

lemma sample_wanted: "batch_wanted everything sample_pulled ''out/o.log''"
  by (simp add: batch_wanted_def everything_def is_input_def sample_pulled_def first_revision_def sample_task_def)

lemma sample_plan:
  "\<exists>plan. make_plans sample_batch_outside sample_side () sample_project everything sample_listings [sample_pulled] Map.empty =
     Inr [plan] \<and> bp_task plan = sample_pulled"
proof -
  let ?sel = "filter (\<lambda>f. batch_wanted everything sample_pulled (rf_path f)) (sample_listings ''t1'')"
  have sel: "?sel = [listed_file ''out/o.log'' 3]"
    using sample_wanted by (simp add: sample_listings_def listed_file_def)
  have dest: "pull_destination sample_project sample_pulled = ''/q/p/a''"
    unfolding pull_destination_def sample_project_def sample_pulled_fields project.simps by code_simp
  have ok: "ValidatePullDestination (ps_windows sample_side) (ps_wd sample_side) (ps_lstat sample_side ()) ''/q/p/a'' [''out/o.log''] = None"
    unfolding sample_side_def pull_side.simps by code_simp
  let ?plan = "plan_of sample_project sample_pulled (no_cluster\<lparr>cluster_host := ''h''\<rparr>) [listed_file ''out/o.log'' 3]"
  have shape: "bp_destination ?plan = ''/q/p/a''" "bp_files ?plan = [''out/o.log'']" "bp_task ?plan = sample_pulled"
    by (simp_all add: plan_of_def dest listed_file_def)
  have "make_plans sample_batch_outside sample_side () sample_project everything sample_listings [sample_pulled] Map.empty = Inr [?plan]"
    using ok by (simp only: make_plans.simps sample_pulled_fields sample_batch_env option.case sel Let_def shape
        claim_places.simps sum.case fun_upd_apply) (simp add: Let_def)
  with shape(3) show ?thesis by blast
qed


lemma UpdateTasksWithEvents_single:
  assumes "store_ok db" and "synced db t" and "ev_task e = task_id t"
  shows "\<exists>ts' db'. UpdateTasksWithEvents db now [t] [e] = (Inr (), ts', db')"
proof -
  obtain d where "updateTask db t (Some (complete_event t now e)) = (Inr (), t\<lparr>revision := revision t + 1\<rparr>, d)"
    using UpdateTaskWithEvent_synced [OF assms, of now] by (auto simp: UpdateTaskWithEvent_def)
  then have "updateTaskRecord db t (Some (complete_event t now e)) = Inr (revision t + 1, d)"
    by (cases rule: updateTask_cases) simp_all
  then show ?thesis by (simp add: UpdateTasksWithEvents_def)
qed

lemma sample_batch_runs:
  "\<exists>r w' db' fs'. pull_selected sample_batch_outside sample_side (\<lambda>w. Inr 7) id ''jp_1'' [] sample_project everything
     [sample_pulled] () sample_created Map.empty = ((r, None), w', db', fs')"
proof -
  obtain plan where plan: "make_plans sample_batch_outside sample_side () sample_project everything sample_listings [sample_pulled] Map.empty =
     Inr [plan]" "bp_task plan = sample_pulled" using sample_plan by blast
  have sy: "synced sample_created sample_pulled" unfolding sample_pulled_def by (rule sample_synced)
  let ?t = "started_pull sample_pulled (clock sample_batch_outside ())"
  have "synced sample_created ?t" using sy by (simp add: synced_def started_pull_def)
  then obtain ts' d where u: "UpdateTasksWithEvents sample_created (clock sample_batch_outside ()) [?t]
      [batch_started ''jp_1'' ?t (clock sample_batch_outside ())] = (Inr (), ts', d)"
    using UpdateTasksWithEvents_single [OF sample_created_ok]
    by (metis batch_started_def taskEvent_def task_event.select_convs(1))
  let ?gs = "visit_groups id (group_by (\<lambda>plan. cluster_name (bp_task plan)) [plan])"
  have gs: "?gs = [(''c'', [plan])]" by (simp add: visit_groups_def group_by_def plan(2) sample_pulled_fields)
  obtain x w2 db2 fs2 r2 where g: "pull_groups sample_batch_outside sample_side (\<lambda>w. Inr 7) (proj_root sample_project) ''jp_1'' ?gs
      ((), sample_created, Map.empty, no_pulls\<lparr>pm_pull := ''jp_1'', pm_source_batch := [], pm_dry := po_dry_run everything\<rparr>) =
      (x, w2, db2, fs2, r2)" by (rule prod_cases5)
  have "x = None"
    using g u unfolding gs by (simp add: pull_group_def Let_def plan(2) split: prod.splits option.splits)
  moreover have "\<not> po_dry_run everything" by (simp add: everything_def)
  ultimately show ?thesis using g by (simp add: pull_selected_def sample_listing plan(1) Let_def del: make_plans.simps)
qed

theorem batch_pull_outcomes_witness:
  "\<exists>r w' db' fs' plans. pull_selected sample_batch_outside sample_side (\<lambda>w. Inr 7) id ''jp_1'' [] sample_project everything
     [sample_pulled] () sample_created Map.empty = ((r, None), w', db', fs') \<and>
     map bp_task plans = [sample_pulled] \<and> length (pm_tasks r) + length (pm_failures r) = 1 \<and>
     (\<forall>pl\<in>set plans. \<exists>t'. GetTask db' (task_id (bp_task pl)) = Inr (stored t') \<and> pull_reported_as ''/q'' pl t' (fs', r))"
proof -
  obtain r w' db' fs' where run: "pull_selected sample_batch_outside sample_side (\<lambda>w. Inr 7) id ''jp_1'' [] sample_project everything
     [sample_pulled] () sample_created Map.empty = ((r, None), w', db', fs')" using sample_batch_runs by blast
  have tr: "result_transfer (ps_transfer sample_side)"
    unfolding sample_side_def by (simp add: sftp.result_transfer_axioms)
  have sy: "\<forall>t\<in>set [sample_pulled]. synced sample_created t" using sample_synced by (simp add: sample_pulled_def)
  have real: "\<not> po_dry_run everything" by (simp add: everything_def)
  have root: "path_is_abs (proj_root sample_project)" by (simp add: sample_project_def path_is_abs_def)
  have "path_base ''/r/t1'' = ''t1''" by code_simp
  then have base: "\<forall>t\<in>set [sample_pulled]. plain_elem (path_base (remote_dir t))"
    by (simp add: sample_pulled_fields plain_elem_def)
  have one: "distinct (map task_id [sample_pulled])" "\<And>ks :: string list. mset (id ks) = mset ks" by simp_all
  from batch_pull_outcomes [OF tr sample_created_ok sy one(1) real root base one(2) run]
  obtain plans where plans: "map bp_task plans = [sample_pulled]" "length (pm_tasks r) + length (pm_failures r) = length [sample_pulled]"
    "\<forall>pl\<in>set plans. bp_destination pl = pull_destination sample_project (bp_task pl) \<and>
       (\<forall>f\<in>set (bp_files pl). plain_path f \<and> batch_wanted everything (bp_task pl) f) \<and>
       (\<exists>t'. GetTask db' (task_id (bp_task pl)) = Inr (stored t') \<and> same_snapshot t' (bp_task pl) \<and>
          pull_reported_as (proj_root sample_project) pl t' (fs', r))" by (elim exE conjE)
  have q: "proj_root sample_project = ''/q''" by (simp add: sample_project_def)
  have n: "length (pm_tasks r) + length (pm_failures r) = 1" using plans(2) by simp
  have "\<forall>pl\<in>set plans. \<exists>t'. GetTask db' (task_id (bp_task pl)) = Inr (stored t') \<and> pull_reported_as ''/q'' pl t' (fs', r)"
    using plans(3) unfolding q by blast
  then show ?thesis by (intro exI conjI) (rule run, rule plans(1), rule n)
qed

end
