(* ===== verification/Transfer_Backends.thy ===== *)
theory Transfer_Backends
  imports Submission
begin

text \<open>
  The choice between \<open>rsync\<close> and SFTP (\<open>internal/transfer/manager.go\<close>) and the arguments of
  \<open>rsync\<close> (\<open>internal/transfer/rsync.go\<close>). Starting a process is a parameter that answers with
  an error and whether it is the exit code 30 of a timeout; so is \<open>exec.LookPath\<close>.
\<close>

section \<open>rsync\<close>

definition baseArgs :: "string \<Rightarrow> string list" where
  "baseArgs controlPath = [''-az'', ''--partial'', ''--protect-args'', ''--info=progress2'', ''--timeout=90'',
     ''-e'', OpenSSHShellFor controlPath]"

definition rsync_place :: "string \<Rightarrow> string \<Rightarrow> string" where
  "rsync_place host remoteDir = host @ '':'' @ trim_suffix remoteDir ''/'' @ ''/''"

definition local_place :: "string \<Rightarrow> string" where
  "local_place localDir = path_clean localDir @ ''/''"

definition rsync_push_args :: "string \<Rightarrow> string \<Rightarrow> string \<Rightarrow> string \<Rightarrow> string list \<Rightarrow> string list" where
  "rsync_push_args controlPath host localDir remoteDir excludes =
     baseArgs controlPath @ [''--rsync-path'', ''mkdir -p '' @ Quote remoteDir @ '' && rsync''] @
     concat (map (\<lambda>p. [''--exclude'', p]) excludes) @ [local_place localDir, rsync_place host remoteDir]"

definition rsync_pull_args :: "string \<Rightarrow> string \<Rightarrow> string \<Rightarrow> string \<Rightarrow> string \<Rightarrow> string list" where
  "rsync_pull_args controlPath host remoteDir localDir list_file =
     baseArgs controlPath @ [''--from0'', ''--files-from'', list_file, rsync_place host remoteDir, local_place localDir]"

text \<open>The content of the file list, and what \<open>--from0\<close> reads in it.\<close>

definition file_list_text :: "string list \<Rightarrow> string" where
  "file_list_text files = concat (map (\<lambda>f. f @ [nul]) files)"

definition read_from0 :: "string \<Rightarrow> string list" where
  "read_from0 s = filter (\<lambda>f. f \<noteq> []) (split_on nul s)"

type_synonym 'w process = "'w \<Rightarrow> string list \<Rightarrow> (go_error \<times> bool) option \<times> 'w"

definition rsync_run :: "'w process \<Rightarrow> string \<Rightarrow> string list \<Rightarrow> 'w \<Rightarrow> go_error option \<times> 'w" where
  "rsync_run proc code args w = (case proc w args of
     (None, w') \<Rightarrow> (None, w')
   | (Some (e, timed_out), w') \<Rightarrow>
       (Some (fault_wrap (if timed_out \<and> code = ''UPLOAD_FAILED'' then ''UPLOAD_TIMEOUT''
          else if timed_out \<and> code = ''PULL_FAILED'' then ''PULL_TIMEOUT'' else code) [] True e), w'))"

definition Rsync_Push :: "'w process \<Rightarrow> string \<Rightarrow> string \<Rightarrow> string \<Rightarrow> string \<Rightarrow> string list \<Rightarrow> 'w \<Rightarrow> go_error option \<times> 'w" where
  "Rsync_Push proc controlPath host localDir remoteDir excludes w =
     rsync_run proc ''UPLOAD_FAILED'' (rsync_push_args controlPath host localDir remoteDir excludes) w"

text \<open>\<open>temp\<close>: creating the file list in a temporary file, by its content.\<close>

definition Rsync_Pull ::
    "'w process \<Rightarrow> ('w \<Rightarrow> string \<Rightarrow> (go_error, string) result \<times> 'w) \<Rightarrow> string \<Rightarrow> string \<Rightarrow> string \<Rightarrow> string \<Rightarrow> string list \<Rightarrow>
     'w \<Rightarrow> go_error option \<times> 'w" where
  "Rsync_Pull proc temp controlPath host remoteDir localDir files w =
     (if files = [] then (None, w)
      else case temp w (file_list_text files) of
        (Inl e, w1) \<Rightarrow> (Some (fault_wrap ''PULL_FAILED'' [] False e), w1)
      | (Inr name, w1) \<Rightarrow> rsync_run proc ''PULL_FAILED'' (rsync_pull_args controlPath host remoteDir localDir name) w1)"

lemma file_list_roundtrip:
  assumes "\<forall>f\<in>set files. f \<noteq> [] \<and> nul \<notin> set f"
  shows "read_from0 (file_list_text files) = files"
  using assms by (induction files) (simp_all add: file_list_text_def read_from0_def split_on_append)

section \<open>The choice of the backend\<close>

definition autoTransfer :: "cluster \<Rightarrow> bool" where
  "autoTransfer c \<longleftrightarrow> transfer_kind c = [] \<or> transfer_kind c = ''auto''"

definition transfer_unavailable :: "go_error option \<Rightarrow> go_error option" where
  "transfer_unavailable r = map_option (fault_wrap ''TRANSFER_UNAVAILABLE'' [] False) r"

definition backend :: "string \<Rightarrow> (string \<Rightarrow> go_error option) \<Rightarrow> cluster \<Rightarrow> string \<times> go_error option" where
  "backend goos look c =
     (if autoTransfer c then
        (if goos \<noteq> ''windows'' \<and> look ''rsync'' = None then (''rsync'', None)
         else (''sftp'', transfer_unavailable (look ''ssh'')))
      else if transfer_kind c = ''rsync'' then (''rsync'', transfer_unavailable (look ''rsync''))
      else if transfer_kind c = ''sftp'' then (''sftp'', transfer_unavailable (look ''ssh''))
      else (transfer_kind c, Some (fault_new ''TRANSFER_UNAVAILABLE'' False)))"

text \<open>
  \<open>Push\<close> and \<open>Pull\<close>: one attempt with the backend, and a second one by SFTP when \<open>rsync\<close> failed,
  the choice was automatic, and the context is still live.
\<close>

definition transfer_with ::
    "string \<Rightarrow> (string \<Rightarrow> go_error option) \<Rightarrow> ('w \<Rightarrow> ctx_status) \<Rightarrow> cluster \<Rightarrow>
     ('w \<Rightarrow> go_error option \<times> 'w) \<Rightarrow> ('w \<Rightarrow> go_error option \<times> 'w) \<Rightarrow> 'w \<Rightarrow> go_error option \<times> 'w" where
  "transfer_with goos look ctx c by_rsync by_sftp w = (case backend goos look c of
     (b, Some e) \<Rightarrow> (Some e, w)
   | (b, None) \<Rightarrow>
       if b = ''rsync'' then (case by_rsync w of (r, w') \<Rightarrow>
         if r = None \<or> \<not> autoTransfer c \<or> ctx w' \<noteq> Live then (r, w') else by_sftp w')
       else by_sftp w)"

record 'w manager =
  mg_goos :: string
  mg_look :: "string \<Rightarrow> go_error option"
  mg_ctx :: "'w \<Rightarrow> ctx_status"
  mg_control :: string
  mg_process :: "'w process"
  mg_temp :: "'w \<Rightarrow> string \<Rightarrow> (go_error, string) result \<times> 'w"
  mg_sftp_push :: "'w \<Rightarrow> string \<Rightarrow> string \<Rightarrow> string \<Rightarrow> string list \<Rightarrow> go_error option \<times> 'w"
  mg_sftp_pull :: "'w \<Rightarrow> string \<Rightarrow> string \<Rightarrow> string \<Rightarrow> string list \<Rightarrow> go_error option \<times> 'w"
  mg_sftp_check :: "'w \<Rightarrow> string \<Rightarrow> go_error option \<times> 'w"

definition Manager_Push :: "'w manager \<Rightarrow> cluster \<Rightarrow> string \<Rightarrow> string \<Rightarrow> string list \<Rightarrow> 'w \<Rightarrow> go_error option \<times> 'w" where
  "Manager_Push m c localDir remoteDir excludes w = transfer_with (mg_goos m) (mg_look m) (mg_ctx m) c
     (Rsync_Push (mg_process m) (mg_control m) (cluster_host c) localDir remoteDir excludes)
     (\<lambda>w. mg_sftp_push m w (cluster_host c) localDir remoteDir excludes) w"

definition Manager_Pull :: "'w manager \<Rightarrow> cluster \<Rightarrow> string \<Rightarrow> string \<Rightarrow> string list \<Rightarrow> 'w \<Rightarrow> go_error option \<times> 'w" where
  "Manager_Pull m c remoteDir localDir files w = transfer_with (mg_goos m) (mg_look m) (mg_ctx m) c
     (Rsync_Pull (mg_process m) (mg_temp m) (mg_control m) (cluster_host c) remoteDir localDir files)
     (\<lambda>w. mg_sftp_pull m w (cluster_host c) remoteDir localDir files) w"

text \<open>\<open>Check\<close>, with the runner that a manager may have.\<close>

definition Manager_Check :: "'w manager \<Rightarrow> 'w runner option \<Rightarrow> cluster \<Rightarrow> 'w \<Rightarrow> (string \<times> go_error option) \<times> 'w" where
  "Manager_Check m run c w = (case backend (mg_goos m) (mg_look m) c of
     (b, Some e) \<Rightarrow> ((b, Some e), w)
   | (b, None) \<Rightarrow>
       if b = ''sftp'' then (case mg_sftp_check m w (cluster_host c) of (r, w') \<Rightarrow> ((b, r), w'))
       else (case run of
           None \<Rightarrow> ((b, None), w)
         | Some exec \<Rightarrow> (case exec w (cluster_host c) ''command -v rsync'' [] of
             ((out, err, r), w') \<Rightarrow> ((b, transfer_unavailable r), w'))))"

text \<open>The \<open>default\<close> of the switches over the backend is unreachable.\<close>

lemma backend_known: "backend goos look c = (b, None) \<Longrightarrow> b = ''rsync'' \<or> b = ''sftp''"
  by (auto simp: backend_def split: if_splits)

text \<open>A transfer that was asked to use \<open>rsync\<close> never uses SFTP, and no transfer is repeated when it worked.\<close>

lemma transfer_explicit:
  assumes "transfer_kind c = ''rsync''"
  shows "transfer_with goos look ctx c by_rsync by_sftp w =
    (case look ''rsync'' of Some e \<Rightarrow> (Some (fault_wrap ''TRANSFER_UNAVAILABLE'' [] False e), w) | None \<Rightarrow> by_rsync w)"
  using assms
  by (auto simp: transfer_with_def backend_def autoTransfer_def transfer_unavailable_def split: option.split prod.split)

lemma transfer_success:
  assumes "transfer_with goos look ctx c by_rsync by_sftp w = (None, w')"
  shows "by_rsync w = (None, w') \<or> by_sftp w = (None, w') \<or> (\<exists>e w1. by_rsync w = (Some e, w1) \<and> by_sftp w1 = (None, w') \<and> ctx w1 = Live)"
  using assms
  by (auto simp: transfer_with_def split: option.splits prod.splits if_splits)

end
