(* ===== verification/Task_Ledger.thy ===== *)
theory Task_Ledger
  imports Store_Tasks
begin

text \<open>
  What the task tables of \<open>internal/store/store.go\<close> promise, without tables: a ledger of
  tasks by their ids, a compare-and-swap on the revision, a log of events. Every operation
  of \<open>Store_Tasks\<close> that writes one of the tables, and the two reads by id, answer exactly
  as the ledger does.
\<close>

section \<open>The ledger\<close>

record ledger =
  known_projects :: "string set"
  entries :: "string \<rightharpoonup> task"
  event_log :: "task_event list"

datatype task_call =
    BindCall project
  | CreateCall "task list"
  | ImportCall task
  | UpdateCall task "task_event option"
  | BatchCall "task list" "task_event list"
  | AppendCall task_event
  | GetCall string
  | EventsCall string

text \<open>
  An answer: a refusal with its code, or success, in both cases with the tasks as the caller
  holds them afterwards; the task that was read; the events that were read.
\<close>

datatype task_answer =
    Refused string "task list"
  | Accepted "task list"
  | FoundTask task
  | FoundEvents "task_event list"

definition enter :: "task \<Rightarrow> ledger \<Rightarrow> ledger" where
  "enter t L = L\<lparr>entries := (entries L)(task_id t \<mapsto> stored t)\<rparr>"

definition log_event :: "task_event \<Rightarrow> ledger \<Rightarrow> (string, ledger) result" where
  "log_event e L = (if ev_task e \<in> dom (entries L) then Inr (L\<lparr>event_log := event_log L @ [e]\<rparr>)
     else Inl ''DATABASE_FAILED'')"

definition open_entry :: "task \<Rightarrow> task_event \<Rightarrow> ledger \<Rightarrow> (string, ledger) result" where
  "open_entry t e L =
     (if task_id t \<in> dom (entries L) \<or> project_id t \<notin> known_projects L then Inl ''DATABASE_FAILED''
      else log_event e (enter t L))"

fun open_entries :: "task list \<Rightarrow> ledger \<Rightarrow> (string, ledger) result" where
  "open_entries [] L = Inr L"
| "open_entries (t # ts) L = (case open_entry t (created_event t) L of
     Inl c \<Rightarrow> Inl c | Inr L' \<Rightarrow> open_entries ts L')"

definition held_version :: "task \<Rightarrow> ledger \<Rightarrow> bool" where
  "held_version t L \<longleftrightarrow> 1 \<le> revision t \<and> map_option revision (entries L (task_id t)) = Some (revision t)"

definition swap_entry :: "task \<Rightarrow> task_event option \<Rightarrow> ledger \<Rightarrow> (string, ledger) result" where
  "swap_entry t ev L =
     (if \<not> held_version t L then Inl ''DATABASE_CONFLICT''
      else if project_id t \<notin> known_projects L then Inl ''DATABASE_FAILED''
      else let L' = enter (t\<lparr>revision := revision t + 1\<rparr>) L
        in case ev of None \<Rightarrow> Inr L' | Some e \<Rightarrow> log_event e L')"

fun swap_entries :: "(task \<times> task_event) list \<Rightarrow> ledger \<Rightarrow> (string, ledger) result" where
  "swap_entries [] L = Inr L"
| "swap_entries ((t, e) # rest) L = (case swap_entry t (Some e) L of
     Inl c \<Rightarrow> Inl c | Inr L' \<Rightarrow> swap_entries rest L')"

definition next_version :: "task \<Rightarrow> task" where
  "next_version t = t\<lparr>revision := revision t + 1\<rparr>"

text \<open>A call answers with the ledger it made, or refuses and leaves the ledger.\<close>

definition settle :: "task list \<Rightarrow> task list \<Rightarrow> ledger \<Rightarrow> (string, ledger) result \<Rightarrow> task_answer \<times> ledger" where
  "settle refused accepted L r = (case r of
     Inl c \<Rightarrow> (Refused c refused, L) | Inr L' \<Rightarrow> (Accepted accepted, L'))"

fun ledger_call :: "time \<Rightarrow> task_call \<Rightarrow> ledger \<Rightarrow> task_answer \<times> ledger" where
  "ledger_call now (BindCall p) L = (Accepted [], L\<lparr>known_projects := insert (proj_id p) (known_projects L)\<rparr>)"
| "ledger_call now (CreateCall ts) L =
     settle (map first_revision ts) (map first_revision ts) L (open_entries (map first_revision ts) L)"
| "ledger_call now (ImportCall t) L =
     (if task_id t \<in> dom (entries L) then (Refused ''TASK_ALREADY_EXISTS'' [t], L)
      else settle [first_revision t] [first_revision t] L (open_entry (first_revision t)
        \<lparr>ev_task = task_id t, ev_type = ''TASK_RECOVERED'', ev_stage = ''recovery'',
         ev_data = Map.empty, ev_created = now\<rparr> L))"
| "ledger_call now (UpdateCall t ev) L =
     settle [t] [next_version t] L (swap_entry t (map_option (complete_event t now) ev) L)"
| "ledger_call now (BatchCall ts es) L =
     (if ts = [] then (Accepted [], L)
      else if length es \<noteq> length ts then (Refused ''DATABASE_FAILED'' ts, L)
      else settle ts (map next_version ts) L
        (swap_entries (map (\<lambda>(t, e). (t, complete_event t now e)) (zip ts es)) L))"
| "ledger_call now (AppendCall e) L =
     (let e' = (if is_zero_time (ev_created e) then e\<lparr>ev_created := now\<rparr> else e)
      in if ev_task e' \<notin> dom (entries L) then (Refused ''TASK_NOT_FOUND'' [], L)
         else settle [] [] L (log_event e' L))"
| "ledger_call now (GetCall i) L = (case entries L i of
     None \<Rightarrow> Refused ''TASK_NOT_FOUND'' [] | Some t \<Rightarrow> FoundTask t, L)"
| "ledger_call now (EventsCall i) L = (case entries L i of
     None \<Rightarrow> Refused ''TASK_NOT_FOUND'' []
   | Some _ \<Rightarrow> FoundEvents (filter (\<lambda>e. ev_task e = i) (event_log L)), L)"

section \<open>The same calls on the tables\<close>

definition answered :: "(go_error, unit) result \<Rightarrow> task list \<Rightarrow> task_answer" where
  "answered r ts = (case r of Inl e \<Rightarrow> Refused (fault_code e) ts | Inr _ \<Rightarrow> Accepted ts)"

fun store_call :: "time \<Rightarrow> task_call \<Rightarrow> store \<Rightarrow> task_answer \<times> store" where
  "store_call now (BindCall p) db = (Accepted [], BindProject db now p)"
| "store_call now (CreateCall ts) db = (case CreateTasks db ts of (r, ts', db') \<Rightarrow> (answered r ts', db'))"
| "store_call now (ImportCall t) db = (case ImportTask db now t of (r, t', db') \<Rightarrow> (answered r [t'], db'))"
| "store_call now (UpdateCall t None) db = (case UpdateTask db t of (r, t', db') \<Rightarrow> (answered r [t'], db'))"
| "store_call now (UpdateCall t (Some e)) db =
     (case UpdateTaskWithEvent db now t e of (r, t', db') \<Rightarrow> (answered r [t'], db'))"
| "store_call now (BatchCall ts es) db =
     (case UpdateTasksWithEvents db now ts es of (r, ts', db') \<Rightarrow> (answered r ts', db'))"
| "store_call now (AppendCall e) db = (case AppendEvent db now e of (r, db') \<Rightarrow> (answered r [], db'))"
| "store_call now (GetCall i) db = (case GetTask db i of
     Inl e \<Rightarrow> Refused (fault_code e) [] | Inr t \<Rightarrow> FoundTask t, db)"
| "store_call now (EventsCall i) db = (case Events db i of
     Inl e \<Rightarrow> Refused (fault_code e) [] | Inr es \<Rightarrow> FoundEvents es, db)"

text \<open>The ledger that a store stands for.\<close>

definition ledger_of :: "store \<Rightarrow> ledger" where
  "ledger_of db = \<lparr>known_projects = pr_id ` set (projects db), entries = task_lookup db,
     event_log = task_events db\<rparr>"

section \<open>The interface of a data refinement\<close>

text \<open>
  One call of the implementation is one call of the specification, with the same answer,
  and keeps the invariant; so whole histories of calls have the same answers.
\<close>

fun run_calls :: "('c \<Rightarrow> 's \<Rightarrow> 'a \<times> 's) \<Rightarrow> 'c list \<Rightarrow> 's \<Rightarrow> 'a list \<times> 's" where
  "run_calls f [] s = ([], s)"
| "run_calls f (c # cs) s = (case f c s of (a, s') \<Rightarrow>
     case run_calls f cs s' of (as, s'') \<Rightarrow> (a # as, s''))"

locale data_refinement =
  fixes concrete :: "'c \<Rightarrow> 's \<Rightarrow> 'a \<times> 's"
    and abstract :: "'c \<Rightarrow> 'm \<Rightarrow> 'a \<times> 'm"
    and view :: "'s \<Rightarrow> 'm"
    and good :: "'s \<Rightarrow> bool"
  assumes commutes: "good s \<Longrightarrow> concrete c s = (a, s') \<Longrightarrow> abstract c (view s) = (a, view s')"
    and keeps: "good s \<Longrightarrow> concrete c s = (a, s') \<Longrightarrow> good s'"
begin

lemma histories:
  "good s \<Longrightarrow> run_calls concrete cs s = (as, s') \<Longrightarrow>
   run_calls abstract cs (view s) = (as, view s') \<and> good s'"
proof (induction cs arbitrary: s as)
  case (Cons c cs)
  obtain a s1 where one: "concrete c s = (a, s1)" by (cases "concrete c s")
  moreover obtain as1 where "run_calls concrete cs s1 = (as1, s')" "as = a # as1"
    using Cons.prems(2) one by (cases "run_calls concrete cs s1") auto
  ultimately show ?case
    using Cons.IH [of s1 as1] commutes [OF Cons.prems(1) one] keeps [OF Cons.prems(1) one] by simp
qed simp

end

section \<open>The refinement, operation by operation\<close>

lemma known_bound: "p \<in> known_projects (ledger_of db) \<longleftrightarrow> project_bound db p"
  by (auto simp: ledger_of_def project_bound_def)

lemma entries_row: "entries (ledger_of db) i = map_option scanTask (find_row db i)"
  by (simp add: ledger_of_def task_lookup_row)

lemma ledger_of_eqI:
  assumes "\<And>p. project_bound db p \<longleftrightarrow> p \<in> known_projects L"
    and "\<And>i. map_option scanTask (find_row db i) = entries L i"
    and "task_events db = event_log L"
  shows "ledger_of db = L"
proof (rule ledger.equality)
  show "known_projects (ledger_of db) = known_projects L" using assms(1) known_bound by blast
  show "entries (ledger_of db) = entries L" by (rule ext) (simp add: entries_row assms(2))
  show "event_log (ledger_of db) = event_log L" by (simp add: ledger_of_def assms(3))
qed simp

lemma event_log_ledger: "event_log (ledger_of db) = task_events db"
  by (simp add: ledger_of_def)

lemma in_entries: "i \<in> dom (entries (ledger_of db)) \<longleftrightarrow> find_row db i \<noteq> None"
  by (auto simp: entries_row dom_def)

lemma log_event_ledger:
  "log_event e (ledger_of db) = map_sum fault_code ledger_of (insertEvent db e)"
  by (auto simp: log_event_def in_entries insertEvent_def fault_wrap_def known_bound entries_row
      event_log_ledger fault_code_def fault_as_def intro!: ledger_of_eqI [symmetric])


lemma insertTask_ledger:
  "map_sum fault_code ledger_of (insertTask db t) =
   (if task_id t \<in> dom (entries (ledger_of db)) \<or> project_id t \<notin> known_projects (ledger_of db)
    then Inl ''DATABASE_FAILED'' else Inr (enter t (ledger_of db)))"
proof (cases "insertTask db t")
  case (Inl e)
  then have "e = fault_wrap ''DATABASE_FAILED'' [] True (PlainError ''constraint failed'')"
    by (auto simp: insertTask_def split: if_splits)
  with insertTask_failed [OF Inl] Inl show ?thesis
    by (auto simp: in_entries known_bound simp del: domIff)
next
  case (Inr d)
  have "ledger_of d = enter t (ledger_of db)"
    using Inr insertTask_find [OF Inr]
    by (intro ledger_of_eqI)
      (auto simp: insertTask_def enter_def known_bound entries_row event_log_ledger stored_def split: if_splits)
  then show ?thesis using Inr
    by (auto simp: insertTask_def in_entries known_bound simp del: domIff split: if_splits)
qed

lemma open_entry_ledger:
  "open_entry t e (ledger_of db) = map_sum fault_code ledger_of
     (case insertTask db t of Inl x \<Rightarrow> Inl x | Inr d \<Rightarrow> insertEvent d e)"
  using insertTask_ledger [of db t]
  by (cases "insertTask db t") (auto simp: open_entry_def log_event_ledger [symmetric] split: if_splits)

lemma open_entries_ledger:
  "open_entries ts (ledger_of db) = map_sum fault_code ledger_of (insert_all db ts)"
proof (induction ts arbitrary: db)
  case (Cons t ts)
  show ?case
    using open_entry_ledger [of t "created_event t" db] Cons.IH
    by (cases "insert_created db t") (auto simp: insert_created_def)
qed simp

text \<open>The compare-and-swap: what \<open>updateTaskRecord\<close> does to one row.\<close>

lemma held_version_row:
  assumes "store_ok db" and "1 \<le> revision t"
  shows "held_version t (ledger_of db) \<longleftrightarrow>
     rows_where (\<lambda>r. task_id r = task_id t \<and> revision r = revision t) (tasks db) \<noteq> 0"
proof -
  have "rows_where (\<lambda>r. task_id r = task_id t \<and> revision r = revision t) (tasks db) \<noteq> 0 \<longleftrightarrow>
      (\<exists>r\<in>set (tasks db). task_id r = task_id t \<and> revision r = revision t)"
    by (auto simp: rows_where_zero)
  also have "\<dots> \<longleftrightarrow> (\<exists>r. find_row db (task_id t) = Some r \<and> revision r = revision t)"
  proof
    assume "\<exists>r\<in>set (tasks db). task_id r = task_id t \<and> revision r = revision t"
    then obtain r where r: "r \<in> set (tasks db)" "task_id r = task_id t" "revision r = revision t" by blast
    show "\<exists>r. find_row db (task_id t) = Some r \<and> revision r = revision t"
      using find_row_member [OF assms(1) r(1)] r(2,3) by auto
  next
    assume "\<exists>r. find_row db (task_id t) = Some r \<and> revision r = revision t"
    then show "\<exists>r\<in>set (tasks db). task_id r = task_id t \<and> revision r = revision t"
      using find_row_tasks by blast
  qed
  finally show ?thesis using assms(2) by (auto simp: held_version_def entries_row)
qed

lemma swap_entry_ledger:
  assumes ok: "store_ok db"
  shows "swap_entry t ev (ledger_of db) = map_sum fault_code (\<lambda>(n, d). ledger_of d) (updateTaskRecord db t ev)"
proof -
  define hit :: "task \<Rightarrow> bool" where "hit = (\<lambda>r. task_id r = task_id t \<and> revision r = revision t)"
  define d where "d = db\<lparr>tasks := update_where hit (\<lambda>_. encodeTask (t\<lparr>revision := revision t + 1\<rparr>)) (tasks db)\<rparr>"
  show ?thesis
  proof (cases "1 \<le> revision t \<and> rows_where hit (tasks db) \<noteq> 0 \<and> project_bound db (project_id t)")
    case False
    have "updateTaskRecord db t ev = Inl (if 1 \<le> revision t \<and> rows_where hit (tasks db) \<noteq> 0
        then fault_wrap ''DATABASE_FAILED'' [] True (PlainError ''constraint failed'')
        else fault_new ''DATABASE_CONFLICT'' True)"
      using False unfolding updateTaskRecord_def hit_def [symmetric] by (auto simp: Let_def)
    moreover have "held_version t (ledger_of db) \<longleftrightarrow> 1 \<le> revision t \<and> rows_where hit (tasks db) \<noteq> 0"
      using held_version_row [OF ok, of t] by (auto simp: hit_def held_version_def)
    ultimately show ?thesis using False by (auto simp: swap_entry_def known_bound)
  next
    case True
    then have plain: "updateTaskRecord db t None = Inr (revision t + 1, d)"
      unfolding updateTaskRecord_def hit_def [symmetric] by (simp add: Let_def d_def)
    have whole: "updateTaskRecord db t ev = (case ev of None \<Rightarrow> Inr (revision t + 1, d)
        | Some e \<Rightarrow> (case insertEvent d e of Inl x \<Rightarrow> Inl x | Inr d' \<Rightarrow> Inr (revision t + 1, d')))"
      using True unfolding updateTaskRecord_def hit_def [symmetric]
      by (simp add: Let_def d_def cong: option.case_cong sum.case_cong)
    have "ledger_of d = enter (t\<lparr>revision := revision t + 1\<rparr>) (ledger_of db)"
      using updateTaskRecord_cases(5,6) [OF plain ok]
      by (intro ledger_of_eqI)
        (auto simp: enter_def known_bound entries_row event_log_ledger stored_def d_def)
    moreover have "held_version t (ledger_of db)"
      using True held_version_row [OF ok, of t] by (simp add: hit_def)
    ultimately show ?thesis
      using True log_event_ledger [of _ d] whole
      by (cases ev) (auto simp: swap_entry_def known_bound Let_def split: sum.splits)
  qed
qed


lemma swap_entries_ledger:
  "store_ok db \<Longrightarrow> swap_entries (map (\<lambda>(t, e). (t, complete_event t now e)) prs) (ledger_of db) =
   map_sum fault_code (\<lambda>(ns, d). ledger_of d) (update_all db now prs)"
proof (induction prs arbitrary: db)
  case (Cons p prs)
  obtain t e where p: "p = (t, e)" by (cases p)
  note one = swap_entry_ledger [OF Cons.prems, of t "Some (complete_event t now e)"]
  show ?case
  proof (cases "updateTaskRecord db t (Some (complete_event t now e))")
    case (Inl x)
    then show ?thesis using one p by simp
  next
    case (Inr nd)
    obtain n d where nd: "nd = (n, d)" by (cases nd)
    have "store_ok d" by (rule updateTaskRecord_cases(1) [OF Inr [unfolded nd] Cons.prems])
    from Cons.IH [OF this] show ?thesis
      using one Inr nd p by (auto split: sum.splits)
  qed
qed simp

lemma update_all_versions: "update_all db now prs = Inr (ns, d) \<Longrightarrow> ns = map (\<lambda>(t, e). revision t + 1) prs"
proof (induction prs arbitrary: db ns)
  case (Cons p prs)
  obtain t e where p: "p = (t, e)" by (cases p)
  from Cons.prems p obtain n d1 m where one: "updateTaskRecord db t (Some (complete_event t now e)) = Inr (n, d1)"
      and rest: "update_all d1 now prs = Inr (m, d)" and ns: "ns = n # m"
    by (auto split: sum.splits prod.splits)
  have "n = revision t + 1"
    using one unfolding updateTaskRecord_def
    by (auto simp: Let_def split: if_splits sum.splits)
  with Cons.IH [OF rest] ns p show ?case by simp
qed simp

lemma map2_next_version:
  "length es = length ts \<Longrightarrow>
   map2 (\<lambda>t n. t\<lparr>revision := n\<rparr>) ts (map (\<lambda>(t, e). revision t + 1) (zip ts es)) = map next_version ts"
  by (induction ts es rule: list_induct2') (auto simp: next_version_def)

text \<open>Each call, on its own.\<close>

lemma bind_call: "ledger_of (BindProject db now p) =
    (ledger_of db)\<lparr>known_projects := insert (proj_id p) (known_projects (ledger_of db))\<rparr>"
proof -
  have ids: "project_bound d q \<longleftrightarrow> q \<in> set (map pr_id (projects d))" for d q
    by (auto simp: project_bound_def)
  have upd: "map pr_id (update_where P (\<lambda>r. r\<lparr>pr_path := x, pr_updated := now\<rparr>) xs) = map pr_id xs"
    for P x and xs :: "project_row list" by (rule map_update_where) simp
  have "project_bound (BindProject db now p) q \<longleftrightarrow> q = proj_id p \<or> project_bound db q" for q
  proof (cases "project_bound db (proj_id p)")
    case True
    then have "project_bound (BindProject db now p) q \<longleftrightarrow> project_bound db q"
      unfolding ids BindProject_def using upd by (simp del: set_map)
    with True show ?thesis by auto
  next
    case False
    then show ?thesis by (auto simp: BindProject_def project_bound_def)
  qed
  then show ?thesis
    by (intro ledger_of_eqI) (auto simp: known_bound entries_row event_log_ledger BindProject_def)
qed

lemma create_call:
  assumes "CreateTasks db ts = (r, ts', db')"
  shows "ledger_call now (CreateCall ts) (ledger_of db) = (answered r ts', ledger_of db')"
proof (cases "ts = []")
  case True
  then show ?thesis using assms by (auto simp: CreateTasks_def answered_def settle_def)
next
  case False
  then show ?thesis using assms
    by (cases "insert_all db (map first_revision ts)")
      (auto simp: CreateTasks_def answered_def settle_def open_entries_ledger Let_def)
qed

lemma import_call:
  assumes "ImportTask db now t = (r, t', db')"
  shows "ledger_call now (ImportCall t) (ledger_of db) = (answered r [t'], ledger_of db')"
proof (cases "find_row db (task_id t)")
  case (Some x)
  then have "r = Inl (fault_new ''TASK_ALREADY_EXISTS'' False)" "t' = t" "db' = db"
    using assms by (auto simp: ImportTask_def GetTask_def)
  moreover have "task_id t \<in> dom (entries (ledger_of db))" unfolding in_entries using Some by simp
  ultimately show ?thesis by (simp add: answered_def del: domIff)
next
  case None
  define e where "e = \<lparr>ev_task = task_id t, ev_type = ''TASK_RECOVERED'', ev_stage = ''recovery'',
     ev_data = Map.empty, ev_created = now\<rparr>"
  have g: "GetTask db (task_id t) = Inl (fault_new ''TASK_NOT_FOUND'' False)"
    using None by (simp add: GetTask_def)
  have id: "task_id (first_revision t) = task_id t" by simp
  have out: "task_id t \<notin> dom (entries (ledger_of db))" unfolding in_entries using None by simp
  define res where "res = (case insertTask db (first_revision t) of Inl x \<Rightarrow> Inl x | Inr d \<Rightarrow> insertEvent d e)"
  have imp: "ImportTask db now t = (case res of Inl x \<Rightarrow> (Inl x, first_revision t, db)
      | Inr d \<Rightarrow> (Inr (), first_revision t, d))"
    unfolding ImportTask_def res_def e_def g
    by (simp add: Let_def id split: sum.split)
  have "open_entry (first_revision t) e (ledger_of db) = map_sum fault_code ledger_of res"
    by (simp add: open_entry_ledger res_def)
  then have "ledger_call now (ImportCall t) (ledger_of db) =
      settle [first_revision t] [first_revision t] (ledger_of db) (map_sum fault_code ledger_of res)"
    using out by (simp add: e_def del: domIff)
  then show ?thesis
    using imp assms by (cases res) (auto simp: settle_def answered_def)
qed

lemma update_call:
  assumes "updateTask db t ev = (r, t', db')" and "store_ok db"
  shows "settle [t] [next_version t] (ledger_of db) (swap_entry t ev (ledger_of db)) =
    (answered r [t'], ledger_of db')"
proof -
  note sw = swap_entry_ledger [OF assms(2), of t ev]
  have low: "revision t < 1 \<Longrightarrow> updateTaskRecord db t ev = Inl (fault_new ''DATABASE_CONFLICT'' True)"
    by (simp add: updateTaskRecord_def)
  show ?thesis
  proof (cases "updateTaskRecord db t ev")
    case (Inl x)
    then have "r = Inl x" "t' = t" "db' = db"
      using assms(1) low by (auto simp: updateTask_def split: if_splits)
    with sw Inl show ?thesis by (simp add: settle_def answered_def)
  next
    case (Inr nd)
    then have "\<not> revision t < 1" using low by auto
    then have "r = Inr ()" "t' = t\<lparr>revision := fst nd\<rparr>" "db' = snd nd"
      using assms(1) Inr by (auto simp: updateTask_def split: prod.splits)
    moreover have "fst nd = revision t + 1"
      using updateTaskRecord_cases(3) [of db t ev "fst nd" "snd nd"] Inr assms(2) by simp
    ultimately show ?thesis
      using sw Inr by (simp add: settle_def answered_def next_version_def split_def)
  qed
qed

lemma batch_call:
  assumes "UpdateTasksWithEvents db now ts es = (r, ts', db')" and "store_ok db"
  shows "ledger_call now (BatchCall ts es) (ledger_of db) = (answered r ts', ledger_of db')"
proof (cases "ts = [] \<or> length es \<noteq> length ts")
  case True
  then show ?thesis using assms(1)
    by (auto simp: UpdateTasksWithEvents_def answered_def split: if_splits)
next
  case False
  note sw = swap_entries_ledger [OF assms(2), of now "zip ts es"]
  show ?thesis
  proof (cases "update_all db now (zip ts es)")
    case (Inl x)
    then have "r = Inl x" "ts' = ts" "db' = db"
      using assms(1) False by (auto simp: UpdateTasksWithEvents_def)
    then show ?thesis using False sw Inl by (simp add: settle_def answered_def)
  next
    case (Inr nd)
    obtain ns d where nd: "nd = (ns, d)" by (cases nd)
    have "ts' = map next_version ts" "r = Inr ()" "db' = d"
      using assms(1) False Inr nd update_all_versions [OF Inr [unfolded nd]] map2_next_version [of es ts]
      by (auto simp: UpdateTasksWithEvents_def)
    then show ?thesis using False sw Inr nd by (simp add: settle_def answered_def)
  qed
qed

lemma append_call:
  assumes "AppendEvent db now e = (r, db')"
  shows "ledger_call now (AppendCall e) (ledger_of db) = (answered r [], ledger_of db')"
proof -
  define e' where "e' = (if is_zero_time (ev_created e) then e\<lparr>ev_created := now\<rparr> else e)"
  have "AppendEvent db now e = (case GetTask db (ev_task e') of Inl x \<Rightarrow> (Inl x, db)
      | Inr _ \<Rightarrow> (case insertEvent db e' of Inl x \<Rightarrow> (Inl x, db) | Inr d \<Rightarrow> (Inr (), d)))"
    unfolding AppendEvent_def e'_def [symmetric] Let_def ..
  moreover have "ledger_call now (AppendCall e) (ledger_of db) =
      (if find_row db (ev_task e') = None then (Refused ''TASK_NOT_FOUND'' [], ledger_of db)
       else settle [] [] (ledger_of db) (log_event e' (ledger_of db)))"
    unfolding ledger_call.simps e'_def [symmetric] Let_def in_entries by simp
  ultimately show ?thesis
    using assms log_event_ledger [of e' db]
    by (cases "find_row db (ev_task e')"; cases "insertEvent db e'")
      (auto simp: GetTask_def settle_def answered_def)
qed

lemma read_calls:
  "ledger_call now (GetCall i) (ledger_of db) = (fst (store_call now (GetCall i) db), ledger_of db)"
  "ledger_call now (EventsCall i) (ledger_of db) = (fst (store_call now (EventsCall i) db), ledger_of db)"
  by (cases "find_row db i"; simp add: entries_row GetTask_def Events_def event_log_ledger)+


section \<open>The task tables refine the ledger\<close>

lemma store_call_change: "store_call now c db = (a, db') \<Longrightarrow> db' = db \<or> store_change db db'"
  by (cases "(now, c, db)" rule: store_call.cases)
    (auto simp: UpdateTask_def UpdateTaskWithEvent_def split: prod.splits
      intro: store_change.intros)

lemma store_call_commutes:
  assumes ok: "store_ok db" and c: "store_call now c db = (a, db')"
  shows "ledger_call now c (ledger_of db) = (a, ledger_of db')"
proof (cases c)
  case (UpdateCall t ev)
  have u: "updateTask db t (map_option (complete_event t now) ev) = (r, t', d) \<Longrightarrow>
      ledger_call now (UpdateCall t ev) (ledger_of db) = (answered r [t'], ledger_of d)" for r t' d
    using update_call [of db t "map_option (complete_event t now) ev" r t' d] ok by simp
  show ?thesis using c u unfolding UpdateCall
    by (cases ev) (auto simp: UpdateTask_def UpdateTaskWithEvent_def split: prod.splits)
next
  case (GetCall i)
  then show ?thesis using c read_calls(1) [of now i db] by (auto simp del: ledger_call.simps)
next
  case (EventsCall i)
  then show ?thesis using c read_calls(2) [of now i db] by (auto simp del: ledger_call.simps)
next
  case (CreateCall ts)
  then show ?thesis using c by (auto simp del: ledger_call.simps simp: create_call split: prod.splits)
next
  case (ImportCall t)
  then show ?thesis using c by (auto simp del: ledger_call.simps simp: import_call split: prod.splits)
next
  case (BatchCall ts es)
  then show ?thesis using c ok by (auto simp del: ledger_call.simps simp: batch_call split: prod.splits)
next
  case (AppendCall e)
  then show ?thesis using c by (auto simp del: ledger_call.simps simp: append_call split: prod.splits)
next
  case (BindCall p)
  then show ?thesis using c bind_call [of db now p] by auto
qed

interpretation tables: data_refinement "\<lambda>(now, c). store_call now c" "\<lambda>(now, c). ledger_call now c" ledger_of store_ok
proof unfold_locales
  fix db db' :: store and a and c :: "time \<times> task_call"
  obtain now k where c: "c = (now, k)" by (cases c)
  assume ok: "store_ok db" and run: "(case c of (now, c) \<Rightarrow> store_call now c) db = (a, db')"
  show "(case c of (now, c) \<Rightarrow> ledger_call now c) (ledger_of db) = (a, ledger_of db')"
    using store_call_commutes [OF ok, of now k a db'] run c by simp
  show "store_ok db'"
    using store_call_change [of now k db a db'] store_change_ok ok run c by auto
qed

text \<open>
  C5. The task tables are a ledger. From every store that the task operations can produce, any
  sequence of calls that bind a project, create, import or update tasks (one or many, with or
  without events), append an event, or read a task or its events, has exactly the answers,
  refusals and their codes included, of the same calls on a map from ids to tasks with a
  compare-and-swap on the revision; and the tables afterwards stand for the map afterwards.
\<close>

theorem task_tables_refine_ledger:
  assumes "store_change\<^sup>*\<^sup>* empty_store db"
    and "run_calls (\<lambda>(now, c). store_call now c) calls db = (answers, db')"
  shows "run_calls (\<lambda>(now, c). ledger_call now c) calls (ledger_of db) = (answers, ledger_of db')"
  using tables.histories [OF _ assms(2)] store_run_ok [OF assms(1)] by simp

definition sample_calls :: "(time \<times> task_call) list" where
  "sample_calls = [(created_at sample_task, CreateCall [sample_task]),
     (created_at sample_task, UpdateCall (first_revision sample_task) None),
     (created_at sample_task, UpdateCall (first_revision sample_task) None)]"

definition sample_history :: "task_answer list \<times> store" where
  "sample_history = run_calls (\<lambda>(now, c). store_call now c) sample_calls sample_store"

lemma sample_history_answers:
  "fst sample_history = [Accepted [first_revision sample_task],
     Accepted [next_version (first_revision sample_task)],
     Refused ''DATABASE_CONFLICT'' [first_revision sample_task]]"
  unfolding sample_history_def sample_calls_def
  by (simp add: CreateTasks_def Let_def insert_created_def insertTask_def insertEvent_def find_row_def
      sample_store_def empty_store_def BindProject_def project_bound_def created_event_def
      UpdateTask_def updateTask_def updateTaskRecord_def answered_def next_version_def
      rows_where_def update_where_def first_revision_def sample_task_def encodeTask_def)

theorem task_tables_refine_ledger_witness:
  "run_calls (\<lambda>(now, c). ledger_call now c) sample_calls (ledger_of sample_store) =
   ([Accepted [first_revision sample_task], Accepted [next_version (first_revision sample_task)],
     Refused ''DATABASE_CONFLICT'' [first_revision sample_task]], ledger_of (snd sample_history))"
  by (rule task_tables_refine_ledger [OF r_into_rtranclp [of store_change, OF sample_store_ok(2)]])
    (metis sample_history_answers sample_history_def prod.collapse)

end
