(* ===== verification/Task_Recovery.thy ===== *)
theory Task_Recovery
  imports Task_Lookup Configuration
begin

text \<open>
  Reading the logs of a task and bringing back a task whose database is lost (\<open>Logs\<close>,
  \<open>Recover\<close>, \<open>RecoveryCandidates\<close> and \<open>safeTaskRelative\<close> of \<open>internal/app/app.go\<close>). Decoding
  the metadata file (\<open>encoding/json\<close>) is the parameter \<open>decode\<close>.
\<close>

section \<open>Paths of a remote task\<close>

definition safeTaskRelative :: "string \<Rightarrow> bool \<Rightarrow> bool" where
  "safeTaskRelative v allowDot =
     (if bs \<in> set v \<or> nul \<in> set v then False
      else if v = [] then \<not> allowDot
      else let cleaned = path_clean v
        in if allowDot \<and> cleaned = ''.'' then v = ''.''
           else cleaned = v \<and> \<not> path_is_abs cleaned \<and> cleaned \<noteq> ''..'' \<and> \<not> has_prefix cleaned ''../'')"

lemma safeTaskRelative_iff:
  "safeTaskRelative v dot \<longleftrightarrow> bs \<notin> set v \<and> nul \<notin> set v \<and> (v = [] \<and> \<not> dot \<or> v = ''.'' \<or> plain_path v)"
proof (cases "v = [] \<or> v = ''.''")
  case True
  have "path_clean ''.'' = ''.''" by code_simp
  with True show ?thesis by (auto simp: safeTaskRelative_def path_is_abs_def plain_path_iff)
next
  case False
  then have "safeTaskRelative v dot \<longleftrightarrow> bs \<notin> set v \<and> nul \<notin> set v \<and> path_clean v = v \<and> \<not> path_is_abs v \<and>
      v \<noteq> ''..'' \<and> \<not> has_prefix v ''../''"
    by (cases "path_clean v = v") (auto simp: safeTaskRelative_def Let_def)
  with False show ?thesis unfolding plain_path_iff by blast
qed

section \<open>Logs\<close>

record log_result =
  lg_task :: string
  lg_path :: string
  lg_kind :: string
  lg_content :: string

definition log_candidates :: "task \<Rightarrow> string \<Rightarrow> (go_error, (string \<times> string) list) result" where
  "log_candidates t requested =
     (if requested \<noteq> []
      then (if \<not> safeTaskRelative requested True then Inl (fault_new ''INVALID_ARGUMENT'' False)
            else Inr [(requested, ''requested'')])
      else Inr (map (\<lambda>p. (p, ''application'')) (filter (\<lambda>p. p \<noteq> []) (log_paths t)) @
        (if scheduler_id t \<noteq> []
         then [(LogName (scheduler_id t), ''scheduler''), (''slurm-'' @ scheduler_id t @ ''.out'', ''scheduler_legacy'')]
         else [])))"

definition log_probe :: "int \<Rightarrow> nat \<Rightarrow> string \<Rightarrow> string" where
  "log_probe lines i p = ''if test -f '' @ Quote p @ ''; then printf '' @ [sq] @ ''JOYRUN_LOG_FOUND|'' @ itoa i @
     [bs] @ ''n'' @ [sq] @ ''; tail -n '' @ int_text lines @ '' -- '' @ Quote p @ ''; exit 0; fi; ''"

definition log_command :: "task \<Rightarrow> int \<Rightarrow> (string \<times> string) list \<Rightarrow> string" where
  "log_command t lines cands = ''cd '' @ Quote (path_join [remote_dir t, ''work'']) @ '' || exit 1; '' @
     concat (map (\<lambda>i. log_probe lines i (fst (cands ! i))) [0..<length cands]) @
     ''printf '' @ [sq] @ ''JOYRUN_LOG_MISSING'' @ [bs] @ ''n'' @ [sq]"

definition log_answer :: "task \<Rightarrow> (string \<times> string) list \<Rightarrow> string \<Rightarrow> (go_error, log_result) result" where
  "log_answer t cands stdout =
     (let (status, content) = (case cut_at nl stdout of Some (a, b) \<Rightarrow> (a, b) | None \<Rightarrow> (stdout, []));
          index = (if has_prefix status ''JOYRUN_LOG_FOUND|'' then parse_int64 (trim_prefix status ''JOYRUN_LOG_FOUND|'') else None)
      in if \<exists>i. index = Some i \<and> 0 \<le> i \<and> i < int (length cands)
         then (let c = cands ! nat (the index)
           in Inr \<lparr>lg_task = task_id t, lg_path = fst c, lg_kind = snd c, lg_content = content\<rparr>)
         else Inl (with_task ''logs'' (compute_state t) (pull_state t)
           (fault_new (if status \<noteq> ''JOYRUN_LOG_MISSING'' then ''LOG_FAILED'' else ''LOG_NOT_READY'') True)))"

definition Logs ::
    "'w outside \<Rightarrow> file_system \<Rightarrow> 'w \<Rightarrow> store \<Rightarrow> string \<Rightarrow> string \<Rightarrow> int \<Rightarrow> string \<Rightarrow>
     (go_error, log_result) result \<times> 'w \<times> store" where
  "Logs env fsys w db cwd identifier lines requested = (case ResolveTask fsys (clock env w) db cwd identifier of
     (Inl e, db1) \<Rightarrow> (Inl e, w, db1)
   | (Inr (t, p), db1) \<Rightarrow> (case clusters env (cluster_name t) of
       None \<Rightarrow> (Inl (with_task ''logs'' (compute_state t) (pull_state t) (fault_new ''CLUSTER_NOT_FOUND'' False)), w, db1)
     | Some c \<Rightarrow> (case log_candidates t requested of
         Inl e \<Rightarrow> (Inl e, w, db1)
       | Inr cands \<Rightarrow>
           if cands = []
           then (Inl (with_task ''logs'' (compute_state t) (pull_state t) (fault_new ''LOG_NOT_READY'' True)), w, db1)
           else (case exec_cmd env w (cluster_host c) (log_command t lines cands) [] of
               ((stdout, stderr, Some e), w1) \<Rightarrow>
                 (Inl (with_task ''logs'' (compute_state t) (pull_state t) (fault_wrap ''LOG_FAILED'' [] True e)), w1, db1)
             | ((stdout, stderr, None), w1) \<Rightarrow> (log_answer t cands stdout, w1, db1)))))"

section \<open>Recovering one task\<close>

definition recovery_failed :: go_error where
  "recovery_failed = fault_new ''RECOVERY_FAILED'' False"

definition safe_entry :: "string option \<Rightarrow> bool" where
  "safe_entry entry = (case entry of None \<Rightarrow> True
     | Some e \<Rightarrow> \<not> (e = [] \<or> bs \<in> set e \<or> nul \<in> set e \<or> path_base e \<noteq> e))"

text \<open>The checks of \<open>Recover\<close> before it looks at the scheduler id.\<close>

definition metadata_accepted :: "project \<Rightarrow> string \<Rightarrow> string \<Rightarrow> cluster \<Rightarrow> string \<Rightarrow> task \<Rightarrow> bool" where
  "metadata_accepted p targetName clusterName c i t \<longleftrightarrow>
     \<not> (task_id t \<noteq> i \<or> project_id t \<noteq> proj_id p) \<and>
     task_meta t ''recovery_format'' = ''1'' \<and>
     \<not> (target_name t \<noteq> targetName \<or> cluster_name t \<noteq> clusterName \<or>
        path_clean (remote_dir t) \<noteq> path_join [remote_root c, i]) \<and>
     \<not> (\<not> safeTaskRelative (source_path t) True \<or> \<not> safeTaskRelative (source_workdir t) False) \<and>
     safe_entry (source_entry t)"

definition default_states :: "task \<Rightarrow> task" where
  "default_states t =
     (let t1 = (if compute_state t = no_compute_state then t\<lparr>compute_state := ComputeCreated\<rparr> else t)
      in if pull_state t1 = no_pull_state then t1\<lparr>pull_state := PullNotPulled\<rparr> else t1)"

definition found_job :: "task \<Rightarrow> string \<Rightarrow> task" where
  "found_job t i =
     (let t1 = t\<lparr>scheduler_id := i\<rparr>
      in if i \<noteq> [] \<and> compute_state t1 \<in> {ComputeCreated, ComputeSubmissionFailed, ComputeSubmissionUncertain}
         then t1\<lparr>compute_state := ComputeQueued\<rparr> else t1)"

definition import_recovered ::
    "'w outside \<Rightarrow> 'w \<Rightarrow> store \<Rightarrow> task \<Rightarrow> (go_error option \<times> task) option \<times> 'w \<times> store" where
  "import_recovered env w db t = (case ImportTask db (clock env w) t of
     (Inl e, t', db') \<Rightarrow> (Some (Some e, t'), w, db')
   | (Inr _, t', db') \<Rightarrow> refreshTask env w db' t')"

definition recover_decoded ::
    "'w outside \<Rightarrow> project \<Rightarrow> string \<Rightarrow> string \<Rightarrow> cluster \<Rightarrow> string \<Rightarrow> 'w \<Rightarrow> store \<Rightarrow> task \<Rightarrow>
     (go_error option \<times> task) option \<times> 'w \<times> store" where
  "recover_decoded env p targetName clusterName c i w db t0 =
     (if \<not> metadata_accepted p targetName clusterName c i t0 then (Some (Some recovery_failed, t0), w, db)
      else let t = default_states t0
        in if scheduler_id t \<noteq> []
           then (if parse_uint64 (scheduler_id t) = None then (Some (Some recovery_failed, t), w, db)
                 else import_recovered env w db t)
           else (case recoverSchedulerID (exec_cmd env) w c t of
               (Inl e, w1) \<Rightarrow>
                 (Some (Some (with_task ''recovery'' (compute_state t) (pull_state t) (fault_as e)), t), w1, db)
             | (Inr j, w1) \<Rightarrow> import_recovered env w1 db (found_job t j)))"

text \<open>
  \<open>Recover\<close>. A target without a configured cluster has the zero cluster. \<open>None\<close> is the panic
  of the query of one task.
\<close>

definition Recover ::
    "'w outside \<Rightarrow> (string \<Rightarrow> (go_error, task) result) \<Rightarrow> (string \<rightharpoonup> target) \<Rightarrow> file_system \<Rightarrow> 'w \<Rightarrow> store \<Rightarrow>
     string \<Rightarrow> string \<Rightarrow> string \<Rightarrow> (go_error option \<times> task) option \<times> 'w \<times> store" where
  "Recover env decode targets fsys w db cwd i targetName = (case bound_project fsys (clock env w) db cwd of
     (Inl e, db1) \<Rightarrow> (Some (Some e, no_task), w, db1)
   | (Inr p, db1) \<Rightarrow> (case targets targetName of
       None \<Rightarrow> (Some (Some (fault_new ''TARGET_NOT_FOUND'' False), no_task), w, db1)
     | Some tg \<Rightarrow>
         let c = (case clusters env (tg_cluster tg) of Some c \<Rightarrow> c | None \<Rightarrow> no_cluster)
         in case ReadFile (exec_cmd env) w (cluster_host c) (path_join [remote_root c, i, ''metadata.json'']) of
              (Inl e, w1) \<Rightarrow> (Some (Some e, no_task), w1, db1)
            | (Inr data, w1) \<Rightarrow> (case decode data of
                Inl e \<Rightarrow> (Some (Some (fault_wrap ''RECOVERY_FAILED'' [] False e), no_task), w1, db1)
              | Inr t \<Rightarrow> recover_decoded env p targetName (tg_cluster tg) c i w1 db1 t)))"

section \<open>Listing what can be recovered\<close>

record recovery_candidate =
  rc_task :: string
  rc_source :: string
  rc_compute :: compute_state
  rc_updated :: time

definition candidate_accepted :: "project \<Rightarrow> string \<Rightarrow> string \<Rightarrow> cluster \<Rightarrow> string \<Rightarrow> task \<Rightarrow> bool" where
  "candidate_accepted p targetName clusterName c i t \<longleftrightarrow>
     \<not> (task_id t \<noteq> i \<or> project_id t \<noteq> proj_id p \<or> target_name t \<noteq> targetName \<or> cluster_name t \<noteq> clusterName \<or>
        path_clean (remote_dir t) \<noteq> path_join [remote_root c, i] \<or> \<not> safeTaskRelative (source_path t) True \<or>
        \<not> safeTaskRelative (source_workdir t) False \<or> task_meta t ''recovery_format'' \<noteq> ''1'')"

definition candidate_of :: "task \<Rightarrow> recovery_candidate" where
  "candidate_of t = \<lparr>rc_task = task_id t, rc_source = source_path t, rc_compute = compute_state t, rc_updated = updated_at t\<rparr>"

fun scan_candidates ::
    "(string \<Rightarrow> (go_error, task) result) \<Rightarrow> (string \<Rightarrow> task \<Rightarrow> bool) \<Rightarrow> string list \<Rightarrow> string set \<Rightarrow> recovery_candidate list" where
  "scan_candidates decode accepted (directory # data # rest) seen =
     (let i = path_base directory
      in if i = [] \<or> \<not> has_prefix i ''jr_'' \<or> i \<in> seen then scan_candidates decode accepted rest seen
         else (case decode data of
             Inl _ \<Rightarrow> scan_candidates decode accepted rest (insert i seen)
           | Inr t \<Rightarrow> (if accepted i t then [candidate_of t] else []) @ scan_candidates decode accepted rest (insert i seen)))"
| "scan_candidates decode accepted _ seen = []"

definition recovery_script :: string where
  "recovery_script = ''for file do directory=${file%/metadata.json}; printf '' @ [sq] @ ''%s'' @ [bs] @ ''0'' @ [sq] @
     '' '' @ [dq] @ ''$directory'' @ [dq] @ ''; cat -- '' @ [dq] @ ''$file'' @ [dq] @ ''; printf '' @ [sq, bs] @ ''0'' @ [sq] @ ''; done''"

definition recovery_command :: "cluster \<Rightarrow> string" where
  "recovery_command c = ''find '' @ Quote (remote_root c) @
     '' -mindepth 2 -maxdepth 2 -type f -name metadata.json -exec sh -c '' @ Quote recovery_script @
     '' joyrun-recovery {} +''"

text \<open>
  \<open>sort.Slice\<close> by the update time, the latest first; candidates updated at the same time
  keep their order here, which Go leaves open.
\<close>

definition RecoveryCandidates ::
    "'w outside \<Rightarrow> (string \<Rightarrow> (go_error, task) result) \<Rightarrow> (string \<rightharpoonup> target) \<Rightarrow> file_system \<Rightarrow> 'w \<Rightarrow> string \<Rightarrow> string \<Rightarrow>
     (go_error, recovery_candidate list) result \<times> 'w" where
  "RecoveryCandidates env decode targets fsys w cwd targetName = (case Discover fsys cwd of
     Inl e \<Rightarrow> (Inl e, w)
   | Inr p \<Rightarrow> (case targets targetName of
       None \<Rightarrow> (Inl (fault_new ''TARGET_NOT_FOUND'' False), w)
     | Some tg \<Rightarrow>
         let c = (case clusters env (tg_cluster tg) of Some c \<Rightarrow> c | None \<Rightarrow> no_cluster)
         in case exec_cmd env w (cluster_host c) (recovery_command c) [] of
              ((stdout, stderr, Some e), w1) \<Rightarrow> (Inl (fault_wrap ''RECOVERY_SCAN_FAILED'' [] True e), w1)
            | ((stdout, stderr, None), w1) \<Rightarrow>
                (Inr (sort_desc rc_updated (scan_candidates decode
                   (candidate_accepted p targetName (tg_cluster tg) c) (split_on nul stdout) {})), w1)))"


text \<open>
  The scan lists every task that \<open>Recover\<close> would accept so far; the reverse fails only for the
  source entry, which the scan does not check.
\<close>

lemma metadata_accepted_listed:
  "metadata_accepted p targetName clusterName c i t \<longleftrightarrow>
     candidate_accepted p targetName clusterName c i t \<and> safe_entry (source_entry t)"
  by (auto simp: metadata_accepted_def candidate_accepted_def)

text \<open>Every listed candidate was read from a directory whose name is its task id.\<close>

lemma scan_candidates_accepted:
  "x \<in> set (scan_candidates decode accepted records seen) \<Longrightarrow>
   \<exists>i t data. i \<notin> seen \<and> has_prefix i ''jr_'' \<and> data \<in> set records \<and> decode data = Inr t \<and> accepted i t \<and> x = candidate_of t"
  by (induction decode accepted records seen rule: scan_candidates.induct)
    (auto simp: Let_def split: if_splits sum.splits, blast+)

text \<open>A log that is shown is one of the candidates, and its content is what follows the first line.\<close>

lemma log_answer_shown:
  assumes "log_answer t cands out = Inr g"
  shows "(lg_path g, lg_kind g) \<in> set cands \<and> lg_task g = task_id t \<and>
    (\<exists>line. has_prefix line ''JOYRUN_LOG_FOUND|'' \<and> nl \<notin> set line \<and>
       (out = line @ nl # lg_content g \<or> out = line \<and> lg_content g = []))"
proof -
  obtain line rest where cut: "(case cut_at nl out of Some (a, b) \<Rightarrow> (a, b) | None \<Rightarrow> (out, [])) = (line, rest)"
    by (rule prod.exhaust)
  have line: "nl \<notin> set line \<and> (out = line @ nl # rest \<or> out = line \<and> rest = [])"
  proof (cases "cut_at nl out")
    case None
    then have "nl \<notin> set out" unfolding cut_at_def by (simp split: if_splits)
    with None cut show ?thesis by simp
  next
    case (Some ab)
    with cut have "cut_at nl out = Some (line, rest)" by simp
    from cut_at_Some [OF this] show ?thesis by simp
  qed
  define index where "index = (if has_prefix line ''JOYRUN_LOG_FOUND|'' then parse_int64 (trim_prefix line ''JOYRUN_LOG_FOUND|'') else None)"
  from assms obtain j where j: "index = Some j" "0 \<le> j" "j < int (length cands)"
    and g: "g = \<lparr>lg_task = task_id t, lg_path = fst (cands ! nat j), lg_kind = snd (cands ! nat j), lg_content = rest\<rparr>"
    unfolding log_answer_def cut Let_def prod.case index_def [symmetric] by (auto split: if_splits)
  have "has_prefix line ''JOYRUN_LOG_FOUND|''" using j(1) by (simp add: index_def split: if_splits)
  moreover have "(lg_path g, lg_kind g) \<in> set cands" using j by (simp add: g)
  ultimately show ?thesis using line by (auto simp: g)
qed

section \<open>What an observation of a task leaves alone\<close>

text \<open>
  The task a caller holds belongs to the stored one (the rest of it may be out of date), and
  a step that changes at most the other columns of this row, whether its writes are
  committed or refused.
\<close>

definition belongs :: "store \<Rightarrow> task \<Rightarrow> bool" where
  "belongs db t \<longleftrightarrow> (\<exists>x. find_row db (task_id t) = Some x \<and> same_snapshot t (scanTask x))"

definition touches_only :: "string \<Rightarrow> store \<Rightarrow> store \<Rightarrow> bool" where
  "touches_only i db db' \<longleftrightarrow> store_ok db' \<and> (\<forall>j. j \<noteq> i \<longrightarrow> find_row db' j = find_row db j) \<and>
     (\<forall>x. find_row db i = Some x \<longrightarrow> (\<exists>y. find_row db' i = Some y \<and> same_snapshot (scanTask y) (scanTask x)))"

lemma touches_only_refl: "store_ok db \<Longrightarrow> touches_only i db db"
  by (auto simp: touches_only_def)

lemma touches_only_trans:
  assumes "touches_only i a b" and "touches_only i b c"
  shows "touches_only i a c"
proof -
  have "\<exists>y. find_row c i = Some y \<and> same_snapshot (scanTask y) (scanTask x)" if "find_row a i = Some x" for x
  proof -
    from assms(1) that obtain y where y: "find_row b i = Some y" "same_snapshot (scanTask y) (scanTask x)"
      by (auto simp: touches_only_def)
    with assms(2) obtain z where "find_row c i = Some z" "same_snapshot (scanTask z) (scanTask y)"
      by (auto simp: touches_only_def)
    with y(2) show ?thesis using same_snapshot_trans by blast
  qed
  with assms show ?thesis by (simp add: touches_only_def)
qed

lemma same_snapshot_sym: "same_snapshot a b \<Longrightarrow> same_snapshot b a"
  by (simp add: same_snapshot_def)

lemma updated_row:
  assumes "store_ok db" and "belongs db t" and "same_snapshot u t"
    and "db' = db \<and> t' = u \<or> t' = u\<lparr>revision := revision u + 1\<rparr> \<and> store_ok db' \<and>
      (\<forall>i. find_row db' i = (if i = task_id u then Some (encodeTask t') else find_row db i))"
  shows "touches_only (task_id t) db db'" and "belongs db' t'" and "same_snapshot t' t"
proof -
  have id: "task_id u = task_id t" by (rule same_snapshot_id [OF assms(3)])
  show st: "same_snapshot t' t" using assms(3,4) by auto
  obtain x where x: "find_row db (task_id t) = Some x" "same_snapshot t (scanTask x)"
    using assms(2) by (auto simp: belongs_def)
  have enc: "same_snapshot (scanTask (encodeTask t')) t'"
    using same_snapshot_stored [of t'] by (simp add: stored_def)
  have "touches_only (task_id t) db db' \<and> belongs db' t'" using assms(4)
  proof
    assume a: "db' = db \<and> t' = u"
    then have "belongs db' t'" using x id same_snapshot_trans [OF assms(3) x(2)] by (auto simp: belongs_def)
    with a assms(1) show ?thesis by (simp add: touches_only_refl)
  next
    assume a: "t' = u\<lparr>revision := revision u + 1\<rparr> \<and> store_ok db' \<and>
      (\<forall>i. find_row db' i = (if i = task_id u then Some (encodeTask t') else find_row db i))"
    then have row: "find_row db' (task_id t) = Some (encodeTask t')" by (simp add: id)
    have "same_snapshot (scanTask (encodeTask t')) (scanTask x)"
      using enc st x(2) same_snapshot_trans by blast
    with a row x(1) id have "touches_only (task_id t) db db'" by (auto simp: touches_only_def)
    moreover have "task_id t' = task_id t" by (rule same_snapshot_id [OF st])
    with row have "belongs db' t'" using same_snapshot_sym [OF enc] by (simp add: belongs_def)
    ultimately show ?thesis ..
  qed
  then show "touches_only (task_id t) db db'" "belongs db' t'" by simp_all
qed

lemma UpdateTask_row:
  assumes "UpdateTask db u = (r, t', db')" and "store_ok db" and "belongs db t" and "same_snapshot u t"
  shows "touches_only (task_id t) db db'" and "belongs db' t'" and "same_snapshot t' t"
proof -
  have "db' = db \<and> t' = u \<or> t' = u\<lparr>revision := revision u + 1\<rparr> \<and> store_ok db' \<and>
      (\<forall>i. find_row db' i = (if i = task_id u then Some (encodeTask t') else find_row db i))"
    using assms(1,2) by (cases rule: UpdateTask_cases) auto
  note updated_row [OF assms(2-4) this]
  then show "touches_only (task_id t) db db'" "belongs db' t'" "same_snapshot t' t" by blast+
qed

lemma UpdateTaskWithEvent_row:
  assumes "UpdateTaskWithEvent db now u e = (r, t', db')" and "store_ok db" and "belongs db t" and "same_snapshot u t"
  shows "touches_only (task_id t) db db'" and "belongs db' t'" and "same_snapshot t' t"
proof -
  have "db' = db \<and> t' = u \<or> t' = u\<lparr>revision := revision u + 1\<rparr> \<and> store_ok db' \<and>
      (\<forall>i. find_row db' i = (if i = task_id u then Some (encodeTask t') else find_row db i))"
    using assms(1,2) by (cases rule: UpdateTaskWithEvent_cases) auto
  note updated_row [OF assms(2-4) this]
  then show "touches_only (task_id t) db db'" "belongs db' t'" "same_snapshot t' t" by blast+
qed

lemma applySchedulerStatus_row:
  assumes "applySchedulerStatus db now t st = (r, db')" and "store_ok db" and "belongs db t"
  shows "touches_only (task_id t) db db'"
proof -
  define u where "u = observed t now (kept_status t st)"
  have u: "same_snapshot u t" "same_snapshot (u\<lparr>updated_at := now\<rparr>) t" by (simp_all add: u_def)
  show ?thesis
    using assms(1) UpdateTask_row(1) [OF _ assms(2,3) u(2)] UpdateTaskWithEvent_row(1) [OF _ assms(2,3) u(2)]
      touches_only_refl [OF assms(2)]
    unfolding applySchedulerStatus_def Let_def u_def [symmetric]
    by (auto split: if_splits prod.splits)
qed

lemma markSchedulerStale_row:
  assumes "markSchedulerStale db now t = (t', db')" and "store_ok db" and "belongs db t"
  shows "touches_only (task_id t) db db'"
proof -
  have "same_snapshot (stale_marked t now) t" by (simp add: stale_marked_def Let_def same_snapshot_def)
  from UpdateTask_row(1) [OF _ assms(2,3) this] assms(1) show ?thesis
    by (auto simp: markSchedulerStale_def split: prod.splits)
qed

lemma query_status_row:
  assumes "query_status env w db c t = (r, w', db')" and "store_ok db" and "belongs db t"
  shows "touches_only (task_id t) db db'"
  using assms(1) applySchedulerStatus_row [OF _ assms(2,3)] markSchedulerStale_row [OF _ assms(2,3)]
    touches_only_refl [OF assms(2)]
  by (auto simp: query_status_def split: prod.splits option.splits sum.splits)

lemma refreshTask_row:
  assumes "refreshTask env w db t = (r, w', db')" and "store_ok db" and "belongs db t"
  shows "touches_only (task_id t) db db'"
proof (cases "clusters env (cluster_name t)")
  case None
  with assms(1) touches_only_refl [OF assms(2)] show ?thesis by (simp add: refreshTask_def)
next
  case c: (Some c)
  show ?thesis
  proof (cases "scheduler_id t = []")
    case False
    with assms c query_status_row show ?thesis by (auto simp: refreshTask_def)
  next
    case True
    obtain m w1 where m: "recoverSchedulerID (exec_cmd env) w c t = (m, w1)" by (rule prod.exhaust)
    show ?thesis
    proof (cases m)
      case (Inl e)
      with assms c True m markSchedulerStale_row [OF _ assms(2,3)] show ?thesis
        by (auto simp: refreshTask_def split: prod.splits)
    next
      case (Inr i)
      let ?now = "clock env w1" let ?u = "recovered_task t ?now i"
      obtain x t2 db1 where u: "UpdateTaskWithEvent db ?now ?u
          (taskEvent ?u ''SCHEDULER_ID_RECOVERED'' ''status'' [''scheduler_id'' \<mapsto> i] ?now) = (x, t2, db1)"
        by (rule prod_cases3)
      have "same_snapshot ?u t" by (simp add: recovered_task_def same_snapshot_def)
      note row = UpdateTaskWithEvent_row [OF u assms(2,3) this]
      have ok: "store_ok db1" using row(1) by (simp add: touches_only_def)
      have later: "query_status env w1 db1 c t2 = (r, w', db') \<Longrightarrow> touches_only (task_id t) db1 db'"
        using query_status_row [OF _ ok row(2)] same_snapshot_id [OF row(3)] by metis
      show ?thesis
      proof (cases x)
        case (Inl e)
        with assms(1) c True m \<open>m = Inr i\<close> u row(1) touches_only_refl [OF assms(2)] show ?thesis
          by (auto simp: refreshTask_def Let_def split: if_splits)
      next
        case (Inr v)
        with assms(1) c True m \<open>m = Inr i\<close> u row(1) touches_only_refl [OF assms(2)] later show ?thesis
          by (auto simp: refreshTask_def Let_def intro: touches_only_trans split: if_splits)
      qed
    qed
  qed
qed

section \<open>What recovery stores\<close>

lemma same_snapshot_first [simp]: "same_snapshot (first_revision t) t"
  by (simp add: first_revision_def same_snapshot_def)

lemma ImportTask_row:
  assumes "ImportTask db now t = (r, t', db')"
  obtains (refused) e where "r = Inl e" "db' = db"
    "find_row db (task_id t) \<noteq> None \<or> \<not> project_bound db (project_id t)"
  | (stored) "r = Inr ()" "find_row db (task_id t) = None" "t' = first_revision t"
    "\<And>i. find_row db' i = (if i = task_id t then Some (encodeTask t') else find_row db i)"
proof (cases "find_row db (task_id t) = None \<and> project_bound db (project_id t)")
  case False
  with assms show thesis
    by (intro refused [of "projl r"])
      (auto simp: ImportTask_def GetTask_def insertTask_def first_revision_def Let_def split: option.splits if_splits)
next
  case True
  let ?t = "first_revision t"
  have id: "task_id ?t = task_id t" "project_id ?t = project_id t" by (simp_all add: first_revision_def)
  from True id obtain db1 where d1: "insertTask db ?t = Inr db1" by (simp add: insertTask_def)
  have f1: "find_row db1 i = (if i = task_id t then Some (encodeTask ?t) else find_row db i)" for i
    using insertTask_find [OF d1] id by simp
  define ev where "ev = \<lparr>ev_task = task_id ?t, ev_type = ''TASK_RECOVERED'',
    ev_stage = ''recovery'', ev_data = Map.empty, ev_created = now\<rparr>"
  have "find_row db1 (ev_task ev) \<noteq> None" using f1 id by (simp add: ev_def)
  then obtain db2 where d2: "insertEvent db1 ev = Inr db2" by (auto simp: insertEvent_def)
  have "ImportTask db now t = (Inr (), ?t, db2)"
    using True d1 d2 by (simp add: ImportTask_def GetTask_def Let_def ev_def)
  with assms have "r = Inr ()" "t' = ?t" "db' = db2" by simp_all
  with True f1 insertEvent_simps [OF d2] show thesis by (intro stored) auto
qed

definition recovery_frame :: "string \<Rightarrow> (task \<Rightarrow> bool) \<Rightarrow> store \<Rightarrow> store \<Rightarrow> bool" where
  "recovery_frame i good db db' \<longleftrightarrow> store_ok db' \<and> (\<forall>j. j \<noteq> i \<longrightarrow> find_row db' j = find_row db j) \<and>
     (\<forall>x. find_row db i = Some x \<longrightarrow> find_row db' i = Some x) \<and>
     (\<forall>y. find_row db i = None \<longrightarrow> find_row db' i = Some y \<longrightarrow> good (scanTask y))"

lemma recovery_frame_refl: "store_ok db \<Longrightarrow> recovery_frame i good db db"
  by (simp add: recovery_frame_def)

lemma import_recovered_row:
  assumes "import_recovered env w db t = (r, w', db')" and "store_ok db"
    and "\<And>u. same_snapshot u t \<Longrightarrow> good u"
  shows "recovery_frame (task_id t) good db db'"
    and "project_bound db (project_id t) \<Longrightarrow> find_row db' (task_id t) \<noteq> None"
proof -
  obtain x t1 db1 where i: "ImportTask db (clock env w) t = (x, t1, db1)" by (rule prod_cases3)
  have "recovery_frame (task_id t) good db db' \<and>
      (project_bound db (project_id t) \<longrightarrow> find_row db' (task_id t) \<noteq> None)"
    using i
  proof (cases rule: ImportTask_row)
    case (refused e)
    with assms(1) i have "db' = db" by (simp add: import_recovered_def)
    with refused(3) recovery_frame_refl [OF assms(2)] show ?thesis by auto
  next
    case stored
    have ok: "store_ok db1" using store_run_ok [OF r_into_rtranclp assms(2)] store_change.import [OF i] by blast
    have id: "task_id t1 = task_id t" using stored(3) by (simp add: first_revision_def)
    have "belongs db1 t1" using stored(4) id same_snapshot_sym [OF same_snapshot_stored [of t1]]
      by (simp add: belongs_def stored_def)
    moreover have "refreshTask env w db1 t1 = (r, w', db')" using assms(1) i stored(1) by (simp add: import_recovered_def)
    ultimately have to: "touches_only (task_id t) db1 db'" using refreshTask_row ok id by metis
    then obtain y where y: "find_row db' (task_id t) = Some y" "same_snapshot (scanTask y) (scanTask (encodeTask t1))"
      using stored(4) by (auto simp: touches_only_def)
    have "same_snapshot (scanTask y) t"
      using y(2) same_snapshot_stored [of t1] same_snapshot_first [of t] stored(3)
      unfolding stored_def by (blast intro: same_snapshot_trans)
    with assms(3) have "good (scanTask y)" .
    with to y(1) stored(2,4) show ?thesis by (simp add: recovery_frame_def touches_only_def)
  qed
  then show "recovery_frame (task_id t) good db db'"
    and "project_bound db (project_id t) \<Longrightarrow> find_row db' (task_id t) \<noteq> None" by blast+
qed

lemma default_states_snapshot [simp]:
  "same_snapshot (default_states t) t" "scheduler_id (default_states t) = scheduler_id t"
  "task_id (default_states t) = task_id t" "project_id (default_states t) = project_id t"
  by (simp_all add: default_states_def Let_def same_snapshot_def)

lemma found_job_snapshot [simp]: "same_snapshot (found_job t j) t"
  by (simp add: found_job_def Let_def same_snapshot_def)

lemma recover_decoded_row:
  assumes "recover_decoded env p targetName clusterName c i w db t = (r, w', db')" and "store_ok db"
    and "\<And>u. same_snapshot u t \<Longrightarrow> metadata_accepted p targetName clusterName c i t \<Longrightarrow> good u"
  shows "recovery_frame i good db db'"
    and "metadata_accepted p targetName clusterName c i t \<Longrightarrow> parse_uint64 (scheduler_id t) \<noteq> None \<Longrightarrow>
      scheduler_id t \<noteq> [] \<Longrightarrow> project_bound db (proj_id p) \<Longrightarrow> find_row db' i \<noteq> None"
proof -
  note refl = recovery_frame_refl [OF assms(2), of i good]
  have "recovery_frame i good db db' \<and> (metadata_accepted p targetName clusterName c i t \<longrightarrow>
      parse_uint64 (scheduler_id t) \<noteq> None \<longrightarrow> scheduler_id t \<noteq> [] \<longrightarrow> project_bound db (proj_id p) \<longrightarrow>
      find_row db' i \<noteq> None)" (is "?A \<and> ?B")
  proof (cases "metadata_accepted p targetName clusterName c i t")
    case False
    with assms(1) refl show ?thesis by (simp add: recover_decoded_def)
  next
    case acc: True
    then have ids: "task_id t = i" "project_id t = proj_id p" by (simp_all add: metadata_accepted_def)
    have imp: "recovery_frame i good db db' \<and> (project_bound db (proj_id p) \<longrightarrow> find_row db' i \<noteq> None)"
      if u: "import_recovered env v db u = (r, w', db')" "same_snapshot u t" for u v
    proof -
      have "task_id u = i" "project_id u = proj_id p" using u(2) ids by (simp_all add: same_snapshot_def)
      moreover have "same_snapshot x u \<Longrightarrow> good x" for x using assms(3) acc same_snapshot_trans [OF _ u(2)] by blast
      ultimately show ?thesis using import_recovered_row [OF u(1) assms(2), of good] by auto
    qed
    let ?t = "default_states t"
    show ?thesis
    proof (cases "scheduler_id t = []")
      case False
      with assms(1) acc refl imp [of w ?t] show ?thesis
        by (auto simp: recover_decoded_def Let_def split: if_splits)
    next
      case True
      obtain m w1 where m: "recoverSchedulerID (exec_cmd env) w c ?t = (m, w1)" by (rule prod.exhaust)
      have "?A"
      proof (cases m)
        case (Inl e)
        with assms(1) acc True m refl show ?thesis by (simp add: recover_decoded_def Let_def)
      next
        case (Inr j)
        with assms(1) acc True m have "import_recovered env w1 db (found_job ?t j) = (r, w', db')"
          by (simp add: recover_decoded_def Let_def)
        from imp [OF this same_snapshot_trans [OF found_job_snapshot default_states_snapshot(1)]] show ?thesis ..
      qed
      with True show ?thesis by simp
    qed
  qed
  then show "?A" and "metadata_accepted p targetName clusterName c i t \<Longrightarrow> parse_uint64 (scheduler_id t) \<noteq> None \<Longrightarrow>
      scheduler_id t \<noteq> [] \<Longrightarrow> project_bound db (proj_id p) \<Longrightarrow> find_row db' i \<noteq> None" by blast+
qed

lemma metadata_accepted_same:
  "metadata_accepted p targetName clusterName c i t \<Longrightarrow> same_snapshot u t \<Longrightarrow>
   task_id u = i \<and> project_id u = proj_id p \<and> target_name u = targetName \<and> cluster_name u = clusterName \<and>
   path_clean (remote_dir u) = path_join [remote_root c, i] \<and> (source_path u = ''.'' \<or> plain_path (source_path u)) \<and>
   (source_workdir u \<in> {[], ''.''} \<or> plain_path (source_workdir u)) \<and> safe_entry (source_entry u)"
  by (auto simp: metadata_accepted_def same_snapshot_def safeTaskRelative_iff)

definition sample_lost :: task where
  "sample_lost = sample_task\<lparr>project_id := ''pj'', source_path := ''a'', source_workdir := [],
     scheduler_id := ''7'', metadata := [''recovery_format'' \<mapsto> ''1'']\<rparr>"

definition sample_recovery_outside :: "unit outside" where
  "sample_recovery_outside = sample_outside\<lparr>clusters := [''c'' \<mapsto> no_cluster\<lparr>remote_root := ''/r''\<rparr>]\<rparr>"



end
