(* ===== verification/Command_Line.thy ===== *)
theory Command_Line
  imports Configuration Project_Sources
begin

text \<open>
  The arguments of a command (\<open>internal/cli\<close>): the global options, Go's \<open>flag\<close> package as the
  program uses it, the reordering before it, the sources named by \<open>--glob\<close> and \<open>--from\<close>, and the two
  rewritings of the arguments of a submission that the daemon admits. The files a pattern
  matches and the content of a file are parameters.
\<close>

section \<open>Which process runs a command\<close>

definition containsFlag :: "string list \<Rightarrow> string \<Rightarrow> bool" where
  "containsFlag args name = list_ex (\<lambda>v. v = name) args"

definition hasFlagPrefix :: "string list \<Rightarrow> string \<Rightarrow> bool" where
  "hasFlagPrefix args p = list_ex (\<lambda>v. has_prefix v p) args"

fun flagValue :: "string list \<Rightarrow> string \<Rightarrow> string" where
  "flagValue [] name = []"
| "flagValue (a # rest) name =
     (if a = name \<and> rest \<noteq> [] then hd rest
      else if has_prefix a (name @ ''='') then trim_prefix a (name @ ''='')
      else flagValue rest name)"

definition shouldUseDaemon :: "string list \<Rightarrow> bool" where
  "shouldUseDaemon args = (case args of [] \<Rightarrow> False
     | a # rest \<Rightarrow>
         if a \<in> {''config'', ''database'', ''version'', ''--version'', ''help'', ''--help'', ''-h'', ''daemon''} then False
         else if a = ''target'' then rest = [] \<or> hd rest \<notin> {''list'', ''show'', ''params''}
         else True)"

definition knownCommand :: "string \<Rightarrow> bool" where
  "knownCommand name \<longleftrightarrow> name \<in> {''config'', ''database'', ''operation'', ''init'', ''submit'', ''status'', ''watch'', ''list'',
     ''inspect'', ''logs'', ''files'', ''pull'', ''cancel'', ''target'', ''doctor'', ''recover'', ''daemon''}"

text \<open>\<open>extractGlobals\<close>: whether JSON is asked for, the configuration file, and what remains.\<close>

fun extractGlobals :: "string list \<Rightarrow> bool \<Rightarrow> string \<Rightarrow> bool \<times> string \<times> string list" where
  "extractGlobals [] json config = (json, config, [])"
| "extractGlobals (a # rest) json config =
     (if a = ''--json'' then extractGlobals rest True config
      else if a = ''--config'' then (case rest of
          c # rest' \<Rightarrow> extractGlobals rest' json c
        | [] \<Rightarrow> (json, config, [a]))
      else if has_prefix a ''--config='' then extractGlobals rest json (trim_prefix a ''--config='')
      else (case extractGlobals rest json config of (j, c, r) \<Rightarrow> (j, c, a # r)))"

section \<open>The flag package\<close>

datatype flag_kind = TextFlag | BoolFlag

text \<open>
  \<open>FlagSet.Parse\<close>: the assignments in the order they are made, and the arguments that are left;
  \<open>Inl\<close> is an error (or the request for help). A boolean is set from \<open>strconv.ParseBool\<close>.
\<close>

function parse_flags ::
    "(string \<rightharpoonup> flag_kind) \<Rightarrow> string list \<Rightarrow> (unit, (string \<times> string) list \<times> string list) result" where
  "parse_flags kinds [] = Inr ([], [])"
| "parse_flags kinds (s # rest) =
     (if length s < 2 \<or> hd s \<noteq> CHR ''-'' then Inr ([], s # rest)
      else if s = ''--'' then Inr ([], rest)
      else let given = (if s ! 1 = CHR ''-'' then drop 2 s else drop 1 s)
        in if given = [] \<or> hd given = CHR ''-'' \<or> hd given = CHR ''='' then Inl ()
           else let (name, value) = (case cut_at (CHR ''='') given of Some (a, b) \<Rightarrow> (a, Some b) | None \<Rightarrow> (given, None))
             in (case kinds name of
                  None \<Rightarrow> Inl ()
                | Some BoolFlag \<Rightarrow> (case parse_bool (case value of Some v \<Rightarrow> v | None \<Rightarrow> ''true'') of
                    None \<Rightarrow> Inl ()
                  | Some b \<Rightarrow> map_sum id (apfst (Cons (name, if b then ''true'' else ''false''))) (parse_flags kinds rest))
                | Some TextFlag \<Rightarrow> (case value of
                    Some v \<Rightarrow> map_sum id (apfst (Cons (name, v))) (parse_flags kinds rest)
                  | None \<Rightarrow> (case rest of
                      [] \<Rightarrow> Inl ()
                    | v # rest' \<Rightarrow> map_sum id (apfst (Cons (name, v))) (parse_flags kinds rest')))))"
  by pat_completeness auto
termination by (relation "measure (length \<circ> snd)") auto

text \<open>The options moved before the positional arguments; \<open>valued\<close> and \<open>switches\<close> are the known ones.\<close>

definition flag_name :: "string \<Rightarrow> string" where
  "flag_name v = (case cut_at (CHR ''='') v of Some (a, b) \<Rightarrow> a | None \<Rightarrow> v)"

fun split_args :: "string set \<Rightarrow> string set \<Rightarrow> string list \<Rightarrow> string list \<times> string list" where
  "split_args valued switches [] = ([], [])"
| "split_args valued switches [v] =
     (if flag_name v \<in> switches \<or> flag_name v \<in> valued \<or> has_prefix v ''-'' then ([v], []) else ([], [v]))"
| "split_args valued switches (v # a # rest) =
     (if flag_name v \<in> switches then apfst (Cons v) (split_args valued switches (a # rest))
      else if flag_name v \<in> valued then
        (if CHR ''='' \<in> set v then apfst (Cons v) (split_args valued switches (a # rest))
         else apfst (\<lambda>os. v # a # os) (split_args valued switches rest))
      else if has_prefix v ''-'' then apfst (Cons v) (split_args valued switches (a # rest))
      else apsnd (Cons v) (split_args valued switches (a # rest)))"

definition interspersed :: "string set \<Rightarrow> string set \<Rightarrow> string list \<Rightarrow> string list" where
  "interspersed valued switches args = (case split_args valued switches args of (os, ps) \<Rightarrow> os @ ps)"

section \<open>Integer flags\<close>

text \<open>
  \<open>strconv.ParseInt(s, 0, 64)\<close>, by which \<open>IntVar\<close> reads a value: a sign, a base prefix, digits, and
  underscores between digits. An integer flag is a text flag whose every value must parse.
\<close>

definition number_base :: "string \<Rightarrow> nat \<times> string" where
  "number_base s =
     (if s \<noteq> [] \<and> hd s = CHR ''0'' then
        (if length s \<ge> 3 \<and> lower_char (s ! 1) = CHR ''b'' then (2, drop 2 s)
         else if length s \<ge> 3 \<and> lower_char (s ! 1) = CHR ''o'' then (8, drop 2 s)
         else if length s \<ge> 3 \<and> lower_char (s ! 1) = CHR ''x'' then (16, drop 2 s)
         else (8, drop 1 s))
      else (10, s))"

definition base_digit :: "char \<Rightarrow> nat option" where
  "base_digit c = (if is_digit c then Some (digit_val c)
     else let l = (of_char (lower_char c) :: nat) in if 97 \<le> l \<and> l \<le> 122 then Some (l - 87) else None)"

fun based_value :: "nat \<Rightarrow> nat \<Rightarrow> string \<Rightarrow> nat option" where
  "based_value b n [] = Some n"
| "based_value b n (c # s) =
     (if c = CHR ''_'' then based_value b n s
      else case base_digit c of None \<Rightarrow> None | Some d \<Rightarrow> if d < b then based_value b (b * n + d) s else None)"

text \<open>\<open>underscoreOK\<close>, with the class of the last character: \<open>0\<close>, \<open>_\<close>, \<open>^\<close> or \<open>!\<close>.\<close>

fun underscores_between :: "bool \<Rightarrow> char \<Rightarrow> string \<Rightarrow> bool" where
  "underscores_between hex saw [] \<longleftrightarrow> saw \<noteq> CHR ''_''"
| "underscores_between hex saw (c # s) \<longleftrightarrow>
     (if is_digit c \<or> hex \<and> lower_char c \<in> set ''abcdef'' then underscores_between hex (CHR ''0'') s
      else if c = CHR ''_'' then saw = CHR ''0'' \<and> underscores_between hex (CHR ''_'') s
      else saw \<noteq> CHR ''_'' \<and> underscores_between hex (CHR ''!'') s)"

definition underscoreOK :: "string \<Rightarrow> bool" where
  "underscoreOK s =
     (if length s \<ge> 2 \<and> hd s = CHR ''0'' \<and> lower_char (s ! 1) \<in> set ''box''
      then underscores_between (lower_char (s ! 1) = CHR ''x'') (CHR ''0'') (drop 2 s)
      else underscores_between False (CHR ''^'') s)"

definition parse_uint_any :: "string \<Rightarrow> nat option" where
  "parse_uint_any s = (if s = [] then None
     else case number_base s of (b, ds) \<Rightarrow> (case based_value b 0 ds of
         None \<Rightarrow> None
       | Some n \<Rightarrow> if n < 2 ^ 64 \<and> (CHR ''_'' \<in> set ds \<longrightarrow> underscoreOK s) then Some n else None))"

definition parse_int_any :: "string \<Rightarrow> int option" where
  "parse_int_any s = (case s of
      [] \<Rightarrow> None
    | c # t \<Rightarrow>
        if c = CHR ''-'' then (case parse_uint_any t of
            Some n \<Rightarrow> if n \<le> 2 ^ 63 then Some (- int n) else None | None \<Rightarrow> None)
        else (case parse_uint_any (if c = CHR ''+'' then t else s) of
            Some n \<Rightarrow> if n < 2 ^ 63 then Some (int n) else None | None \<Rightarrow> None))"

text \<open>The last value of an integer flag, or its default; \<open>None\<close> where a value does not parse.\<close>

fun int_flag :: "string \<Rightarrow> (string \<times> string) list \<Rightarrow> int \<Rightarrow> int option" where
  "int_flag name [] v = Some v"
| "int_flag name ((n, x) # assigned) v =
     (if n = name then (case parse_int_any x of None \<Rightarrow> None | Some i \<Rightarrow> int_flag name assigned i)
      else int_flag name assigned v)"

definition text_flag :: "string \<Rightarrow> (string \<times> string) list \<Rightarrow> string \<Rightarrow> string" where
  "text_flag name assigned v = fold (\<lambda>(n, x) y. if n = name then x else y) assigned v"

definition switch_flag :: "string \<Rightarrow> (string \<times> string) list \<Rightarrow> bool" where
  "switch_flag name assigned = (text_flag name assigned ''false'' = ''true'')"

section \<open>The sources of a batch\<close>

text \<open>
  \<open>filepath.Glob\<close> (\<open>None\<close> for a malformed pattern), the files that can be read, and the
  directory of the process.
\<close>

record batch_files =
  bf_glob :: "string \<Rightarrow> string list option"
  bf_read :: "string \<Rightarrow> string option"
  bf_wd :: "string option"

definition at_base :: "string \<Rightarrow> string \<Rightarrow> string" where
  "at_base base v = (if base \<noteq> [] \<and> \<not> path_is_abs v then path_join [base, v] else v)"

fun glob_values :: "batch_files \<Rightarrow> string \<Rightarrow> string list \<Rightarrow> (go_error, string list) result" where
  "glob_values bf base [] = Inr []"
| "glob_values bf base (p # ps) = (case bf_glob bf (at_base base p) of
     None \<Rightarrow> Inl (fault_wrap ''INVALID_ARGUMENT'' [] False (PlainError ''syntax error in pattern''))
   | Some ms \<Rightarrow> if ms = [] then Inl (fault_new ''NO_SOURCES_MATCHED'' False)
       else map_sum id ((@) ms) (glob_values bf base ps))"

definition listed_lines :: "string \<Rightarrow> string \<Rightarrow> string list" where
  "listed_lines base data = map (at_base base)
     (filter (\<lambda>l. \<not> (l = [] \<or> has_prefix l ''#'')) (map trim_space (split_on nl data)))"

fun listed_values :: "batch_files \<Rightarrow> string \<Rightarrow> string list \<Rightarrow> (go_error, string list) result" where
  "listed_values bf base [] = Inr []"
| "listed_values bf base (f # fs) = (case bf_read bf (at_base base f) of
     None \<Rightarrow> Inl (fault_wrap ''INVALID_ARGUMENT'' [] False (PlainError ''cannot read''))
   | Some data \<Rightarrow> map_sum id ((@) (listed_lines base data)) (listed_values bf base fs))"

definition file_abs :: "string option \<Rightarrow> string \<Rightarrow> string option" where
  "file_abs wd p = (if path_is_abs p then Some (path_clean p) else map_option (\<lambda>d. path_join [d, p]) wd)"

text \<open>Each value once, compared by its absolute path below the directory of the process.\<close>

fun once_each :: "string option \<Rightarrow> string list \<Rightarrow> string set \<Rightarrow> (go_error, string list) result" where
  "once_each wd [] seen = Inr []"
| "once_each wd (v # vs) seen =
     (if trim_space v = [] then once_each wd vs seen
      else let c = path_clean (trim_space v)
        in case file_abs wd c of
             None \<Rightarrow> Inl (fault_wrap ''INVALID_ARGUMENT'' [] False (PlainError ''getwd''))
           | Some a \<Rightarrow> let key = path_clean a
               in if key \<in> seen then once_each wd vs seen
                  else map_sum id (Cons c) (once_each wd vs (insert key seen)))"

definition collectBatchValuesAt ::
    "batch_files \<Rightarrow> string \<Rightarrow> string list \<Rightarrow> string list \<Rightarrow> string list \<Rightarrow> (go_error, string list) result" where
  "collectBatchValuesAt bf base positional globs listed = (case glob_values bf base globs of
     Inl e \<Rightarrow> Inl e
   | Inr ms \<Rightarrow> (case listed_values bf base listed of
       Inl e \<Rightarrow> Inl e
     | Inr ls \<Rightarrow> once_each (bf_wd bf) (positional @ ms @ ls) {}))"

section \<open>The arguments of a submission\<close>

definition submit_valued :: "string set" where
  "submit_valued = {''--target'', ''-t'', ''--set'', ''--include'', ''--glob'', ''--from'', ''--partition'', ''--auto-pull''}"

definition submit_switches :: "string set" where
  "submit_switches = {''--dry-run'', ''--allow-project-root'', ''--force-new''}"

definition submit_kinds :: "string \<rightharpoonup> flag_kind" where
  "submit_kinds n =
     (if n \<in> {''target'', ''t'', ''set'', ''include'', ''glob'', ''from'', ''partition'', ''auto-pull''} then Some TextFlag
      else if n \<in> {''dry-run'', ''allow-project-root'', ''force-new''} then Some BoolFlag else None)"

record submit_options =
  so_target :: string
  so_partition :: string
  so_sets :: "string list"
  so_includes :: "string list"
  so_globs :: "string list"
  so_from :: "string list"
  so_dry_run :: bool
  so_project_root :: bool
  so_force_new :: bool
  so_auto_pull :: string

definition no_options :: submit_options where
  "no_options = \<lparr>so_target = [], so_partition = [], so_sets = [], so_includes = [], so_globs = [], so_from = [],
     so_dry_run = False, so_project_root = False, so_force_new = False, so_auto_pull = ''off''\<rparr>"

definition set_option :: "string \<times> string \<Rightarrow> submit_options \<Rightarrow> submit_options" where
  "set_option = (\<lambda>(name, v) so.
     if name \<in> {''target'', ''t''} then so\<lparr>so_target := v\<rparr>
     else if name = ''set'' then so\<lparr>so_sets := so_sets so @ [v]\<rparr>
     else if name = ''include'' then so\<lparr>so_includes := so_includes so @ [v]\<rparr>
     else if name = ''glob'' then so\<lparr>so_globs := so_globs so @ [v]\<rparr>
     else if name = ''from'' then so\<lparr>so_from := so_from so @ [v]\<rparr>
     else if name = ''partition'' then so\<lparr>so_partition := v\<rparr>
     else if name = ''dry-run'' then so\<lparr>so_dry_run := v = ''true''\<rparr>
     else if name = ''allow-project-root'' then so\<lparr>so_project_root := v = ''true''\<rparr>
     else if name = ''force-new'' then so\<lparr>so_force_new := v = ''true''\<rparr>
     else if name = ''auto-pull'' then so\<lparr>so_auto_pull := v\<rparr>
     else so)"

definition parse_submit :: "string list \<Rightarrow> (go_error, submit_options \<times> string list) result" where
  "parse_submit args = (case parse_flags submit_kinds (interspersed submit_valued submit_switches args) of
     Inl _ \<Rightarrow> Inl (fault_wrap ''INVALID_ARGUMENT'' [] False (PlainError ''flag''))
   | Inr (assigned, positional) \<Rightarrow> Inr (fold set_option assigned no_options, positional))"

fun keep_options :: "string set \<Rightarrow> string list \<Rightarrow> string list" where
  "keep_options valued [] = []"
| "keep_options valued (a # rest) =
     (if a = ''--glob'' \<or> a = ''--from'' then keep_options valued (tl rest)
      else if has_prefix a ''--glob='' \<or> has_prefix a ''--from='' then keep_options valued rest
      else if \<not> has_prefix a ''-'' then keep_options valued rest
      else a # (if a \<in> valued \<and> rest \<noteq> [] then hd rest # keep_options valued (tl rest) else keep_options valued rest))"

definition normalizeDetachedSubmitArgs ::
    "batch_files \<Rightarrow> string list \<Rightarrow> string \<Rightarrow> (go_error, string list) result" where
  "normalizeDetachedSubmitArgs bf args cwd = (case parse_submit args of
     Inl e \<Rightarrow> Inl e
   | Inr (so, positional) \<Rightarrow> (case collectBatchValuesAt bf cwd positional (so_globs so) (so_from so) of
       Inl e \<Rightarrow> Inl e
     | Inr sources \<Rightarrow> Inr (keep_options submit_valued (interspersed submit_valued submit_switches args) @ sources)))"

definition rewrite_valued :: "string set" where
  "rewrite_valued = {''-t'', ''--target'', ''--set'', ''--include'', ''--partition'', ''--auto-pull''}"

text \<open>The paths of the previewed sources in the place of the arguments that are neither options nor their values.\<close>

fun rewrite_sources :: "string list \<Rightarrow> string list \<Rightarrow> string list option" where
  "rewrite_sources [] paths = (if paths = [] then Some [] else None)"
| "rewrite_sources (a # rest) paths =
     (if a \<in> rewrite_valued then (case rest of
          [] \<Rightarrow> if paths = [] then Some [a] else None
        | v # rest' \<Rightarrow> map_option (\<lambda>r. a # v # r) (rewrite_sources rest' paths))
      else if CHR ''='' \<in> set a \<and> flag_name a \<in> rewrite_valued then map_option (Cons a) (rewrite_sources rest paths)
      else if has_prefix a ''-'' then map_option (Cons a) (rewrite_sources rest paths)
      else (case paths of [] \<Rightarrow> None | p # ps \<Rightarrow> map_option (Cons p) (rewrite_sources rest ps)))"

definition rewriteExplicitSources :: "string list \<Rightarrow> string list \<Rightarrow> (go_error, string list) result" where
  "rewriteExplicitSources args paths = (case rewrite_sources args paths of
     None \<Rightarrow> Inl (fault_new ''SOURCE_SNAPSHOT_FAILED'' False) | Some r \<Rightarrow> Inr r)"

section \<open>Reading the options back\<close>

text \<open>A flag in the spelling the program knows it by: one or two dashes, then its key.\<close>

definition plain_key :: "string \<Rightarrow> bool" where
  "plain_key k \<longleftrightarrow> k \<noteq> [] \<and> hd k \<noteq> CHR ''-'' \<and> CHR ''='' \<notin> set k"

definition flag_key :: "string \<Rightarrow> string" where
  "flag_key n = (if has_prefix n ''--'' then drop 2 n else drop 1 n)"

definition inline_value :: "string \<Rightarrow> string option" where
  "inline_value v = map_option snd (cut_at (CHR ''='') v)"

definition dash_free :: "string list \<Rightarrow> bool" where
  "dash_free vs \<longleftrightarrow> (\<forall>v\<in>set vs. \<not> has_prefix v ''-'')"

lemma dash_free_simps [simp]:
  "dash_free []" "dash_free (v # vs) \<longleftrightarrow> \<not> has_prefix v ''-'' \<and> dash_free vs"
  "dash_free (vs @ us) \<longleftrightarrow> dash_free vs \<and> dash_free us"
  by (auto simp: dash_free_def)

lemma flag_name_cases:
  obtains (bare) "CHR ''='' \<notin> set v" "flag_name v = v" "inline_value v = None"
  | (inline) b where "v = flag_name v @ CHR ''='' # b" "CHR ''='' \<notin> set (flag_name v)" "inline_value v = Some b"
proof (cases "cut_at (CHR ''='') v")
  case None
  then have "CHR ''='' \<notin> set v" by (simp add: cut_at_def split: if_splits)
  with None bare show thesis by (simp add: flag_name_def inline_value_def)
next
  case (Some ab)
  obtain a b where ab: "ab = (a, b)" by (rule prod.exhaust)
  with Some cut_at_Some [of "CHR ''=''" v a b] inline [of b] show thesis
    by (simp add: flag_name_def inline_value_def)
qed

lemma parse_flags_stop: "dash_free vs \<Longrightarrow> parse_flags kinds vs = Inr ([], vs)"
proof (cases vs)
  case (Cons s rest)
  assume "dash_free vs"
  with Cons have "length s < 2 \<or> hd s \<noteq> CHR ''-''" by (cases s) simp_all
  with Cons show ?thesis by simp
qed simp

declare parse_flags.simps(2) [simp del]

lemma parse_flags_known:
  assumes n: "flag_name v = n" "n = ''-'' @ k \<or> n = ''--'' @ k" and k: "plain_key k"
  shows "parse_flags kinds (v # rest) = (case kinds k of
       None \<Rightarrow> Inl ()
     | Some BoolFlag \<Rightarrow> (case parse_bool (case inline_value v of Some x \<Rightarrow> x | None \<Rightarrow> ''true'') of
         None \<Rightarrow> Inl ()
       | Some b \<Rightarrow> map_sum id (apfst (Cons (k, if b then ''true'' else ''false''))) (parse_flags kinds rest))
     | Some TextFlag \<Rightarrow> (case inline_value v of
         Some x \<Rightarrow> map_sum id (apfst (Cons (k, x))) (parse_flags kinds rest)
       | None \<Rightarrow> (case rest of
           [] \<Rightarrow> Inl ()
         | x # rest' \<Rightarrow> map_sum id (apfst (Cons (k, x))) (parse_flags kinds rest'))))"
proof -
  obtain c cs where c: "k = c # cs" "c \<noteq> CHR ''-''" "c \<noteq> CHR ''=''" "CHR ''='' \<notin> set cs"
    using k by (cases k) (auto simp: plain_key_def)
  have key: "flag_key n = k" using n(2) c by (auto simp: flag_key_def)
  obtain tail where v: "v = n @ tail" "tail = [] \<and> inline_value v = None \<or> (\<exists>b. tail = CHR ''='' # b \<and> inline_value v = Some b)"
    using n(1) by (cases v rule: flag_name_cases) auto
  define given where "given = (if v ! 1 = CHR ''-'' then drop 2 v else drop 1 v)"
  have g: "given = k @ tail" using n(2) c v(1) by (auto simp: given_def)
  have start: "\<not> (length v < 2 \<or> hd v \<noteq> CHR ''-'')" "v \<noteq> ''--''" using n(2) c v(1) by auto
  have nonempty: "\<not> (given = [] \<or> hd given = CHR ''-'' \<or> hd given = CHR ''='')" using g c by simp
  have cut: "(case cut_at (CHR ''='') given of Some (a, b) \<Rightarrow> (a, Some b) | None \<Rightarrow> (given, None)) = (k, inline_value v)"
  proof (cases tail)
    case Nil
    with g v(2) c have "given = k" "inline_value v = None" "cut_at (CHR ''='') k = None" by (auto simp: cut_at_def)
    then show ?thesis by simp
  next
    case (Cons x b)
    with v(2) have t: "tail = CHR ''='' # b" "inline_value v = Some b" by auto
    have "CHR ''='' \<notin> set k" using c by simp
    from cut_at_append [OF this, of b] g t show ?thesis by simp
  qed
  show ?thesis
    unfolding parse_flags.simps(2) given_def [symmetric] Let_def cut prod.case
    using start nonempty by (simp only: if_False)
qed

inductive option_list :: "string set \<Rightarrow> string set \<Rightarrow> string list \<Rightarrow> bool" for valued switches where
  no_option: "option_list valued switches []"
| switch: "flag_name v \<in> switches \<Longrightarrow> option_list valued switches os \<Longrightarrow> option_list valued switches (v # os)"
| inline: "flag_name v \<in> valued \<Longrightarrow> CHR ''='' \<in> set v \<Longrightarrow> option_list valued switches os \<Longrightarrow>
    option_list valued switches (v # os)"
| valued: "v \<in> valued \<Longrightarrow> option_list valued switches os \<Longrightarrow> option_list valued switches (v # a # os)"

text \<open>Every option is a known one in this spelling, and one that takes a value has it.\<close>

fun plain_args :: "string set \<Rightarrow> string set \<Rightarrow> string list \<Rightarrow> bool" where
  "plain_args valued switches [] = True"
| "plain_args valued switches [v] =
     (if flag_name v \<in> switches then True
      else if flag_name v \<in> valued then CHR ''='' \<in> set v else \<not> has_prefix v ''-'')"
| "plain_args valued switches (v # a # rest) =
     (if flag_name v \<in> switches then plain_args valued switches (a # rest)
      else if flag_name v \<in> valued then
        (if CHR ''='' \<in> set v then plain_args valued switches (a # rest) else plain_args valued switches rest)
      else \<not> has_prefix v ''-'' \<and> plain_args valued switches (a # rest))"

text \<open>
  The interface between the program's tables of known options and the flags it declares: each
  entry of a table is a flag of that kind, in one of the two spellings.
\<close>

locale flag_table =
  fixes valued switches :: "string set" and kinds :: "string \<rightharpoonup> flag_kind"
  assumes valued_known: "n \<in> valued \<Longrightarrow> \<exists>k. (n = ''-'' @ k \<or> n = ''--'' @ k) \<and> plain_key k \<and> kinds k = Some TextFlag"
    and switches_known: "n \<in> switches \<Longrightarrow> \<exists>k. (n = ''-'' @ k \<or> n = ''--'' @ k) \<and> plain_key k \<and> kinds k = Some BoolFlag"
begin

lemma key_of_entry: "n \<in> valued \<union> switches \<Longrightarrow>
    (n = ''-'' @ flag_key n \<or> n = ''--'' @ flag_key n) \<and> plain_key (flag_key n) \<and>
    kinds (flag_key n) = Some (if n \<in> switches then BoolFlag else TextFlag)"
proof -
  assume n: "n \<in> valued \<union> switches"
  then obtain k where k: "n = ''-'' @ k \<or> n = ''--'' @ k" "plain_key k"
      "n \<in> valued - switches \<and> kinds k = Some TextFlag \<or> n \<in> switches \<and> kinds k = Some BoolFlag"
    using valued_known [of n] switches_known [of n] by auto
  have "flag_key n = k" using k(1,2) by (cases k) (auto simp: flag_key_def plain_key_def)
  with k show ?thesis by auto
qed

lemma entry_facts: "n \<in> valued \<union> switches \<Longrightarrow> has_prefix n ''-'' \<and> CHR ''='' \<notin> set n"
proof -
  assume "n \<in> valued \<union> switches"
  then obtain k where "n = ''-'' @ k \<or> n = ''--'' @ k" "plain_key k"
    using valued_known [of n] switches_known [of n] by blast
  then show ?thesis by (auto simp: plain_key_def)
qed

lemma exclusive: "n \<in> valued \<Longrightarrow> n \<notin> switches"
  using valued_known [of n] switches_known [of n] by (auto simp: plain_key_def)

lemma entry_bare: "v \<in> valued \<union> switches \<Longrightarrow> flag_name v = v"
  using entry_facts [of v] by (simp add: flag_name_def cut_at_def)

lemma dash_entry: "\<not> has_prefix v ''-'' \<Longrightarrow> flag_name v \<notin> valued \<union> switches"
  using entry_facts [of "flag_name v"] by (cases v rule: flag_name_cases) (auto simp: has_prefix_iff)

lemma parse_switch: "flag_name v \<in> switches \<Longrightarrow> parse_flags kinds (v # rest) =
    (case parse_bool (case inline_value v of Some x \<Rightarrow> x | None \<Rightarrow> ''true'') of
       None \<Rightarrow> Inl ()
     | Some b \<Rightarrow> map_sum id (apfst (Cons (flag_key (flag_name v), if b then ''true'' else ''false''))) (parse_flags kinds rest))"
  using key_of_entry [of "flag_name v"] by (subst parse_flags_known [OF refl]) auto

lemma parse_inline: "flag_name v \<in> valued \<Longrightarrow> CHR ''='' \<in> set v \<Longrightarrow> parse_flags kinds (v # rest) =
    map_sum id (apfst (Cons (flag_key (flag_name v), the (inline_value v)))) (parse_flags kinds rest)"
proof -
  assume v: "flag_name v \<in> valued" "CHR ''='' \<in> set v"
  then obtain x where "inline_value v = Some x" by (cases v rule: flag_name_cases) auto
  with v show ?thesis using key_of_entry [of "flag_name v"] exclusive [of "flag_name v"]
    by (subst parse_flags_known [OF refl]) auto
qed

lemma parse_valued: "v \<in> valued \<Longrightarrow> parse_flags kinds (v # a # rest) =
    map_sum id (apfst (Cons (flag_key v, a))) (parse_flags kinds rest)"
proof -
  assume v: "v \<in> valued"
  then have "inline_value v = None" using entry_facts [of v] by (simp add: inline_value_def cut_at_def)
  with v show ?thesis using key_of_entry [of v] exclusive [OF v] entry_bare [of v]
    by (subst parse_flags_known [OF refl]) auto
qed

text \<open>Options read first leave the arguments behind them alone.\<close>

lemma parse_options_first:
  assumes "option_list valued switches os" and "dash_free ps"
  shows "parse_flags kinds (os @ ps) = map_sum id (apsnd (\<lambda>_. ps)) (parse_flags kinds os)"
  using assms(1)
proof induction
  case no_option
  then show ?case using parse_flags_stop [OF assms(2)] by simp
next
  case (switch v os)
  then show ?case
    by (cases "parse_flags kinds os") (auto simp: parse_switch split: option.splits)
next
  case (inline v os)
  then show ?case by (cases "parse_flags kinds os") (auto simp: parse_inline)
next
  case (valued v os a)
  then show ?case by (cases "parse_flags kinds os") (auto simp: parse_valued)
qed

lemma split_step: "split_args valued switches (v # rest) =
    (if flag_name v \<in> switches then apfst (Cons v) (split_args valued switches rest)
     else if flag_name v \<in> valued \<and> (CHR ''='' \<in> set v \<or> rest = []) then apfst (Cons v) (split_args valued switches rest)
     else if flag_name v \<in> valued then apfst (\<lambda>os. v # hd rest # os) (split_args valued switches (tl rest))
     else if has_prefix v ''-'' then apfst (Cons v) (split_args valued switches rest)
     else apsnd (Cons v) (split_args valued switches rest))"
  by (cases rest) auto

lemma split_dash_free: "dash_free ps \<Longrightarrow> split_args valued switches ps = ([], ps)"
  by (induction ps) (use dash_entry in \<open>auto simp: split_step\<close>)

lemma split_options:
  assumes "option_list valued switches os" and "dash_free ps"
  shows "split_args valued switches (os @ ps) = (os, ps)"
  using assms(1)
proof induction
  case no_option
  then show ?case using split_dash_free [OF assms(2)] by simp
next
  case (switch v os)
  then show ?case by (simp add: split_step)
next
  case (inline v os)
  then show ?case by (simp add: split_step)
next
  case (valued v os a)
  then show ?case using entry_facts [of v] entry_bare [of v] exclusive [of v] by (simp add: split_step)
qed

lemma interspersed_options:
  "option_list valued switches os \<Longrightarrow> dash_free ps \<Longrightarrow> interspersed valued switches (os @ ps) = os @ ps"
  by (simp add: interspersed_def split_options)

lemma plain_args_step: "plain_args valued switches (v # rest) =
    (if flag_name v \<in> switches then plain_args valued switches rest
     else if flag_name v \<in> valued \<and> CHR ''='' \<in> set v then plain_args valued switches rest
     else if flag_name v \<in> valued then rest \<noteq> [] \<and> plain_args valued switches (tl rest)
     else \<not> has_prefix v ''-'' \<and> plain_args valued switches rest)"
  by (cases rest) auto

lemma plain_args_split:
  "plain_args valued switches args \<Longrightarrow> split_args valued switches args = (os, ps) \<Longrightarrow>
   option_list valued switches os \<and> dash_free ps"
proof (induction "length args" arbitrary: args os ps rule: less_induct)
  case less
  show ?case
  proof (cases args)
    case Nil
    with less.prems show ?thesis by (auto intro: option_list.intros)
  next
    case (Cons v rest)
    obtain o1 p1 where one: "split_args valued switches rest = (o1, p1)" by (rule prod.exhaust)
    obtain o2 p2 where two: "split_args valued switches (tl rest) = (o2, p2)" by (rule prod.exhaust)
    have IH: "plain_args valued switches rest \<Longrightarrow> option_list valued switches o1 \<and> dash_free p1"
      "plain_args valued switches (tl rest) \<Longrightarrow> option_list valued switches o2 \<and> dash_free p2"
      using less.hyps [OF _ _ one] less.hyps [OF _ _ two] Cons by simp_all
    show ?thesis
    proof (cases "flag_name v \<in> valued - switches \<and> CHR ''='' \<notin> set v")
      case True
      then have "flag_name v = v" by (simp add: flag_name_def cut_at_def)
      with True less.prems Cons two IH(2) show ?thesis
        by (auto simp: split_step plain_args_step intro: option_list.intros split: if_splits)
    next
      case False
      with less.prems Cons one IH(1) show ?thesis
        by (auto simp: split_step plain_args_step intro: option_list.intros split: if_splits)
    qed
  qed
qed

text \<open>So the command line means its options and the other arguments, in their order.\<close>

lemma plain_args_meaning:
  assumes "plain_args valued switches args"
  obtains os ps where "interspersed valued switches args = os @ ps" "option_list valued switches os" "dash_free ps"
    "parse_flags kinds (interspersed valued switches args) = map_sum id (apsnd (\<lambda>_. ps)) (parse_flags kinds os)"
proof -
  obtain os ps where s: "split_args valued switches args = (os, ps)" by (rule prod.exhaust)
  from plain_args_split [OF assms s] have ol: "option_list valued switches os" "dash_free ps" by simp_all
  with s show thesis
    by (intro that [of os ps]) (simp_all add: interspersed_def parse_options_first)
qed

end

section \<open>The arguments of a detached submission\<close>

lemma submit_tables:
  "n \<in> submit_valued \<Longrightarrow> (n = ''-'' @ flag_key n \<or> n = ''--'' @ flag_key n) \<and> plain_key (flag_key n) \<and>
     submit_kinds (flag_key n) = Some TextFlag"
  "n \<in> submit_switches \<Longrightarrow> (n = ''-'' @ flag_key n \<or> n = ''--'' @ flag_key n) \<and> plain_key (flag_key n) \<and>
     submit_kinds (flag_key n) = Some BoolFlag"
proof -
  have "\<forall>n\<in>submit_valued. (n = ''-'' @ flag_key n \<or> n = ''--'' @ flag_key n) \<and> plain_key (flag_key n) \<and>
      submit_kinds (flag_key n) = Some TextFlag" unfolding submit_valued_def by code_simp
  then show "n \<in> submit_valued \<Longrightarrow> (n = ''-'' @ flag_key n \<or> n = ''--'' @ flag_key n) \<and> plain_key (flag_key n) \<and>
     submit_kinds (flag_key n) = Some TextFlag" by (rule bspec)
  have "\<forall>n\<in>submit_switches. (n = ''-'' @ flag_key n \<or> n = ''--'' @ flag_key n) \<and> plain_key (flag_key n) \<and>
      submit_kinds (flag_key n) = Some BoolFlag" unfolding submit_switches_def by code_simp
  then show "n \<in> submit_switches \<Longrightarrow> (n = ''-'' @ flag_key n \<or> n = ''--'' @ flag_key n) \<and> plain_key (flag_key n) \<and>
     submit_kinds (flag_key n) = Some BoolFlag" by (rule bspec)
qed

interpretation submit_flags: flag_table submit_valued submit_switches submit_kinds
  by unfold_locales (rule exI, erule submit_tables)+

definition selector :: "string \<Rightarrow> bool" where
  "selector n \<longleftrightarrow> n = ''--glob'' \<or> n = ''--from''"

definition selector_key :: "string \<Rightarrow> bool" where
  "selector_key k \<longleftrightarrow> k = ''glob'' \<or> k = ''from''"

lemma inline_prefix: "CHR ''='' \<notin> set n \<Longrightarrow> has_prefix v (n @ ''='') \<longleftrightarrow> CHR ''='' \<in> set v \<and> flag_name v = n"
proof (cases v rule: flag_name_cases)
  case bare
  then show ?thesis by (auto simp: has_prefix_iff)
next
  case (inline b)
  assume n: "CHR ''='' \<notin> set n"
  show ?thesis
  proof
    assume "has_prefix v (n @ ''='')"
    then obtain t where "v = n @ CHR ''='' # t" by (auto simp: has_prefix_iff)
    with cut_at_append [OF n, of t] show "CHR ''='' \<in> set v \<and> flag_name v = n" by (simp add: flag_name_def)
  next
    assume "CHR ''='' \<in> set v \<and> flag_name v = n"
    with inline(1) have "v = (n @ ''='') @ b" by simp
    then show "has_prefix v (n @ ''='')" unfolding has_prefix_iff by blast
  qed
qed

lemma keep_options_step: "keep_options valued (a # rest) =
    (if selector (flag_name a) then (if CHR ''='' \<in> set a then keep_options valued rest else keep_options valued (tl rest))
     else if \<not> has_prefix a ''-'' then keep_options valued rest
     else a # (if a \<in> valued \<and> rest \<noteq> [] then hd rest # keep_options valued (tl rest) else keep_options valued rest))"
proof -
  have bare: "CHR ''='' \<notin> set a \<Longrightarrow> flag_name a = a" by (simp add: flag_name_def cut_at_def)
  have g: "has_prefix a ''--glob='' \<longleftrightarrow> CHR ''='' \<in> set a \<and> flag_name a = ''--glob''"
    and f: "has_prefix a ''--from='' \<longleftrightarrow> CHR ''='' \<in> set a \<and> flag_name a = ''--from''"
    using inline_prefix [of "''--glob''" a] inline_prefix [of "''--from''" a] by simp_all
  have names: "a = ''--glob'' \<Longrightarrow> flag_name a = a \<and> CHR ''='' \<notin> set a" "a = ''--from'' \<Longrightarrow> flag_name a = a \<and> CHR ''='' \<notin> set a"
    by (simp_all add: flag_name_def cut_at_def)
  show ?thesis
    unfolding keep_options.simps(2) g f selector_def using bare names by auto
qed

declare keep_options.simps(2) [simp del]

lemma selectors_valued: "selector n \<Longrightarrow> n \<in> submit_valued \<and> n \<notin> submit_switches"
  unfolding selector_def submit_valued_def submit_switches_def by auto

lemma keep_options_dash_free: "dash_free ps \<Longrightarrow> keep_options valued ps = []"
proof (induction ps)
  case (Cons p ps)
  then have "\<not> selector (flag_name p)"
    using submit_flags.dash_entry [of p] selectors_valued by auto
  with Cons show ?case by (simp add: keep_options_step)
qed simp

lemma selector_entry: "n \<in> submit_valued \<union> submit_switches \<Longrightarrow> selector_key (flag_key n) \<longleftrightarrow> selector n"
proof -
  have "\<forall>n\<in>submit_valued \<union> submit_switches. selector_key (flag_key n) \<longleftrightarrow> selector n"
    unfolding submit_valued_def submit_switches_def by code_simp
  then show "n \<in> submit_valued \<union> submit_switches \<Longrightarrow> selector_key (flag_key n) \<longleftrightarrow> selector n" by (rule bspec)
qed

lemma rewrite_valued: "n \<in> rewrite_valued \<longleftrightarrow> n \<in> submit_valued \<and> \<not> selector n"
  by (auto simp: rewrite_valued_def submit_valued_def selector_def)

abbreviation unselected :: "(string \<times> string) list \<Rightarrow> (string \<times> string) list" where
  "unselected \<equiv> filter (\<lambda>(k, v). \<not> selector_key k)"

text \<open>The kept options assign what the given ones do, but for the selectors.\<close>

lemma keep_options_meaning:
  assumes "option_list submit_valued submit_switches os" and "dash_free ps"
  shows "option_list rewrite_valued submit_switches (keep_options submit_valued (os @ ps)) \<and>
    (\<forall>as r. parse_flags submit_kinds os = Inr (as, r) \<longrightarrow>
       parse_flags submit_kinds (keep_options submit_valued (os @ ps)) = Inr (unselected as, r))"
  using assms(1)
proof induction
  case no_option
  then show ?case by (simp add: keep_options_dash_free [OF assms(2)] option_list.no_option)
next
  case (switch v os)
  have kept: "keep_options submit_valued ((v # os) @ ps) = v # keep_options submit_valued (os @ ps)"
  proof -
    have "\<not> selector (flag_name v)" using switch.hyps(1) selectors_valued by blast
    moreover have "has_prefix v ''-''" using submit_flags.dash_entry [of v] switch.hyps(1) by auto
    moreover have "v \<notin> submit_valued"
      using submit_flags.entry_bare [of v] submit_flags.exclusive [of v] switch.hyps(1) by auto
    ultimately show ?thesis by (simp add: keep_options_step)
  qed
  have "\<not> selector_key (flag_key (flag_name v))"
    using selector_entry [of "flag_name v"] switch.hyps(1) selectors_valued by blast
  with switch show ?case unfolding kept
    by (cases "parse_flags submit_kinds os") (auto simp: submit_flags.parse_switch intro: option_list.switch split: option.splits)
next
  case (inline v os)
  have dash: "has_prefix v ''-''" using submit_flags.dash_entry [of v] inline.hyps(1) by auto
  have "v \<notin> submit_valued" using submit_flags.entry_facts [of v] inline.hyps(2) by auto
  with dash inline.hyps have kept: "keep_options submit_valued ((v # os) @ ps) =
      (if selector (flag_name v) then keep_options submit_valued (os @ ps) else v # keep_options submit_valued (os @ ps))"
    by (simp add: keep_options_step)
  have key: "selector_key (flag_key (flag_name v)) \<longleftrightarrow> selector (flag_name v)"
    using selector_entry inline.hyps(1) by blast
  show ?case
  proof (cases "selector (flag_name v)")
    case True
    with inline key show ?thesis unfolding kept
      by (cases "parse_flags submit_kinds os") (auto simp: submit_flags.parse_inline)
  next
    case False
    then have "flag_name v \<in> rewrite_valued" using inline.hyps(1) by (simp add: rewrite_valued)
    with False inline key show ?thesis unfolding kept
      by (cases "parse_flags submit_kinds os") (auto simp: submit_flags.parse_inline intro: option_list.inline)
  qed
next
  case (valued v os a)
  have v: "has_prefix v ''-''" "flag_name v = v" "CHR ''='' \<notin> set v"
    using submit_flags.entry_facts [of v] submit_flags.entry_bare [of v] valued.hyps(1) by auto
  then have kept: "keep_options submit_valued ((v # a # os) @ ps) =
      (if selector v then keep_options submit_valued (os @ ps) else v # a # keep_options submit_valued (os @ ps))"
    using valued.hyps(1) by (simp add: keep_options_step)
  have key: "selector_key (flag_key v) \<longleftrightarrow> selector v" using selector_entry valued.hyps(1) by blast
  show ?case
  proof (cases "selector v")
    case True
    with valued key show ?thesis unfolding kept
      by (cases "parse_flags submit_kinds os") (auto simp: submit_flags.parse_valued)
  next
    case False
    then have "v \<in> rewrite_valued" using valued.hyps(1) by (simp add: rewrite_valued)
    with False valued key show ?thesis unfolding kept
      by (cases "parse_flags submit_kinds os") (auto simp: submit_flags.parse_valued intro: option_list.valued)
  qed
qed

lemma option_list_submit:
  "option_list rewrite_valued submit_switches os \<Longrightarrow> option_list submit_valued submit_switches os"
  by (induction rule: option_list.induct) (auto simp: rewrite_valued intro: option_list.intros)

lemma rewrite_dash_free:
  "dash_free ss \<Longrightarrow> rewrite_sources ss paths = (if length paths = length ss then Some paths else None)"
proof (induction ss arbitrary: paths)
  case (Cons s ss)
  then have "flag_name s \<notin> submit_valued" using submit_flags.dash_entry [of s] by auto
  then have "s \<notin> rewrite_valued" "flag_name s \<notin> rewrite_valued"
    using submit_flags.entry_bare [of s] by (auto simp: rewrite_valued)
  with Cons show ?case by (cases paths) auto
qed simp

lemma rewrite_options:
  assumes "option_list rewrite_valued submit_switches os" and "dash_free ss"
  shows "rewrite_sources (os @ ss) paths = (if length paths = length ss then Some (os @ paths) else None)"
  using assms(1)
proof induction
  case no_option
  then show ?case by (simp add: rewrite_dash_free [OF assms(2)])
next
  case (switch v os)
  have "has_prefix v ''-''" using submit_flags.dash_entry [of v] switch.hyps(1) by auto
  moreover have "v \<notin> rewrite_valued" "flag_name v \<notin> rewrite_valued"
    using submit_flags.entry_bare [of v] submit_flags.exclusive [of v] submit_flags.exclusive [of "flag_name v"] switch.hyps(1)
    by (auto simp: rewrite_valued)
  ultimately show ?case using switch.IH by simp
next
  case (inline v os)
  have "v \<notin> rewrite_valued" using submit_flags.entry_facts [of v] inline.hyps(2) by (auto simp: rewrite_valued)
  with inline show ?case by simp
next
  case (valued v os a)
  then show ?case by simp
qed

definition without_selectors :: "submit_options \<Rightarrow> submit_options" where
  "without_selectors so = so\<lparr>so_globs := [], so_from := []\<rparr>"

lemma set_without:
  "without_selectors (set_option (k, v) so) =
     (if selector_key k then without_selectors so else set_option (k, v) (without_selectors so))"
proof (cases "selector_key k")
  case True
  then have "k = ''glob'' \<or> k = ''from''" by (simp add: selector_key_def)
  then show ?thesis by (elim disjE) (simp_all add: set_option_def without_selectors_def selector_key_def)
next
  case False
  then have k: "k \<noteq> ''glob''" "k \<noteq> ''from''" by (simp_all add: selector_key_def)
  with False show ?thesis by (simp add: set_option_def without_selectors_def)
qed

lemma set_unselected:
  "fold set_option (unselected as) (without_selectors so) = without_selectors (fold set_option as so)"
proof (induction as arbitrary: so)
  case (Cons a as)
  obtain k v where a: "a = (k, v)" by (rule prod.exhaust)
  show ?case using Cons [of "set_option (k, v) so"] set_without [of k v so] by (auto simp: a)
qed simp

text \<open>
  C25. What a detached submission means does not change when the daemon rewrites its arguments.
  For arguments whose options are known ones in this spelling, with values: the normalised
  arguments parse to the same options without the selectors \<open>--glob\<close> and \<open>--from\<close>, and to the sources that
  positional arguments and selectors named together; and rewriting these to the paths of the
  previewed sources either gives arguments that parse to the same options and exactly these
  paths, in their order, or is refused, exactly when their numbers differ. No source and no
  path may begin with a dash: such a name is read as an option.
\<close>

theorem detached_arguments_meaning:
  assumes "plain_args submit_valued submit_switches args"
    and "parse_submit args = Inr (so, positional)"
    and "collectBatchValuesAt bf cwd positional (so_globs so) (so_from so) = Inr sources"
    and "dash_free sources" and "dash_free paths"
  shows "\<exists>normal. normalizeDetachedSubmitArgs bf args cwd = Inr normal \<and>
    parse_submit normal = Inr (without_selectors so, sources) \<and>
    (if length paths = length sources
     then \<exists>final. rewriteExplicitSources normal paths = Inr final \<and> parse_submit final = Inr (without_selectors so, paths)
     else rewriteExplicitSources normal paths = Inl (fault_new ''SOURCE_SNAPSHOT_FAILED'' False))"
proof -
  obtain os ps where ord: "interspersed submit_valued submit_switches args = os @ ps"
      "option_list submit_valued submit_switches os" "dash_free ps"
      "parse_flags submit_kinds (interspersed submit_valued submit_switches args) =
         map_sum id (apsnd (\<lambda>_. ps)) (parse_flags submit_kinds os)"
    by (rule submit_flags.plain_args_meaning [OF assms(1)])
  let ?ks = "keep_options submit_valued (os @ ps)"
  obtain as r where os: "parse_flags submit_kinds os = Inr (as, r)"
    and so: "so = fold set_option as no_options"
    using assms(2) unfolding parse_submit_def ord(4) by (cases "parse_flags submit_kinds os") auto
  note kept = keep_options_meaning [OF ord(2,3)]
  have ks: "parse_flags submit_kinds ?ks = Inr (unselected as, r)" using kept os by blast
  have ol: "option_list submit_valued submit_switches ?ks" using kept option_list_submit by blast
  have meaning: "parse_submit (?ks @ ss) = Inr (without_selectors so, ss)" if "dash_free ss" for ss
  proof -
    have "fold set_option (unselected as) no_options = without_selectors so"
      using set_unselected [of as no_options] by (simp add: so without_selectors_def no_options_def)
    then show ?thesis
      by (simp add: parse_submit_def submit_flags.interspersed_options [OF ol that]
          submit_flags.parse_options_first [OF ol that] ks)
  qed
  have normal: "normalizeDetachedSubmitArgs bf args cwd = Inr (?ks @ sources)"
    by (simp add: normalizeDetachedSubmitArgs_def assms(2,3) ord(1))
  have "rewrite_sources (?ks @ sources) paths = (if length paths = length sources then Some (?ks @ paths) else None)"
    using rewrite_options kept assms(4) by blast
  then show ?thesis using normal meaning [OF assms(4)] meaning [OF assms(5)] by (auto simp: rewriteExplicitSources_def)
qed

definition sample_args :: "string list" where
  "sample_args = [''a'', ''--glob'', ''*.inp'', ''-t'', ''cpu'', ''--force-new'']"

definition sample_batch_files :: batch_files where
  "sample_batch_files = \<lparr>bf_glob = (\<lambda>p. Some [''/p/x.inp'']), bf_read = (\<lambda>p. None), bf_wd = Some ''/d''\<rparr>"

definition sample_options :: submit_options where
  "sample_options = no_options\<lparr>so_globs := [''*.inp''], so_target := ''cpu'', so_force_new := True\<rparr>"

lemma sample_arguments:
  "plain_args submit_valued submit_switches sample_args"
  "interspersed submit_valued submit_switches sample_args = [''--glob'', ''*.inp'', ''-t'', ''cpu'', ''--force-new'', ''a'']"
  unfolding sample_args_def submit_valued_def submit_switches_def interspersed_def by code_simp+

lemma sample_parsed: "parse_submit sample_args = Inr (sample_options, [''a''])"
proof -
  have "parse_flags submit_kinds [''--glob'', ''*.inp'', ''-t'', ''cpu'', ''--force-new'', ''a''] =
      Inr ([(''glob'', ''*.inp''), (''t'', ''cpu''), (''force-new'', ''true'')], [''a''])"
    by code_simp
  then show ?thesis
    by (simp add: parse_submit_def sample_arguments(2) set_option_def sample_options_def no_options_def)
qed

lemma sample_collected:
  "collectBatchValuesAt sample_batch_files ''/p'' [''a''] [''*.inp''] [] = Inr [''a'', ''/p/x.inp'']"
  unfolding sample_batch_files_def by code_simp

theorem detached_arguments_meaning_witness:
  "\<exists>normal final. normalizeDetachedSubmitArgs sample_batch_files sample_args ''/p'' = Inr normal \<and>
    rewriteExplicitSources normal [''a'', ''x.inp''] = Inr final \<and>
    parse_submit final = Inr (without_selectors sample_options, [''a'', ''x.inp''])"
proof -
  have "dash_free [''a'', ''/p/x.inp'']" "dash_free [''a'', ''x.inp'']" by simp_all
  from detached_arguments_meaning [OF sample_arguments(1) sample_parsed _ this, of sample_batch_files "''/p''"]
  show ?thesis using sample_collected by (auto simp: sample_options_def no_options_def)
qed

end
