(* ===== verification/Detached_Snapshot.thy ===== *)
theory Detached_Snapshot
  imports Command_Line Preparation
begin

text \<open>
  The front of \<open>joyrun submit\<close> (\<open>submit\<close> of \<open>internal/cli/cli.go\<close>) and the snapshot the daemon takes
  of what it previewed (\<open>prepareDetachedSnapshot\<close> and \<open>copyVerified\<close> of \<open>internal/cli/operations.go\<close>).
  The snapshot directory is an explicit map from paths to contents; reading the project and
  writing a copy is the parameter \<open>sn_copy\<close>.
\<close>

section \<open>Checking a submission\<close>

definition invalid_argument :: go_error where
  "invalid_argument = fault_new ''INVALID_ARGUMENT'' False"

definition submit_checked ::
    "batch_files \<Rightarrow> string list \<Rightarrow> (go_error, submit_options \<times> string list) result" where
  "submit_checked bf args = (case parse_submit args of
     Inl e \<Rightarrow> Inl e
   | Inr (so, positional) \<Rightarrow>
       if so_target so = [] then Inl invalid_argument
       else if so_auto_pull so \<noteq> ''off'' \<and> so_auto_pull so \<noteq> ''completed'' \<and> so_auto_pull so \<noteq> ''terminal''
       then Inl invalid_argument
       else (case collectBatchValuesAt bf [] positional (so_globs so) (so_from so) of
         Inl e \<Rightarrow> Inl e
       | Inr sources \<Rightarrow> if sources = [] then Inl invalid_argument else Inr (so, sources)))"

datatype submit_way = AdmitDetached | PreviewSources | SubmitOne | SubmitBatch

text \<open>\<open>resident\<close>: the daemon executes a request of a client (and not a queued operation).\<close>

definition submit_route ::
    "batch_files \<Rightarrow> bool \<Rightarrow> string list \<Rightarrow> (go_error, submit_options \<times> string list \<times> submit_way) result" where
  "submit_route bf resident args = (case submit_checked bf args of
     Inl e \<Rightarrow> Inl e
   | Inr (so, sources) \<Rightarrow>
       if resident \<and> \<not> so_dry_run so then Inr (so, sources, AdmitDetached)
       else if length sources > MaxBatchTasks then Inl (fault_new ''BATCH_TOO_LARGE'' False)
       else if so_dry_run so then Inr (so, sources, PreviewSources)
       else if length sources = 1 then Inr (so, sources, SubmitOne)
       else Inr (so, sources, SubmitBatch))"

section \<open>Previewing\<close>

text \<open>The fields of a preview that the admission reads, beside the task.\<close>

record detached_source =
  ds_source :: source
  ds_cluster :: string
  ds_manifest :: "manifest_entry list"

definition request_of :: "submit_options \<Rightarrow> string \<Rightarrow> string \<Rightarrow> prepare_request" where
  "request_of so cwd src = \<lparr>rq_cwd = cwd, rq_source = src, rq_target = so_target so, rq_sets = so_sets so,
     rq_includes = so_includes so, rq_partition = so_partition so, rq_root_allowed = so_project_root so\<rparr>"

text \<open>One preview after the other; each has its own random id and clock, so its own environment.\<close>

fun preview_sources ::
    "(nat \<Rightarrow> prepare_env) \<Rightarrow> submit_options \<Rightarrow> string \<Rightarrow> nat \<Rightarrow> string list \<Rightarrow>
     (go_error, (detached_source \<times> task) list) result option" where
  "preview_sources envs so cwd n [] = Some (Inr [])"
| "preview_sources envs so cwd n (s # ss) =
     or_panic (prepare (envs n) (request_of so cwd s) True) (\<lambda>(pv, t, workdir).
     or_panic (preview_sources envs so cwd (Suc n) ss) (\<lambda>later.
       Some (Inr ((\<lparr>ds_source = pv_source pv, ds_cluster = cluster_name t, ds_manifest = input_manifest t\<rparr>, t) # later))))"

text \<open>A dry run of the user is recorded as tasks; the one inside an admission is not.\<close>

definition record_preview ::
    "file_system \<Rightarrow> time \<Rightarrow> store \<Rightarrow> string \<Rightarrow> task list \<Rightarrow> (go_error, task list) result \<times> store" where
  "record_preview fsys now db cwd ts = (case Discover fsys cwd of
     Inl e \<Rightarrow> (Inl e, db)
   | Inr p \<Rightarrow> (case CreateTasks (BindProject db now p) ts of
       (Inl e, ts', db') \<Rightarrow> (Inl e, db') | (Inr _, ts', db') \<Rightarrow> (Inr ts', db')))"

definition preview_command ::
    "batch_files \<Rightarrow> (nat \<Rightarrow> prepare_env) \<Rightarrow> file_system \<Rightarrow> time \<Rightarrow> bool \<Rightarrow> store \<Rightarrow> string \<Rightarrow> string list \<Rightarrow>
     ((go_error, (detached_source \<times> task) list) result \<times> store) option" where
  "preview_command bf envs fsys now suppressed db cwd args = (case submit_route bf True args of
     Inl e \<Rightarrow> Some (Inl e, db)
   | Inr (so, sources, route) \<Rightarrow>
       if route \<noteq> PreviewSources then Some (Inl invalid_argument, db)
       else (case preview_sources envs so cwd 0 sources of
         None \<Rightarrow> None
       | Some (Inl e) \<Rightarrow> Some (Inl e, db)
       | Some (Inr ps) \<Rightarrow>
           if suppressed then Some (Inr ps, db)
           else (case record_preview fsys now db cwd (map snd ps) of
               (Inl e, db') \<Rightarrow> Some (Inl e, db')
             | (Inr ts, db') \<Rightarrow> Some (Inr (zip (map fst ps) ts), db'))))"

section \<open>The snapshot of a detached submission\<close>

type_synonym disk = "string \<rightharpoonup> string"

text \<open>
  The answers of the disk: the new directory, what happens to \<open>project.yaml\<close>, the ignore file of the project, and
  a copy from a project file, which answers with the content that was written and hashed.
\<close>

record 'w snapshot_env =
  sn_data :: string
  sn_mkdir :: "go_error option"
  sn_identity :: "(go_error, string) result"
  sn_ignore :: "string option"
  sn_ignore_written :: bool
  sn_copy :: "'w \<Rightarrow> string \<Rightarrow> string \<Rightarrow> (go_error, string) result \<times> 'w"
  sn_sha :: "string \<Rightarrow> string"

definition remove_below :: "string \<Rightarrow> disk \<Rightarrow> disk" where
  "remove_below dir d = (\<lambda>p. if p = dir \<or> has_prefix p (dir @ ''/'') then None else d p)"

definition snapshot_ignore :: "string option \<Rightarrow> string" where
  "snapshot_ignore data = (case data of
     Some s \<Rightarrow> if contains s ''.joyrun'' then s else s @ nl # ''.joyrun/'' @ [nl]
   | None \<Rightarrow> ''.joyrun/'' @ [nl])"

definition source_changed :: go_error where
  "source_changed = PlainError ''source changed while detached snapshot was copied''"

definition says_changed :: "go_error \<Rightarrow> bool" where
  "says_changed e = contains (error_text e) ''source changed''"

definition copyVerified ::
    "'w snapshot_env \<Rightarrow> 'w \<Rightarrow> disk \<Rightarrow> string \<Rightarrow> string \<Rightarrow> string \<Rightarrow> go_error option \<times> 'w \<times> disk" where
  "copyVerified env w d src dst hash = (case sn_copy env w src dst of
     (Inl e, w') \<Rightarrow> (Some e, w', d)
   | (Inr content, w') \<Rightarrow> (if sn_sha env content \<noteq> hash then Some source_changed else None, w', d(dst \<mapsto> content)))"

definition copy_twice ::
    "'w snapshot_env \<Rightarrow> 'w \<Rightarrow> disk \<Rightarrow> string \<Rightarrow> string \<Rightarrow> string \<Rightarrow> go_error option \<times> 'w \<times> disk" where
  "copy_twice env w d src dst hash = (case copyVerified env w d src dst hash of
     (None, w1, d1) \<Rightarrow> (None, w1, d1)
   | (Some e, w1, d1) \<Rightarrow> if \<not> says_changed e then (Some e, w1, d1) else copyVerified env w1 d1 src dst hash)"

text \<open>The copies in order, as source, destination and expected hash; a destination is copied once.\<close>

fun copy_entries ::
    "'w snapshot_env \<Rightarrow> 'w \<Rightarrow> disk \<Rightarrow> string set \<Rightarrow> (string \<times> string \<times> string) list \<Rightarrow> go_error option \<times> 'w \<times> disk" where
  "copy_entries env w d seen [] = (None, w, d)"
| "copy_entries env w d seen ((src, dst, hash) # rest) =
     (if dst \<in> seen then copy_entries env w d seen rest
      else case copy_twice env w d src dst hash of
        (Some e, w1, d1) \<Rightarrow> (Some (fault_wrap
            (if says_changed e then ''SOURCE_CHANGED_DURING_SNAPSHOT'' else ''SOURCE_SNAPSHOT_FAILED'') [] False e), w1, d1)
      | (None, w1, d1) \<Rightarrow> copy_entries env w1 d1 (insert dst seen) rest)"

definition snapshot_root :: "'w snapshot_env \<Rightarrow> string \<Rightarrow> string" where
  "snapshot_root env i = path_join [sn_data env, i, ''project'']"

text \<open>The first two files; the error of writing the ignore file is dropped.\<close>

definition mark_snapshot :: "'w snapshot_env \<Rightarrow> string \<Rightarrow> string \<Rightarrow> disk \<Rightarrow> disk" where
  "mark_snapshot env root yaml d =
     (let d1 = d(path_join [root, ''.joyrun'', ''project.yaml''] \<mapsto> yaml)
      in if sn_ignore_written env then d1(path_join [root, ''.joyrunignore''] \<mapsto> snapshot_ignore (sn_ignore env)) else d1)"

definition snapshot_list :: "project \<Rightarrow> string \<Rightarrow> detached_source list \<Rightarrow> (string \<times> string \<times> string) list" where
  "snapshot_list p root previews = concat (map (\<lambda>d. map (\<lambda>m.
     (path_join [proj_root p, path_join [src_workdir (ds_source d), me_path m]],
      path_join [root, path_join [src_workdir (ds_source d), me_path m]], me_sha256 m)) (ds_manifest d)) previews)"

definition prepareDetachedSnapshot ::
    "'w snapshot_env \<Rightarrow> 'w \<Rightarrow> disk \<Rightarrow> project \<Rightarrow> string \<Rightarrow> detached_source list \<Rightarrow> string list \<Rightarrow>
     (go_error, string \<times> string list) result \<times> 'w \<times> disk" where
  "prepareDetachedSnapshot env w d p i previews args =
     (let root = snapshot_root env i; gone = remove_below (path_join [sn_data env, i])
      in case sn_mkdir env of
        Some e \<Rightarrow> (Inl (fault_wrap ''SOURCE_SNAPSHOT_FAILED'' [] False e), w, d)
      | None \<Rightarrow> (case sn_identity env of
           Inl e \<Rightarrow> (Inl (fault_wrap ''SOURCE_SNAPSHOT_FAILED'' [] False e), w, gone d)
         | Inr yaml \<Rightarrow>
             (let d0 = mark_snapshot env root yaml d
              in case copy_entries env w d0 {} (snapshot_list p root previews) of
                   (Some e, w1, d1) \<Rightarrow> (Inl e, w1, gone d1)
                 | (None, w1, d1) \<Rightarrow> (case rewriteExplicitSources args (map (src_relative \<circ> ds_source) previews) of
                     Inl e \<Rightarrow> (Inl e, w1, gone d1)
                   | Inr rewritten \<Rightarrow> (Inr (root, rewritten), w1, d1)))))"

section \<open>What a snapshot holds\<close>

lemma has_prefix_contains: "has_prefix s p \<Longrightarrow> contains s p"
  by (cases s; cases p) auto

lemma contains_end: "contains (s @ p @ t) p"
  by (induction s) (auto intro: has_prefix_contains)

lemma snapshot_ignores_joyrun: "contains (snapshot_ignore data) ''.joyrun''"
proof (cases data)
  case None
  then show ?thesis using contains_end [of "[]" "''.joyrun''" "''/'' @ [nl]"] by (simp add: snapshot_ignore_def)
next
  case (Some s)
  then show ?thesis using contains_end [of "s @ [nl]" "''.joyrun''" "''/'' @ [nl]"] by (simp add: snapshot_ignore_def)
qed

lemma copyVerified_effect:
  assumes "copyVerified env w d src dst hash = (x, w', d')"
  shows "(\<forall>q. q \<noteq> dst \<longrightarrow> d' q = d q) \<and> (x = None \<longrightarrow> (\<exists>content. d' dst = Some content \<and> sn_sha env content = hash))"
  using assms by (auto simp: copyVerified_def split: prod.splits sum.splits if_splits)

lemma copy_twice_effect:
  assumes "copy_twice env w d src dst hash = (x, w', d')"
  shows "(\<forall>q. q \<noteq> dst \<longrightarrow> d' q = d q) \<and> (x = None \<longrightarrow> (\<exists>content. d' dst = Some content \<and> sn_sha env content = hash))"
proof -
  obtain y w1 d1 where one: "copyVerified env w d src dst hash = (y, w1, d1)" by (rule prod_cases3)
  note first = copyVerified_effect [OF one]
  show ?thesis
  proof (cases "\<exists>e. y = Some e \<and> says_changed e")
    case False
    with assms one have "x = y" "d' = d1" by (auto simp: copy_twice_def split: option.splits if_splits)
    with first show ?thesis by simp
  next
    case True
    with assms one have "copyVerified env w1 d1 src dst hash = (x, w', d')" by (auto simp: copy_twice_def)
    from copyVerified_effect [OF this] first show ?thesis by simp
  qed
qed

lemma copy_entries_effect:
  "copy_entries env w d seen es = (x, w', d') \<Longrightarrow>
   (\<forall>q. q \<in> seen \<or> q \<notin> fst ` snd ` set es \<longrightarrow> d' q = d q) \<and>
   (x = None \<longrightarrow> (\<forall>q\<in>fst ` snd ` set es - seen. \<exists>content. d' q = Some content \<and> map_of (map snd es) q = Some (sn_sha env content)))"
proof (induction env w d seen es rule: copy_entries.induct)
  case (1 env w d seen)
  then show ?case by simp
next
  case (2 env w d seen src dst hash rest)
  show ?case
  proof (cases "dst \<in> seen")
    case True
    then have "copy_entries env w d seen rest = (x, w', d')" using "2.prems" by simp
    from "2.IH"(1) [OF True this] True show ?thesis by (simp add: image_iff)
  next
    case False
    obtain y w1 d1 where one: "copy_twice env w d src dst hash = (y, w1, d1)" by (rule prod_cases3)
    note first = copy_twice_effect [OF one]
    show ?thesis
    proof (cases y)
      case (Some e)
      with "2.prems" False one have x: "x \<noteq> None" "d' = d1" by auto
      have "q \<noteq> dst" if "q \<in> seen \<or> q \<notin> fst ` snd ` set ((src, dst, hash) # rest)" for q
        using that False by auto
      with first have "d1 q = d q" if "q \<in> seen \<or> q \<notin> fst ` snd ` set ((src, dst, hash) # rest)" for q
        using that by blast
      with x show ?thesis by blast
    next
      case None
      with "2.prems" False one have rest: "copy_entries env w1 d1 (insert dst seen) rest = (x, w', d')" by simp
      have IH: "(\<forall>q. q \<in> insert dst seen \<or> q \<notin> fst ` snd ` set rest \<longrightarrow> d' q = d1 q) \<and>
         (x = None \<longrightarrow> (\<forall>q\<in>fst ` snd ` set rest - insert dst seen. \<exists>content. d' q = Some content \<and>
            map_of (map snd rest) q = Some (sn_sha env content)))"
        using "2.IH"(2) [OF False one [symmetric] None refl rest] .
      obtain content where c: "d1 dst = Some content" "sn_sha env content = hash" using first None by blast
      have "d' dst = Some content" using IH c(1) by simp
      show ?thesis
      proof (intro conjI allI impI ballI)
        fix q
        assume "q \<in> seen \<or> q \<notin> fst ` snd ` set ((src, dst, hash) # rest)"
        with False have "q \<noteq> dst" "q \<in> seen \<or> q \<notin> fst ` snd ` set rest" by auto
        then have "d' q = d1 q" "d1 q = d q" using IH first by blast+
        then show "d' q = d q" by simp
      next
        fix q
        assume x: "x = None" and q: "q \<in> fst ` snd ` set ((src, dst, hash) # rest) - seen"
        show "\<exists>content. d' q = Some content \<and> map_of (map snd ((src, dst, hash) # rest)) q = Some (sn_sha env content)"
        proof (cases "q = dst")
          case True
          with \<open>d' dst = Some content\<close> c(2) show ?thesis by simp
        next
          case False
          with q have "q \<in> fst ` snd ` set rest - insert dst seen" by auto
          with IH x False show ?thesis by simp
        qed
      qed
    qed
  qed
qed

definition copied_to :: "string \<Rightarrow> detached_source \<Rightarrow> manifest_entry \<Rightarrow> string" where
  "copied_to root s m = path_join [root, path_join [src_workdir (ds_source s), me_path m]]"

lemma snapshot_list_destinations:
  "fst ` snd ` set (snapshot_list p root previews) = (\<Union>s\<in>set previews. copied_to root s ` set (ds_manifest s))"
  by (simp add: snapshot_list_def copied_to_def image_UN image_image)

lemma snapshot_list_expected:
  assumes "map_of (map snd (snapshot_list p root previews)) q = Some h"
  shows "\<exists>s\<in>set previews. \<exists>m\<in>set (ds_manifest s). copied_to root s m = q \<and> me_sha256 m = h"
proof -
  have "(q, h) \<in> snd ` set (snapshot_list p root previews)" using map_of_SomeD [OF assms] by simp
  then obtain s m where "s \<in> set previews" "m \<in> set (ds_manifest s)" "q = copied_to root s m" "h = me_sha256 m"
    by (auto simp: snapshot_list_def copied_to_def)
  then show ?thesis by blast
qed

text \<open>The two files every snapshot has beside the copies.\<close>

definition snapshot_marks :: "string \<Rightarrow> string set" where
  "snapshot_marks root = {path_join [root, ''.joyrun'', ''project.yaml''], path_join [root, ''.joyrunignore'']}"

text \<open>
  C11. The worker of a detached submission sees the files that were previewed. A snapshot that
  succeeds has a copy of every previewed input of every source, with a content whose checksum
  is the one some preview recorded for this place (for one source: the one recorded for this file);
  its arguments are the rewritten ones, and no path but the copies and the two project files is
  touched. A snapshot that fails leaves nothing of the operation behind, unless already its
  directory could not be made, when nothing is written at all.
\<close>

theorem detached_snapshot_exact:
  assumes "prepareDetachedSnapshot env w d p i previews args = (r, w', d')"
  shows "case r of
     Inr (root, rewritten) \<Rightarrow> root = snapshot_root env i \<and>
       rewriteExplicitSources args (map (src_relative \<circ> ds_source) previews) = Inr rewritten \<and>
       (\<forall>s\<in>set previews. \<forall>m\<in>set (ds_manifest s). \<exists>content. d' (copied_to root s m) = Some content \<and>
          (\<exists>s1\<in>set previews. \<exists>m1\<in>set (ds_manifest s1). copied_to root s1 m1 = copied_to root s m \<and>
             me_sha256 m1 = sn_sha env content)) \<and>
       (\<forall>q. q \<notin> snapshot_marks root \<and> (\<forall>s\<in>set previews. \<forall>m\<in>set (ds_manifest s). q \<noteq> copied_to root s m) \<longrightarrow> d' q = d q)
   | Inl e \<Rightarrow> sn_mkdir env \<noteq> None \<and> d' = d \<or> sn_mkdir env = None \<and>
       (\<exists>d1. d' = remove_below (path_join [sn_data env, i]) d1 \<and> (\<forall>q. q \<notin> snapshot_marks (snapshot_root env i) \<and>
         (\<forall>s\<in>set previews. \<forall>m\<in>set (ds_manifest s). q \<noteq> copied_to (snapshot_root env i) s m) \<longrightarrow> d1 q = d q))"
proof -
  let ?root = "snapshot_root env i" let ?es = "snapshot_list p ?root previews"
  let ?paths = "map (src_relative \<circ> ds_source) previews"
  show ?thesis
  proof (cases "sn_mkdir env = None \<and> (\<exists>yaml. sn_identity env = Inr yaml)")
    case False
    with assms show ?thesis
      by (auto simp: prepareDetachedSnapshot_def Let_def split: option.splits sum.splits)
  next
    case True
    then obtain yaml where start: "sn_mkdir env = None" "sn_identity env = Inr yaml" by blast
    define d0 where "d0 = mark_snapshot env ?root yaml d"
    obtain x w1 d1 where run: "copy_entries env w d0 {} ?es = (x, w1, d1)" by (rule prod_cases3)
    note copies = copy_entries_effect [OF run, unfolded snapshot_list_destinations]
    have frame: "d1 q = d q" if "q \<notin> snapshot_marks ?root"
        "\<forall>s\<in>set previews. \<forall>m\<in>set (ds_manifest s). q \<noteq> copied_to ?root s m" for q
    proof -
      have "q \<notin> (\<Union>s\<in>set previews. copied_to ?root s ` set (ds_manifest s))" using that(2) by blast
      with copies have "d1 q = d0 q" by blast
      with that(1) show ?thesis by (simp add: d0_def mark_snapshot_def snapshot_marks_def Let_def)
    qed
    have r: "(r, w', d') = (case x of Some e \<Rightarrow> (Inl e, w1, remove_below (path_join [sn_data env, i]) d1)
        | None \<Rightarrow> (case rewriteExplicitSources args ?paths of
            Inl e \<Rightarrow> (Inl e, w1, remove_below (path_join [sn_data env, i]) d1)
          | Inr rewritten \<Rightarrow> (Inr (?root, rewritten), w1, d1)))"
      using assms start run unfolding d0_def by (simp add: prepareDetachedSnapshot_def Let_def split: option.splits)
    show ?thesis
    proof (cases "x = None \<and> (\<exists>rewritten. rewriteExplicitSources args ?paths = Inr rewritten)")
      case True
      then obtain rewritten where ok: "x = None" "rewriteExplicitSources args ?paths = Inr rewritten" by blast
      with r have res: "r = Inr (?root, rewritten)" "d' = d1" by simp_all
      have held: "\<exists>content. d1 (copied_to ?root s m) = Some content \<and>
          (\<exists>s1\<in>set previews. \<exists>m1\<in>set (ds_manifest s1). copied_to ?root s1 m1 = copied_to ?root s m \<and>
             me_sha256 m1 = sn_sha env content)"
        if "s \<in> set previews" "m \<in> set (ds_manifest s)" for s m
      proof -
        have "copied_to ?root s m \<in> (\<Union>s\<in>set previews. copied_to ?root s ` set (ds_manifest s)) - {}" using that by blast
        with copies ok(1) obtain content where "d1 (copied_to ?root s m) = Some content"
          "map_of (map snd ?es) (copied_to ?root s m) = Some (sn_sha env content)" by blast
        with snapshot_list_expected [OF this(2)] show ?thesis by auto
      qed
      with frame ok(2) show ?thesis unfolding res by simp
    next
      case False
      with r obtain e where "r = Inl e" "d' = remove_below (path_join [sn_data env, i]) d1"
        by (auto split: option.splits sum.splits)
      with frame start(1) show ?thesis by auto
    qed
  qed
qed

definition sample_snapshot :: "unit snapshot_env" where
  "sample_snapshot = \<lparr>sn_data = ''/data'', sn_mkdir = None, sn_identity = Inr ''id'', sn_ignore = None, sn_ignore_written = True,
     sn_copy = (\<lambda>w src dst. (Inr ''body'', w)), sn_sha = (\<lambda>content. content)\<rparr>"

definition sample_detached :: detached_source where
  "sample_detached = \<lparr>ds_source = \<lparr>src_project = ''pj'', src_relative = ''a'', src_workdir = ''.'', src_entry = Some ''a'', src_kind = ''file''\<rparr>,
     ds_cluster = ''c'', ds_manifest = [\<lparr>me_path = ''a'', me_size = 4, me_sha256 = ''body''\<rparr>]\<rparr>"

lemma sample_rewrite: "rewriteExplicitSources [''-t'', ''x'', ''a''] [''a''] = Inr [''-t'', ''x'', ''a'']"
  by code_simp

theorem detached_snapshot_exact_witness:
  "\<exists>w' d'. prepareDetachedSnapshot sample_snapshot () Map.empty \<lparr>proj_id = ''pj'', proj_root = ''/p''\<rparr> ''jo_1'' [sample_detached]
     [''-t'', ''x'', ''a''] = (Inr (snapshot_root sample_snapshot ''jo_1'', [''-t'', ''x'', ''a'']), w', d') \<and>
     d' (copied_to (snapshot_root sample_snapshot ''jo_1'') sample_detached \<lparr>me_path = ''a'', me_size = 4, me_sha256 = ''body''\<rparr>) = Some ''body''"
proof -
  let ?m = "\<lparr>me_path = ''a'', me_size = 4, me_sha256 = ''body''\<rparr> :: manifest_entry"
  have rel: "src_relative (ds_source sample_detached) = ''a''" "ds_manifest sample_detached = [?m]"
    by (simp_all add: sample_detached_def)
  obtain r w' d' where run: "prepareDetachedSnapshot sample_snapshot () Map.empty \<lparr>proj_id = ''pj'', proj_root = ''/p''\<rparr> ''jo_1''
      [sample_detached] [''-t'', ''x'', ''a''] = (r, w', d')" by (rule prod_cases3)
  have "r = Inr (snapshot_root sample_snapshot ''jo_1'', [''-t'', ''x'', ''a''])"
    using run rel(2) by (simp add: prepareDetachedSnapshot_def Let_def sample_snapshot_def snapshot_list_def copy_twice_def
        copyVerified_def rel(1) sample_rewrite)
  with detached_snapshot_exact [OF run] rel(2) run show ?thesis by (auto simp: sample_snapshot_def)
qed

end
