(* ===== verification/Detached_Admission.thy ===== *)
theory Detached_Admission
  imports Detached_Snapshot Daemon_Workers Pull_Results
begin

text \<open>
  The admission of detached commands (\<open>admitDetachedAt\<close> of \<open>internal/cli/operations.go\<close>), the front of
  \<open>joyrun pull\<close> (\<open>internal/cli/cli.go\<close>) and the cluster a pull is serialised under. Hashes of JSON
  texts are parameters; the directory of the operation is part of the disk of
  \<open>Detached_Snapshot\<close>.
\<close>

section \<open>Pull\<close>

definition pull_valued :: "string set" where
  "pull_valued = {''--include'', ''--glob'', ''--from'', ''--batch''}"

definition pull_switches :: "string set" where
  "pull_switches = {''--all'', ''--overwrite-inputs'', ''--live'', ''--dry-run''}"

definition pull_kinds :: "string \<rightharpoonup> flag_kind" where
  "pull_kinds n = (if n \<in> {''batch'', ''include'', ''glob'', ''from''} then Some TextFlag
     else if n \<in> {''all'', ''overwrite-inputs'', ''live'', ''dry-run''} then Some BoolFlag else None)"

record pull_request =
  pq_options :: pull_options
  pq_batch :: string
  pq_globs :: "string list"
  pq_from :: "string list"

definition no_request :: pull_request where
  "no_request = \<lparr>pq_options = \<lparr>po_all = False, po_include = [], po_overwrite_inputs = False, po_live = False, po_dry_run = False\<rparr>,
     pq_batch = [], pq_globs = [], pq_from = []\<rparr>"

definition set_pull_option :: "string \<times> string \<Rightarrow> pull_request \<Rightarrow> pull_request" where
  "set_pull_option = (\<lambda>(name, v) q. let o1 = pq_options q in
     if name = ''all'' then q\<lparr>pq_options := o1\<lparr>po_all := v = ''true''\<rparr>\<rparr>
     else if name = ''overwrite-inputs'' then q\<lparr>pq_options := o1\<lparr>po_overwrite_inputs := v = ''true''\<rparr>\<rparr>
     else if name = ''live'' then q\<lparr>pq_options := o1\<lparr>po_live := v = ''true''\<rparr>\<rparr>
     else if name = ''dry-run'' then q\<lparr>pq_options := o1\<lparr>po_dry_run := v = ''true''\<rparr>\<rparr>
     else if name = ''include'' then q\<lparr>pq_options := o1\<lparr>po_include := po_include o1 @ [v]\<rparr>\<rparr>
     else if name = ''batch'' then q\<lparr>pq_batch := v\<rparr>
     else if name = ''glob'' then q\<lparr>pq_globs := pq_globs q @ [v]\<rparr>
     else if name = ''from'' then q\<lparr>pq_from := pq_from q @ [v]\<rparr>
     else q)"

definition parse_pull :: "string list \<Rightarrow> (go_error, pull_request \<times> string list) result" where
  "parse_pull args = (case parse_flags pull_kinds (interspersed pull_valued pull_switches args) of
     Inl _ \<Rightarrow> Inl (fault_wrap ''INVALID_ARGUMENT'' [] False (PlainError ''flag''))
   | Inr (assigned, positional) \<Rightarrow> Inr (fold set_pull_option assigned no_request, positional))"

datatype pull_way = AdmitPull | PullOne string | PullBatch

definition pull_route ::
    "batch_files \<Rightarrow> bool \<Rightarrow> string list \<Rightarrow> (go_error, pull_request \<times> string list \<times> pull_way) result" where
  "pull_route bf resident args = (case parse_pull args of
     Inl e \<Rightarrow> Inl e
   | Inr (q, positional) \<Rightarrow>
       if po_all (pq_options q) \<and> po_include (pq_options q) \<noteq> [] then Inl invalid_argument
       else (case collectBatchValuesAt bf [] positional (pq_globs q) (pq_from q) of
         Inl e \<Rightarrow> Inl e
       | Inr identifiers \<Rightarrow>
           (let selectors = (if pq_batch q \<noteq> [] then 1 else 0) + (if identifiers \<noteq> [] then 1 else 0 :: nat)
            in if selectors > 1 \<or> selectors = 0 then Inl invalid_argument
               else if resident \<and> \<not> po_dry_run (pq_options q) then Inr (q, identifiers, AdmitPull)
               else if length identifiers = 1 \<and> pq_batch q = [] then Inr (q, identifiers, PullOne (hd identifiers))
               else Inr (q, identifiers, PullBatch))))"

section \<open>The cluster of a pull\<close>

fun pull_values :: "string list \<Rightarrow> string list" where
  "pull_values [] = []"
| "pull_values (a # rest) =
     (let name = flag_name a
      in if name \<in> pull_valued then
           (if name = ''--batch'' then
              (if CHR ''='' \<in> set a then trim_prefix a ''--batch='' # pull_values rest
               else (case rest of [] \<Rightarrow> [] | v # rest' \<Rightarrow> v # pull_values rest'))
            else if CHR ''='' \<in> set a then pull_values rest
            else (case rest of [] \<Rightarrow> [] | v # rest' \<Rightarrow> pull_values rest'))
         else if has_prefix a ''-'' then pull_values rest
         else a # pull_values rest)"

definition value_clusters :: "file_system \<Rightarrow> store \<Rightarrow> project \<Rightarrow> string \<Rightarrow> string \<Rightarrow> string set" where
  "value_clusters fsys db p wd v =
     (if has_prefix v ''jr_'' then (case GetTask db v of Inr t \<Rightarrow> {cluster_name t} - {[]} | Inl _ \<Rightarrow> {})
      else if has_prefix v ''jb_'' then
        {cluster_name t |t. t \<in> set (ListTasks db (proj_id p)) \<and> task_meta t ''batch_id'' = v} - {[]}
      else (case Resolve fsys p (if path_is_abs v then v else path_join [wd, v]) of
          Inl _ \<Rightarrow> {}
        | Inr (src, dir) \<Rightarrow> (case LatestTask db (proj_id p) (src_relative src) of
            Inr t \<Rightarrow> {cluster_name t} - {[]} | Inl _ \<Rightarrow> {})))"

definition detachedPullCluster :: "file_system \<Rightarrow> store \<Rightarrow> project \<Rightarrow> string list \<Rightarrow> string \<Rightarrow> string" where
  "detachedPullCluster fsys db p args wd =
     (let found = \<Union>v\<in>set (pull_values args). value_clusters fsys db p wd v
      in if card found = 1 then the_elem found else if card found > 1 then mixedKey else [])"

lemma pull_tables:
  "n \<in> pull_valued \<Longrightarrow> (n = ''-'' @ flag_key n \<or> n = ''--'' @ flag_key n) \<and> plain_key (flag_key n) \<and>
     pull_kinds (flag_key n) = Some TextFlag"
  "n \<in> pull_switches \<Longrightarrow> (n = ''-'' @ flag_key n \<or> n = ''--'' @ flag_key n) \<and> plain_key (flag_key n) \<and>
     pull_kinds (flag_key n) = Some BoolFlag"
proof -
  have "\<forall>n\<in>pull_valued. (n = ''-'' @ flag_key n \<or> n = ''--'' @ flag_key n) \<and> plain_key (flag_key n) \<and>
      pull_kinds (flag_key n) = Some TextFlag" unfolding pull_valued_def by code_simp
  then show "n \<in> pull_valued \<Longrightarrow> (n = ''-'' @ flag_key n \<or> n = ''--'' @ flag_key n) \<and> plain_key (flag_key n) \<and>
     pull_kinds (flag_key n) = Some TextFlag" by (rule bspec)
  have "\<forall>n\<in>pull_switches. (n = ''-'' @ flag_key n \<or> n = ''--'' @ flag_key n) \<and> plain_key (flag_key n) \<and>
      pull_kinds (flag_key n) = Some BoolFlag" unfolding pull_switches_def by code_simp
  then show "n \<in> pull_switches \<Longrightarrow> (n = ''-'' @ flag_key n \<or> n = ''--'' @ flag_key n) \<and> plain_key (flag_key n) \<and>
     pull_kinds (flag_key n) = Some BoolFlag" by (rule bspec)
qed

interpretation pull_flags: flag_table pull_valued pull_switches pull_kinds
  by unfold_locales (rule exI, erule pull_tables)+

text \<open>
  The scan reads the batch and the identifiers only: a pull whose tasks are named by \<open>--glob\<close> or
  \<open>--from\<close> gets no cluster key, whatever clusters its tasks are on.
\<close>

lemma pull_values_options:
  assumes "option_list pull_valued pull_switches os" and "\<forall>v\<in>set os. flag_name v \<noteq> ''--batch''"
  shows "pull_values os = []"
  using assms
proof induction
  case (switch v os)
  then have "flag_name v \<notin> pull_valued" "has_prefix v ''-''"
    using pull_flags.exclusive [of "flag_name v"] pull_flags.dash_entry [of v] by auto
  with switch show ?case by simp
next
  case (inline v os)
  then show ?case by simp
next
  case (valued v os a)
  then have "flag_name v = v" "CHR ''='' \<notin> set v" using pull_flags.entry_bare [of v] pull_flags.entry_facts [of v] by auto
  with valued show ?case by simp
qed simp

lemma selected_pull_has_no_cluster:
  assumes "option_list pull_valued pull_switches args" and "\<forall>v\<in>set args. flag_name v \<noteq> ''--batch''"
  shows "detachedPullCluster fsys db p args wd = []"
  by (simp add: detachedPullCluster_def pull_values_options [OF assms] Let_def)

section \<open>Admission\<close>

record 'w admission_env =
  ad_files :: file_system
  ad_batch :: batch_files
  ad_id :: "(go_error, string) result"
  ad_config :: "(go_error, string) result"
  ad_previews :: "nat \<Rightarrow> prepare_env"
  ad_snapshot :: "'w snapshot_env"
  ad_digest :: "fingerprint \<Rightarrow> (go_error, string) result"
  ad_manifest_hash :: "(source \<times> manifest_entry list) list \<Rightarrow> string"
  ad_args_hash :: "string list \<Rightarrow> string"
  ad_intent :: "string \<Rightarrow> string \<Rightarrow> string list \<Rightarrow> string \<Rightarrow> string"
  ad_payload :: "payload \<Rightarrow> string"

definition previewManifestHash :: "'w admission_env \<Rightarrow> detached_source list \<Rightarrow> string" where
  "previewManifestHash env ps = ad_manifest_hash env (map (\<lambda>d. (ds_source d, sort_key me_path (ds_manifest d))) ps)"

definition detachedInputHash :: "'w admission_env \<Rightarrow> payload \<Rightarrow> string" where
  "detachedInputHash env pl = (if pl_intent_hash pl \<noteq> [] then pl_intent_hash pl else ad_args_hash env (pl_args pl))"

definition wants_new :: "string list \<Rightarrow> bool" where
  "wants_new args \<longleftrightarrow> containsFlag args ''--force-new'' \<or> hasFlagPrefix args ''--force-new=''"

definition setAutoPull :: "store \<Rightarrow> time \<Rightarrow> task \<Rightarrow> string \<Rightarrow> (go_error, unit) result \<times> task \<times> store" where
  "setAutoPull db now t policy =
     UpdateTask db (t\<lparr>metadata := (metadata t)(''auto_pull'' \<mapsto> policy, ''auto_pull_done'' \<mapsto> []), updated_at := now\<rparr>)"

definition operation_root :: "'w admission_env \<Rightarrow> string \<Rightarrow> string" where
  "operation_root env i = path_join [sn_data (ad_snapshot env), i]"

definition config_copy :: "'w admission_env \<Rightarrow> string \<Rightarrow> string" where
  "config_copy env i = path_join [operation_root env i, ''config.yaml'']"

text \<open>The task a submission of one source reserves, or the one it finds.\<close>

definition reserve_task ::
    "'w admission_env \<Rightarrow> store \<Rightarrow> time \<Rightarrow> task \<Rightarrow> string list \<Rightarrow> (go_error, task) result \<times> store" where
  "reserve_task env db now previewed args =
     (let t = previewed\<lparr>dry_run := False\<rparr>
      in case submissionKey (ad_digest env) t of
        Inl e \<Rightarrow> (Inl (fault_wrap ''OPERATION_CREATE_FAILED'' [] False e), db)
      | Inr key \<Rightarrow> (case CreateTaskIdempotent db (t\<lparr>metadata := (metadata t)(''submission_key'' \<mapsto> key)\<rparr>) False of
          (Inl e, _, db1) \<Rightarrow> (Inl e, db1)
        | (Inr found, t1, db1) \<Rightarrow>
            (let u = (case found of Some x \<Rightarrow> x | None \<Rightarrow> t1); policy = flagValue args ''--auto-pull''
             in if policy \<noteq> [] \<and> policy \<noteq> ''off''
                then (case setAutoPull db1 now u policy of (_, u1, db2) \<Rightarrow> (Inr u1, db2))
                else (Inr u, db1))))"

text \<open>What is admitted: the payload, the arguments that decide about force, and the cluster key.\<close>

record admission_plan =
  ap_payload :: payload
  ap_args :: "string list"
  ap_cluster :: string

definition submit_plan_of ::
    "'w admission_env \<Rightarrow> store \<Rightarrow> time \<Rightarrow> project \<Rightarrow> string \<Rightarrow> string \<Rightarrow> string list \<Rightarrow> (detached_source \<times> task) list \<Rightarrow>
     string \<Rightarrow> string list \<Rightarrow> (go_error, admission_plan) result \<times> store" where
  "submit_plan_of env db now p i wd normal ps root rewritten =
     (let pl = \<lparr>pl_args = rewritten, pl_project = proj_id p, pl_cwd = wd, pl_config = config_copy env i,
            pl_data_root = operation_root env i, pl_snapshot_root = root,
            pl_intent_hash = previewManifestHash env (map fst ps), pl_reserved = []\<rparr>;
          cluster = ds_cluster (fst (hd ps))
      in if length ps = 1 \<and> \<not> wants_new normal
         then (case reserve_task env db now (snd (hd ps)) normal of
             (Inl e, db1) \<Rightarrow> (Inl e, db1)
           | (Inr t, db1) \<Rightarrow> (Inr \<lparr>ap_payload = pl\<lparr>pl_reserved := [task_id t],
                 pl_snapshot_root := path_join [root, src_workdir (ds_source (fst (hd ps)))]\<rparr>,
                 ap_args = normal, ap_cluster = cluster\<rparr>, db1))
         else (Inr \<lparr>ap_payload = pl, ap_args = normal, ap_cluster = cluster\<rparr>, db))"

text \<open>\<open>None\<close> is a panic of the preview.\<close>

definition plan_submit ::
    "'w admission_env \<Rightarrow> 'w \<Rightarrow> store \<Rightarrow> disk \<Rightarrow> time \<Rightarrow> project \<Rightarrow> string \<Rightarrow> string list \<Rightarrow> string \<Rightarrow>
     ((go_error, admission_plan) result \<times> 'w \<times> store \<times> disk) option" where
  "plan_submit env w db d now p i args wd = (case normalizeDetachedSubmitArgs (ad_batch env) args wd of
     Inl e \<Rightarrow> Some (Inl e, w, db, d)
   | Inr normal \<Rightarrow> (case preview_command (ad_batch env) (ad_previews env) (ad_files env) now True db wd (normal @ [''--dry-run'']) of
       None \<Rightarrow> None
     | Some (Inl e, _) \<Rightarrow> Some (Inl (fault_new ''DETACH_PREVIEW_FAILED'' False), w, db, d)
     | Some (Inr ps, _) \<Rightarrow>
         if ps = [] then Some (Inl (fault_new ''DETACH_PREVIEW_FAILED'' False), w, db, d)
         else (case prepareDetachedSnapshot (ad_snapshot env) w d p i (map fst ps) normal of
             (Inl e, w1, d1) \<Rightarrow> Some (Inl e, w1, db, d1)
           | (Inr (root, rewritten), w1, d1) \<Rightarrow>
               (case submit_plan_of env db now p i wd normal ps root rewritten of
                  (r, db1) \<Rightarrow> Some (r, w1, db1, d1)))))"

definition plan_other ::
    "'w admission_env \<Rightarrow> store \<Rightarrow> project \<Rightarrow> string \<Rightarrow> string \<Rightarrow> string list \<Rightarrow> string \<Rightarrow> admission_plan" where
  "plan_other env db p i kind args wd =
     \<lparr>ap_payload = \<lparr>pl_args = args, pl_project = proj_id p, pl_cwd = wd, pl_config = config_copy env i,
        pl_data_root = operation_root env i, pl_snapshot_root = [], pl_intent_hash = [], pl_reserved = []\<rparr>,
      ap_args = args,
      ap_cluster = (if kind = ''pull'' then detachedPullCluster (ad_files env) db p args wd else [])\<rparr>"

definition admit_plan ::
    "'w admission_env \<Rightarrow> store \<Rightarrow> time \<Rightarrow> project \<Rightarrow> string \<Rightarrow> string \<Rightarrow> admission_plan \<Rightarrow>
     (go_error, string \<times> bool) result \<times> store" where
  "admit_plan env db now p i kind ap =
     admit_intent db now i kind (proj_id p) (ap_cluster ap) (ad_payload env (ap_payload ap))
       (ad_intent env kind (proj_id p) (pl_args (ap_payload ap)) (detachedInputHash env (ap_payload ap)))
       (wants_new (ap_args ap)) (pl_reserved (ap_payload ap))"

text \<open>
  \<open>admitDetachedAt\<close>: the operation and whether it was there before. Unless a new operation was
  queued, its directory is removed at the end.
\<close>

definition admitDetachedAt ::
    "'w admission_env \<Rightarrow> 'w \<Rightarrow> store \<Rightarrow> disk \<Rightarrow> time \<Rightarrow> string \<Rightarrow> string list \<Rightarrow> string \<Rightarrow> string \<Rightarrow>
     ((go_error, string \<times> bool) result \<times> 'w \<times> store \<times> disk) option" where
  "admitDetachedAt env w db d now kind args cwd workingDir =
     (case Discover (ad_files env) (if workingDir \<noteq> [] then workingDir else cwd) of
        Inl e \<Rightarrow> Some (Inl e, w, db, d)
      | Inr p \<Rightarrow>
          (let db0 = BindProject db now p
           in case ad_id env of
                Inl e \<Rightarrow> Some (Inl (fault_wrap ''OPERATION_CREATE_FAILED'' [] False e), w, db0, d)
              | Inr i \<Rightarrow>
                  (let gone = remove_below (operation_root env i)
                   in case ad_config env of
                        Inl e \<Rightarrow> Some (Inl (fault_wrap ''OPERATION_CREATE_FAILED'' [] False e), w, db0, gone d)
                      | Inr config \<Rightarrow>
                          (case (if kind = ''submit''
                                 then plan_submit env w db0 (d(config_copy env i \<mapsto> config)) now p i args workingDir
                                 else Some (Inr (plan_other env db0 p i kind args workingDir), w, db0,
                                   d(config_copy env i \<mapsto> config))) of
                             None \<Rightarrow> None
                           | Some (Inl e, w1, db1, d1) \<Rightarrow> Some (Inl e, w1, db1, gone d1)
                           | Some (Inr ap, w1, db1, d1) \<Rightarrow> (case admit_plan env db1 now p i kind ap of
                                (Inl e, db2) \<Rightarrow> Some (Inl e, w1, db2, gone d1)
                              | (Inr (j, found), db2) \<Rightarrow> Some (Inr (j, found), w1, db2, if found then gone d1 else d1))))))"

text \<open>
  A queued pull runs in the root of its project, not in the directory it was asked for in, so a
  relative source of a client in a subdirectory is looked up at another place.
\<close>

lemma pull_runs_at_root:
  assumes "GetProject db (proj_id p) = Inr p" and "proj_id p \<noteq> []" and "proj_root p \<noteq> []"
  shows "operation_workdir db (ap_payload (plan_other env db0 p i ''pull'' args wd)) = proj_root p"
  using assms by (simp add: operation_workdir_def plan_other_def)

section \<open>What an admission leaves in the database\<close>

lemma reserve_task_effect:
  assumes "reserve_task env db now t args = (r, db')" and "db_ok db"
  shows "db_ok db' \<and> same_operations db db' \<and>
    (\<forall>u. r = Inr u \<longrightarrow> find_row db' (task_id u) \<noteq> None \<and> (task_id u = task_id t \<or> find_row db (task_id u) \<noteq> None))"
proof -
  let ?t = "t\<lparr>dry_run := False\<rparr>"
  show ?thesis
  proof (cases "submissionKey (ad_digest env) ?t")
    case (Inl e)
    with assms show ?thesis by (auto simp: reserve_task_def)
  next
    case (Inr key)
    let ?k = "?t\<lparr>metadata := (metadata ?t)(''submission_key'' \<mapsto> key)\<rparr>"
    obtain x t1 db1 where c: "CreateTaskIdempotent db ?k False = (x, t1, db1)" by (rule prod_cases3)
    note ch = store_change.create_one [OF c]
    have ok1: "db_ok db1" using db_change_ok [OF db_change.tasks [OF ch] assms(2)] by blast
    note same1 = store_change_same_operations [OF ch]
    show ?thesis
    proof (cases x)
      case (Inl e)
      with assms(1) Inr c ok1 same1 show ?thesis by (auto simp: reserve_task_def)
    next
      case found: (Inr found)
      define u where "u = (case found of Some y \<Rightarrow> y | None \<Rightarrow> t1)"
      have row: "find_row db1 (task_id u) \<noteq> None \<and> (task_id u = task_id t \<or> find_row db (task_id u) \<noteq> None)"
      proof (cases found)
        case None
        with c found have "t1 = first_revision ?k \<and> insert_created db t1 = Inr db1"
          by (auto simp: CreateTaskIdempotent_def Let_def split: if_splits option.splits sum.splits)
        then have new: "insert_created db t1 = Inr db1" and id: "task_id t1 = task_id t"
          by (blast, simp add: first_revision_def)
        have "store_ok db" using assms(2) by (simp add: db_ok_def)
        from insert_created_ok(3) [OF new this, of "task_id t1"] id None show ?thesis by (simp add: u_def)
      next
        case (Some y)
        with c found have y: "find_active db (project_id (first_revision ?k)) (source_path (first_revision ?k))
            (submission_key_of (first_revision ?k)) = Some y" "db1 = db"
          by (auto simp: CreateTaskIdempotent_def Let_def split: if_splits option.splits sum.splits)
        have "\<exists>r\<in>set (tasks db). y = scanTask r"
          using find_active_Some [OF y(1)] by (auto simp: History_def source_rows_def)
        then have "find_row db (task_id y) \<noteq> None" by (auto simp: find_row_None)
        with y(2) Some show ?thesis by (simp add: u_def)
      qed
      let ?policy = "flagValue args ''--auto-pull''"
      show ?thesis
      proof (cases "?policy \<noteq> [] \<and> ?policy \<noteq> ''off''")
        case False
        with assms(1) Inr c found have "r = Inr u" "db' = db1" by (auto simp: reserve_task_def u_def Let_def)
        with ok1 same1 row show ?thesis by simp
      next
        case True
        obtain y u1 db2 where set: "setAutoPull db1 now u ?policy = (y, u1, db2)" by (rule prod_cases3)
        let ?u = "u\<lparr>metadata := (metadata u)(''auto_pull'' \<mapsto> ?policy, ''auto_pull_done'' \<mapsto> []), updated_at := now\<rparr>"
        have up: "UpdateTask db1 ?u = (y, u1, db2)" using set by (simp add: setAutoPull_def)
        have res: "r = Inr u1" "db' = db2" using assms(1) Inr c found True set by (auto simp: reserve_task_def u_def Let_def)
        have ch2: "store_change db1 db2" using up store_change.update by (auto simp: UpdateTask_def)
        have ok2: "db_ok db2" using db_change_ok [OF db_change.tasks [OF ch2] ok1] by blast
        have same2: "same_operations db db2"
          using same1 store_change_same_operations [OF ch2] by (simp add: same_operations_def)
        have st: "store_ok db1" using ok1 by (simp add: db_ok_def)
        have "task_id u1 = task_id u \<and> find_row db2 (task_id u) \<noteq> None"
          using up st row by (cases rule: UpdateTask_cases) auto
        with row ok2 same2 res show ?thesis by auto
      qed
    qed
  qed
qed

lemma submit_plan_of_effect:
  assumes "submit_plan_of env db now p i wd normal ps root rewritten = (r, db')" and "db_ok db" and "find_row db [] = None"
    and "\<forall>(s, t)\<in>set ps. task_id t \<noteq> []" and "ps \<noteq> []"
  shows "db_ok db' \<and> same_operations db db' \<and> (\<forall>ap. r = Inr ap \<longrightarrow> pl_reserved (ap_payload ap) = [] \<or>
    (\<exists>t. pl_reserved (ap_payload ap) = [t] \<and> t \<noteq> [] \<and> find_row db' t \<noteq> None))"
proof (cases "length ps = 1 \<and> \<not> wants_new normal")
  case False
  with assms(1,2) show ?thesis by (auto simp: submit_plan_of_def Let_def)
next
  case True
  obtain x db1 where res: "reserve_task env db now (snd (hd ps)) normal = (x, db1)" by (rule prod.exhaust)
  note eff = reserve_task_effect [OF res assms(2)]
  have "hd ps \<in> set ps" using assms(5) by simp
  then have id: "task_id (snd (hd ps)) \<noteq> []" using assms(4) by (auto simp: split_beta)
  show ?thesis
  proof (cases x)
    case (Inl e)
    with assms(1) True res eff show ?thesis by (auto simp: submit_plan_of_def Let_def)
  next
    case (Inr u)
    with eff id assms(3) have "task_id u \<noteq> []" "find_row db1 (task_id u) \<noteq> None" by auto
    with assms(1) True res Inr eff show ?thesis by (auto simp: submit_plan_of_def Let_def)
  qed
qed

lemma prepare_task_id:
  assumes "prepare env rq scan = Some (Inr (pv, u, wd))"
  shows "pe_id env = Inr (task_id u)"
proof (rule prepare_parts [OF assms])
  fix p src t
  assume "prepare_source env rq scan p src wd t = Some (Inr (pv, u, wd))"
  then show ?thesis by (rule prepare_source_parts) (simp add: prepared_task_def)
qed

lemma preview_sources_ids:
  assumes "\<forall>n. pe_id (envs n) \<noteq> Inr []"
  shows "preview_sources envs so cwd n ss = Some (Inr ps) \<Longrightarrow> \<forall>(s, t)\<in>set ps. task_id t \<noteq> []"
proof (induction ss arbitrary: n ps)
  case (Cons s ss)
  then obtain pv t workdir later where one: "prepare (envs n) (request_of so cwd s) True = Some (Inr (pv, t, workdir))"
    and rest: "preview_sources envs so cwd (Suc n) ss = Some (Inr later)"
    and ps: "ps = (\<lparr>ds_source = pv_source pv, ds_cluster = cluster_name t, ds_manifest = input_manifest t\<rparr>, t) # later"
    by (auto simp: or_panic_Inr)
  have "task_id t \<noteq> []" using prepare_task_id [OF one] assms by auto
  with Cons.IH [OF rest] ps show ?case by simp
qed simp

lemma plan_submit_effect:
  assumes "plan_submit env w db d now p i args wd = Some (r, w', db', d')" and "db_ok db" and "find_row db [] = None"
    and "\<forall>n. pe_id (ad_previews env n) \<noteq> Inr []"
  shows "db_ok db' \<and> same_operations db db' \<and> (\<forall>ap. r = Inr ap \<longrightarrow> pl_reserved (ap_payload ap) = [] \<or>
    (\<exists>t. pl_reserved (ap_payload ap) = [t] \<and> t \<noteq> [] \<and> find_row db' t \<noteq> None))"
proof (cases "\<exists>normal ps. normalizeDetachedSubmitArgs (ad_batch env) args wd = Inr normal \<and> ps \<noteq> [] \<and>
    (\<exists>x. preview_command (ad_batch env) (ad_previews env) (ad_files env) now True db wd (normal @ [''--dry-run'']) = Some (Inr ps, x))")
  case False
  with assms(1,2) show ?thesis
    by (auto simp: plan_submit_def split: sum.splits option.splits prod.splits if_splits)
next
  case True
  then obtain normal ps x where n: "normalizeDetachedSubmitArgs (ad_batch env) args wd = Inr normal" "ps \<noteq> []"
    "preview_command (ad_batch env) (ad_previews env) (ad_files env) now True db wd (normal @ [''--dry-run'']) = Some (Inr ps, x)"
    by blast
  have ids: "\<forall>(s, t)\<in>set ps. task_id t \<noteq> []"
  proof -
    obtain so sources where "preview_sources (ad_previews env) so wd 0 sources = Some (Inr ps)"
      using n(3) unfolding preview_command_def if_True
      by (auto split: sum.splits option.splits prod.splits if_splits)
    then show ?thesis by (rule preview_sources_ids [OF assms(4)])
  qed
  obtain y w1 d1 where sn: "prepareDetachedSnapshot (ad_snapshot env) w d p i (map fst ps) normal = (y, w1, d1)"
    by (rule prod_cases3)
  show ?thesis
  proof (cases y)
    case (Inl e)
    with assms(1,2) n sn show ?thesis by (auto simp: plan_submit_def)
  next
    case (Inr rr)
    obtain root rewritten where rr: "rr = (root, rewritten)" by (rule prod.exhaust)
    obtain x2 db2 where sp: "submit_plan_of env db now p i wd normal ps root rewritten = (x2, db2)" by (rule prod.exhaust)
    have "r = x2 \<and> db' = db2" using assms(1) n sn Inr rr sp by (simp add: plan_submit_def)
    with submit_plan_of_effect [OF sp assms(2,3) ids n(2)] show ?thesis by simp
  qed
qed

lemma FindOperationByDedup_Some:
  assumes "FindOperationByDedup db kind key = Some x"
  shows "x \<in> set (operations db) \<and> op_kind x = kind \<and> dedup_key x = key"
proof -
  define hits where "hits = filter (\<lambda>r. op_kind r = kind \<and> dedup_key r = key) (operations db)"
  obtain xs where "sort_desc (\<lambda>r. fmt_time (op_created_at r)) hits = x # xs"
    using assms unfolding FindOperationByDedup_def hits_def [symmetric] by (auto split: if_splits list.splits)
  then have "x \<in> set (sort_desc (\<lambda>r. fmt_time (op_created_at r)) hits)" by simp
  then show ?thesis by (simp add: hits_def)
qed

definition admitted_row :: "string \<Rightarrow> string \<Rightarrow> operation_task" where
  "admitted_row i t = \<lparr>ot_operation = i, ot_task = t, ot_ordinal = 0, ot_state = ''admitted'', ot_result = ''{}''\<rparr>"

text \<open>A queued operation, with the task it reserves, if any.\<close>

definition queued_as ::
    "store \<Rightarrow> store \<Rightarrow> string \<Rightarrow> string \<Rightarrow> string \<Rightarrow> string \<Rightarrow> string list \<Rightarrow> bool" where
  "queued_as db db' i kind pid body reserved \<longleftrightarrow> (\<exists>op. operations db' = operations db @ [op] \<and> op_id op = i \<and>
     op_kind op = kind \<and> op_project op = pid \<and> op_state op = OperationQueued \<and> (op_payload op = body \<or> body = []) \<and>
     operation_tasks db' = operation_tasks db @ map (admitted_row i) reserved \<and> tasks db' = tasks db)"

lemma admit_intent_effect:
  assumes "admit_intent db now i kind pid cluster body intent force reserved = (r, db')" and "db_ok db"
    and "i \<noteq> []" and "kind \<noteq> []" and "pid \<noteq> []"
    and "reserved = [] \<or> (\<exists>t. reserved = [t] \<and> t \<noteq> [] \<and> find_row db t \<noteq> None)"
  shows "db_ok db' \<and> (case r of
       Inl e \<Rightarrow> db' = db
     | Inr (j, found) \<Rightarrow> if found then db' = db \<and> (\<exists>x\<in>set (operations db). op_id x = j \<and> op_kind x = kind \<and>
           dedup_key x = (if force then ''force:'' @ i else ''v1:'' @ intent))
         else j = i \<and> queued_as db db' i kind pid body reserved)"
proof -
  let ?key = "if force then ''force:'' @ i else ''v1:'' @ intent"
  let ?op = "\<lparr>op_id = i, op_kind = kind, op_project = pid, cluster_key = cluster, dedup_key = ?key,
     op_state = OperationQueued, op_stage = ''queued'', op_payload = body, op_result = ''{}'', op_attempt = 0,
     max_attempts = 0, retry_deadline_at = None, next_attempt_at = None, lease_owner = [], lease_expires_at = None,
     error_code = [], error_message = [], op_retryable = False, op_created_at = now, started_at = None,
     op_updated_at = now, finished_at = None\<rparr>"
  show ?thesis
  proof (cases "FindOperationByDedup db kind ?key")
    case (Some x)
    with assms(1,2) FindOperationByDedup_Some [OF Some] show ?thesis by (auto simp: admit_intent_def Let_def)
  next
    case None
    obtain y op' db1 where c: "CreateOperation db now ?op = (y, op', db1)" by (rule prod_cases3)
    have rest: "(r, db') = (case y of Inl e \<Rightarrow> (Inl e, db1) | Inr _ \<Rightarrow>
        if reserved = [] then (Inr (i, False), db1)
        else (case ReplaceOperationTasks db1 i (map (\<lambda>(n, tid). relation_row i tid n ''admitted'' [])
                 (zip [0..<length reserved] reserved)) of
            (Inl e, db2) \<Rightarrow> (Inl e, db2) | (Inr _, db2) \<Rightarrow> (Inr (i, False), db2)))"
      using assms(1) None c by (auto simp: admit_intent_def Let_def split: sum.splits)
    have ok1: "db_ok db1" using db_change_ok [OF db_change.admit [OF c] assms(2)] by blast
    show ?thesis using c
    proof (cases rule: CreateOperation_cases)
      case failed
      then obtain e where "y = Inl e" by (cases y) auto
      with rest failed(1) assms(2) show ?thesis by simp
    next
      case created
      have op: "op_id op' = i" "op_kind op' = kind" "op_project op' = pid" "op_state op' = OperationQueued"
          "op_payload op' = body \<or> body = []"
        unfolding created(2) by (simp_all add: with_defaults_def Let_def)
      have t: "tasks db1 = tasks db" "operation_tasks db1 = operation_tasks db" "operations db1 = operations db @ [op']"
        unfolding created(4) by simp_all
      show ?thesis
      proof (cases "reserved = []")
        case True
        with rest created(1) have "r = Inr (i, False)" "db' = db1" by simp_all
        with op t ok1 True show ?thesis by (auto simp: queued_as_def)
      next
        case False
        with assms(6) obtain tid where tid: "reserved = [tid]" "tid \<noteq> []" "find_row db tid \<noteq> None" by blast
        have free: "\<forall>x\<in>set (operation_tasks db). ot_operation x \<noteq> i"
        proof
          fix x assume "x \<in> set (operation_tasks db)"
          then have "known_operation db (ot_operation x)" using assms(2) by (simp add: db_ok_def operations_ok_def)
          moreover have "find_operation db (op_id op') = None"
            using created(3) by (simp add: insertOperation_def split: if_splits)
          ultimately show "ot_operation x \<noteq> i" using op(1) by (auto simp: find_operation_None)
        qed
        then have same: "filter (\<lambda>x. ot_operation x \<noteq> i) (operation_tasks db1) = operation_tasks db"
          unfolding t(2) by (simp add: filter_id_conv)
        have known: "find_operation db1 i \<noteq> None" "find_row db1 tid \<noteq> None"
          using op(1) tid(3) by (auto simp: find_operation_None known_operation_def identities_def t find_row_def op_identity_def)
        have rep: "ReplaceOperationTasks db1 i (map (\<lambda>(n, tid). relation_row i tid n ''admitted'' [])
             (zip [0..<length reserved] reserved)) =
             (Inr (), db1\<lparr>operation_tasks := operation_tasks db @ [admitted_row i tid]\<rparr>)"
          using known free assms(3) tid(2)
          by (simp add: ReplaceOperationTasks_def same tid(1) complete_relation_def relation_row_def Let_def
              insertOperationTask_def admitted_row_def find_operation_def find_row_def)
        with rest created(1) False have res: "r = Inr (i, False)"
          "db' = db1\<lparr>operation_tasks := operation_tasks db @ [admitted_row i tid]\<rparr>" by simp_all
        have "db_ok db'" using db_change_ok [OF db_change.progress [OF rep] ok1] res(2) by simp
        with res op t tid(1) show ?thesis by (auto simp: queued_as_def)
      qed
    qed
  qed
qed

definition removed_below :: "string \<Rightarrow> disk \<Rightarrow> bool" where
  "removed_below dir d \<longleftrightarrow> (\<forall>q. q = dir \<or> has_prefix q (dir @ ''/'') \<longrightarrow> d q = None)"

lemma removed_remove [simp]: "removed_below dir (remove_below dir d)"
  by (simp add: removed_below_def remove_below_def)

text \<open>
  C12. The admission of a detached command, of any kind and on every branch. It answers with a
  new operation, and then exactly this operation was added, queued, with the payload that names
  what it reserves, one progress row for the reserved task, and that task in the store; or with an
  operation of this kind that was there before, or with an error, and then no operation and no
  progress row was added and the directory of the operation is gone. Database invariants hold
  in every case.
\<close>

theorem detached_admission_outcomes:
  assumes "db_ok db" and "admitDetachedAt env w db d now kind args cwd wd = Some (r, w', db', d')"
    and "Discover (ad_files env) (if wd \<noteq> [] then wd else cwd) = Inr p" and "ad_id env = Inr i"
    and "i \<noteq> []" and "kind \<noteq> []" and "proj_id p \<noteq> []"
    and "find_row db [] = None" and "\<forall>n. pe_id (ad_previews env n) \<noteq> Inr []"
  shows "db_ok db' \<and> (case r of
       Inr (j, False) \<Rightarrow> j = i \<and> (\<exists>op pl. operations db' = operations db @ [op] \<and> op_id op = i \<and> op_kind op = kind \<and>
         op_project op = proj_id p \<and> op_state op = OperationQueued \<and> (op_payload op = ad_payload env pl \<or> ad_payload env pl = []) \<and>
         operation_tasks db' = operation_tasks db @ map (admitted_row i) (pl_reserved pl) \<and>
         (\<forall>t\<in>set (pl_reserved pl). find_row db' t \<noteq> None))
     | Inr (j, True) \<Rightarrow> same_operations db db' \<and> (\<exists>x\<in>set (operations db). op_id x = j \<and> op_kind x = kind) \<and>
         removed_below (operation_root env i) d'
     | Inl e \<Rightarrow> same_operations db db' \<and> removed_below (operation_root env i) d')"
proof -
  let ?db = "BindProject db now p" let ?gone = "remove_below (operation_root env i)"
  have ch: "store_change db ?db" by (rule store_change.bind)
  have ok0: "db_ok ?db" using db_change_ok [OF db_change.tasks [OF ch] assms(1)] by blast
  note same0 = store_change_same_operations [OF ch]
  have row0: "find_row ?db [] = None" using assms(8) by (simp add: find_row_def)
  show ?thesis
  proof (cases "ad_config env")
    case (Inl e)
    with assms(2-4) ok0 same0 show ?thesis by (auto simp: admitDetachedAt_def Let_def)
  next
    case (Inr config)
    let ?d = "d(config_copy env i \<mapsto> config)"
    define plan where "plan = (if kind = ''submit'' then plan_submit env w ?db ?d now p i args wd
        else Some (Inr (plan_other env ?db p i kind args wd), w, ?db, ?d))"
    have run: "admitDetachedAt env w db d now kind args cwd wd = (case plan of
         None \<Rightarrow> None
       | Some (Inl e, w1, db1, d1) \<Rightarrow> Some (Inl e, w1, db1, ?gone d1)
       | Some (Inr ap, w1, db1, d1) \<Rightarrow> (case admit_plan env db1 now p i kind ap of
            (Inl e, db2) \<Rightarrow> Some (Inl e, w1, db2, ?gone d1)
          | (Inr (j, found), db2) \<Rightarrow> Some (Inr (j, found), w1, db2, if found then ?gone d1 else d1)))"
      unfolding admitDetachedAt_def assms(3) assms(4) Let_def sum.case Inr plan_def ..
    obtain y w1 db1 d1 where plan: "plan = Some (y, w1, db1, d1)" using run assms(2) by (cases plan) auto
    have eff: "db_ok db1 \<and> same_operations ?db db1 \<and> (\<forall>ap. y = Inr ap \<longrightarrow> pl_reserved (ap_payload ap) = [] \<or>
        (\<exists>t. pl_reserved (ap_payload ap) = [t] \<and> t \<noteq> [] \<and> find_row db1 t \<noteq> None))"
    proof (cases "kind = ''submit''")
      case True
      with plan have "plan_submit env w ?db ?d now p i args wd = Some (y, w1, db1, d1)" unfolding plan_def by simp
      from plan_submit_effect [OF this ok0 row0 assms(9)] show ?thesis .
    next
      case False
      with plan have "y = Inr (plan_other env ?db p i kind args wd)" "db1 = ?db" unfolding plan_def by auto
      with ok0 show ?thesis by (simp add: plan_other_def)
    qed
    have same: "same_operations db db1" using same_operations_trans [OF same0] eff by blast
    show ?thesis
    proof (cases y)
      case (Inl e)
      with run plan assms(2) eff same show ?thesis by simp
    next
      case (Inr ap)
      obtain z db2 where adm: "admit_plan env db1 now p i kind ap = (z, db2)" by (rule prod.exhaust)
      have res: "pl_reserved (ap_payload ap) = [] \<or>
          (\<exists>t. pl_reserved (ap_payload ap) = [t] \<and> t \<noteq> [] \<and> find_row db1 t \<noteq> None)" using eff Inr by blast
      note out = admit_intent_effect [OF adm [unfolded admit_plan_def] _ assms(5-7) res]
      have ok: "db_ok db1" using eff by blast
      show ?thesis
      proof (cases z)
        case (Inl e)
        with run plan \<open>y = Inr ap\<close> adm assms(2) out [OF ok] same ok show ?thesis by auto
      next
        case (Inr jf)
        obtain j found where jf: "jf = (j, found)" by (rule prod.exhaust)
        have r: "r = Inr (j, found)" "db' = db2" "d' = (if found then ?gone d1 else d1)"
          using run plan \<open>y = Inr ap\<close> adm Inr jf assms(2) by simp_all
        show ?thesis
        proof (cases found)
          case True
          with out [OF ok] Inr jf r same show ?thesis by (auto simp: same_operations_def)
        next
          case False
          with out [OF ok] Inr jf have q: "j = i" "db_ok db2"
            "queued_as db1 db2 i kind (proj_id p) (ad_payload env (ap_payload ap)) (pl_reserved (ap_payload ap))" by simp_all
          then obtain op where op: "operations db2 = operations db1 @ [op]" "op_id op = i" "op_kind op = kind"
              "op_project op = proj_id p" "op_state op = OperationQueued"
              "op_payload op = ad_payload env (ap_payload ap) \<or> ad_payload env (ap_payload ap) = []"
              "operation_tasks db2 = operation_tasks db1 @ map (admitted_row i) (pl_reserved (ap_payload ap))"
              "tasks db2 = tasks db1"
            by (auto simp: queued_as_def)
          have "\<forall>t\<in>set (pl_reserved (ap_payload ap)). find_row db2 t \<noteq> None"
            using res by (auto simp: find_row_def op(8))
          with op same q(1,2) False r show ?thesis
            by (auto simp: same_operations_def intro!: exI [of _ op] exI [of _ "ap_payload ap"])
        qed
      qed
    qed
  qed
qed

text \<open>
  The answer that reuses an operation does not look at its state, and the task was reserved
  before: when the submission key is new (the earlier task was rejected, or the target changed)
  the new task stays in the store, without any operation that would execute it.
\<close>

theorem reused_submission_orphans:
  assumes "db_ok db" and "submit_plan_of env db now p i wd normal [(s, t)] root rewritten = (Inr ap, db1)"
    and "find_row db (task_id t) = None" and "pl_reserved (ap_payload ap) = [task_id t]"
    and "admit_plan env db1 now p i kind ap = (Inr (j, True), db2)"
  shows "find_row db2 (task_id t) \<noteq> None \<and> same_operations db db2 \<and> (\<forall>x\<in>set (operation_tasks db2). ot_task x \<noteq> task_id t)"
proof -
  obtain y db1' where res: "reserve_task env db now t normal = (y, db1')" by (rule prod.exhaust)
  have one: "\<not> wants_new normal" using assms(2,4) by (auto simp: submit_plan_of_def Let_def split: if_splits)
  with assms(2) res obtain u where u: "y = Inr u" "db1' = db1"
    "ap_payload ap = \<lparr>pl_args = rewritten, pl_project = proj_id p, pl_cwd = wd, pl_config = config_copy env i,
       pl_data_root = operation_root env i, pl_snapshot_root = path_join [root, src_workdir (ds_source s)],
       pl_intent_hash = previewManifestHash env [s], pl_reserved = [task_id u]\<rparr>"
    by (auto simp: submit_plan_of_def Let_def split: sum.splits)
  with assms(4) have "task_id u = task_id t" by simp
  with reserve_task_effect [OF res assms(1)] u(1,2)
  have eff: "db_ok db1" "same_operations db db1" "find_row db1 (task_id t) \<noteq> None" by auto
  have "db2 = db1"
    using assms(5) unfolding admit_plan_def admit_intent_def Let_def
    by (auto split: option.splits sum.splits prod.splits if_splits)
  moreover have "\<forall>x\<in>set (operation_tasks db). ot_task x \<noteq> task_id t"
    using assms(1,3) by (auto simp: db_ok_def operations_ok_def)
  ultimately show ?thesis using eff by (auto simp: same_operations_def)
qed

definition sample_admission :: "unit admission_env" where
  "sample_admission = \<lparr>ad_files = sample_files, ad_batch = sample_batch_files, ad_id = Inr ''jo_1'', ad_config = Inr ''cfg'',
     ad_previews = (\<lambda>n. sample_prepare), ad_snapshot = sample_snapshot, ad_digest = (\<lambda>f. Inr ''h''),
     ad_manifest_hash = (\<lambda>x. ''m''), ad_args_hash = (\<lambda>x. ''a''), ad_intent = (\<lambda>k p as h. ''x''), ad_payload = (\<lambda>pl. ''{}'')\<rparr>"

lemma sample_admission_simps:
  "ad_files sample_admission = sample_files" "ad_id sample_admission = Inr ''jo_1''" "ad_config sample_admission = Inr ''cfg''"
  "ad_previews sample_admission = (\<lambda>n. sample_prepare)" "ad_payload sample_admission pl = ''{}''"
  "ad_digest sample_admission f = Inr ''h''" "ad_intent sample_admission k q as h = ''x''"
  by (simp_all add: sample_admission_def)

lemma sample_no_empty_row: "find_row sample_store [] = None"
  by (simp add: find_row_def sample_store_def BindProject_def empty_store_def)

theorem detached_admission_outcomes_witness:
  "\<exists>r w' db' d'. admitDetachedAt sample_admission () sample_store Map.empty 5 ''pull'' [] ''/p/a'' ''/p/a'' = Some (r, w', db', d') \<and> db_ok db'"
proof -
  have ok: "db_ok sample_store" using db_change_ok [OF db_change.tasks [OF sample_store_ok(2)]] by simp
  have disc: "Discover (ad_files sample_admission) (if ''/p/a'' \<noteq> [] then ''/p/a'' else ''/p/a'') = Inr \<lparr>proj_id = ''pj'', proj_root = ''/p''\<rparr>"
    using sample_discover by (simp add: sample_admission_simps)
  have "admitDetachedAt sample_admission () sample_store Map.empty 5 ''pull'' [] ''/p/a'' ''/p/a'' \<noteq> None"
    unfolding admitDetachedAt_def disc by (simp add: sample_admission_simps Let_def split: prod.splits sum.splits)
  then obtain r w' db' d' where run:
    "admitDetachedAt sample_admission () sample_store Map.empty 5 ''pull'' [] ''/p/a'' ''/p/a'' = Some (r, w', db', d')"
    by auto
  have ids: "\<forall>n. pe_id (ad_previews sample_admission n) \<noteq> Inr []"
    by (simp add: sample_admission_simps sample_prepare_def)
  show ?thesis
    using detached_admission_outcomes [OF ok run disc sample_admission_simps(2) _ _ _ sample_no_empty_row ids] run by auto
qed

theorem reused_submission_orphans_witness:
  "\<exists>db1 ap db2. submit_plan_of sample_admission sample_queue 5 \<lparr>proj_id = ''p'', proj_root = ''/p''\<rparr> ''jo_1'' ''/p'' []
       [(sample_detached, sample_task\<lparr>task_id := ''t9''\<rparr>)] ''/data/jo_1/project'' [] = (Inr ap, db1) \<and>
     admit_plan sample_admission db1 5 \<lparr>proj_id = ''p'', proj_root = ''/p''\<rparr> ''jo_1'' ''pull'' ap = (Inr (''o1'', True), db2) \<and>
     (\<forall>x\<in>set (operation_tasks db2). ot_task x \<noteq> ''t9'')"
proof -
  let ?p = "\<lparr>proj_id = ''p'', proj_root = ''/p''\<rparr>" let ?t = "sample_task\<lparr>task_id := ''t9''\<rparr>"
  have rows: "tasks sample_queue = [encodeTask (first_revision sample_task)]" "operations sample_queue = [sample_operation]"
    "project_bound sample_queue ''p''"
    by (simp_all add: sample_queue_def sample_created_def sample_store_def project_bound_def BindProject_def empty_store_def)
  have new: "find_row sample_queue (task_id ?t) = None"
    by (simp add: find_row_def rows first_revision_def sample_task_def encodeTask_def)
  let ?k = "first_revision (?t\<lparr>dry_run := False, metadata := (metadata ?t)(''submission_key'' \<mapsto> ''v1:h'')\<rparr>)"
  have none: "find_active sample_queue (project_id ?k) (source_path ?k) (submission_key_of ?k) = None"
    by (simp add: find_active_def History_def source_rows_def rows first_revision_def sample_task_def encodeTask_def
        scanTask_def submission_key_of_def meta_get_def sort_desc_def)
  obtain db1 where ins: "insert_created sample_queue ?k = Inr db1" "operations db1 = [sample_operation]"
    using new rows by (auto simp: insert_created_def insertTask_def insertEvent_def created_event_def find_row_def
        first_revision_def sample_task_def find_append encodeTask_def)
  have "CreateTaskIdempotent sample_queue (?t\<lparr>dry_run := False, metadata := (metadata ?t)(''submission_key'' \<mapsto> ''v1:h'')\<rparr>) False =
      (Inr None, ?k, db1)"
    using none ins(1) by (simp add: CreateTaskIdempotent_def Let_def submission_key_of_def meta_get_def)
  then have res: "reserve_task sample_admission sample_queue 5 ?t [] = (Inr ?k, db1)"
    by (simp add: reserve_task_def submissionKey_def sample_admission_simps)
  have fresh: "\<not> wants_new []" by (simp add: wants_new_def containsFlag_def hasFlagPrefix_def)
  obtain ap where plan: "submit_plan_of sample_admission sample_queue 5 ?p ''jo_1'' ''/p'' [] [(sample_detached, ?t)] ''/data/jo_1/project'' [] =
      (Inr ap, db1)" "pl_reserved (ap_payload ap) = [''t9'']" "ap_args ap = []"
    using res fresh by (simp add: submit_plan_of_def Let_def first_revision_def)
  have adm: "admit_plan sample_admission db1 5 ?p ''jo_1'' ''pull'' ap = (Inr (''o1'', True), db1)"
    using fresh by (simp add: admit_plan_def admit_intent_def plan(3) sample_admission_simps FindOperationByDedup_def ins(2)
        sort_desc_def sample_operation_def)
  from reused_submission_orphans [OF sample_queue_ok plan(1) new _ adm] plan adm show ?thesis by auto
qed

end
