(* ===== verification/Daemon_Protocol.thy ===== *)
theory Daemon_Protocol
  imports Command_Line Joyrun_Model
begin

text \<open>
  The conversation between a client and the resident daemon (\<open>internal/daemon/protocol.go\<close>, and
  the daemon commands of \<open>internal/cli/daemon.go\<close>): frames of a byte stream, the server's side of
  one connection, the client's call, and what the command line makes of its answer. A connection
  is the bytes that were sent on it; \<open>encoding/json\<close> is a parameter.
\<close>

section \<open>Frames\<close>

definition maxFrameSize :: nat where
  "maxFrameSize = 8 * 2 ^ 20"

text \<open>\<open>binary.BigEndian\<close> of a \<open>uint32\<close>; lengths up to the limit are below \<open>2 ^ 32\<close>.\<close>

definition header_of :: "nat \<Rightarrow> string" where
  "header_of n = map (\<lambda>k. char_of (n div 2 ^ k mod 256)) [24, 16, 8, 0]"

definition header_value :: "string \<Rightarrow> nat" where
  "header_value h = foldl (\<lambda>n c. 256 * n + of_char c) 0 h"

text \<open>\<open>None\<close> is the error of a message that is empty or too long: then nothing is written.\<close>

definition writeFrame :: "string \<Rightarrow> string option" where
  "writeFrame data = (if data = [] \<or> length data > maxFrameSize then None else Some (header_of (length data) @ data))"

text \<open>The data of the first frame and what is left; \<open>None\<close> where the stream ends before the frame, or for a bad length.\<close>

definition readFrame :: "string \<Rightarrow> (string \<times> string) option" where
  "readFrame s =
     (if length s < 4 then None
      else let n = header_value (take 4 s); rest = drop 4 s
        in if n = 0 \<or> n > maxFrameSize then None
           else if length rest < n then None else Some (take n rest, drop n rest))"

lemma header_value_of: "n < 2 ^ 32 \<Longrightarrow> header_value (header_of n) = n"
proof -
  assume "n < 2 ^ 32"
  then have "n div 2 ^ 24 mod 256 = n div 2 ^ 24" by simp
  moreover have "n = 256 * (256 * (256 * (n div 2 ^ 24) + n div 2 ^ 16 mod 256) + n div 2 ^ 8 mod 256) + n mod 256"
  proof -
    have "n div 2 ^ 24 = n div 2 ^ 16 div 256" "n div 2 ^ 16 = n div 2 ^ 8 div 256" "n div 2 ^ 8 = n div 256"
      using div_mult2_eq [of n "2 ^ 16" 256] div_mult2_eq [of n "2 ^ 8" 256] by simp_all
    then show ?thesis by simp
  qed
  ultimately show ?thesis by (simp add: header_value_def header_of_def)
qed

lemma length_header [simp]: "length (header_of n) = 4"
  by (simp add: header_of_def)

lemma frame_roundtrip:
  assumes "writeFrame data = Some f"
  shows "readFrame (f @ rest) = Some (data, rest)"
proof -
  have f: "f = header_of (length data) @ data" "data \<noteq> []" "length data \<le> maxFrameSize"
    using assms by (auto simp: writeFrame_def split: if_splits)
  then have "length data < 2 ^ 32" by (simp add: maxFrameSize_def)
  from header_value_of [OF this] f show ?thesis by (simp add: readFrame_def Let_def)
qed

text \<open>A frame that is cut short is never taken for a message.\<close>

lemma frame_cut:
  assumes "writeFrame data = Some f" and "n < length f"
  shows "readFrame (take n f) = None"
proof -
  have f: "f = header_of (length data) @ data" "length data \<le> maxFrameSize"
    using assms by (auto simp: writeFrame_def split: if_splits)
  then have "length data < 2 ^ 32" by (simp add: maxFrameSize_def)
  from header_value_of [OF this] f assms(2) show ?thesis by (auto simp: readFrame_def Let_def min_def)
qed

section \<open>Messages\<close>

record ipc_request =
  iq_type :: string
  iq_protocol :: int
  iq_version :: string
  iq_secret :: string
  iq_id :: string
  iq_method :: string
  iq_cwd :: string
  iq_args :: "string list"

record ipc_hello =
  ih_type :: string
  ih_protocol :: int
  ih_min_protocol :: int
  ih_version :: string
  ih_instance :: string
  ih_pid :: int
  ih_schema :: string
  ih_started :: string
  ih_error :: string

record ipc_response =
  ir_type :: string
  ir_id :: string
  ir_ok :: bool
  ir_exit :: int
  ir_stdout :: string
  ir_stderr :: string
  ir_error :: string

record ipc_codec =
  enc_request :: "ipc_request \<Rightarrow> string"
  dec_request :: "string \<Rightarrow> ipc_request option"
  enc_hello :: "ipc_hello \<Rightarrow> string"
  dec_hello :: "string \<Rightarrow> ipc_hello option"
  enc_response :: "ipc_response \<Rightarrow> string"
  dec_response :: "string \<Rightarrow> ipc_response option"

definition ProtocolVersion :: int where
  "ProtocolVersion = 1"

section \<open>The server\<close>

record server =
  sv_secret :: string
  sv_version :: string
  sv_instance :: string
  sv_pid :: int
  sv_schema :: string
  sv_started :: string
  sv_handler :: "(string list \<Rightarrow> string \<Rightarrow> int \<times> string \<times> string) option"
  sv_status :: string

definition hello_error :: "server \<Rightarrow> ipc_hello" where
  "hello_error sv = \<lparr>ih_type = ''hello_error'', ih_protocol = ProtocolVersion, ih_min_protocol = ProtocolVersion,
     ih_version = sv_version sv, ih_instance = [], ih_pid = 0, ih_schema = [], ih_started = [], ih_error = ''IPC_AUTH_FAILED''\<rparr>"

definition hello_ok :: "server \<Rightarrow> ipc_hello" where
  "hello_ok sv = \<lparr>ih_type = ''hello_ok'', ih_protocol = ProtocolVersion, ih_min_protocol = ProtocolVersion,
     ih_version = sv_version sv, ih_instance = sv_instance sv, ih_pid = sv_pid sv, ih_schema = sv_schema sv,
     ih_started = sv_started sv, ih_error = []\<rparr>"

definition response :: "ipc_request \<Rightarrow> bool \<Rightarrow> int \<Rightarrow> ipc_response" where
  "response rq ok code = \<lparr>ir_type = ''response'', ir_id = iq_id rq, ir_ok = ok, ir_exit = code, ir_stdout = [],
     ir_stderr = [], ir_error = []\<rparr>"

text \<open>What was executed, and whether the server stops; \<open>sv_status\<close> is the JSON text of the status.\<close>

datatype served = Nothing | Executed "string list" string | Stopped

definition answer_request :: "server \<Rightarrow> ipc_request \<Rightarrow> ipc_response \<times> served" where
  "answer_request sv rq =
     (if iq_type rq \<noteq> ''request'' then ((response rq False 1)\<lparr>ir_error := ''IPC_INVALID_REQUEST''\<rparr>, Nothing)
      else if iq_method rq = ''daemon.stop'' then (response rq True 0, Stopped)
      else if iq_method rq = ''daemon.status'' then ((response rq True 0)\<lparr>ir_stdout := sv_status sv @ [nl]\<rparr>, Nothing)
      else (case sv_handler sv of
          None \<Rightarrow> ((response rq False 1)\<lparr>ir_error := ''DAEMON_HANDLER_UNAVAILABLE''\<rparr>, Nothing)
        | Some h \<Rightarrow> (case h (iq_args rq) (iq_cwd rq) of (code, out, err) \<Rightarrow>
            ((response rq (code = 0) code)\<lparr>ir_stdout := out, ir_stderr := err\<rparr>, Executed (iq_args rq) (iq_cwd rq)))))"

text \<open>The error of writing an answer is dropped.\<close>

definition frame_or_nothing :: "string \<Rightarrow> string" where
  "frame_or_nothing data = (case writeFrame data of None \<Rightarrow> [] | Some f \<Rightarrow> f)"

text \<open>
  One connection: the bytes received so far to the bytes sent so far and what was done. There
  may be no free slot; then the connection is closed without an answer.
\<close>

definition serve :: "ipc_codec \<Rightarrow> server \<Rightarrow> bool \<Rightarrow> string \<Rightarrow> string \<times> served" where
  "serve cd sv slot input =
     (if \<not> slot then ([], Nothing)
      else case readFrame input of
        None \<Rightarrow> ([], Nothing)
      | Some (data, rest) \<Rightarrow> (case dec_request cd data of
          None \<Rightarrow> ([], Nothing)
        | Some hello \<Rightarrow>
            if iq_type hello \<noteq> ''hello'' \<or> iq_protocol hello \<noteq> ProtocolVersion \<or> iq_secret hello \<noteq> sv_secret sv
            then (frame_or_nothing (enc_hello cd (hello_error sv)), Nothing)
            else (case writeFrame (enc_hello cd (hello_ok sv)) of
                None \<Rightarrow> ([], Nothing)
              | Some greeting \<Rightarrow> (case readFrame rest of
                  None \<Rightarrow> (greeting, Nothing)
                | Some (data2, _) \<Rightarrow> (case dec_request cd data2 of
                    None \<Rightarrow> (greeting, Nothing)
                  | Some rq \<Rightarrow> (case answer_request sv rq of (rp, what) \<Rightarrow>
                      (greeting @ frame_or_nothing (enc_response cd rp), what)))))))"

section \<open>The client\<close>

definition unavailable :: go_error where
  "unavailable = fault_wrap ''DAEMON_UNAVAILABLE'' [] True (PlainError ''ipc'')"

definition call_method :: "string list \<Rightarrow> string" where
  "call_method args =
     (let m = (if length args \<ge> 2 \<and> args ! 0 = ''daemon'' \<and> args ! 1 = ''stop'' then ''daemon.stop'' else ''command.execute'')
      in if length args \<ge> 2 \<and> args ! 0 = ''daemon'' \<and> args ! 1 = ''status'' then ''daemon.status'' else m)"

definition hello_request :: "string \<Rightarrow> string \<Rightarrow> ipc_request" where
  "hello_request version secret = \<lparr>iq_type = ''hello'', iq_protocol = ProtocolVersion, iq_version = version,
     iq_secret = secret, iq_id = [], iq_method = [], iq_cwd = [], iq_args = []\<rparr>"

definition command_request :: "string \<Rightarrow> string \<Rightarrow> string list \<Rightarrow> ipc_request" where
  "command_request i cwd args = \<lparr>iq_type = ''request'', iq_protocol = ProtocolVersion, iq_version = [], iq_secret = [],
     iq_id = i, iq_method = call_method args, iq_cwd = cwd, iq_args = args\<rparr>"

text \<open>
  \<open>Call\<close>: the content of the secret file, if it can be read; \<open>sent\<close> gives what the server has sent once it has
  received the bytes, \<open>None\<close> without a connection.
\<close>

definition Call ::
    "ipc_codec \<Rightarrow> string option \<Rightarrow> (string \<Rightarrow> string) option \<Rightarrow> string \<Rightarrow> string \<Rightarrow> string \<Rightarrow> string list \<Rightarrow>
     (go_error, ipc_response) result" where
  "Call cd secret_file connection version i cwd args = (case secret_file of
     None \<Rightarrow> Inl unavailable
   | Some secret \<Rightarrow> (case connection of
       None \<Rightarrow> Inl unavailable
     | Some sent \<Rightarrow> (case writeFrame (enc_request cd (hello_request version secret)) of
         None \<Rightarrow> Inl unavailable
       | Some hello \<Rightarrow> (case Option.bind (readFrame (sent hello)) (dec_hello cd \<circ> fst) of
           None \<Rightarrow> Inl unavailable
         | Some answer \<Rightarrow>
             if ih_type answer \<noteq> ''hello_ok'' then Inl (fault_new ''DAEMON_VERSION_MISMATCH'' False)
             else (case writeFrame (enc_request cd (command_request i cwd args)) of
                 None \<Rightarrow> Inl unavailable
               | Some request \<Rightarrow>
                   (case Option.bind (readFrame (sent (hello @ request))) (\<lambda>(_, rest). Option.bind (readFrame rest) (dec_response cd \<circ> fst)) of
                      None \<Rightarrow> Inl unavailable | Some rp \<Rightarrow> Inr rp))))))"

text \<open>The exit code, the output and the error of a forwarded command.\<close>

definition forwardToDaemon :: "(go_error, ipc_response) result \<Rightarrow> int \<times> string \<times> string \<times> go_error option" where
  "forwardToDaemon answer = (case answer of
     Inr rp \<Rightarrow> (ir_exit rp, ir_stdout rp, ir_stderr rp, None)
   | Inl e \<Rightarrow> (1, [], [], Some (if fault_code e = ''DAEMON_UNAVAILABLE'' then fault_new ''DAEMON_REQUIRED'' True else e)))"

section \<open>A call and its service\<close>

lemma readFrame_nil [simp]: "readFrame [] = None"
  by (simp add: readFrame_def)

lemma frame_roundtrip_nil: "writeFrame data = Some f \<Longrightarrow> readFrame f = Some (data, [])"
  using frame_roundtrip [of data f "[]"] by simp

text \<open>
  C26. One call of a client, served by a daemon with a free slot, where JSON gives back the
  messages of this exchange. With another secret the command is not executed and the client
  reports a rejected protocol. With the daemon's secret the daemon answers exactly the request
  the client sent: when the answer fits a frame the client has exactly this answer, and when it
  does not (more than 8 MiB) the client is told that the daemon is unavailable although the
  command was executed. A frame that is cut anywhere is never taken for a message.
\<close>

theorem daemon_call_exchange:
  assumes "writeFrame (enc_request cd (hello_request version secret)) = Some hello"
    and "writeFrame (enc_request cd (command_request i cwd args)) = Some request"
    and "dec_request cd (enc_request cd (hello_request version secret)) = Some (hello_request version secret)"
    and "dec_request cd (enc_request cd (command_request i cwd args)) = Some (command_request i cwd args)"
    and "dec_hello cd (enc_hello cd (hello_ok sv)) = Some (hello_ok sv)" and "writeFrame (enc_hello cd (hello_ok sv)) \<noteq> None"
    and "dec_hello cd (enc_hello cd (hello_error sv)) = Some (hello_error sv)" and "writeFrame (enc_hello cd (hello_error sv)) \<noteq> None"
    and "answer_request sv (command_request i cwd args) = (rp, what)"
    and "dec_response cd (enc_response cd rp) = Some rp"
  defines "answer \<equiv> Call cd (Some secret) (Some (fst \<circ> serve cd sv True)) version i cwd args"
    and "done_by \<equiv> snd (serve cd sv True (hello @ request))"
  shows "(if secret \<noteq> sv_secret sv then answer = Inl (fault_new ''DAEMON_VERSION_MISMATCH'' False) \<and> done_by = Nothing
     else done_by = what \<and> (if enc_response cd rp \<noteq> [] \<and> length (enc_response cd rp) \<le> maxFrameSize
       then answer = Inr rp else answer = Inl unavailable \<and> snd (snd (snd (forwardToDaemon answer))) = Some (fault_new ''DAEMON_REQUIRED'' True))) \<and>
     (\<forall>n<length hello. readFrame (take n hello) = None) \<and> (\<forall>n<length request. readFrame (take n request) = None)"
proof -
  have hello: "readFrame (hello @ x) = Some (enc_request cd (hello_request version secret), x)" for x
    by (rule frame_roundtrip [OF assms(1)])
  have request: "readFrame request = Some (enc_request cd (command_request i cwd args), [])"
    by (rule frame_roundtrip_nil [OF assms(2)])
  have kind: "iq_type (hello_request version secret) = ''hello''" "iq_protocol (hello_request version secret) = ProtocolVersion"
    "iq_secret (hello_request version secret) = secret"
    by (simp_all add: hello_request_def)
  have types: "ih_type (hello_ok sv) = ''hello_ok''" "ih_type (hello_error sv) = ''hello_error''"
    by (simp_all add: hello_ok_def hello_error_def)
  obtain ok where ok: "writeFrame (enc_hello cd (hello_ok sv)) = Some ok" using assms(6) by blast
  obtain bad where bad: "writeFrame (enc_hello cd (hello_error sv)) = Some bad" using assms(8) by blast
  have cut: "(\<forall>n<length hello. readFrame (take n hello) = None) \<and> (\<forall>n<length request. readFrame (take n request) = None)"
    using frame_cut [OF assms(1)] frame_cut [OF assms(2)] by blast
  show ?thesis
  proof (cases "secret = sv_secret sv")
    case False
    have sent: "serve cd sv True (hello @ x) = (bad, Nothing)" for x
      using False by (simp add: serve_def hello assms(3) kind frame_or_nothing_def bad)
    have "answer = Inl (fault_new ''DAEMON_VERSION_MISMATCH'' False)"
      using sent [of "[]"] frame_roundtrip_nil [OF bad]
      by (simp add: answer_def Call_def assms(1,7) types)
    moreover have "done_by = Nothing" by (simp add: done_by_def sent)
    ultimately show ?thesis using False cut by simp
  next
    case True
    have right: "iq_secret (hello_request version secret) = sv_secret sv" using True kind(3) by simp
    have first: "serve cd sv True hello = (ok, Nothing)"
      using hello [of "[]"] by (simp add: serve_def assms(3) kind(1,2) right ok)
    have second: "serve cd sv True (hello @ request) = (ok @ frame_or_nothing (enc_response cd rp), what)"
      by (simp add: serve_def hello request assms(3,4,9) kind(1,2) right ok)
    have answer: "answer = (case Option.bind (readFrame (frame_or_nothing (enc_response cd rp))) (dec_response cd \<circ> fst) of
        None \<Rightarrow> Inl unavailable | Some x \<Rightarrow> Inr x)"
      using first second frame_roundtrip_nil [OF ok] frame_roundtrip [OF ok]
      by (simp add: answer_def Call_def assms(1,2,5) types)
    have un: "snd (snd (snd (forwardToDaemon (Inl unavailable)))) = Some (fault_new ''DAEMON_REQUIRED'' True)"
      by (simp add: forwardToDaemon_def unavailable_def)
    show ?thesis
    proof (cases "enc_response cd rp \<noteq> [] \<and> length (enc_response cd rp) \<le> maxFrameSize")
      case fits: True
      then obtain f where f: "writeFrame (enc_response cd rp) = Some f" by (auto simp: writeFrame_def)
      have "answer = Inr rp" using answer frame_roundtrip_nil [OF f] by (simp add: frame_or_nothing_def f assms(10))
      with True fits cut show ?thesis by (simp add: done_by_def second)
    next
      case False
      then have "writeFrame (enc_response cd rp) = None" by (auto simp: writeFrame_def)
      then have "answer = Inl unavailable" using answer by (simp add: frame_or_nothing_def)
      with True False cut un show ?thesis by (simp add: done_by_def second)
    qed
  qed
qed

definition sample_server :: server where
  "sample_server = \<lparr>sv_secret = ''s'', sv_version = ''1'', sv_instance = ''di_1'', sv_pid = 7, sv_schema = ''2'', sv_started = ''t'',
     sv_handler = Some (\<lambda>args cwd. (0, ''ok'', [])), sv_status = ''{}''\<rparr>"

definition sample_call :: ipc_request where
  "sample_call = command_request ''di_2'' ''/p'' [''list'']"

definition sample_answer :: ipc_response where
  "sample_answer = fst (answer_request sample_server sample_call)"

text \<open>A codec that knows the messages of this exchange.\<close>

definition sample_codec :: ipc_codec where
  "sample_codec = \<lparr>enc_request = (\<lambda>r. if iq_type r = ''hello'' then ''h'' else ''r''),
     dec_request = (\<lambda>s. if s = ''h'' then Some (hello_request ''1'' ''s'') else if s = ''r'' then Some sample_call else None),
     enc_hello = (\<lambda>r. if ih_type r = ''hello_ok'' then ''o'' else ''e''),
     dec_hello = (\<lambda>s. if s = ''o'' then Some (hello_ok sample_server) else if s = ''e'' then Some (hello_error sample_server) else None),
     enc_response = (\<lambda>r. ''a''), dec_response = (\<lambda>s. if s = ''a'' then Some sample_answer else None)\<rparr>"

theorem daemon_call_exchange_witness:
  "Call sample_codec (Some ''s'') (Some (fst \<circ> serve sample_codec sample_server True)) ''1'' ''di_2'' ''/p'' [''list''] = Inr sample_answer"
proof -
  have types: "iq_type (hello_request ''1'' ''s'') = ''hello''" "iq_type sample_call = ''request''"
    by (simp_all add: hello_request_def sample_call_def command_request_def)
  have msg: "enc_request sample_codec (hello_request ''1'' ''s'') = ''h''" "enc_request sample_codec sample_call = ''r''"
    "dec_request sample_codec ''h'' = Some (hello_request ''1'' ''s'')" "dec_request sample_codec ''r'' = Some sample_call"
    "enc_hello sample_codec (hello_ok sample_server) = ''o''" "dec_hello sample_codec ''o'' = Some (hello_ok sample_server)"
    "enc_hello sample_codec (hello_error sample_server) = ''e''" "dec_hello sample_codec ''e'' = Some (hello_error sample_server)"
    "enc_response sample_codec sample_answer = ''a''" "dec_response sample_codec ''a'' = Some sample_answer"
    by (simp_all add: sample_codec_def types hello_ok_def hello_error_def)
  have short: "\<exists>f. writeFrame [c] = Some f" for c by (simp add: writeFrame_def maxFrameSize_def)
  obtain hello where h: "writeFrame ''h'' = Some hello" using short by blast
  obtain request where r: "writeFrame ''r'' = Some request" using short by blast
  obtain what where ans: "answer_request sample_server sample_call = (sample_answer, what)"
    unfolding sample_answer_def by (metis prod.collapse)
  have "writeFrame ''o'' \<noteq> None" "writeFrame ''e'' \<noteq> None" using short by auto
  note frames = this
  have secret: "sv_secret sample_server = ''s''" by (simp add: sample_server_def)
  show ?thesis
    using daemon_call_exchange [of sample_codec "''1''" "''s''" hello "''di_2''" "''/p''" "[''list'']" request sample_server sample_answer what]
    by (simp add: sample_call_def [symmetric] msg h r ans frames secret maxFrameSize_def)
qed

section \<open>Running, starting and reading the log of the daemon\<close>

text \<open>What a daemon has in its runtime directory: the secret and whether the endpoint exists.\<close>

record runtime_files =
  rf_secret :: "string option"
  rf_endpoint :: bool

datatype accepted = Accepted string | Temporary | ListenerFailed go_error | StoppedListener

record run_env =
  rn_lock :: "go_error option"
  rn_prepare :: "go_error option"
  rn_random :: "(go_error, string) result"
  rn_write :: "go_error option"
  rn_listen :: "go_error option"

text \<open>The accept loop: the inputs of the connections that were served, and the error it ends with.\<close>

fun accept_loop :: "accepted list \<Rightarrow> string list \<times> go_error option" where
  "accept_loop [] = ([], None)"
| "accept_loop (Accepted input # rest) = apfst (Cons input) (accept_loop rest)"
| "accept_loop (Temporary # rest) = accept_loop rest"
| "accept_loop (ListenerFailed e # rest) = ([], Some (fault_wrap ''DAEMON_FAILED'' [] True e))"
| "accept_loop (StoppedListener # rest) = ([], None)"

definition start_failed :: "go_error \<Rightarrow> go_error" where
  "start_failed e = fault_wrap ''DAEMON_START_FAILED'' [] False e"

text \<open>\<open>Server.Run\<close>; a failed write of the secret leaves the created file behind.\<close>

definition Server_Run :: "run_env \<Rightarrow> accepted list \<Rightarrow> runtime_files \<Rightarrow> string list \<times> go_error option \<times> runtime_files" where
  "Server_Run env conns rf = (case rn_lock env of
     Some e \<Rightarrow> ([], Some e, rf)
   | None \<Rightarrow> (case rn_prepare env of
       Some e \<Rightarrow> ([], Some (start_failed e), rf)
     | None \<Rightarrow> (case rn_random env of
         Inl e \<Rightarrow> ([], Some (start_failed e), rf)
       | Inr secret \<Rightarrow> (case rn_write env of
           Some e \<Rightarrow> ([], Some (start_failed e), rf\<lparr>rf_secret := Some []\<rparr>)
         | None \<Rightarrow> (case rn_listen env of
             Some e \<Rightarrow> ([], Some (start_failed e), rf\<lparr>rf_secret := None\<rparr>)
           | None \<Rightarrow> (case accept_loop conns of
               (served, e) \<Rightarrow> (served, e, \<lparr>rf_secret = None, rf_endpoint = False\<rparr>)))))))"

text \<open>A daemon that another one keeps out by the lock touches nothing; one that ran leaves nothing.\<close>

lemma Server_Run_files:
  assumes "Server_Run env conns rf = (served, e, rf')"
  shows "(rn_lock env \<noteq> None \<longrightarrow> rf' = rf \<and> served = []) \<and>
    (rn_lock env = None \<and> rn_prepare env = None \<and> (\<exists>s. rn_random env = Inr s) \<and> rn_write env = None \<longrightarrow> rf_secret rf' = None) \<and>
    (served \<noteq> [] \<longrightarrow> rf_secret rf' = None \<and> \<not> rf_endpoint rf')"
  using assms by (auto simp: Server_Run_def split: option.splits sum.splits prod.splits)

text \<open>
  \<open>startDaemon\<close>: an answer of a running daemon, the steps up to the child process, and the answers
  of the polls until the deadline (\<open>None\<close> is a cancelled context).
\<close>

datatype start_outcome = AlreadyRunning | DaemonStarted | StartFailed go_error

definition healthy :: "(go_error, ipc_response) result \<Rightarrow> bool" where
  "healthy a = (case a of Inr rp \<Rightarrow> ir_exit rp = 0 | Inl _ \<Rightarrow> False)"

fun await_daemon :: "(go_error, ipc_response) result option list \<Rightarrow> runtime_files \<Rightarrow> start_outcome \<times> runtime_files" where
  "await_daemon [] rf = (StartFailed (fault_new ''DAEMON_START_FAILED'' True), \<lparr>rf_secret = None, rf_endpoint = False\<rparr>)"
| "await_daemon (None # rest) rf = (StartFailed (fault_wrap ''DAEMON_START_FAILED'' [] True (PlainError ''cancelled'')), rf)"
| "await_daemon (Some a # rest) rf = (if healthy a then (DaemonStarted, rf) else await_daemon rest rf)"

definition startDaemon ::
    "(go_error, ipc_response) result \<Rightarrow> go_error option list \<Rightarrow> (go_error, ipc_response) result option list \<Rightarrow> runtime_files \<Rightarrow>
     start_outcome \<times> runtime_files" where
  "startDaemon running steps polls rf =
     (if healthy running then (AlreadyRunning, rf)
      else case find (\<lambda>e. e \<noteq> None) steps of
        Some e \<Rightarrow> (StartFailed (start_failed (the e)), rf)
      | None \<Rightarrow> await_daemon polls rf)"

text \<open>
  When nobody answers until the deadline, the secret and the endpoint are removed, whoever
  they belong to: a daemon that holds the lock and only answers slowly is cut off.
\<close>

lemma start_timeout_removes:
  assumes "\<not> healthy running" and "\<forall>e\<in>set steps. e = None" and "\<forall>a\<in>set polls. \<exists>x. a = Some x \<and> \<not> healthy x"
  shows "startDaemon running steps polls rf =
    (StartFailed (fault_new ''DAEMON_START_FAILED'' True), \<lparr>rf_secret = None, rf_endpoint = False\<rparr>)"
proof -
  have "await_daemon polls rf = (StartFailed (fault_new ''DAEMON_START_FAILED'' True), \<lparr>rf_secret = None, rf_endpoint = False\<rparr>)"
    using assms(3) by (induction polls rf rule: await_daemon.induct) auto
  moreover have "find (\<lambda>e. e \<noteq> None) steps = None" using assms(2) by (simp add: find_None_iff)
  ultimately show ?thesis using assms(1) by (simp add: startDaemon_def)
qed

definition tailLines :: "string \<Rightarrow> nat \<Rightarrow> string" where
  "tailLines content n =
     (let parts = split_on nl content;
          kept = (if parts \<noteq> [] \<and> last parts = [] then butlast parts else parts);
          shown = (if length kept > n then drop (length kept - n) kept else kept)
      in if shown = [] then [] else join_with [nl] shown @ [nl])"

definition filepathDir :: "string \<Rightarrow> string" where
  "filepathDir p = (if \<exists>c\<in>set p. c = CHR ''/'' \<or> c = bs
     then rev (tl (dropWhile (\<lambda>c. \<not> (c = CHR ''/'' \<or> c = bs)) (rev p))) else ''.'')"

definition log_lines :: "string list \<Rightarrow> int option" where
  "log_lines args =
     (if length args = 2 \<and> args ! 0 = ''--lines'' then
        (case parse_int64 (args ! 1) of Some v \<Rightarrow> if v < 1 then None else Some v | None \<Rightarrow> None)
      else if args \<noteq> [] then None else Some 100)"

definition daemonLogs :: "string option \<Rightarrow> string list \<Rightarrow> (go_error, string) result" where
  "daemonLogs file_content args = (case log_lines args of
     None \<Rightarrow> Inl (fault_new ''INVALID_ARGUMENT'' False)
   | Some n \<Rightarrow> (case file_content of
       None \<Rightarrow> Inl (fault_wrap ''DAEMON_LOG_FAILED'' [] False (PlainError ''read''))
     | Some content \<Rightarrow> Inr (tailLines content (nat n))))"

text \<open>The log shown is the end of the log, completed by a newline.\<close>

lemma tailLines_whole:
  assumes "\<forall>l\<in>set ls. nl \<notin> set l" and "ls \<noteq> []"
  shows "tailLines (join_with [nl] ls @ [nl]) n = concat (map (\<lambda>l. l @ [nl]) (drop (length ls - n) ls))"
proof -
  have join: "join_with [nl] xs @ [nl] = concat (map (\<lambda>l. l @ [nl]) xs)" if "xs \<noteq> []" for xs
    using that by (induction xs rule: induct_list012) auto
  have split: "split_on nl (concat (map (\<lambda>l. l @ [nl]) xs)) = xs @ [[]]" if "\<forall>l\<in>set xs. nl \<notin> set l" for xs
    using that by (induction xs) (auto simp: split_on_append)
  show ?thesis
    using assms by (simp add: tailLines_def join split Let_def)
qed

end
