(* ===== verification/Claim_Order.thy ===== *)
theory Claim_Order
  imports Store_Operations
begin

text \<open>
  The queue of operations over several claims (\<open>ClaimNextOperationExcept\<close> of
  \<open>internal/store/operations.go\<close>, called again and again by the dispatcher loop of
  \<open>internal/cli/operations.go\<close>): the due operations are handed out one after the other.
\<close>

text \<open>At most so many claims in a row; a claim that finds nothing ends the row.\<close>

fun claim_row ::
    "nat \<Rightarrow> store \<Rightarrow> time \<Rightarrow> string \<Rightarrow> time \<Rightarrow> string list \<Rightarrow> operation list \<times> store" where
  "claim_row 0 db now owner lease blocked = ([], db)"
| "claim_row (Suc n) db now owner lease blocked =
     (case ClaimNextOperationExcept db now owner lease blocked of
        (Inr (Some op), db1) \<Rightarrow> apfst (Cons op) (claim_row n db1 now owner lease blocked)
      | (_, db1) \<Rightarrow> ([], db1))"

lemma reclaimed_again:
  "reclaimed now (reclaimed now r) = reclaimed now r"
  by (simp add: reclaimed_def lease_expired_def)

lemma claimable_after_claim:
  assumes "claimable db now blocked = op # rest" and "operations_ok db" and "owner \<noteq> []"
    and "\<not> fmt_time (now + lease) < fmt_time now"
  shows "\<exists>db1. ClaimNextOperationExcept db now owner lease blocked = (Inr (Some (claimed now lease owner op)), db1) \<and>
    claimable db1 now blocked = rest"
proof -
  let ?old = "reclaim now (operations db)"
  define hit :: "operation \<Rightarrow> bool" where "hit = (\<lambda>r. op_id r = op_id op \<and> op_state r = OperationQueued)"
  define f :: "operation \<Rightarrow> operation" where "f = (\<lambda>r. r\<lparr>op_state := OperationRunning, op_stage := op_stage op, op_attempt := op_attempt op + 1,
      lease_owner := owner, lease_expires_at := Some (now + lease), started_at := Some now, op_updated_at := now\<rparr>)"
  define db1 where "db1 = db\<lparr>operations := update_where hit f ?old\<rparr>"
  have claim: "ClaimNextOperationExcept db now owner lease blocked = (Inr (Some (claimed now lease owner op)), db1)"
    using assms(1,3) by (simp add: ClaimNextOperationExcept_def Let_def db1_def hit_def f_def claimed_def)
  let ?want = "\<lambda>r. due now r \<and> unblocked blocked r"
  have step: "reclaimed now (if hit r then f r else r) = (if hit r then f r else r)" if "r \<in> set ?old" for r
  proof (cases "hit r")
    case True
    have "\<not> lease_expired now (f r)" using assms(4) by (simp add: lease_expired_def f_def)
    with True show ?thesis by (simp add: reclaimed_def)
  next
    case False
    from that obtain x where "r = reclaimed now x" by (auto simp: reclaim_map)
    with False reclaimed_again show ?thesis by simp
  qed
  have ops: "reclaim now (operations db1) = map (\<lambda>r. if hit r then f r else r) ?old"
  proof -
    have "reclaim now (operations db1) = map (\<lambda>r. reclaimed now (if hit r then f r else r)) ?old"
      unfolding reclaim_map [of now "operations db1"] by (simp add: db1_def update_where_def)
    also have "\<dots> = map (\<lambda>r. if hit r then f r else r) ?old" using step by (intro map_cong refl)
    finally show ?thesis .
  qed
  have gone: "\<not> ?want (f r)" for r by (simp add: f_def due_def)
  have "filter ?want (map (\<lambda>r. if hit r then f r else r) xs) = filter (\<lambda>r. ?want r \<and> \<not> hit r) xs" for xs
    using gone by (induction xs) auto
  then have "filter ?want (map (\<lambda>r. if hit r then f r else r) ?old) = filter (\<lambda>r. ?want r \<and> \<not> hit r) ?old" .
  also have "\<dots> = filter (\<lambda>r. op_id r \<noteq> op_id op) (filter ?want ?old)"
    by (auto simp: hit_def due_def intro: filter_cong)
  finally have "claimable db1 now blocked = filter (\<lambda>r. op_id r \<noteq> op_id op) (claimable db now blocked)"
    unfolding claimable_def ops by (simp add: filter_sort)
  moreover have "distinct (map op_id (claimable db now blocked))"
  proof -
    have "distinct (map op_id ?old)"
      using operations_ok_distinct [OF assms(2)] by (simp add: reclaim_map o_def)
    then have "distinct (map op_id (filter ?want ?old))" by (rule distinct_map_filter)
    then show ?thesis by (simp add: claimable_def distinct_map)
  qed
  moreover have "filter (\<lambda>r. op_id r \<noteq> op_id op) rest = rest" if "op_id op \<notin> op_id ` set rest"
    using that by (metis (mono_tags, lifting) filter_True image_eqI)
  ultimately have "claimable db1 now blocked = rest" unfolding assms(1) by simp
  with claim show ?thesis by blast
qed



end
