(* ===== verification/Watch_View.thy ===== *)
theory Watch_View
  imports Store_Tasks Command_Line
begin

text \<open>
  The dashboard: \<open>ListWatchTasks\<close> of \<open>internal/store/store.go\<close>, the summaries of
  \<open>internal/model/model.go\<close>, and the command, its columns and its marks of
  \<open>internal/cli/watch.go\<close>. The text of the metadata column is a parameter \<open>enc\<close>, because
  the query reads that column with \<open>LIKE\<close>. Headings and column widths are rendering.
\<close>

section \<open>Summaries\<close>

record task_summary =
  ts_id :: string
  ts_dry_run :: bool
  ts_project :: string
  ts_source :: string
  ts_target :: string
  ts_cluster :: string
  ts_scheduler_id :: string
  ts_compute :: compute_state
  ts_pull :: pull_state
  ts_scheduler_state :: string
  ts_scheduler_reason :: string
  ts_elapsed :: string
  ts_exit_code :: string
  ts_scheduler_start :: string
  ts_scheduler_end :: string
  ts_observation :: string
  ts_observed_at :: string
  ts_stale_since :: string
  ts_created :: time
  ts_updated :: time

definition SummarizeTask :: "task \<Rightarrow> task_summary" where
  "SummarizeTask t =
     \<lparr>ts_id = task_id t, ts_dry_run = dry_run t, ts_project = project_id t, ts_source = source_path t,
      ts_target = target_name t, ts_cluster = cluster_name t, ts_scheduler_id = scheduler_id t,
      ts_compute = compute_state t, ts_pull = pull_state t, ts_scheduler_state = scheduler_state t,
      ts_scheduler_reason = scheduler_reason t, ts_elapsed = elapsed t, ts_exit_code = exit_code t,
      ts_scheduler_start = scheduler_start t, ts_scheduler_end = scheduler_end t,
      ts_observation = task_meta t ''scheduler_observation'',
      ts_observed_at = task_meta t ''scheduler_observed_at'',
      ts_stale_since = task_meta t ''scheduler_stale_since'',
      ts_created = created_at t, ts_updated = updated_at t\<rparr>"

text \<open>The row of the query: the columns it selects, and what it takes from the metadata.\<close>

definition summary_row :: "task \<Rightarrow> task_summary" where
  "summary_row r = (let values = task_meta r in
     \<lparr>ts_id = task_id r, ts_dry_run = (values dryRunKey = ''1'' \<or> values dryRunKey = ''true''),
      ts_project = project_id r, ts_source = source_path r, ts_target = target_name r,
      ts_cluster = cluster_name r, ts_scheduler_id = scheduler_id r, ts_compute = compute_state r,
      ts_pull = pull_state r, ts_scheduler_state = scheduler_state r,
      ts_scheduler_reason = scheduler_reason r, ts_elapsed = elapsed r, ts_exit_code = exit_code r,
      ts_scheduler_start = scheduler_start r, ts_scheduler_end = scheduler_end r,
      ts_observation = values ''scheduler_observation'',
      ts_observed_at = values ''scheduler_observed_at'',
      ts_stale_since = values ''scheduler_stale_since'',
      ts_created = created_at r, ts_updated = updated_at r\<rparr>)"

lemma summary_row_scan: "summary_row r = SummarizeTask (scanTask r)"
  by (simp add: summary_row_def SummarizeTask_def scanTask_def Let_def)

section \<open>The query\<close>

record watch_filter =
  wf_project :: string
  wf_target :: string
  wf_state :: string
  wf_attention :: bool
  wf_dry_runs :: bool

text \<open>\<open>LIKE\<close>: \<open>%\<close> is any text, \<open>_\<close> any character, and ASCII letters agree in either case.\<close>

fun sql_like :: "string \<Rightarrow> string \<Rightarrow> bool" where
  "sql_like [] s = (s = [])"
| "sql_like (p # ps) [] = (p = CHR ''%'' \<and> sql_like ps [])"
| "sql_like (p # ps) (c # s) =
     (if p = CHR ''%'' then sql_like ps (c # s) \<or> sql_like (p # ps) s
      else (p = CHR ''_'' \<or> lower_char p = lower_char c) \<and> sql_like ps s)"

definition dry_run_written :: string where
  "dry_run_written = [CHR 0x22] @ ''dry_run'' @ [CHR 0x22] @ '':'' @ [CHR 0x22] @ ''1'' @ [CHR 0x22]"

definition dry_run_pattern :: string where
  "dry_run_pattern = ''%'' @ dry_run_written @ ''%''"

definition dry_run_true_pattern :: string where
  "dry_run_true_pattern = ''%'' @ [CHR 0x22] @ ''dry_run'' @ [CHR 0x22] @ '':true'' @ ''%''"

definition sql_failure :: "task \<Rightarrow> bool" where
  "sql_failure r \<longleftrightarrow>
     compute_state r \<in> {ComputeSubmissionFailed, ComputeSubmissionUncertain, ComputeFailed} \<or>
     pull_state r \<in> {PullFailed, PullPartial}"

definition sql_active :: "task \<Rightarrow> bool" where
  "sql_active r \<longleftrightarrow>
     compute_state r \<in> {ComputeCreated, ComputeQueued, ComputeRunning, ComputeUnknown, ComputeSubmissionUncertain} \<or>
     pull_state r = PullInProgress"

text \<open>No newer task of the same source; the creation times are compared as texts.\<close>

definition not_superseded :: "store \<Rightarrow> task \<Rightarrow> bool" where
  "not_superseded db r \<longleftrightarrow> \<not> list_ex (\<lambda>n. project_id n = project_id r \<and> source_path n = source_path r \<and>
     fmt_time (created_at n) > fmt_time (created_at r)) (tasks db)"

definition hours_12 :: time where
  "hours_12 = 12 * 3600 * nano"

definition watch_where :: "((string \<rightharpoonup> string) \<Rightarrow> string) \<Rightarrow> store \<Rightarrow> time \<Rightarrow> watch_filter \<Rightarrow> task \<Rightarrow> bool" where
  "watch_where enc db now f r \<longleftrightarrow>
     (wf_project f \<noteq> [] \<longrightarrow> project_id r = wf_project f) \<and>
     (wf_target f \<noteq> [] \<longrightarrow> target_name r = wf_target f) \<and>
     (wf_state f \<noteq> [] \<longrightarrow> compute_text (compute_state r) = wf_state f) \<and>
     (\<not> wf_dry_runs f \<longrightarrow> \<not> sql_like dry_run_pattern (enc (metadata r)) \<and>
        \<not> sql_like dry_run_true_pattern (enc (metadata r))) \<and>
     (if wf_attention f then sql_failure r \<and> not_superseded db r
      else wf_state f = [] \<longrightarrow>
        sql_active r \<or> sql_failure r \<and> fmt_time (updated_at r) \<ge> fmt_time (now - hours_12) \<and> not_superseded db r)"

definition watch_group :: "task \<Rightarrow> nat" where
  "watch_group r =
     (if compute_state r \<in> {ComputeSubmissionFailed, ComputeSubmissionUncertain, ComputeFailed} \<or>
         pull_state r \<in> {PullFailed, PullPartial} then 0
      else if compute_state r \<in> {ComputeCreated, ComputeQueued, ComputeRunning, ComputeUnknown} \<or>
         pull_state r = PullInProgress then 1
      else 2)"

definition watch_order :: "task list \<Rightarrow> task list" where
  "watch_order rs = sort_key watch_group (sort_desc (\<lambda>r. fmt_time (updated_at r)) rs)"

definition ListWatchTasks ::
    "((string \<rightharpoonup> string) \<Rightarrow> string) \<Rightarrow> store \<Rightarrow> time \<Rightarrow> int \<Rightarrow> watch_filter \<Rightarrow> task_summary list \<times> int" where
  "ListWatchTasks enc db now limit f =
     (let lim = (if limit < 1 then 100 else limit);
          rows = filter (watch_where enc db now f) (tasks db)
      in (map summary_row (take (nat lim) (watch_order rows)), int (length rows)))"

section \<open>The command\<close>

definition watch_valued :: "string set" where
  "watch_valued = {''--project'', ''--target'', ''--state'', ''--limit''}"

definition watch_switches :: "string set" where
  "watch_switches = {''--once'', ''--attention'', ''--include-dry-run''}"

definition watch_kinds :: "string \<rightharpoonup> flag_kind" where
  "watch_kinds n = (if n \<in> {''project'', ''target'', ''state'', ''limit''} then Some TextFlag
     else if n \<in> {''once'', ''attention'', ''include-dry-run''} then Some BoolFlag else None)"

record watch_output =
  wo_tasks :: "task_summary list"
  wo_total :: int
  wo_hidden :: int
  wo_filter :: watch_filter

definition watch ::
    "((string \<rightharpoonup> string) \<Rightarrow> string) \<Rightarrow> store \<Rightarrow> time \<Rightarrow> string list \<Rightarrow> (go_error, watch_output) result" where
  "watch enc db now args = (case parse_flags watch_kinds (interspersed watch_valued watch_switches args) of
     Inl _ \<Rightarrow> Inl (fault_wrap ''INVALID_ARGUMENT'' [] False (PlainError ''flag''))
   | Inr (assigned, positional) \<Rightarrow> (case int_flag ''limit'' assigned 100 of
       None \<Rightarrow> Inl (fault_wrap ''INVALID_ARGUMENT'' [] False (PlainError ''flag''))
     | Some limit \<Rightarrow>
         if positional \<noteq> [] then Inl (fault_new ''INVALID_ARGUMENT'' False)
         else if limit < 1 \<or> limit > 1000 then Inl (fault_new ''INVALID_ARGUMENT'' False)
         else if \<not> switch_flag ''once'' assigned then Inl (fault_new ''INVALID_ARGUMENT'' False)
         else (let f = \<lparr>wf_project = text_flag ''project'' assigned [], wf_target = text_flag ''target'' assigned [],
                   wf_state = text_flag ''state'' assigned [], wf_attention = switch_flag ''attention'' assigned,
                   wf_dry_runs = switch_flag ''include-dry-run'' assigned\<rparr>;
                   (rows, total) = ListWatchTasks enc db now limit f
               in Inr \<lparr>wo_tasks = rows, wo_total = total, wo_hidden = total - int (length rows), wo_filter = f\<rparr>)))"

text \<open>The client adds the options its daemon expects.\<close>

definition watch_request :: "bool \<Rightarrow> string list \<Rightarrow> string list" where
  "watch_request json args =
     (let once = (if containsFlag args ''--once'' then args else args @ [''--once''])
      in if json \<and> \<not> containsFlag once ''--json'' then once @ [''--json''] else once)"

text \<open>The marks and columns of the table.\<close>

definition isWatchAttention :: "task_summary \<Rightarrow> bool" where
  "isWatchAttention t \<longleftrightarrow>
     ts_compute t = ComputeSubmissionFailed \<or> ts_compute t = ComputeSubmissionUncertain \<or>
     ts_compute t = ComputeFailed \<or> ts_pull t = PullFailed \<or> ts_pull t = PullPartial"

definition watchShowsProjectID :: "watch_output \<Rightarrow> bool" where
  "watchShowsProjectID w \<longleftrightarrow> wf_project (wo_filter w) = [] \<and>
     card (set (filter (\<lambda>p. p \<noteq> []) (map ts_project (wo_tasks w)))) > 1"

text \<open>Instants before the epoch of \<open>time.Time\<close> do not occur; a difference below zero is zero.\<close>

definition watchAge :: "time \<Rightarrow> time \<Rightarrow> string" where
  "watchAge now updated =
     (if is_zero_time updated then ''-''
      else let d = now - updated
        in if d < 60 * nano then itoa (d div nano) @ ''s''
           else if d < 3600 * nano then itoa (d div (60 * nano)) @ ''m''
           else if d < 24 * 3600 * nano then itoa (d div (3600 * nano)) @ ''h''
           else itoa (d div (24 * 3600 * nano)) @ ''d'')"

lemma watch_tables:
  "n \<in> watch_valued \<Longrightarrow> (n = ''-'' @ flag_key n \<or> n = ''--'' @ flag_key n) \<and> plain_key (flag_key n) \<and>
     watch_kinds (flag_key n) = Some TextFlag"
  "n \<in> watch_switches \<Longrightarrow> (n = ''-'' @ flag_key n \<or> n = ''--'' @ flag_key n) \<and> plain_key (flag_key n) \<and>
     watch_kinds (flag_key n) = Some BoolFlag"
proof -
  have "\<forall>n\<in>watch_valued. (n = ''-'' @ flag_key n \<or> n = ''--'' @ flag_key n) \<and> plain_key (flag_key n) \<and>
      watch_kinds (flag_key n) = Some TextFlag" unfolding watch_valued_def by code_simp
  then show "n \<in> watch_valued \<Longrightarrow> (n = ''-'' @ flag_key n \<or> n = ''--'' @ flag_key n) \<and> plain_key (flag_key n) \<and>
     watch_kinds (flag_key n) = Some TextFlag" by (rule bspec)
  have "\<forall>n\<in>watch_switches. (n = ''-'' @ flag_key n \<or> n = ''--'' @ flag_key n) \<and> plain_key (flag_key n) \<and>
      watch_kinds (flag_key n) = Some BoolFlag" unfolding watch_switches_def by code_simp
  then show "n \<in> watch_switches \<Longrightarrow> (n = ''-'' @ flag_key n \<or> n = ''--'' @ flag_key n) \<and> plain_key (flag_key n) \<and>
     watch_kinds (flag_key n) = Some BoolFlag" by (rule bspec)
qed

interpretation watch_flags: flag_table watch_valued watch_switches watch_kinds
  by unfold_locales (rule exI, erule watch_tables)+

text \<open>What the command answers is bounded, and it never counts fewer rows than it shows.\<close>

lemma watch_bounded:
  "watch enc db now args = Inr w \<Longrightarrow> length (wo_tasks w) \<le> 1000 \<and> 0 \<le> wo_hidden w \<and>
     wo_hidden w = wo_total w - int (length (wo_tasks w))"
  by (auto simp: watch_def ListWatchTasks_def watch_order_def Let_def split: sum.splits prod.splits option.splits if_splits)

section \<open>What the rows of the database can be\<close>

text \<open>Every row was written by \<open>encodeTask\<close>: its dry-run flag is in the metadata, as \<open>1\<close> or not at all.\<close>

abbreviation written_rows :: "task set" where
  "written_rows \<equiv> range encodeTask"

lemma insertTask_rows: "insertTask db t = Inr db' \<Longrightarrow> set (tasks db') \<subseteq> set (tasks db) \<union> written_rows"
  by (auto simp: insertTask_def split: if_splits)

lemma insertEvent_rows: "insertEvent db e = Inr db' \<Longrightarrow> set (tasks db') \<subseteq> set (tasks db) \<union> written_rows"
  using insertEvent_simps by simp

lemma insert_created_rows: "insert_created db t = Inr db' \<Longrightarrow> set (tasks db') \<subseteq> set (tasks db) \<union> written_rows"
  using insertTask_rows insertEvent_rows by (fastforce simp: insert_created_def split: sum.splits)

lemma insert_all_rows: "insert_all db ts = Inr db' \<Longrightarrow> set (tasks db') \<subseteq> set (tasks db) \<union> written_rows"
proof (induction db ts rule: insert_all.induct)
  case (1 db)
  then show ?case by simp
next
  case (2 db t ts)
  then obtain d where "insert_created db t = Inr d" "insert_all d ts = Inr db'" by (auto split: sum.splits)
  with 2 insert_created_rows show ?case by blast
qed

lemma updateTaskRecord_rows:
  assumes "updateTaskRecord db t ev = Inr (n, db')"
  shows "set (tasks db') \<subseteq> set (tasks db) \<union> written_rows"
proof -
  have "set (update_where h (\<lambda>_. encodeTask u) xs) \<subseteq> set xs \<union> written_rows" for h u xs
    by (induction xs) (auto simp: update_where_def)
  then show ?thesis using assms insertEvent_simps
    by (fastforce simp: updateTaskRecord_def Let_def split: if_splits option.splits sum.splits)
qed

lemma update_all_rows:
  "update_all db now prs = Inr (ns, db') \<Longrightarrow> set (tasks db') \<subseteq> set (tasks db) \<union> written_rows"
proof (induction db now prs arbitrary: ns rule: update_all.induct)
  case (1 db now)
  then show ?case by auto
next
  case (2 db now t e rest)
  then obtain n d m where d: "updateTaskRecord db t (Some (complete_event t now e)) = Inr (n, d)"
      "update_all d now rest = Inr (m, db')"
    by (auto split: sum.splits prod.splits)
  from 2(1) [OF d(1) refl d(2)] updateTaskRecord_rows [OF d(1)] show ?case by blast
qed

lemma CreateTasks_rows:
  "CreateTasks db ts = (r, ts', db') \<Longrightarrow> set (tasks db') \<subseteq> set (tasks db) \<union> written_rows"
  by (auto simp: CreateTasks_def Let_def split: if_splits sum.splits dest!: insert_all_rows)

lemma store_change_rows:
  assumes "store_change db db'"
  shows "set (tasks db') \<subseteq> set (tasks db) \<union> written_rows"
  using assms
proof cases
  case (bind now p)
  then show ?thesis by (simp add: BindProject_def)
next
  case (create ts r ts')
  then show ?thesis by (rule CreateTasks_rows)
next
  case (create_one t force r1 t')
  then show ?thesis using CreateTasks_rows insert_created_rows
    by (fastforce simp: CreateTaskIdempotent_def Let_def split: if_splits option.splits sum.splits prod.splits)
next
  case (create_batch ts force r1 ts')
  then show ?thesis using CreateTasks_rows insert_all_rows
    by (fastforce simp: CreateTasksIdempotent_def split: if_splits option.splits sum.splits prod.splits bool.splits)
next
  case (import now t r t')
  then show ?thesis using insertTask_rows insertEvent_simps
    by (fastforce simp: ImportTask_def Let_def split: if_splits sum.splits)
next
  case (update t ev r t')
  then show ?thesis by (cases rule: updateTask_cases) (simp_all add: updateTaskRecord_rows)
next
  case (update_many now ts es r ts')
  then show ?thesis using update_all_rows
    by (fastforce simp: UpdateTasksWithEvents_def split: if_splits sum.splits prod.splits)
next
  case (append now e r)
  then show ?thesis using insertEvent_simps
    by (fastforce simp: AppendEvent_def Let_def split: if_splits sum.splits)
qed

lemma store_run_rows: "store_change\<^sup>*\<^sup>* empty_store db \<Longrightarrow> set (tasks db) \<subseteq> written_rows"
  by (induction rule: rtranclp_induct) (auto simp: empty_store_def dest!: store_change_rows)

lemma written_dry_run: "r \<in> written_rows \<Longrightarrow> dry_run (scanTask r) \<longleftrightarrow> metadata r dryRunKey = Some ''1''"
  by (auto simp: encodeTask_def scanTask_def meta_get_def split: if_splits)

section \<open>The order and the filter of the view\<close>

lemma insort_key_stable:
  assumes "sorted_wrt (\<lambda>a b. k a < k b \<or> k a = k b \<and> P a b) ys" and "\<forall>y\<in>set ys. P x y"
  shows "sorted_wrt (\<lambda>a b. k a < k b \<or> k a = k b \<and> P a b) (insort_key (k :: 'a \<Rightarrow> 'b::linorder) x ys)"
  using assms
proof (induction ys)
  case Nil
  then show ?case by simp
next
  case (Cons y ys)
  show ?case
  proof (cases "k x \<le> k y")
    case True
    have "k x < k z \<or> k x = k z \<and> P x z" if "z \<in> set (y # ys)" for z
      using Cons.prems that True by (auto simp: order_le_less)
    with Cons.prems(1) True show ?thesis by simp
  next
    case False
    with Cons show ?thesis by (auto simp: set_insort_key)
  qed
qed

lemma sort_key_stable:
  "sorted_wrt P xs \<Longrightarrow> sorted_wrt (\<lambda>a b. k a < k b \<or> k a = k b \<and> P a b) (sort_key (k :: 'a \<Rightarrow> 'b::linorder) xs)"
  by (induction xs) (auto intro: insort_key_stable)

lemma watch_order_sorted:
  "sorted_wrt (\<lambda>a b. watch_group a < watch_group b \<or>
     watch_group a = watch_group b \<and> fmt_time (updated_at b) \<le> fmt_time (updated_at a)) (watch_order rs)"
  unfolding watch_order_def by (rule sort_key_stable [OF sorted_wrt_sort_desc])

lemma watch_order_set [simp]: "set (watch_order rs) = set rs" "length (watch_order rs) = length rs"
  by (simp_all add: watch_order_def)

lemma distinct_watch_order: "distinct (map task_id (watch_order rs)) = distinct (map task_id rs)"
proof -
  have "mset (watch_order rs) = mset rs" by (simp add: watch_order_def sort_desc_def)
  then have "mset (map task_id (watch_order rs)) = mset (map task_id rs)" by (metis mset_map)
  then show ?thesis by (metis mset_eq_imp_distinct_iff)
qed

lemma like_skip: "sql_like ps s \<Longrightarrow> sql_like (CHR ''%'' # ps) (u @ s)"
proof (induction u)
  case Nil
  then show ?case by (cases s) auto
qed simp

lemma like_literal: "CHR ''%'' \<notin> set w \<Longrightarrow> sql_like ps s \<Longrightarrow> sql_like (w @ ps) (w @ s)"
  by (induction w) auto

lemma contains_like: "contains s w \<Longrightarrow> CHR ''%'' \<notin> set w \<Longrightarrow> sql_like (''%'' @ w @ ''%'') s"
proof -
  assume "contains s w" and w: "CHR ''%'' \<notin> set w"
  then obtain u v where s: "s = u @ w @ v" by (auto simp: contains_iff)
  have "sql_like ''%'' v" using like_skip [of "[]" "[]" v] by simp
  from like_skip [OF like_literal [OF w this]] s show ?thesis by simp
qed

lemma attention_group: "isWatchAttention (SummarizeTask (scanTask r)) \<longleftrightarrow> watch_group r = 0"
  by (auto simp: isWatchAttention_def SummarizeTask_def watch_group_def scanTask_def)

lemma failure_group: "sql_failure r \<longleftrightarrow> watch_group r = 0"
  by (auto simp: sql_failure_def watch_group_def)

text \<open>
  C27. The dashboard of any database that the program has written, where the text of the metadata
  shows the dry-run flag. The rows are those that pass the filter, each task once; the view is their
  beginning, at most \<open>limit\<close> of them, each exactly the summary of the task the store returns; the
  total counts them all. The tasks that the table marks come first, then the active ones, each group by
  the time of the last change, so a hidden task never ranks before a visible one. A preview is never
  shown unless asked for, and the attention view holds only marked tasks, each the newest of its source.
\<close>

theorem watch_view_exact:
  assumes "store_change\<^sup>*\<^sup>* empty_store db" and "1 \<le> limit"
    and "\<forall>m. m dryRunKey = Some ''1'' \<longrightarrow> contains (enc m) dry_run_written"
    and "ListWatchTasks enc db now limit f = (shown, counted)"
  shows "(\<exists>rows. set rows = {r \<in> set (tasks db). watch_where enc db now f r} \<and> distinct (map task_id rows) \<and>
       shown = map (SummarizeTask \<circ> scanTask) (take (nat limit) rows) \<and> counted = int (length rows) \<and>
       sorted_wrt (\<lambda>a b. watch_group a < watch_group b \<or>
         watch_group a = watch_group b \<and> fmt_time (updated_at b) \<le> fmt_time (updated_at a)) rows \<and>
       (\<forall>r\<in>set rows. isWatchAttention (SummarizeTask (scanTask r)) \<longleftrightarrow> watch_group r = 0)) \<and>
     (\<not> wf_dry_runs f \<longrightarrow> (\<forall>s\<in>set shown. \<not> ts_dry_run s)) \<and>
     (wf_attention f \<longrightarrow> (\<forall>s\<in>set shown. isWatchAttention s \<and> (\<forall>n\<in>set (tasks db).
        project_id n = ts_project s \<and> source_path n = ts_source s \<longrightarrow> fmt_time (created_at n) \<le> fmt_time (ts_created s))))"
proof -
  define rows where "rows = watch_order (filter (watch_where enc db now f) (tasks db))"
  have ok: "store_ok db" using store_run_ok [OF assms(1) store_ok_empty] by simp
  have set_rows: "set rows = {r \<in> set (tasks db). watch_where enc db now f r}" by (auto simp: rows_def)
  have once: "distinct (map task_id rows)"
    using ok by (simp add: rows_def distinct_watch_order store_ok_def distinct_map_filter)
  have result: "shown = map (SummarizeTask \<circ> scanTask) (take (nat limit) rows)" "counted = int (length rows)"
    using assms(2,4) by (auto simp: ListWatchTasks_def Let_def rows_def summary_row_scan)
  have order: "sorted_wrt (\<lambda>a b. watch_group a < watch_group b \<or>
      watch_group a = watch_group b \<and> fmt_time (updated_at b) \<le> fmt_time (updated_at a)) rows"
    unfolding rows_def by (rule watch_order_sorted)
  have shown: "\<exists>r\<in>set (tasks db). watch_where enc db now f r \<and> s = SummarizeTask (scanTask r)" if "s \<in> set shown" for s
    using that set_rows by (auto simp: result dest!: in_set_takeD)
  have dry: "\<not> ts_dry_run s" if f: "\<not> wf_dry_runs f" and s: "s \<in> set shown" for s
  proof
    obtain r where r: "r \<in> set (tasks db)" "watch_where enc db now f r" "s = SummarizeTask (scanTask r)"
      using shown [OF s] by blast
    assume "ts_dry_run s"
    then have "metadata r dryRunKey = Some ''1''"
      using r written_dry_run store_run_rows [OF assms(1)] by (auto simp: SummarizeTask_def)
    then have "sql_like dry_run_pattern (enc (metadata r))"
      using assms(3) contains_like unfolding dry_run_pattern_def by (fastforce simp: dry_run_written_def)
    with r(2) f show False by (simp add: watch_where_def)
  qed
  have attention: "isWatchAttention s \<and> (\<forall>n\<in>set (tasks db). project_id n = ts_project s \<and> source_path n = ts_source s \<longrightarrow>
      fmt_time (created_at n) \<le> fmt_time (ts_created s))" if f: "wf_attention f" and s: "s \<in> set shown" for s
  proof -
    obtain r where r: "r \<in> set (tasks db)" "watch_where enc db now f r" "s = SummarizeTask (scanTask r)"
      using shown [OF s] by blast
    then have "sql_failure r" "not_superseded db r" using f by (simp_all add: watch_where_def)
    moreover have "isWatchAttention s" using calculation(1) r(3) by (simp add: attention_group failure_group)
    ultimately show ?thesis using r(3)
      by (auto simp: not_superseded_def list_ex_iff SummarizeTask_def not_less)
  qed
  show ?thesis using set_rows once result order attention_group dry attention by blast
qed

definition sample_columns :: "(string \<rightharpoonup> string) \<Rightarrow> string" where
  "sample_columns m = ''{'' @ (if m dryRunKey = Some ''1'' then dry_run_written else []) @ ''}''"

definition sample_filter :: watch_filter where
  "sample_filter = \<lparr>wf_project = [], wf_target = [], wf_state = [], wf_attention = False, wf_dry_runs = False\<rparr>"

definition sample_tasks :: "task list" where
  "sample_tasks = [sample_task, sample_task\<lparr>task_id := ''t2'', dry_run := True\<rparr>]"

definition sample_previewed :: store where
  "sample_previewed = snd (snd (CreateTasks sample_store sample_tasks))"

lemma sample_previewed_reached: "store_change\<^sup>*\<^sup>* empty_store sample_previewed"
proof -
  have "store_change sample_store sample_previewed"
    unfolding sample_previewed_def
    by (rule store_change.create [of _ sample_tasks "fst (CreateTasks sample_store sample_tasks)"
        "fst (snd (CreateTasks sample_store sample_tasks))"]) simp
  with sample_store_ok(2) show ?thesis by (meson converse_rtranclp_into_rtranclp rtranclp.rtrancl_refl)
qed

lemma sample_previewed_rows: "tasks sample_previewed = map (encodeTask \<circ> first_revision) sample_tasks"
  by (simp add: sample_previewed_def sample_tasks_def CreateTasks_def insert_created_def insertTask_def
      insertEvent_def created_event_def find_row_def sample_store_def BindProject_def empty_store_def
      project_bound_def first_revision_def sample_task_def Let_def encodeTask_def)

lemma sample_columns_dry: "contains (sample_columns m) dry_run_written" if "m dryRunKey = Some ''1''"
proof -
  have "sample_columns m = ''{'' @ dry_run_written @ ''}''" using that by (simp add: sample_columns_def)
  then show ?thesis unfolding contains_iff by blast
qed

lemma sample_view:
  "map ts_id (fst (ListWatchTasks sample_columns sample_previewed 5 1 sample_filter)) = [''t1'']"
  "snd (ListWatchTasks sample_columns sample_previewed 5 1 sample_filter) = 1"
proof -
  have l: "CHR ''%'' \<notin> set dry_run_written" by (simp add: dry_run_written_def)
  have "sql_like dry_run_pattern (''{'' @ dry_run_written @ ''}'')"
    unfolding dry_run_pattern_def by (rule contains_like [OF _ l]) (unfold contains_iff, blast)
  moreover have "\<not> sql_like dry_run_pattern ''{}''" "\<not> sql_like dry_run_true_pattern ''{}''"
    by (simp_all add: dry_run_pattern_def dry_run_true_pattern_def dry_run_written_def)
  ultimately have w: "filter (watch_where sample_columns sample_previewed 5 sample_filter) (tasks sample_previewed) =
      [encodeTask (first_revision sample_task)]"
    by (simp add: sample_previewed_rows sample_tasks_def watch_where_def sample_filter_def sample_columns_def
        encodeTask_def first_revision_def sample_task_def sql_active_def dryRunKey_def)
  show "map ts_id (fst (ListWatchTasks sample_columns sample_previewed 5 1 sample_filter)) = [''t1'']"
    "snd (ListWatchTasks sample_columns sample_previewed 5 1 sample_filter) = 1"
    by (simp_all add: ListWatchTasks_def Let_def w watch_order_def sort_desc_def summary_row_def
        encodeTask_def first_revision_def sample_task_def)
qed

theorem watch_view_exact_witness:
  "\<exists>shown counted. ListWatchTasks sample_columns sample_previewed 5 1 sample_filter = (shown, counted) \<and>
     map ts_id shown = [''t1''] \<and> counted = 1 \<and> (\<forall>s\<in>set shown. \<not> ts_dry_run s)"
proof -
  obtain shown counted where e: "ListWatchTasks sample_columns sample_previewed 5 1 sample_filter = (shown, counted)"
    by (rule prod.exhaust)
  have "\<forall>m. m dryRunKey = Some ''1'' \<longrightarrow> contains (sample_columns m) dry_run_written"
    using sample_columns_dry by blast
  from watch_view_exact [OF sample_previewed_reached _ this e] e sample_view show ?thesis
    by (auto simp: sample_filter_def)
qed

end
