(* ===== verification/Commands.thy ===== *)
theory Commands
  imports Watch_View Task_Recovery Detached_Admission
begin

text \<open>
  The commands of \<open>internal/cli/cli.go\<close>: which process answers a command and what it opens
  (\<open>run\<close>, \<open>execute\<close>), the places of the files (\<open>internal/paths/paths.go\<close>), and the handlers of the
  commands that read, from their arguments to the call of the application. Printing is outside; a
  handler that reports failures next to its answer has the exit code 1.
\<close>

section \<open>The files of a user\<close>

text \<open>\<open>getenv\<close> is the environment of the process; the directories are joined as on Unix.\<close>

definition configFile :: "string \<Rightarrow> (string \<Rightarrow> string) \<Rightarrow> string \<Rightarrow> string" where
  "configFile goos getenv home =
     (let base = getenv ''XDG_CONFIG_HOME'';
          windows = (if base = [] \<and> goos = ''windows'' then getenv ''APPDATA'' else base)
      in path_join [if windows = [] then path_join [home, ''.config''] else windows, ''joyrun'', ''config.yaml''])"

definition ConfigFile :: "string \<Rightarrow> (string \<Rightarrow> string) \<Rightarrow> string \<Rightarrow> string" where
  "ConfigFile goos getenv home =
     (if getenv ''JOYRUN_CONFIG'' \<noteq> [] then getenv ''JOYRUN_CONFIG'' else configFile goos getenv home)"

definition databaseFile :: "string \<Rightarrow> (string \<Rightarrow> string) \<Rightarrow> string \<Rightarrow> string" where
  "databaseFile goos getenv home =
     (let base = getenv ''XDG_DATA_HOME'';
          windows = (if base = [] \<and> goos = ''windows'' then getenv ''LOCALAPPDATA'' else base)
      in path_join [if windows = [] then path_join [home, ''.local'', ''share''] else windows, ''joyrun'', ''joyrun.db''])"

definition DatabaseFile :: "string \<Rightarrow> (string \<Rightarrow> string) \<Rightarrow> string \<Rightarrow> string" where
  "DatabaseFile goos getenv home =
     (if getenv ''JOYRUN_DB'' \<noteq> [] then getenv ''JOYRUN_DB'' else databaseFile goos getenv home)"

definition OperationDataDir :: "string \<Rightarrow> (string \<Rightarrow> string) \<Rightarrow> string \<Rightarrow> string" where
  "OperationDataDir goos getenv home = path_join [path_dir (DatabaseFile goos getenv home), ''operations'']"

section \<open>Routing\<close>

definition commandUsage :: "string \<Rightarrow> bool" where
  "commandUsage name \<longleftrightarrow> name \<in> {''config'', ''database'', ''operation'', ''daemon'', ''init'', ''submit'', ''status'', ''watch'',
     ''list'', ''inspect'', ''logs'', ''files'', ''pull'', ''cancel'', ''target'', ''doctor'', ''recover'', ''version''}"

datatype route =
    ShowUsage
  | ShowCommand string
  | RefuseCommand string
  | ShowVersion
  | DaemonCommand "string list"
  | AskWatch "string list"
  | ForwardAll
  | Execute string "string list"

definition usage_or_refuse :: "string \<Rightarrow> route" where
  "usage_or_refuse name = (if commandUsage name then ShowCommand name else RefuseCommand ''UNKNOWN_COMMAND'')"

text \<open>\<open>run\<close> after the global options; \<open>in_daemon\<close> is whether the resident process runs it.\<close>

definition run_route :: "bool \<Rightarrow> string list \<Rightarrow> route" where
  "run_route in_daemon args = (case args of
     [] \<Rightarrow> ShowUsage
   | a # rest \<Rightarrow>
       if rest = [] \<and> (a = ''help'' \<or> a = ''--help'' \<or> a = ''-h'') then ShowUsage
       else if a = ''help'' then
         (if length args \<noteq> 2 then RefuseCommand ''INVALID_ARGUMENT'' else usage_or_refuse (hd rest))
       else if length args \<ge> 2 \<and> (containsFlag rest ''--help'' \<or> containsFlag rest ''-h'') then usage_or_refuse a
       else if a = ''version'' \<or> a = ''--version'' then ShowVersion
       else if a = ''daemon'' then DaemonCommand rest
       else if \<not> in_daemon \<and> a = ''watch'' then AskWatch args
       else if \<not> in_daemon \<and> shouldUseDaemon args then ForwardAll
       else if \<not> knownCommand a then RefuseCommand ''UNKNOWN_COMMAND''
       else Execute a rest)"

text \<open>The configuration file a process reads for a command, given the default place and the directory of the request.\<close>

definition config_for :: "string \<Rightarrow> string \<Rightarrow> string list \<Rightarrow> string" where
  "config_for place cwd original =
     (case extractGlobals original False place of (json, config, args) \<Rightarrow>
        if path_is_abs config then config else path_join [cwd, config])"

datatype resource = OpenDatabase | LoadConfig

text \<open>What \<open>execute\<close> opens before the handler; \<open>config\<close> and \<open>database\<close> open nothing here.\<close>

definition execute_opens :: "string \<Rightarrow> string list \<Rightarrow> resource list" where
  "execute_opens name args =
     (if name = ''config'' \<or> name = ''database'' then []
      else if name = ''init'' \<or> name = ''operation'' \<or> name = ''watch'' then [OpenDatabase]
      else if name = ''target'' \<or> name = ''doctor'' then [LoadConfig]
      else if name = ''submit'' \<and> containsFlag args ''--dry-run'' then [LoadConfig, OpenDatabase]
      else if name = ''recover'' \<and> containsFlag args ''--scan'' then [LoadConfig]
      else [LoadConfig, OpenDatabase])"

lemma answered_here:
  assumes "\<not> shouldUseDaemon (a # rest)" and "knownCommand a" and "a \<noteq> ''daemon''"
  shows "OpenDatabase \<notin> set (execute_opens a rest)"
    and "a = ''config'' \<or> a = ''database'' \<or> a = ''target'' \<and> rest \<noteq> [] \<and> hd rest \<in> {''list'', ''show'', ''params''}"
proof -
  have "\<forall>n\<in>{''config'', ''database'', ''version'', ''--version'', ''help'', ''--help'', ''-h'', ''daemon''}.
      knownCommand n \<longrightarrow> n = ''daemon'' \<or> n = ''config'' \<or> n = ''database''"
    unfolding knownCommand_def by code_simp
  then have own: "a = ''config'' \<or> a = ''database'' \<or> a = ''target'' \<and> \<not> (rest = [] \<or> hd rest \<notin> {''list'', ''show'', ''params''})"
    using assms unfolding shouldUseDaemon_def list.case by (metis (no_types, lifting))
  then show "a = ''config'' \<or> a = ''database'' \<or> a = ''target'' \<and> rest \<noteq> [] \<and> hd rest \<in> {''list'', ''show'', ''params''}"
    by blast
  from own consider "a = ''config''" | "a = ''database''" | "a = ''target''" by blast
  then show "OpenDatabase \<notin> set (execute_opens a rest)" by cases (simp_all add: execute_opens_def)
qed


end
