(* ===== verification/Project_Init.thy ===== *)
theory Project_Init
  imports Task_Lookup Command_Line
begin

text \<open>
  \<open>joyrun init\<close>: \<open>Init\<close> and \<open>ensureProjectIgnore\<close> of \<open>internal/project/project.go\<close> and the handler of
  \<open>internal/cli/cli.go\<close>. What creating directories and replacing files answers is a parameter; the
  result says which of the two files were written.
\<close>

section \<open>Initialising a directory\<close>

text \<open>
  \<open>ia_absent\<close>: examining the metadata failed with \<open>os.ErrNotExist\<close>. \<open>ia_ignore\<close>: reading the ignore
  file, where \<open>None\<close> is a file that does not exist.
\<close>

record init_answers =
  ia_absent :: bool
  ia_identity :: "(go_error, string) result"
  ia_encode :: "go_error option"
  ia_mkdir :: "go_error option"
  ia_write :: "go_error option"
  ia_ignore :: "(go_error, string option) result"
  ia_write_ignore :: "go_error option"

record init_writes =
  iw_metadata :: "string option"
  iw_ignore :: "string option"

definition init_failed :: "go_error \<Rightarrow> go_error" where
  "init_failed e = fault_wrap ''PROJECT_INIT_FAILED'' [] False e"

definition ensureProjectIgnore :: "init_answers \<Rightarrow> (go_error, string option) result" where
  "ensureProjectIgnore ia = (case ia_ignore ia of
     Inl e \<Rightarrow> Inl (init_failed e)
   | Inr content \<Rightarrow> (case ensured_ignore content of
       None \<Rightarrow> Inr None
     | Some s \<Rightarrow> (case ia_write_ignore ia of Some e \<Rightarrow> Inl (init_failed e) | None \<Rightarrow> Inr (Some s))))"

definition Init :: "file_system \<Rightarrow> init_answers \<Rightarrow> string \<Rightarrow> (go_error, project) result \<times> init_writes" where
  "Init fs ia root =
     (let absolute = path_abs (fs_wd fs) root; nothing = \<lparr>iw_metadata = None, iw_ignore = None\<rparr>
      in if fs_is_dir fs absolute \<noteq> Inr True then (Inl (fault_new ''PROJECT_NOT_FOUND'' False), nothing)
         else if fs_project fs absolute \<noteq> None then
           (case Load_project fs absolute of
              Inl e \<Rightarrow> (Inl e, nothing)
            | Inr p \<Rightarrow> (case ensureProjectIgnore ia of
                Inl e \<Rightarrow> (Inl e, nothing) | Inr s \<Rightarrow> (Inr p, nothing\<lparr>iw_ignore := s\<rparr>)))
         else if \<not> ia_absent ia then (Inl (init_failed (PlainError ''stat'')), nothing)
         else (case ia_identity ia of
              Inl e \<Rightarrow> (Inl (init_failed e), nothing)
            | Inr i \<Rightarrow> (case ia_encode ia of
                Some e \<Rightarrow> (Inl (init_failed e), nothing)
              | None \<Rightarrow> (case ia_mkdir ia of
                  Some e \<Rightarrow> (Inl (init_failed e), nothing)
                | None \<Rightarrow> (case ia_write ia of
                    Some e \<Rightarrow> (Inl (init_failed e), nothing)
                  | None \<Rightarrow> (case ensureProjectIgnore ia of
                      Inl e \<Rightarrow> (Inl e, nothing\<lparr>iw_metadata := Some i\<rparr>)
                    | Inr s \<Rightarrow> (Inr \<lparr>proj_id = i, proj_root = absolute\<rparr>, \<lparr>iw_metadata = Some i, iw_ignore = s\<rparr>)))))))"

text \<open>
  The handler: the directory is the argument, or the dot. \<open>fs_wd\<close> is the directory of the process
  that runs the handler, which is the daemon.
\<close>

definition init_command ::
    "file_system \<Rightarrow> init_answers \<Rightarrow> time \<Rightarrow> store \<Rightarrow> string list \<Rightarrow> (go_error, project) result \<times> init_writes option \<times> store" where
  "init_command fs ia now db args = (case parse_flags Map.empty (interspersed {} {} args) of
     Inl _ \<Rightarrow> (Inl (fault_wrap ''INVALID_ARGUMENT'' [] False (PlainError ''flag'')), None, db)
   | Inr (assigned, positional) \<Rightarrow>
       if length positional > 1 then (Inl (fault_new ''INVALID_ARGUMENT'' False), None, db)
       else (case Init fs ia (if length positional = 1 then hd positional else ''.'') of
           (Inl e, wr) \<Rightarrow> (Inl e, Some wr, db)
         | (Inr p, wr) \<Rightarrow> (Inr p, Some wr, BindProject db now p)))"

section \<open>What the ignore file says afterwards\<close>

definition ignores_metadata :: "string option \<Rightarrow> bool" where
  "ignores_metadata content = (case content of None \<Rightarrow> False
     | Some s \<Rightarrow> list_ex (\<lambda>l. trim_space l = ''project.yaml'') (split_on nl s))"

lemma ends_with_line:
  assumes "c \<notin> set w" and "P w" and "p = [] \<or> last p = c"
  shows "list_ex P (split_on c (p @ w @ [c]))"
proof -
  have line: "split_on c (w @ [c]) = [w, []]" using split_on_append [OF assms(1), of "[]"] by simp
  show ?thesis
  proof (cases "p = []")
    case True
    with line assms(2) show ?thesis by simp
  next
    case False
    then obtain q where "p = q @ [c]" using assms(3) by (metis append_butlast_last_id)
    then have "split_on c (p @ w @ [c]) = split_on c q @ [w, []]"
      using split_on_append_sep [of c q "w @ [c]"] line by simp
    with assms(2) show ?thesis by simp
  qed
qed

lemma ensured_ignore_entry:
  assumes "ensured_ignore content = Some s"
  shows "ignores_metadata (Some s)"
proof -
  define w where "w = ''project.yaml''"
  obtain p where s: "s = p @ w @ [nl]" and p: "p = [] \<or> last p = nl"
    using assms unfolding ensured_ignore_def w_def [symmetric]
    by (cases content) (fastforce split: if_splits)+
  have "trim_space w = w" unfolding w_def by code_simp
  moreover have "nl \<notin> set w" by (simp add: w_def)
  ultimately show ?thesis
    using ends_with_line [of nl w "\<lambda>l. trim_space l = w" p] p
    unfolding ignores_metadata_def option.case s w_def [symmetric] by blast
qed

lemma ensured_ignore_keeps:
  "ensured_ignore content = None \<Longrightarrow> ignores_metadata content"
  by (cases content) (auto simp: ensured_ignore_def ignores_metadata_def split: if_splits)

lemma ensured_ignore_extends: "ensured_ignore (Some old) = Some s \<Longrightarrow> has_prefix s old"
  by (auto simp: ensured_ignore_def has_prefix_iff split: if_splits)

section \<open>What init leaves behind\<close>

lemma path_clean_abs: "path_is_abs p \<Longrightarrow> path_clean p = abs_path (path_elems p)"
  by (simp add: path_clean_def path_is_abs_def abs_path_def)

lemma path_abs_absolute:
  assumes "path_is_abs wd"
  shows "path_is_abs (path_abs wd p)" and "\<exists>q. path_is_abs q \<and> path_abs wd p = path_clean q"
proof -
  show q: "\<exists>q. path_is_abs q \<and> path_abs wd p = path_clean q"
  proof (cases "path_is_abs p")
    case True
    then show ?thesis by (auto simp: path_abs_def)
  next
    case False
    obtain c w where w: "wd = c # w" "c = CHR ''/''" using assms by (cases wd) (auto simp: path_is_abs_def)
    then have "path_abs wd p = path_clean (wd @ CHR ''/'' # p)"
      using False by (simp add: path_abs_def path_join_def)
    moreover have "path_is_abs (wd @ CHR ''/'' # p)" using w by (simp add: path_is_abs_def)
    ultimately show ?thesis by blast
  qed
  then show "path_is_abs (path_abs wd p)" by (auto simp: path_clean_abs) (simp add: path_is_abs_def abs_path_def)
qed

lemma path_clean_twice: "path_is_abs p \<Longrightarrow> path_clean (path_clean p) = path_clean p"
proof -
  assume p: "path_is_abs p"
  then have pl: "\<forall>e\<in>set (path_elems p). plain_elem e" using path_elems_plain by blast
  have a: "path_is_abs (abs_path (path_elems p))" by (simp add: path_is_abs_def abs_path_def)
  from path_elems_abs [OF pl] show ?thesis
    by (simp add: path_clean_abs [OF p] path_clean_abs [OF a]) (simp add: abs_path_def)
qed

lemma path_abs_twice: "path_is_abs wd \<Longrightarrow> path_abs wd (path_abs wd p) = path_abs wd p"
  using path_abs_absolute [of wd p] path_clean_twice by (auto simp: path_abs_def [of wd "path_abs wd p"])

lemma Load_project_root: "Load_project fs root = Inr p \<Longrightarrow> proj_root p = path_abs (fs_wd fs) root \<and> proj_id p \<noteq> []"
  by (auto simp: Load_project_def split: option.splits sum.splits if_splits)

lemma Discover_at_root:
  assumes "path_is_abs (fs_wd fs)" and "root = path_abs (fs_wd fs) d" and "fs_is_dir fs root = Inr True"
    and "fs_project fs root = Some (Inr (Inr (1, i)))" and "i \<noteq> []"
  shows "Discover fs root = Inr \<lparr>proj_id = i, proj_root = root\<rparr>"
proof -
  have root: "path_abs (fs_wd fs) root = root" using path_abs_twice [OF assms(1)] assms(2) by simp
  have ab: "path_is_abs root" using path_abs_absolute(1) [OF assms(1)] assms(2) by simp
  have clean: "path_clean root = root" using root ab by (simp add: path_abs_def)
  have whole: "abs_path (path_elems root) = root" using path_clean_abs [OF ab] clean by simp
  show ?thesis
    using assms(3-5) root whole
    by (simp add: Discover_def Let_def discover_up.simps [of fs "rev (path_elems root)"] Load_project_def)
qed

lemma no_flags_rest: "parse_flags Map.empty xs = Inr (a, ps) \<Longrightarrow> set ps \<subseteq> set xs"
  by (cases xs) (auto simp: parse_flags.simps(2) Let_def split: if_splits option.splits)

lemma split_no_flags: "split_args {} {} xs = (os, ps) \<Longrightarrow> set os \<union> set ps \<subseteq> set xs"
proof (induction "{} :: string set" "{} :: string set" xs arbitrary: os ps rule: split_args.induct)
  case (3 v a rest)
  obtain os1 ps1 where s: "split_args {} {} (a # rest) = (os1, ps1)" by (rule prod.exhaust)
  have "set os1 \<union> set ps1 \<subseteq> set (a # rest)" using 3 s by (cases "has_prefix v ''-''") auto
  with 3(6) s show ?case by (cases "has_prefix v ''-''") auto
qed (auto split: if_splits)

lemma ensureProjectIgnore_written:
  assumes "ensureProjectIgnore ia = Inr s"
  shows "\<exists>old. ia_ignore ia = Inr old \<and> ignores_metadata (if s = None then old else s) \<and>
    (\<forall>x t. old = Some x \<and> s = Some t \<longrightarrow> has_prefix t x)"
  using assms ensured_ignore_entry ensured_ignore_keeps ensured_ignore_extends
  by (auto simp: ensureProjectIgnore_def split: sum.splits option.splits)

lemma Init_success:
  assumes "Init fs ia d = (Inr p, w)" and "path_is_abs (fs_wd fs)" and "\<And>i. ia_identity ia = Inr i \<Longrightarrow> i \<noteq> []"
  shows "proj_root p = path_abs (fs_wd fs) d \<and> proj_id p \<noteq> [] \<and> fs_is_dir fs (proj_root p) = Inr True \<and>
    (if fs_project fs (proj_root p) = None then iw_metadata w = Some (proj_id p) \<and> ia_identity ia = Inr (proj_id p)
     else iw_metadata w = None \<and> Load_project fs (proj_root p) = Inr p) \<and> ensureProjectIgnore ia = Inr (iw_ignore w)"
proof -
  define root where "root = path_abs (fs_wd fs) d"
  have again: "path_abs (fs_wd fs) root = root" using path_abs_twice [OF assms(2)] by (simp add: root_def)
  have dir: "fs_is_dir fs root = Inr True"
    using assms(1) by (auto simp: Init_def Let_def root_def split: if_splits)
  show ?thesis
  proof (cases "fs_project fs root = None")
    case True
    then show ?thesis using assms(1,3) dir
      by (auto simp: Init_def Let_def root_def split: if_splits sum.splits option.splits)
  next
    case False
    then obtain s where "Load_project fs root = Inr p" "ensureProjectIgnore ia = Inr s"
        "w = \<lparr>iw_metadata = None, iw_ignore = s\<rparr>"
      using assms(1) dir unfolding Init_def Let_def root_def [symmetric]
      by (auto split: sum.splits)
    with Load_project_root [of fs root p] again dir False show ?thesis by (simp add: root_def)
  qed
qed

text \<open>
  C34. \<open>joyrun init\<close> that succeeds. The project is the directory named by the argument, or the dot,
  below the directory of the process that runs the handler; that process is the daemon, so the directory
  of the user's shell does not occur. A directory that is a project already keeps its identity and its
  metadata, and another one gets the fresh identity in its metadata file. Afterwards the ignore file
  lists the metadata and still begins with what it held, the project is registered under this root, no
  task is touched, and the project is found from its directory. A failure leaves the database alone.
\<close>

theorem init_outcomes:
  assumes "init_command fs ia now db args = (r, wr, db')" and "path_is_abs (fs_wd fs)"
    and "\<And>i. ia_identity ia = Inr i \<Longrightarrow> i \<noteq> []"
  shows "case r of
      Inl _ \<Rightarrow> db' = db
    | Inr p \<Rightarrow> \<exists>d w old. wr = Some w \<and> ia_ignore ia = Inr old \<and> (d = ''.'' \<or> d \<in> set args) \<and>
        proj_root p = path_abs (fs_wd fs) d \<and> fs_is_dir fs (proj_root p) = Inr True \<and>
        (if fs_project fs (proj_root p) = None then iw_metadata w = Some (proj_id p) \<and> ia_identity ia = Inr (proj_id p)
         else iw_metadata w = None \<and> Load_project fs (proj_root p) = Inr p) \<and>
        ignores_metadata (if iw_ignore w = None then old else iw_ignore w) \<and>
        (\<forall>s t. old = Some s \<and> iw_ignore w = Some t \<longrightarrow> has_prefix t s) \<and>
        db' = BindProject db now p \<and> tasks db' = tasks db \<and> project_bound db' (proj_id p) \<and>
        (\<forall>fs'. fs_wd fs' = fs_wd fs \<and> fs_is_dir fs' (proj_root p) = Inr True \<and>
           fs_project fs' (proj_root p) = Some (Inr (Inr (1, proj_id p))) \<longrightarrow> Discover fs' (proj_root p) = Inr p)"
proof -
  obtain os ps where sp: "split_args {} {} args = (os, ps)" by (rule prod.exhaust)
  show ?thesis
  proof (cases "parse_flags Map.empty (interspersed {} {} args)")
    case (Inl e)
    then show ?thesis using assms(1) by (auto simp: init_command_def)
  next
    case (Inr x)
    then obtain a pos where x: "parse_flags Map.empty (interspersed {} {} args) = Inr (a, pos)" by (cases x) auto
    define d where "d = (if length pos = 1 then hd pos else ''.'')"
    have sub: "set pos \<subseteq> set args" using no_flags_rest [OF x] split_no_flags [OF sp] by (auto simp: interspersed_def sp)
    have "length pos = 1 \<Longrightarrow> hd pos \<in> set pos" by (cases pos) auto
    with sub have d: "d = ''.'' \<or> d \<in> set args" unfolding d_def by auto
    have run: "init_command fs ia now db args =
        (if length pos > 1 then (Inl (fault_new ''INVALID_ARGUMENT'' False), None, db)
         else (case Init fs ia d of (Inl e, wr) \<Rightarrow> (Inl e, Some wr, db) | (Inr p, wr) \<Rightarrow> (Inr p, Some wr, BindProject db now p)))"
      by (simp add: init_command_def x d_def)
    obtain r1 w where i: "Init fs ia d = (r1, w)" by (rule prod.exhaust)
    show ?thesis
    proof (cases "length pos > 1 \<or> (\<exists>e. r1 = Inl e)")
      case True
      then have "\<exists>e. r = Inl e" "db' = db" using assms(1) i by (auto simp: run split: if_splits)
      then show ?thesis by auto
    next
      case False
      then obtain p where p: "r1 = Inr p" by (cases r1) auto
      have out: "r = Inr p" "wr = Some w" "db' = BindProject db now p"
        using assms(1) i p False by (auto simp: run)
      note facts = Init_success [OF i [unfolded p] assms(2,3)]
      obtain old where ig: "ia_ignore ia = Inr old" "ignores_metadata (if iw_ignore w = None then old else iw_ignore w)"
          "\<forall>s t. old = Some s \<and> iw_ignore w = Some t \<longrightarrow> has_prefix t s"
        using ensureProjectIgnore_written facts by blast
      have found: "Discover fs' (proj_root p) = Inr p" if "fs_wd fs' = fs_wd fs" "fs_is_dir fs' (proj_root p) = Inr True"
          "fs_project fs' (proj_root p) = Some (Inr (Inr (1, proj_id p)))" for fs'
        using Discover_at_root [of fs' "proj_root p" d "proj_id p"] that facts assms(2) by simp
      show ?thesis unfolding out sum.case
        by (intro exI [of _ d] exI [of _ w] exI [of _ old] conjI allI impI)
          (use d facts ig found BindProject_tasks BindProject_keeps(2) in blast)+
    qed
  qed
qed

definition sample_answers :: init_answers where
  "sample_answers = \<lparr>ia_absent = True, ia_identity = Inr ''pj_1'', ia_encode = None, ia_mkdir = None, ia_write = None,
     ia_ignore = Inr (Some ''tmp''), ia_write_ignore = None\<rparr>"

lemma sample_init: "init_command (sample_files\<lparr>fs_wd := ''/d''\<rparr>) sample_answers 3 empty_store [] =
    (Inr \<lparr>proj_id = ''pj_1'', proj_root = ''/d''\<rparr>,
     Some \<lparr>iw_metadata = Some ''pj_1'', iw_ignore = Some (''tmp'' @ [nl] @ ''project.yaml'' @ [nl])\<rparr>,
     BindProject empty_store 3 \<lparr>proj_id = ''pj_1'', proj_root = ''/d''\<rparr>)"
proof -
  have root: "path_abs ''/d'' ''.'' = ''/d''" by code_simp
  have ignore: "ensured_ignore (Some ''tmp'') = Some (''tmp'' @ [nl] @ ''project.yaml'' @ [nl])" by code_simp
  have "Init (sample_files\<lparr>fs_wd := ''/d''\<rparr>) sample_answers ''.'' = (Inr \<lparr>proj_id = ''pj_1'', proj_root = ''/d''\<rparr>,
      \<lparr>iw_metadata = Some ''pj_1'', iw_ignore = Some (''tmp'' @ [nl] @ ''project.yaml'' @ [nl])\<rparr>)"
    using root ignore by (simp add: Init_def Let_def sample_files_def sample_answers_def ensureProjectIgnore_def)
  then show ?thesis by (simp add: init_command_def interspersed_def)
qed

theorem init_outcomes_witness:
  "\<exists>p wr. init_command (sample_files\<lparr>fs_wd := ''/d''\<rparr>) sample_answers 3 empty_store [] =
       (Inr p, wr, BindProject empty_store 3 p) \<and> proj_root p = ''/d'' \<and>
     Discover (sample_files\<lparr>fs_wd := ''/d'', fs_project := (\<lambda>d. if d = ''/d'' then Some (Inr (Inr (1, ''pj_1''))) else None)\<rparr>) ''/d'' = Inr p"
proof -
  have wd: "path_is_abs (fs_wd (sample_files\<lparr>fs_wd := ''/d''\<rparr>))" by (simp add: path_is_abs_def)
  have "i \<noteq> []" if "ia_identity sample_answers = Inr i" for i using that by (auto simp: sample_answers_def)
  from init_outcomes [OF sample_init wd this] have
    "\<forall>fs'. fs_wd fs' = ''/d'' \<and> fs_is_dir fs' ''/d'' = Inr True \<and> fs_project fs' ''/d'' = Some (Inr (Inr (1, ''pj_1''))) \<longrightarrow>
       Discover fs' ''/d'' = Inr \<lparr>proj_id = ''pj_1'', proj_root = ''/d''\<rparr>"
    by auto
  then show ?thesis using sample_init by (auto simp: sample_files_def)
qed

end
