(* ===== verification/Diagnostics.thy ===== *)
theory Diagnostics
  imports Transfer_Backends Configuration
begin

text \<open>
  \<open>joyrun doctor\<close> (\<open>Doctor\<close> of \<open>internal/app/app.go\<close>) and \<open>joyrun target nodes\<close>
  (\<open>internal/app/nodes.go\<close>). The host runs one script for all remote checks; the transfer is
  examined through two optional interfaces. A check is kept without its prose.
\<close>

section \<open>Checks\<close>

record doctor_check =
  dc_name :: string
  dc_status :: string
  dc_ok :: bool
  dc_blocking :: bool

record doctor_result =
  dr_ready :: bool
  dr_checks :: "doctor_check list"

definition passed_check :: "string \<Rightarrow> doctor_check" where
  "passed_check name = \<lparr>dc_name = name, dc_status = ''pass'', dc_ok = True, dc_blocking = False\<rparr>"

definition failed_check :: "string \<Rightarrow> doctor_check" where
  "failed_check name = \<lparr>dc_name = name, dc_status = ''fail'', dc_ok = False, dc_blocking = True\<rparr>"

definition doctorCheck :: "string \<Rightarrow> bool \<Rightarrow> doctor_check" where
  "doctorCheck name ok = (if ok then passed_check name else failed_check name)"

definition remoteRootDoctorCheck :: "string \<Rightarrow> doctor_check" where
  "remoteRootDoctorCheck answer =
     (let r = trim_space answer
      in if r = ''pass'' then passed_check ''remote_root''
         else if has_prefix r ''creatable:''
         then \<lparr>dc_name = ''remote_root'', dc_status = ''warn'', dc_ok = True, dc_blocking = False\<rparr>
         else failed_check ''remote_root'')"

definition blocks :: "doctor_check \<Rightarrow> bool" where
  "blocks c \<longleftrightarrow> dc_blocking c \<and> dc_status c = ''fail''"

definition doctorResult :: "doctor_check list \<Rightarrow> doctor_result" where
  "doctorResult checks =
     \<lparr>dr_ready = fold (\<lambda>c ready. if blocks c then False else ready) checks True,
      dr_checks = checks\<rparr>"

section \<open>The script and its answer\<close>

definition doctor_commands :: "string list" where
  "doctor_commands = [''sbatch'', ''squeue'', ''sacct'', ''scancel'']"

definition sh_var :: "string \<Rightarrow> string" where
  "sh_var v = [dq] @ ''$'' @ v @ [dq]"

definition root_script :: "string \<Rightarrow> string" where
  "root_script root =
     '': JOYRUN_DOCTOR; root='' @ Quote root @ ''; '' @
     ''if [ -d '' @ sh_var ''root'' @ '' ]; then '' @
     ''if [ -w '' @ sh_var ''root'' @ '' ]; then root_result=pass; else root_result=not_writable; fi; '' @
     ''elif [ -e '' @ sh_var ''root'' @ '' ]; then root_result=not_directory; '' @
     ''else ancestor=$(dirname -- '' @ sh_var ''root'' @ ''); '' @
     ''while [ ! -e '' @ sh_var ''ancestor'' @ '' ] && [ '' @ sh_var ''ancestor'' @ '' != / ]; do ancestor=$(dirname -- '' @
       sh_var ''ancestor'' @ ''); done; '' @
     ''if [ -d '' @ sh_var ''ancestor'' @ '' ] && [ -w '' @ sh_var ''ancestor'' @ '' ]; then root_result=creatable:$ancestor; '' @
     ''else root_result=not_creatable:$ancestor; fi; fi; '' @
     ''printf '' @ [sq] @ ''remote_root|%s'' @ [bs] @ ''n'' @ [sq] @ '' '' @ sh_var ''root_result'' @ ''; ''"

definition executable_script :: "string \<Rightarrow> string" where
  "executable_script e = ''if command -v '' @ e @ '' >/dev/null 2>&1; then '' @
     ''printf '' @ Quote (e @ ''|pass'' @ [nl]) @ ''; else '' @
     ''printf '' @ Quote (e @ ''|missing'' @ [nl]) @ ''; fi; ''"

definition doctor_script :: "string \<Rightarrow> string list \<Rightarrow> string" where
  "doctor_script root executables = root_script root @ concat (map executable_script executables)"

text \<open>The map of the answers: a later line of the same name replaces an earlier one.\<close>

definition remote_checks :: "string \<Rightarrow> string \<rightharpoonup> string" where
  "remote_checks stdout = fold (\<lambda>line m. case cut_at (CHR ''|'') (trim_space line) of
     Some (name, v) \<Rightarrow> m(name \<mapsto> v) | None \<Rightarrow> m) (split_on nl stdout) Map.empty"

section \<open>Doctor\<close>

text \<open>
  \<open>resolver\<close> is the backend of the transfer, if it can say one; \<open>inspector\<close> its check, if it has one
  (the field of the application, or the transfer itself).
\<close>

definition doctor_backend :: "(cluster \<Rightarrow> string \<times> go_error option) option \<Rightarrow> cluster \<Rightarrow> string \<times> go_error option" where
  "doctor_backend resolver c = (case resolver of None \<Rightarrow> ([], None) | Some f \<Rightarrow> f c)"

definition transfer_check ::
    "('w \<Rightarrow> cluster \<Rightarrow> (string \<times> go_error option) \<times> 'w) option \<Rightarrow> string \<times> go_error option \<Rightarrow> (string \<rightharpoonup> string) \<Rightarrow> cluster \<Rightarrow> 'w \<Rightarrow>
     (string \<times> go_error option) \<times> 'w" where
  "transfer_check inspector chosen remote c w = (case chosen of
     (b, Some e) \<Rightarrow> ((b, Some e), w)
   | (b, None) \<Rightarrow>
       if b = ''rsync'' then
         ((b, if meta_get remote ''rsync'' \<noteq> ''pass'' then Some (fault_new ''TRANSFER_UNAVAILABLE'' False) else None), w)
       else (case inspector of
           None \<Rightarrow> ((b, Some (fault_new ''TRANSFER_UNAVAILABLE'' False)), w)
         | Some f \<Rightarrow> f w c))"

definition Doctor ::
    "config \<Rightarrow> 'w runner \<Rightarrow> (cluster \<Rightarrow> string \<times> go_error option) option \<Rightarrow>
     ('w \<Rightarrow> cluster \<Rightarrow> (string \<times> go_error option) \<times> 'w) option \<Rightarrow> string \<Rightarrow> 'w \<Rightarrow> doctor_result \<times> 'w" where
  "Doctor cfg run resolver inspector targetName w = (case cfg_targets cfg targetName of
     None \<Rightarrow> (doctorResult [doctorCheck ''target'' False], w)
   | Some t \<Rightarrow> (case cfg_clusters cfg (tg_cluster t) of
       None \<Rightarrow> (doctorResult [doctorCheck ''target'' True, doctorCheck ''cluster'' False], w)
     | Some c \<Rightarrow>
         (let known = [doctorCheck ''target'' True, doctorCheck ''cluster'' True];
              chosen = doctor_backend resolver c;
              executables = doctor_commands @ (if fst chosen = ''rsync'' then [''rsync''] else [])
          in case run w (cluster_host c) (doctor_script (remote_root c) executables) [] of
               ((stdout, stderr, Some e), w1) \<Rightarrow> (doctorResult (known @ [failed_check ''ssh'']), w1)
             | ((stdout, stderr, None), w1) \<Rightarrow>
                 (let remote = remote_checks stdout
                  in case transfer_check inspector chosen remote c w1 of
                       ((b, te), w2) \<Rightarrow>
                         (doctorResult (known @ [passed_check ''ssh'', remoteRootDoctorCheck (meta_get remote ''remote_root'')] @
                            map (\<lambda>e. doctorCheck e (meta_get remote e = ''pass'')) doctor_commands @
                            [doctorCheck (''transfer_'' @ b) (te = None)]), w2)))))"

section \<open>The nodes of a target\<close>

record target_nodes =
  tn_target :: string
  tn_cluster :: string
  tn_software :: "string \<times> string"
  tn_partition :: resolved_partition
  tn_origin :: string
  tn_summary :: node_summary
  tn_nodes :: "node_info list"

definition TargetNodes ::
    "config \<Rightarrow> 'w runner \<Rightarrow> string \<Rightarrow> string \<Rightarrow> 'w \<Rightarrow> (go_error, target_nodes) result \<times> 'w" where
  "TargetNodes cfg run targetName override w = (case cfg_targets cfg targetName of
     None \<Rightarrow> (Inl (fault_new ''TARGET_NOT_FOUND'' False), w)
   | Some t \<Rightarrow>
       if default_partition t = [] then (Inl (fault_new ''TARGET_PLACEMENT_NOT_CONFIGURED'' False), w)
       else let c = (case cfg_clusters cfg (tg_cluster t) of Some c \<Rightarrow> c | None \<Rightarrow> no_cluster)
         in case ResolvePartition c t override of
              Inl e \<Rightarrow> (Inl e, w)
            | Inr (p, origin) \<Rightarrow> (case Nodes run w (cluster_host c) (rp_name p) of
                (Inl e, w1) \<Rightarrow> (Inl e, w1)
              | (Inr (summary, nodes), w1) \<Rightarrow>
                  (Inr \<lparr>tn_target = targetName, tn_cluster = tg_cluster t,
                     tn_software = (software_name t, software_version t), tn_partition = p, tn_origin = origin,
                     tn_summary = summary, tn_nodes = nodes\<rparr>, w1)))"

section \<open>Reading the answer of the script\<close>

lemma doctorResult_ready:
  "dr_ready (doctorResult cs) \<longleftrightarrow> (\<forall>c\<in>set cs. \<not> blocks c)"
proof -
  have "fold (\<lambda>c ready. if blocks c then False else ready) cs b \<longleftrightarrow>
      b \<and> (\<forall>c\<in>set cs. \<not> blocks c)" for b
    by (induction cs arbitrary: b) auto
  from this [of True] show ?thesis by (simp add: doctorResult_def)
qed

lemma doctorResult_checks [simp]: "dr_checks (doctorResult cs) = cs"
  by (simp add: doctorResult_def)

text \<open>A line the script prints: a name, a bar and a value that no trimming changes.\<close>

definition answer_line :: "string \<Rightarrow> string \<Rightarrow> string" where
  "answer_line n v = n @ CHR ''|'' # v"

definition plain_answer :: "string \<times> string \<Rightarrow> bool" where
  "plain_answer = (\<lambda>(n, v). CHR ''|'' \<notin> set n \<and> nl \<notin> set n \<and> nl \<notin> set v \<and> v \<noteq> [] \<and> n \<noteq> [] \<and>
     graph_char (hd n) \<and> graph_char (last v))"

definition answer_text :: "(string \<times> string) list \<Rightarrow> string" where
  "answer_text nvs = concat (map (\<lambda>(n, v). answer_line n v @ [nl]) nvs)"

lemma plain_answer_read:
  assumes "plain_answer (n, v)"
  shows "cut_at (CHR ''|'') (trim_space (answer_line n v)) = Some (n, v)" and "nl \<notin> set (answer_line n v)"
proof -
  have "trim_space (answer_line n v) = answer_line n v"
    using assms by (intro trim_space_graph) (auto simp: plain_answer_def answer_line_def)
  then show "cut_at (CHR ''|'') (trim_space (answer_line n v)) = Some (n, v)"
    using assms by (simp add: plain_answer_def answer_line_def cut_at_append)
  show "nl \<notin> set (answer_line n v)" using assms by (auto simp: plain_answer_def answer_line_def)
qed

lemma remote_checks_answer:
  assumes "\<forall>x\<in>set nvs. plain_answer x" and "distinct (map fst nvs)"
  shows "remote_checks (answer_text nvs) = map_of nvs"
proof -
  have split: "split_on nl (answer_text nvs) = map (\<lambda>(n, v). answer_line n v) nvs @ [[]]"
    using assms(1)
  proof (induction nvs)
    case (Cons x nvs)
    obtain n v where x: "x = (n, v)" by (rule prod.exhaust)
    with Cons.prems have "nl \<notin> set (answer_line n v)" using plain_answer_read(2) by simp
    with Cons x show ?case by (simp add: answer_text_def split_on_append)
  qed (simp add: answer_text_def)
  define step where "step = (\<lambda>line (m :: string \<rightharpoonup> string). case cut_at (CHR ''|'') (trim_space line) of
     Some (name, v) \<Rightarrow> m(name \<mapsto> v) | None \<Rightarrow> m)"
  have walk: "fold step (map (\<lambda>(n, v). answer_line n v) nvs) m = m ++ map_of nvs" for m
    using assms
  proof (induction nvs arbitrary: m)
    case (Cons x nvs)
    obtain n v where x: "x = (n, v)" by (rule prod.exhaust)
    with Cons.prems(1) have first: "step (answer_line n v) m = m(n \<mapsto> v)" by (simp add: step_def plain_answer_read)
    moreover have "n \<notin> dom (map_of nvs)" using Cons.prems(2) x by (simp add: dom_map_of_conv_image_fst)
    then have "m(n \<mapsto> v) ++ map_of nvs = m ++ map_of ((n, v) # nvs)" by (simp add: map_add_upd_left del: fun_upd_apply)
    moreover have "fold step (map (\<lambda>(n, v). answer_line n v) nvs) (m(n \<mapsto> v)) = m(n \<mapsto> v) ++ map_of nvs"
      using Cons.prems by (intro Cons.IH) simp_all
    ultimately show ?case unfolding x list.map prod.case fold_Cons comp_def by (simp only: first)
  qed simp
  have "cut_at (CHR ''|'') [] = None" by (simp add: cut_at_def)
  then show ?thesis using walk [of Map.empty]
    by (simp add: remote_checks_def split step_def [symmetric]) (simp add: step_def)
qed

text \<open>What a POSIX host prints for the script: its finding about the directory, then each command.\<close>

definition doctor_report :: "string \<Rightarrow> (string \<Rightarrow> bool) \<Rightarrow> string list \<Rightarrow> string" where
  "doctor_report found available executables =
     answer_text ((''remote_root'', found) # map (\<lambda>e. (e, if available e then ''pass'' else ''missing'')) executables)"

definition usable_root :: "string \<Rightarrow> bool" where
  "usable_root found \<longleftrightarrow> found = ''pass'' \<or> has_prefix found ''creatable:''"

lemma doctor_report_read:
  assumes "nl \<notin> set found" and "found \<noteq> []" and "graph_char (last found)"
    and "executables = doctor_commands \<or> executables = doctor_commands @ [''rsync'']"
  shows "meta_get (remote_checks (doctor_report found available executables)) ''remote_root'' = found"
    and "e \<in> set executables \<Longrightarrow>
      meta_get (remote_checks (doctor_report found available executables)) e = ''pass'' \<longleftrightarrow> available e"
proof -
  let ?nvs = "(''remote_root'', found) # map (\<lambda>e. (e, if available e then ''pass'' else ''missing'')) executables"
  have names: "\<forall>n\<in>{''remote_root'', ''sbatch'', ''squeue'', ''sacct'', ''scancel'', ''rsync''}.
      CHR ''|'' \<notin> set n \<and> nl \<notin> set n \<and> n \<noteq> [] \<and> graph_char (hd n)" by (simp add: graph_char_def)
  have vals: "\<forall>v\<in>{''pass'', ''missing''}. nl \<notin> set v \<and> v \<noteq> [] \<and> graph_char (last v)" by (simp add: graph_char_def)
  have ex: "set executables \<subseteq> {''sbatch'', ''squeue'', ''sacct'', ''scancel'', ''rsync''}"
    using assms(4) by (auto simp: doctor_commands_def)
  have "plain_answer (e, if available e then ''pass'' else ''missing'')" if "e \<in> set executables" for e
    using bspec [OF names, of e] bspec [OF vals, of "if available e then ''pass'' else ''missing''"] subsetD [OF ex that]
    unfolding plain_answer_def prod.case by (metis insertCI)
  moreover have "plain_answer (''remote_root'', found)"
    using bspec [OF names, of "''remote_root''"] assms(1-3) unfolding plain_answer_def prod.case by blast
  ultimately have "\<forall>x\<in>set ?nvs. plain_answer x" by auto
  moreover have "distinct (map fst ?nvs)" using assms(4) by (auto simp: doctor_commands_def comp_def)
  ultimately have m: "remote_checks (doctor_report found available executables) = map_of ?nvs"
    unfolding doctor_report_def by (rule remote_checks_answer)
  show "meta_get (remote_checks (doctor_report found available executables)) ''remote_root'' = found"
    by (simp add: m meta_get_def)
  have "map_of (map (\<lambda>e. (e, if available e then ''pass'' else ''missing'')) es) e =
      (if e \<in> set es then Some (if available e then ''pass'' else ''missing'') else None)" for es e
    by (induction es) auto
  moreover have "e \<in> set executables \<Longrightarrow> e \<noteq> ''remote_root''" using ex by auto
  ultimately show "e \<in> set executables \<Longrightarrow>
      meta_get (remote_checks (doctor_report found available executables)) e = ''pass'' \<longleftrightarrow> available e"
    by (simp add: m meta_get_def)
qed

section \<open>When a target is ready\<close>

definition transfer_ready ::
    "(cluster \<Rightarrow> string \<times> go_error option) option \<Rightarrow> ('w \<Rightarrow> cluster \<Rightarrow> (string \<times> go_error option) \<times> 'w) option \<Rightarrow>
     (string \<Rightarrow> bool) \<Rightarrow> cluster \<Rightarrow> 'w \<Rightarrow> bool" where
  "transfer_ready resolver inspector available c w = (case doctor_backend resolver c of
     (b, Some e) \<Rightarrow> False
   | (b, None) \<Rightarrow> if b = ''rsync'' then available ''rsync''
       else (case inspector of None \<Rightarrow> False | Some f \<Rightarrow> snd (fst (f w c)) = None))"

lemma check_blocks [simp]:
  "blocks (doctorCheck n ok) \<longleftrightarrow> \<not> ok"
  "dc_ok (doctorCheck n ok) = ok" "dc_name (doctorCheck n ok) = n"
  "blocks (failed_check n)" "\<not> blocks (passed_check n)" "dc_name (passed_check n) = n" "dc_ok (passed_check n)"
  by (simp_all add: blocks_def doctorCheck_def passed_check_def failed_check_def)

lemma root_check_blocks:
  assumes "trim_space found = found"
  shows "blocks (remoteRootDoctorCheck found) \<longleftrightarrow> \<not> usable_root found"
    and "dc_ok (remoteRootDoctorCheck found) \<longleftrightarrow> usable_root found" and "dc_name (remoteRootDoctorCheck found) = ''remote_root''"
  using assms by (simp_all add: blocks_def remoteRootDoctorCheck_def usable_root_def passed_check_def failed_check_def Let_def)

lemma transfer_check_ready:
  assumes "\<And>e. e \<in> set (doctor_commands @ (if fst (doctor_backend resolver c) = ''rsync'' then [''rsync''] else [])) \<Longrightarrow>
      meta_get remote e = ''pass'' \<longleftrightarrow> available e"
  shows "snd (fst (transfer_check inspector (doctor_backend resolver c) remote c w)) = None \<longleftrightarrow>
    transfer_ready resolver inspector available c w"
  using assms [of "''rsync''"]
  by (auto simp: transfer_check_def transfer_ready_def split: option.split prod.split)

text \<open>
  C38. \<open>joyrun doctor\<close> says \<open>ready\<close> exactly when a submission to the target can work: the target and its
  cluster are configured, the host runs commands, its working directory can be written or created, the
  four Slurm commands are there, and the transfer that would be used works on both sides. For a host
  that prints what the script asks for, each check is passed exactly when its own condition holds,
  whatever the other checks say, and the verdict is their conjunction. Nothing is asked of a host when
  the target or the cluster is not configured.
\<close>

theorem doctor_ready_exact:
  assumes "Doctor cfg run resolver inspector name w = (result, w')"
    and host: "\<forall>t c executables. cfg_targets cfg name = Some t \<and> cfg_clusters cfg (tg_cluster t) = Some c \<and>
      executables = doctor_commands @ (if fst (doctor_backend resolver c) = ''rsync'' then [''rsync''] else []) \<longrightarrow>
      run w (cluster_host c) (doctor_script (remote_root c) executables) [] =
        ((doctor_report found available executables, err, failure), w1)"
    and "nl \<notin> set found" and "found \<noteq> []" and "graph_char (hd found)" and "graph_char (last found)"
  shows "case cfg_targets cfg name of
      None \<Rightarrow> \<not> dr_ready result \<and> w' = w
    | Some t \<Rightarrow> (case cfg_clusters cfg (tg_cluster t) of
        None \<Rightarrow> \<not> dr_ready result \<and> w' = w
      | Some c \<Rightarrow>
          (dr_ready result \<longleftrightarrow> failure = None \<and> usable_root found \<and> (\<forall>e\<in>set doctor_commands. available e) \<and>
             transfer_ready resolver inspector available c w1) \<and>
          (failure = None \<longrightarrow> (\<exists>b. map (\<lambda>k. (dc_name k, dc_ok k)) (dr_checks result) =
             [(''target'', True), (''cluster'', True), (''ssh'', True), (''remote_root'', usable_root found)] @
             map (\<lambda>e. (e, available e)) doctor_commands @
             [(''transfer_'' @ b, transfer_ready resolver inspector available c w1)])))"
proof (cases "cfg_targets cfg name")
  case None
  then show ?thesis using assms(1) by (auto simp: Doctor_def doctorResult_ready)
next
  case (Some t)
  note target = Some
  show ?thesis
  proof (cases "cfg_clusters cfg (tg_cluster t)")
    case None
    then show ?thesis using assms(1) target by (auto simp: Doctor_def doctorResult_ready)
  next
    case (Some c)
    define executables where
      "executables = doctor_commands @ (if fst (doctor_backend resolver c) = ''rsync'' then [''rsync''] else [])"
    have answer: "run w (cluster_host c) (doctor_script (remote_root c) executables) [] =
        ((doctor_report found available executables, err, failure), w1)"
      using host target Some executables_def by blast
    show ?thesis
    proof (cases failure)
      case failed: (Some e)
      then have "result = doctorResult [doctorCheck ''target'' True, doctorCheck ''cluster'' True, failed_check ''ssh'']"
        using assms(1) target Some answer by (simp add: Doctor_def Let_def executables_def)
      then show ?thesis using target Some failed by (simp add: doctorResult_ready)
    next
      case None
      define remote where "remote = remote_checks (doctor_report found available executables)"
      have "executables = doctor_commands \<or> executables = doctor_commands @ [''rsync'']" by (simp add: executables_def)
      note facts = doctor_report_read [OF assms(3,4,6) this]
      have read1: "meta_get remote ''remote_root'' = found" unfolding remote_def by (rule facts(1))
      have read2: "meta_get remote e = ''pass'' \<longleftrightarrow> available e" if "e \<in> set executables" for e
        unfolding remote_def by (rule facts(2) [OF that])
      have same: "trim_space found = found" using trim_space_graph assms(4-6) by blast
      have ready: "snd (fst (transfer_check inspector (doctor_backend resolver c) remote c w1)) = None \<longleftrightarrow>
          transfer_ready resolver inspector available c w1"
        by (rule transfer_check_ready) (rule read2, simp add: executables_def)
      obtain b te w2 where t: "transfer_check inspector (doctor_backend resolver c) remote c w1 = ((b, te), w2)"
        by (metis prod.exhaust)
      have cmds: "map (\<lambda>e. doctorCheck e (meta_get remote e = ''pass'')) doctor_commands =
          map (\<lambda>e. doctorCheck e (available e)) doctor_commands"
        using read2 by (intro map_cong) (auto simp: executables_def)
      have "result = doctorResult ([doctorCheck ''target'' True, doctorCheck ''cluster'' True] @
          [passed_check ''ssh'', remoteRootDoctorCheck found] @ map (\<lambda>e. doctorCheck e (available e)) doctor_commands @
          [doctorCheck (''transfer_'' @ b) (te = None)])"
        using assms(1) target Some answer None t read1 cmds
        by (simp add: Doctor_def Let_def executables_def [symmetric] remote_def [symmetric])
      moreover from this have "dr_ready result \<longleftrightarrow> usable_root found \<and> (\<forall>e\<in>set doctor_commands. available e) \<and>
          transfer_ready resolver inspector available c w1"
        using ready t by (auto simp: doctorResult_ready root_check_blocks [OF same])
      ultimately show ?thesis using target Some None ready t
        by (simp add: root_check_blocks [OF same] comp_def)
    qed
  qed
qed

definition sample_doctor_config :: config where
  "sample_doctor_config = \<lparr>cfg_clusters = [''c'' \<mapsto> no_cluster\<lparr>remote_root := ''/r''\<rparr>],
     cfg_targets = [''x'' \<mapsto> sample_target\<lparr>tg_cluster := ''c''\<rparr>]\<rparr>"

definition sample_host :: "unit runner" where
  "sample_host = (\<lambda>w h cmd input. ((doctor_report ''creatable:/'' (\<lambda>e. e \<noteq> ''sacct'') doctor_commands, [], None), w))"

theorem doctor_ready_exact_witness:
  "\<exists>result. Doctor sample_doctor_config sample_host (Some (\<lambda>c. (''sftp'', None))) (Some (\<lambda>w c. ((''sftp'', None), w))) ''x'' () = (result, ()) \<and>
     \<not> dr_ready result \<and> map dc_ok (dr_checks result) = [True, True, True, True, True, True, False, True, True]"
proof -
  let ?resolver = "Some (\<lambda>c :: cluster. (''sftp'', None :: go_error option))"
  let ?inspector = "Some (\<lambda>(w :: unit) (c :: cluster). ((''sftp'', None :: go_error option), w))"
  obtain result u where ru: "Doctor sample_doctor_config sample_host ?resolver ?inspector ''x'' () = (result, u)"
    by (rule prod.exhaust)
  have r: "Doctor sample_doctor_config sample_host ?resolver ?inspector ''x'' () = (result, ())"
    unfolding ru by simp
  have host: "\<forall>t c ex. cfg_targets sample_doctor_config ''x'' = Some t \<and> cfg_clusters sample_doctor_config (tg_cluster t) = Some c \<and>
      ex = doctor_commands @ (if fst (doctor_backend ?resolver c) = ''rsync'' then [''rsync''] else []) \<longrightarrow>
      sample_host () (cluster_host c) (doctor_script (remote_root c) ex) [] =
      ((doctor_report ''creatable:/'' (\<lambda>e. e \<noteq> ''sacct'') ex, [], None), ())"
    by (simp add: sample_host_def doctor_backend_def)
  have plain: "nl \<notin> set ''creatable:/''" "''creatable:/'' \<noteq> []" "graph_char (hd ''creatable:/'')" "graph_char (last ''creatable:/'')"
    by (simp_all add: graph_char_def)
  have t: "cfg_targets sample_doctor_config ''x'' = Some (sample_target\<lparr>tg_cluster := ''c''\<rparr>)"
    and c: "cfg_clusters sample_doctor_config (tg_cluster (sample_target\<lparr>tg_cluster := ''c''\<rparr>)) = Some (no_cluster\<lparr>remote_root := ''/r''\<rparr>)"
    by (simp_all add: sample_doctor_config_def)
  have u: "usable_root ''creatable:/''" by (simp add: usable_root_def)
  note main = doctor_ready_exact [OF r host plain, unfolded t option.case c]
  have ready: "transfer_ready ?resolver ?inspector (\<lambda>e. e \<noteq> ''sacct'') c ()" for c
    by (simp add: transfer_ready_def doctor_backend_def)
  have missing: "\<not> (\<forall>e\<in>set doctor_commands. e \<noteq> ''sacct'')" by (simp add: doctor_commands_def)
  have no: "\<not> dr_ready result" using main missing by blast
  obtain b where checks: "map (\<lambda>k. (dc_name k, dc_ok k)) (dr_checks result) =
       [(''target'', True), (''cluster'', True), (''ssh'', True), (''remote_root'', usable_root ''creatable:/'')] @
       map (\<lambda>e. (e, e \<noteq> ''sacct'')) doctor_commands @
       [(''transfer_'' @ b, transfer_ready ?resolver ?inspector (\<lambda>e. e \<noteq> ''sacct'') (no_cluster\<lparr>remote_root := ''/r''\<rparr>) ())]"
    using main by (elim conjE impE [OF _ refl] exE) (rule that)
  have "map dc_ok (dr_checks result) = map snd (map (\<lambda>k. (dc_name k, dc_ok k)) (dr_checks result))" by simp
  also have "\<dots> = [True, True, True, True, True, True, False, True, True]"
    unfolding checks using u ready by (simp add: doctor_commands_def)
  finally show ?thesis using r no by (intro exI [of _ result] conjI)
qed

end
