(* ===== verification/Read_Commands.thy ===== *)
theory Read_Commands
  imports Watch_View Task_Recovery Pull_Results Diagnostics
begin

text \<open>
  The handlers of the commands about one task or one project (\<open>internal/cli/cli.go\<close>): \<open>status\<close>,
  \<open>list\<close>, \<open>inspect\<close>, \<open>logs\<close>, \<open>files\<close>, \<open>cancel\<close>, \<open>recover\<close>, \<open>doctor\<close> and \<open>target nodes\<close>, from
  their arguments to what they hand to the output, with the exit code. \<open>resident\<close> is whether the
  daemon runs the handler for a client. \<open>None\<close> is a panic of a query; the world and the store are
  then those of the last step before it.
\<close>

section \<open>The environment and the answers\<close>

record 'w command_env =
  ce_outside :: "'w outside"
  ce_files :: file_system
  ce_arrange :: "(string \<times> task list) list \<Rightarrow> (string \<times> task list) list"
  ce_decode :: "string \<Rightarrow> (go_error, task) result"
  ce_config :: config
  ce_resolver :: "(cluster \<Rightarrow> string \<times> go_error option) option"
  ce_inspector :: "('w \<Rightarrow> cluster \<Rightarrow> (string \<times> go_error option) \<times> 'w) option"

datatype answer =
    OneSummary task_summary
  | Summaries "task_summary list" "(string \<times> go_error) list"
  | OneTask task
  | TracedTask task "task_event list"
  | LogText log_result
  | FileList "remote_file list"
  | Candidates "recovery_candidate list"
  | DoctorChecks doctor_result
  | TargetListing target_nodes

type_synonym 'w handled = "(go_error, answer \<times> nat) result option \<times> 'w \<times> store"

definition bad_flags :: go_error where
  "bad_flags = fault_wrap ''INVALID_ARGUMENT'' [] False (PlainError ''flag'')"

definition bad_usage :: go_error where
  "bad_usage = fault_new ''INVALID_ARGUMENT'' False"

definition refused :: "go_error \<Rightarrow> 'w \<Rightarrow> store \<Rightarrow> 'w handled" where
  "refused e w db = (Some (Inl e), w, db)"

definition answered_by :: "('a \<Rightarrow> answer) \<Rightarrow> (go_error, 'a) result \<Rightarrow> 'w \<Rightarrow> store \<Rightarrow> 'w handled" where
  "answered_by f r w db = (Some (map_sum id (\<lambda>x. (f x, 0)) r), w, db)"

text \<open>An operation of the application that returns a task next to its error.\<close>

definition task_answer_by :: "(task \<Rightarrow> answer) \<Rightarrow> (go_error option \<times> task) option \<times> 'w \<times> store \<Rightarrow> 'w handled" where
  "task_answer_by f = (\<lambda>(r, w, db). (map_option (\<lambda>(e, t). case e of Some x \<Rightarrow> Inl x | None \<Rightarrow> Inr (f t, 0)) r, w, db))"

definition now_of :: "'w command_env \<Rightarrow> 'w \<Rightarrow> time" where
  "now_of env w = clock (ce_outside env) w"

section \<open>Status, list and inspect\<close>

definition status_switches :: "string set" where
  "status_switches = {''--all'', ''--cached'', ''--refresh''}"

definition status_kinds :: "string \<rightharpoonup> flag_kind" where
  "status_kinds n = (if n \<in> {''all'', ''cached'', ''refresh''} then Some BoolFlag else None)"

definition summaries :: "task list \<Rightarrow> task_summary list" where
  "summaries = map SummarizeTask"

text \<open>\<open>StatusAll\<close> of the project of the directory; without a project the only failure has no task.\<close>

definition status_all_of :: "'w command_env \<Rightarrow> string \<Rightarrow> 'w \<Rightarrow> store \<Rightarrow> 'w handled" where
  "status_all_of env cwd w db = (case bound_project (ce_files env) (now_of env w) db cwd of
     (Inl e, db1) \<Rightarrow> (Some (Inr (Summaries [] [([], fault_as e)], 1)), w, db1)
   | (Inr p, db1) \<Rightarrow> (case StatusAll (ce_outside env) (ce_arrange env) w db1 (proj_id p) of
       None \<Rightarrow> (None, w, db1)
     | Some (ts, bad, w2, db2) \<Rightarrow> (Some (Inr (Summaries (summaries ts) bad, if bad = [] then 0 else 1)), w2, db2)))"

definition status_handler :: "'w command_env \<Rightarrow> bool \<Rightarrow> string \<Rightarrow> string list \<Rightarrow> 'w \<Rightarrow> store \<Rightarrow> 'w handled" where
  "status_handler env resident cwd args w db = (case parse_flags status_kinds (interspersed {} status_switches args) of
     Inl _ \<Rightarrow> refused bad_flags w db
   | Inr (assigned, positional) \<Rightarrow>
       (let cached = switch_flag ''cached'' assigned; refresh = switch_flag ''refresh'' assigned;
            local = cached \<or> resident \<and> \<not> refresh
        in if cached \<and> refresh then refused bad_usage w db
           else if switch_flag ''all'' assigned then
             (if positional \<noteq> [] then refused bad_usage w db
              else if local then (case App_List (ce_files env) (now_of env w) db cwd of (r, db1) \<Rightarrow>
                answered_by (\<lambda>ts. Summaries (summaries ts) []) r w db1)
              else status_all_of env cwd w db)
           else if length positional \<noteq> 1 then refused bad_usage w db
           else if local then (case Inspect (ce_files env) (now_of env w) db cwd (hd positional) of (r, db1) \<Rightarrow>
             answered_by (\<lambda>t. OneSummary (SummarizeTask t)) r w db1)
           else task_answer_by (\<lambda>t. OneSummary (SummarizeTask t))
             (App_Status (ce_outside env) (ce_files env) w db cwd (hd positional))))"

definition list_handler :: "'w command_env \<Rightarrow> string \<Rightarrow> string list \<Rightarrow> 'w \<Rightarrow> store \<Rightarrow> 'w handled" where
  "list_handler env cwd args w db =
     (if length args > 1 then refused bad_usage w db
      else (case (if length args = 1 then App_History (ce_files env) (now_of env w) db cwd (hd args)
                  else App_List (ce_files env) (now_of env w) db cwd) of
          (r, db1) \<Rightarrow> answered_by (\<lambda>ts. Summaries (summaries ts) []) r w db1))"

definition inspect_switches :: "string set" where
  "inspect_switches = {''--events''}"

definition inspect_kinds :: "string \<rightharpoonup> flag_kind" where
  "inspect_kinds n = (if n = ''events'' then Some BoolFlag else None)"

definition inspect_handler :: "'w command_env \<Rightarrow> string \<Rightarrow> string list \<Rightarrow> 'w \<Rightarrow> store \<Rightarrow> 'w handled" where
  "inspect_handler env cwd args w db = (case parse_flags inspect_kinds (interspersed {} inspect_switches args) of
     Inl _ \<Rightarrow> refused bad_flags w db
   | Inr (assigned, positional) \<Rightarrow>
       if length positional \<noteq> 1 then refused bad_usage w db
       else if switch_flag ''events'' assigned then
         (case Trace (ce_files env) (now_of env w) db cwd (hd positional) of (r, db1) \<Rightarrow>
            answered_by (\<lambda>(t, es). TracedTask t es) r w db1)
       else (case Inspect (ce_files env) (now_of env w) db cwd (hd positional) of (r, db1) \<Rightarrow> answered_by OneTask r w db1))"

section \<open>Logs, files and cancel\<close>

definition logs_valued :: "string set" where
  "logs_valued = {''--lines'', ''--file''}"

definition logs_kinds :: "string \<rightharpoonup> flag_kind" where
  "logs_kinds n = (if n \<in> {''lines'', ''file''} then Some TextFlag else None)"

definition logs_handler :: "'w command_env \<Rightarrow> string \<Rightarrow> string list \<Rightarrow> 'w \<Rightarrow> store \<Rightarrow> 'w handled" where
  "logs_handler env cwd args w db = (case parse_flags logs_kinds (interspersed logs_valued {} args) of
     Inl _ \<Rightarrow> refused bad_flags w db
   | Inr (assigned, positional) \<Rightarrow> (case int_flag ''lines'' assigned 100 of
       None \<Rightarrow> refused bad_flags w db
     | Some lines \<Rightarrow>
         if length positional \<noteq> 1 \<or> lines < 1 then refused bad_usage w db
         else (case Logs (ce_outside env) (ce_files env) w db cwd (hd positional) lines (text_flag ''file'' assigned []) of
             (r, w1, db1) \<Rightarrow> answered_by LogText r w1 db1)))"

definition files_handler :: "'w command_env \<Rightarrow> string \<Rightarrow> string list \<Rightarrow> 'w \<Rightarrow> store \<Rightarrow> 'w handled" where
  "files_handler env cwd args w db =
     (if length args \<noteq> 1 then refused bad_usage w db
      else (case RemoteFiles (ce_outside env) (ce_files env) w db cwd (hd args) of
          (r, w1, db1) \<Rightarrow> answered_by FileList r w1 db1))"

text \<open>\<open>App.Cancel\<close>: only an exact task ID is cancelled.\<close>

definition App_Cancel ::
    "'w outside \<Rightarrow> file_system \<Rightarrow> 'w \<Rightarrow> store \<Rightarrow> string \<Rightarrow> string \<Rightarrow> (go_error option \<times> task) option \<times> 'w \<times> store" where
  "App_Cancel env fs w db cwd identifier =
     (if \<not> has_prefix identifier ''jr_'' then (Some (Some (fault_new ''CANCEL_REQUIRES_TASK_ID'' False), no_task), w, db)
      else (case ResolveTask fs (clock env w) db cwd identifier of
          (Inl e, db1) \<Rightarrow> (Some (Some e, no_task), w, db1)
        | (Inr (t, p), db1) \<Rightarrow> (case Cancel env w db1 t of (r, w1, db2) \<Rightarrow> (Some r, w1, db2))))"

definition cancel_handler :: "'w command_env \<Rightarrow> string \<Rightarrow> string list \<Rightarrow> 'w \<Rightarrow> store \<Rightarrow> 'w handled" where
  "cancel_handler env cwd args w db =
     (if length args \<noteq> 1 then refused bad_usage w db
      else task_answer_by OneTask (App_Cancel (ce_outside env) (ce_files env) w db cwd (hd args)))"

section \<open>Recover, doctor and the nodes of a target\<close>

definition recover_valued :: "string set" where
  "recover_valued = {''--target'', ''-t''}"

definition recover_switches :: "string set" where
  "recover_switches = {''--scan''}"

definition recover_kinds :: "string \<rightharpoonup> flag_kind" where
  "recover_kinds n = (if n \<in> {''target'', ''t''} then Some TextFlag else if n = ''scan'' then Some BoolFlag else None)"

text \<open>Both spellings of the target set one variable; the last one counts.\<close>

definition target_flag :: "(string \<times> string) list \<Rightarrow> string" where
  "target_flag assigned = fold (\<lambda>(n, x) y. if n = ''target'' \<or> n = ''t'' then x else y) assigned []"

definition recover_handler :: "'w command_env \<Rightarrow> string \<Rightarrow> string list \<Rightarrow> 'w \<Rightarrow> store \<Rightarrow> 'w handled" where
  "recover_handler env cwd args w db = (case parse_flags recover_kinds (interspersed recover_valued recover_switches args) of
     Inl _ \<Rightarrow> refused bad_flags w db
   | Inr (assigned, positional) \<Rightarrow>
       (let name = target_flag assigned; targets = cfg_targets (ce_config env)
        in if switch_flag ''scan'' assigned then
             (if positional \<noteq> [] \<or> name = [] then refused bad_usage w db
              else (case RecoveryCandidates (ce_outside env) (ce_decode env) targets (ce_files env) w cwd name of
                  (r, w1) \<Rightarrow> answered_by Candidates r w1 db))
           else if length positional \<noteq> 1 \<or> name = [] then refused bad_usage w db
           else task_answer_by OneTask
             (Recover (ce_outside env) (ce_decode env) targets (ce_files env) w db cwd (hd positional) name)))"

definition doctor_handler :: "'w command_env \<Rightarrow> string list \<Rightarrow> 'w \<Rightarrow> store \<Rightarrow> 'w handled" where
  "doctor_handler env args w db =
     (if length args \<noteq> 1 then refused bad_usage w db
      else (case Doctor (ce_config env) (exec_cmd (ce_outside env)) (ce_resolver env) (ce_inspector env) (hd args) w of
          (r, w1) \<Rightarrow> (Some (Inr (DoctorChecks r, if dr_ready r then 0 else 1)), w1, db)))"

definition nodes_valued :: "string set" where
  "nodes_valued = {''--partition''}"

definition nodes_kinds :: "string \<rightharpoonup> flag_kind" where
  "nodes_kinds n = (if n = ''partition'' then Some TextFlag else None)"

text \<open>\<open>target nodes\<close>, with the arguments after its name.\<close>

definition target_nodes_handler :: "'w command_env \<Rightarrow> string list \<Rightarrow> 'w \<Rightarrow> store \<Rightarrow> 'w handled" where
  "target_nodes_handler env args w db = (case parse_flags nodes_kinds (interspersed nodes_valued {} args) of
     Inl _ \<Rightarrow> refused bad_flags w db
   | Inr (assigned, positional) \<Rightarrow>
       if length positional \<noteq> 1 then refused bad_usage w db
       else (case TargetNodes (ce_config env) (exec_cmd (ce_outside env)) (hd positional)
                (text_flag ''partition'' assigned []) w of
           (r, w1) \<Rightarrow> answered_by TargetListing r w1 db))"

section \<open>The reading handlers of the daemon\<close>

text \<open>The three commands that the daemon answers from its database.\<close>

datatype reading = ReadStatus | ReadList | ReadInspect

definition read_command :: "'w command_env \<Rightarrow> bool \<Rightarrow> string \<Rightarrow> reading \<Rightarrow> string list \<Rightarrow> 'w \<Rightarrow> store \<Rightarrow> 'w handled" where
  "read_command env resident cwd command args w db = (case command of
     ReadStatus \<Rightarrow> status_handler env resident cwd args w db
   | ReadList \<Rightarrow> list_handler env cwd args w db
   | ReadInspect \<Rightarrow> inspect_handler env cwd args w db)"

definition asks_refresh :: "string list \<Rightarrow> bool" where
  "asks_refresh args = (case parse_flags status_kinds (interspersed {} status_switches args) of
     Inl _ \<Rightarrow> False | Inr (assigned, positional) \<Rightarrow> switch_flag ''refresh'' assigned)"

definition only_projects :: "store \<Rightarrow> store \<Rightarrow> bool" where
  "only_projects db db' \<longleftrightarrow> (\<exists>ps. db' = db\<lparr>projects := ps\<rparr>)"

definition stored_task :: "store \<Rightarrow> task \<Rightarrow> bool" where
  "stored_task db t \<longleftrightarrow> t \<in> scanTask ` set (tasks db)"

definition stored_answer :: "store \<Rightarrow> answer \<Rightarrow> bool" where
  "stored_answer db a = (case a of
     OneSummary s \<Rightarrow> \<exists>t. stored_task db t \<and> s = SummarizeTask t
   | Summaries ss bad \<Rightarrow> bad = [] \<and> (\<exists>ts. list_all (stored_task db) ts \<and> ss = map SummarizeTask ts)
   | OneTask t \<Rightarrow> stored_task db t
   | TracedTask t es \<Rightarrow> stored_task db t \<and> es = filter (\<lambda>e. ev_task e = task_id t) (task_events db)
   | _ \<Rightarrow> False)"

lemma only_projects_refl [simp]: "only_projects db db"
  by (auto simp: only_projects_def intro: exI [of _ "projects db"])

lemma only_projects_tasks: "only_projects db db' \<Longrightarrow> tasks db' = tasks db \<and> task_events db' = task_events db"
  by (auto simp: only_projects_def)

lemma bound_project_only: "bound_project fs now db cwd = (r, db') \<Longrightarrow> only_projects db db'"
  by (auto simp: bound_project_def BindProject_def only_projects_def split: sum.splits) (metis store.surjective store.update_convs(1))+

lemma ResolveTask_only: "ResolveTask fs now db cwd i = (r, db') \<Longrightarrow> only_projects db db'"
  by (auto simp: ResolveTask_def split: prod.splits sum.splits dest: bound_project_only)

lemma resolved_stored: "ResolveTask fs now db cwd i = (Inr (t, p), db') \<Longrightarrow> stored_task db t"
  using ResolveTask_row(1) by (fastforce simp: stored_task_def)

lemma App_List_stored:
  assumes "App_List fs now db cwd = (r, db')"
  shows "only_projects db db' \<and> (\<forall>ts. r = Inr ts \<longrightarrow> list_all (stored_task db) ts)"
proof -
  obtain b db1 where b: "bound_project fs now db cwd = (b, db1)" by (rule prod.exhaust)
  have "tasks db1 = tasks db" using only_projects_tasks [OF bound_project_only [OF b]] by simp
  then show ?thesis using assms b bound_project_only [OF b]
    by (cases b) (auto simp: App_List_def ListTasks_def stored_task_def list_all_iff)
qed

lemma App_History_stored:
  assumes "App_History fs now db cwd path = (r, db')"
  shows "only_projects db db' \<and> (\<forall>ts. r = Inr ts \<longrightarrow> list_all (stored_task db) ts)"
proof -
  obtain b db1 where b: "bound_project fs now db cwd = (b, db1)" by (rule prod.exhaust)
  have "tasks db1 = tasks db" using only_projects_tasks [OF bound_project_only [OF b]] by simp
  then show ?thesis using assms b bound_project_only [OF b]
    by (cases b) (auto simp: App_History_def History_def source_rows_def stored_task_def list_all_iff split: sum.splits)
qed

lemma Inspect_stored:
  assumes "Inspect fs now db cwd i = (r, db')"
  shows "only_projects db db' \<and> (\<forall>t. r = Inr t \<longrightarrow> stored_task db t)"
  using assms by (auto simp: Inspect_def split: prod.splits sum.splits dest: ResolveTask_only resolved_stored)

lemma Trace_stored:
  assumes "Trace fs now db cwd i = (r, db')"
  shows "only_projects db db' \<and>
    (\<forall>t es. r = Inr (t, es) \<longrightarrow> stored_task db t \<and> es = filter (\<lambda>e. ev_task e = task_id t) (task_events db))"
proof -
  obtain q db1 where q: "ResolveTask fs now db cwd i = (q, db1)" by (rule prod.exhaust)
  have o: "only_projects db db1" by (rule ResolveTask_only [OF q])
  show ?thesis
  proof (cases q)
    case (Inl e)
    with assms q o show ?thesis by (auto simp: Trace_def)
  next
    case (Inr x)
    obtain t p where x: "x = (t, p)" by (rule prod.exhaust)
    with q Inr have "stored_task db t" using resolved_stored by blast
    with assms q Inr x o only_projects_tasks [OF o] show ?thesis
      by (auto simp: Trace_def Events_def split: sum.splits)
  qed
qed

definition local_answer :: "'w \<Rightarrow> store \<Rightarrow> (go_error, answer \<times> nat) result option \<Rightarrow> 'w \<Rightarrow> store \<Rightarrow> bool" where
  "local_answer w db h w' db' \<longleftrightarrow> w' = w \<and> only_projects db db' \<and> h \<noteq> None \<and>
     (\<forall>a c. h = Some (Inr (a, c)) \<longrightarrow> stored_answer db a \<and> c = 0)"

lemma stored_summaries: "list_all (stored_task db) ts \<Longrightarrow> stored_answer db (Summaries (summaries ts) [])"
  by (auto simp: stored_answer_def summaries_def)

lemma answered_stored:
  assumes "only_projects db db1" and "\<And>x. r = Inr x \<Longrightarrow> stored_answer db (f x)"
    and "answered_by f r w db1 = (h, w', db')"
  shows "local_answer w db h w' db'"
  using assms by (cases r) (auto simp: answered_by_def local_answer_def)

lemma refused_stored:
  "refused e w db = (h, w', db') \<Longrightarrow>
   local_answer w db h w' db'"
  by (auto simp: refused_def local_answer_def)

lemma list_handler_stored:
  assumes "list_handler env cwd args w db = (h, w', db')"
  shows "local_answer w db h w' db'"
proof (cases "length args > 1")
  case True
  with assms show ?thesis by (intro refused_stored) (simp add: list_handler_def)
next
  case False
  obtain r db1 where r: "(if length args = 1 then App_History (ce_files env) (now_of env w) db cwd (hd args)
      else App_List (ce_files env) (now_of env w) db cwd) = (r, db1)" by (rule prod.exhaust)
  then have st: "only_projects db db1 \<and> (\<forall>ts. r = Inr ts \<longrightarrow> list_all (stored_task db) ts)"
    using App_History_stored App_List_stored by (metis (no_types, lifting))
  have "answered_by (\<lambda>ts. Summaries (summaries ts) []) r w db1 = (h, w', db')"
    using assms False unfolding list_handler_def r by simp
  then show ?thesis by (rule answered_stored [rotated 2]) (use st in \<open>auto simp: stored_summaries\<close>)
qed

lemma inspect_handler_stored:
  assumes "inspect_handler env cwd args w db = (h, w', db')"
  shows "local_answer w db h w' db'"
proof (cases "parse_flags inspect_kinds (interspersed {} inspect_switches args)")
  case (Inl e)
  with assms show ?thesis by (intro refused_stored) (simp add: inspect_handler_def)
next
  case (Inr x)
  obtain a pos where x: "x = (a, pos)" by (rule prod.exhaust)
  obtain r db1 where t: "Trace (ce_files env) (now_of env w) db cwd (hd pos) = (r, db1)" by (rule prod.exhaust)
  obtain q db2 where i: "Inspect (ce_files env) (now_of env w) db cwd (hd pos) = (q, db2)" by (rule prod.exhaust)
  consider "length pos \<noteq> 1" | "length pos = 1" "switch_flag ''events'' a" | "length pos = 1" "\<not> switch_flag ''events'' a" by blast
  then show ?thesis
  proof cases
    case 1
    with assms Inr x show ?thesis by (intro refused_stored) (simp add: inspect_handler_def)
  next
    case 2
    with assms Inr x t have "answered_by (\<lambda>(t, es). TracedTask t es) r w db1 = (h, w', db')"
      by (simp add: inspect_handler_def)
    then show ?thesis by (rule answered_stored [rotated 2]) (use Trace_stored [OF t] in \<open>auto simp: stored_answer_def\<close>)
  next
    case 3
    with assms Inr x i have "answered_by OneTask q w db2 = (h, w', db')" by (simp add: inspect_handler_def)
    then show ?thesis by (rule answered_stored [rotated 2]) (use Inspect_stored [OF i] in \<open>auto simp: stored_answer_def\<close>)
  qed
qed

lemma status_handler_stored:
  assumes "status_handler env True cwd args w db = (h, w', db')" and "\<not> asks_refresh args"
  shows "local_answer w db h w' db'"
proof (cases "parse_flags status_kinds (interspersed {} status_switches args)")
  case (Inl e)
  with assms(1) show ?thesis by (intro refused_stored) (simp add: status_handler_def)
next
  case (Inr x)
  obtain a pos where x: "x = (a, pos)" by (rule prod.exhaust)
  have no: "\<not> switch_flag ''refresh'' a" using assms(2) Inr x by (simp add: asks_refresh_def)
  obtain r db1 where t: "App_List (ce_files env) (now_of env w) db cwd = (r, db1)" by (rule prod.exhaust)
  obtain q db2 where i: "Inspect (ce_files env) (now_of env w) db cwd (hd pos) = (q, db2)" by (rule prod.exhaust)
  have run: "(h, w', db') =
     (if switch_flag ''all'' a then (if pos \<noteq> [] then refused bad_usage w db
        else answered_by (\<lambda>ts. Summaries (summaries ts) []) r w db1)
      else if length pos \<noteq> 1 then refused bad_usage w db
      else answered_by (\<lambda>t. OneSummary (SummarizeTask t)) q w db2)"
    using assms(1) no unfolding status_handler_def Inr x sum.case prod.case Let_def t i
    by (cases "switch_flag ''all'' a") (simp_all split: if_splits)
  consider "refused bad_usage w db = (h, w', db')" | "answered_by (\<lambda>ts. Summaries (summaries ts) []) r w db1 = (h, w', db')"
    | "answered_by (\<lambda>t. OneSummary (SummarizeTask t)) q w db2 = (h, w', db')"
    using run by (metis (no_types, lifting))
  then show ?thesis
  proof cases
    case 1
    then show ?thesis by (rule refused_stored)
  next
    case 2
    then show ?thesis by (rule answered_stored [rotated 2]) (use App_List_stored [OF t] in \<open>auto simp: stored_summaries\<close>)
  next
    case 3
    then show ?thesis by (rule answered_stored [rotated 2]) (use Inspect_stored [OF i] in \<open>auto simp: stored_answer_def\<close>)
  qed
qed

text \<open>
  C20. \<open>status\<close>, \<open>list\<close> and \<open>inspect\<close> for a client of the daemon, unless \<open>status\<close> is asked to refresh:
  they ask no cluster anything, they always answer, they change nothing in the database but the
  registration of the project of the directory, and what they show is what the rows of the database
  say (the trace of a task all its events, in order), with the exit code 0.
\<close>

theorem resident_reads_local:
  assumes "read_command env True cwd command args w db = (h, w', db')"
    and "command = ReadStatus \<Longrightarrow> \<not> asks_refresh args"
  shows "w' = w \<and> only_projects db db' \<and> h \<noteq> None \<and>
    (\<forall>a c. h = Some (Inr (a, c)) \<longrightarrow> stored_answer db a \<and> c = 0)"
proof -
  have "local_answer w db h w' db'"
    using assms by (cases command)
      (auto simp: read_command_def intro: status_handler_stored list_handler_stored inspect_handler_stored)
  then show ?thesis by (simp add: local_answer_def)
qed

definition listed_task :: task where
  "listed_task = sample_task\<lparr>project_id := ''pj''\<rparr>"

definition listed_store :: store where
  "listed_store = sample_store\<lparr>tasks := [encodeTask listed_task]\<rparr>"

definition sample_command_env :: "unit command_env" where
  "sample_command_env = \<lparr>ce_outside = sample_outside, ce_files = sample_files, ce_arrange = (\<lambda>ts. ts), ce_decode = (\<lambda>d. Inr sample_task),
     ce_config = sample_doctor_config, ce_resolver = None, ce_inspector = None\<rparr>"

lemma sample_list_answer: "\<exists>db'. list_handler sample_command_env ''/p/a'' [] () listed_store =
    (Some (Inr (Summaries [SummarizeTask (scanTask (encodeTask listed_task))] [], 0)), (), db')"
  by (simp add: list_handler_def sample_command_env_def App_List_def bound_project_def sample_discover ListTasks_def
      listed_store_def sort_desc_def answered_by_def summaries_def listed_task_def)

theorem resident_reads_local_witness:
  "\<exists>db'. read_command sample_command_env True ''/p/a'' ReadList [] () listed_store =
     (Some (Inr (Summaries [SummarizeTask (scanTask (encodeTask listed_task))] [], 0)), (), db') \<and>
     only_projects listed_store db' \<and>
     stored_answer listed_store (Summaries [SummarizeTask (scanTask (encodeTask listed_task))] [])"
proof -
  obtain db' where r: "read_command sample_command_env True ''/p/a'' ReadList [] () listed_store =
      (Some (Inr (Summaries [SummarizeTask (scanTask (encodeTask listed_task))] [], 0)), (), db')"
    using sample_list_answer by (auto simp: read_command_def)
  show ?thesis using r resident_reads_local [OF r] by simp
qed

end
